(* ===== verification/Lumina_Prelude.thy ===== *)
theory Lumina_Prelude
  imports Main
begin

text \<open>
  Shared vocabulary of the Lumina development: the TypeScript idioms that several components of
  the repository use (slicing a list into batches, \<open>[...new Set(xs)]\<close>, stopping at the first
  thrown error) and the two generic interfaces the components instantiate, an inductive-invariant
  principle for state machines and a frame principle for stores keyed by network.
\<close>

named_theorems batch_simps \<open>facts about slicing a list into batches\<close>
named_theorems uniq_simps \<open>facts about deduplication in insertion order\<close>

section \<open>Results of fallible code\<close>

text \<open>A computation that may throw returns \<open>Inl\<close> of the error or \<open>Inr\<close> of the value.\<close>

definition is_ok :: "'e + 'a \<Rightarrow> bool" where
  "is_ok r = (case r of Inl _ \<Rightarrow> False | Inr _ \<Rightarrow> True)"

lemma is_ok_simps [simp]: "is_ok (Inr x)" "\<not> is_ok (Inl e)"
  by (simp_all add: is_ok_def)

text \<open>The statement after a call that may throw.\<close>

definition and_then :: "'e + 'a \<Rightarrow> ('a \<Rightarrow> 'e + 'b) \<Rightarrow> 'e + 'b" where
  "and_then r f = (case r of Inl e \<Rightarrow> Inl e | Inr x \<Rightarrow> f x)"

lemma and_then_simps [simp]: "and_then (Inl e) f = Inl e" "and_then (Inr x) f = f x"
  by (simp_all add: and_then_def)

lemma and_then_Inr: "and_then r f = Inr y \<longleftrightarrow> (\<exists>x. r = Inr x \<and> f x = Inr y)"
  by (cases r) auto

text \<open>\<open>if (bad) throw e;\<close>\<close>

definition guard :: "bool \<Rightarrow> 'e \<Rightarrow> 'e + unit" where
  "guard ok e = (if ok then Inr () else Inl e)"

lemma guard_Inr [simp]: "guard ok e = Inr u \<longleftrightarrow> ok"
  by (simp add: guard_def)

lemma guard_simps [simp]: "guard True e = Inr ()" "guard False e = Inl e"
  by (simp_all add: guard_def)

text \<open>A loop that collects results and is left by the first \<open>throw\<close>.\<close>

fun traverse :: "('a \<Rightarrow> 'e + 'b) \<Rightarrow> 'a list \<Rightarrow> 'e + 'b list" where
  "traverse f [] = Inr []"
| "traverse f (x # xs) =
     (case f x of Inl e \<Rightarrow> Inl e
      | Inr y \<Rightarrow> (case traverse f xs of Inl e \<Rightarrow> Inl e | Inr ys \<Rightarrow> Inr (y # ys)))"

lemma traverse_Inr_Cons:
  "traverse f (x # xs) = Inr zs \<longleftrightarrow> (\<exists>y ys. zs = y # ys \<and> f x = Inr y \<and> traverse f xs = Inr ys)"
  by (auto split: sum.splits)

lemma traverse_Inr_iff:
  "traverse f xs = Inr ys \<longleftrightarrow> list_all2 (\<lambda>x y. f x = Inr y) xs ys"
proof (induction xs arbitrary: ys)
  case (Cons x xs)
  then show ?case by (simp only: traverse_Inr_Cons list_all2_Cons1)
qed auto

lemma traverse_length: "traverse f xs = Inr ys \<Longrightarrow> length ys = length xs"
  by (auto simp: traverse_Inr_iff dest: list_all2_lengthD)

lemma traverse_total: "list_all (\<lambda>x. \<exists>y. f x = Inr y) xs \<Longrightarrow> \<exists>ys. traverse f xs = Inr ys"
  by (induction xs) auto

lemma traverse_fails: "x \<in> set xs \<Longrightarrow> f x = Inl e \<Longrightarrow> \<exists>e'. traverse f xs = Inl e'"
  by (induction xs) (auto split: sum.splits)

section \<open>Evaluating list operations on numerals\<close>

lemma replicate_numeral_eval:
  "replicate (numeral k) x = x # replicate (pred_numeral k) x"
  by (simp add: numeral_eq_Suc)

section \<open>Batches\<close>

text \<open>
  \<open>for (let i = 0; i < xs.length; i += n) out.push(xs.slice(i, i + n))\<close>: the loop of
  \<open>chunkContractIds\<close>, of the batched inserts and of the paged RPC calls.
\<close>

function chunks :: "nat \<Rightarrow> 'a list \<Rightarrow> 'a list list" where
  "chunks n xs = (if n = 0 \<or> xs = [] then [] else take n xs # chunks n (drop n xs))"
  by pat_completeness auto
termination
  by (relation "measure (\<lambda>(n, xs). length xs)") auto

declare chunks.simps [simp del]

lemma chunks_Nil [simp, batch_simps]: "chunks n [] = []"
  by (subst chunks.simps) simp

lemma chunks_concat [simp, batch_simps]: "0 < n \<Longrightarrow> concat (chunks n xs) = xs"
  by (induction n xs rule: chunks.induct) (subst chunks.simps, auto)

lemma chunks_sizes [batch_simps]: "c \<in> set (chunks n xs) \<Longrightarrow> c \<noteq> [] \<and> length c \<le> n"
proof (induction n xs rule: chunks.induct)
  case (1 n xs)
  then show ?case by (subst (asm) chunks.simps) (auto split: if_splits)
qed

lemma chunks_subset: "c \<in> set (chunks n xs) \<Longrightarrow> set c \<subseteq> set xs"
proof (induction n xs rule: chunks.induct)
  case (1 n xs)
  then show ?case
    by (subst (asm) chunks.simps) (auto split: if_splits dest: in_set_takeD in_set_dropD)
qed

lemma chunks_cover: "0 < n \<Longrightarrow> x \<in> set xs \<Longrightarrow> \<exists>c \<in> set (chunks n xs). x \<in> set c"
  using chunks_concat [of n xs] by (metis UN_E set_concat)

section \<open>Deduplication in insertion order\<close>

text \<open>\<open>[...new Set(xs)]\<close>: a JavaScript set iterates in insertion order.\<close>

fun uniq_from :: "'a list \<Rightarrow> 'a list \<Rightarrow> 'a list" where
  "uniq_from seen [] = []"
| "uniq_from seen (x # xs) =
     (if x \<in> set seen then uniq_from seen xs else x # uniq_from (x # seen) xs)"

definition uniq :: "'a list \<Rightarrow> 'a list" where
  "uniq xs = uniq_from [] xs"

lemma set_uniq_from: "set (uniq_from seen xs) = set xs - set seen"
  by (induction xs arbitrary: seen) auto

lemma distinct_uniq_from: "distinct (uniq_from seen xs)"
  by (induction xs arbitrary: seen) (auto simp: set_uniq_from)

lemma set_uniq [simp, uniq_simps]: "set (uniq xs) = set xs"
  by (simp add: uniq_def set_uniq_from)

lemma distinct_uniq [simp, uniq_simps]: "distinct (uniq xs)"
  by (simp add: uniq_def distinct_uniq_from)

section \<open>Interface: an inductive invariant\<close>

text \<open>
  A component with state is given by its initial states and its step relation. Once the
  provider shows that the invariant holds initially and is kept by every step, the client gets
  it in every reachable state.
\<close>

locale invariant_system =
  fixes init :: "'s \<Rightarrow> bool"
    and step :: "'s \<Rightarrow> 's \<Rightarrow> bool"
    and inv :: "'s \<Rightarrow> bool"
  assumes inv_init: "init s \<Longrightarrow> inv s"
    and inv_step: "inv s \<Longrightarrow> step s t \<Longrightarrow> inv t"
begin

lemma inv_star: "step\<^sup>*\<^sup>* s t \<Longrightarrow> inv s \<Longrightarrow> inv t"
  by (induction rule: rtranclp_induct) (auto intro: inv_step)

lemma inv_reachable: "init s \<Longrightarrow> step\<^sup>*\<^sup>* s t \<Longrightarrow> inv t"
  by (blast intro: inv_star inv_init)

end

section \<open>Interface: a store keyed by network\<close>

text \<open>
  Every table of the database is keyed by network. An operation on behalf of one network
  (\<open>run n a\<close>) must leave what every other network can read (\<open>view m\<close>) alone; then so does
  any sequence of operations of the other networks' loops, in any interleaving.
\<close>

locale network_store =
  fixes run :: "'n \<Rightarrow> 'a \<Rightarrow> 'db \<Rightarrow> 'db"
    and view :: "'n \<Rightarrow> 'db \<Rightarrow> 'v"
  assumes frame: "m \<noteq> n \<Longrightarrow> view m (run n a db) = view m db"
begin

lemma frame_many:
  "\<forall>(n, a) \<in> set ops. n \<noteq> m \<Longrightarrow> view m (fold (\<lambda>(n, a). run n a) ops db) = view m db"
  by (induction ops arbitrary: db) (auto simp: frame)

end

end
