(* ===== verification/Js_Text.thy ===== *)
theory Js_Text
  imports Lumina_Prelude
begin

text \<open>
  The string operations of the JavaScript standard library that the modelled code uses, over
  \<open>string\<close> (characters are code units below 256): \<open>trim\<close>, \<open>split\<close> on one
  character, \<open>padStart\<close> and \<open>padEnd\<close>, the ASCII part of \<open>toLowerCase\<close> and
  \<open>toUpperCase\<close>, and decimal numerals as \<open>BigInt\<close> reads and prints them.
\<close>

named_theorems text_simps \<open>facts about JavaScript string operations\<close>

section \<open>Characters\<close>

definition char_code :: "char \<Rightarrow> nat" where
  "char_code c = of_char c"

definition is_digit :: "char \<Rightarrow> bool" where
  "is_digit c = (48 \<le> char_code c \<and> char_code c \<le> 57)"

definition is_upper :: "char \<Rightarrow> bool" where
  "is_upper c = (65 \<le> char_code c \<and> char_code c \<le> 90)"

definition is_lower :: "char \<Rightarrow> bool" where
  "is_lower c = (97 \<le> char_code c \<and> char_code c \<le> 122)"

definition is_alpha :: "char \<Rightarrow> bool" where
  "is_alpha c = (is_upper c \<or> is_lower c)"

text \<open>White space as \<open>trim\<close> knows it: TAB, LF, VT, FF, CR, space and the no-break space.\<close>

definition is_space :: "char \<Rightarrow> bool" where
  "is_space c = (char_code c \<in> {9, 10, 11, 12, 13, 32, 160})"

definition to_lower :: "char \<Rightarrow> char" where
  "to_lower c = (if is_upper c then char_of (char_code c + 32) else c)"

definition to_upper :: "char \<Rightarrow> char" where
  "to_upper c = (if is_lower c then char_of (char_code c - 32) else c)"

definition lower_case :: "string \<Rightarrow> string" where
  "lower_case s = map to_lower s"

definition upper_case :: "string \<Rightarrow> string" where
  "upper_case s = map to_upper s"

section \<open>Trimming, padding, splitting\<close>

definition trim_start :: "string \<Rightarrow> string" where
  "trim_start s = dropWhile is_space s"

definition trim :: "string \<Rightarrow> string" where
  "trim s = rev (dropWhile is_space (rev (trim_start s)))"

definition pad_start :: "nat \<Rightarrow> char \<Rightarrow> string \<Rightarrow> string" where
  "pad_start n c s = replicate (n - length s) c @ s"

definition pad_end :: "nat \<Rightarrow> char \<Rightarrow> string \<Rightarrow> string" where
  "pad_end n c s = s @ replicate (n - length s) c"

text \<open>\<open>s.split(c)\<close> for a one-character separator: never empty, empty pieces are kept.\<close>

fun split_on :: "char \<Rightarrow> string \<Rightarrow> string list" where
  "split_on c [] = [[]]"
| "split_on c (x # xs) =
     (if x = c then [] # split_on c xs
      else (case split_on c xs of [] \<Rightarrow> [[x]] | p # ps \<Rightarrow> (x # p) # ps))"

lemma split_on_not_Nil [simp]: "split_on c s \<noteq> []"
  by (induction s) (auto split: list.splits)

lemma split_on_no_sep: "c \<notin> set s \<Longrightarrow> split_on c s = [s]"
  by (induction s) auto

lemma split_on_app: "c \<notin> set s \<Longrightarrow> split_on c (s @ c # t) = s # split_on c t"
  by (induction s) auto

text \<open>\<open>text.replace(/0+$/, '')\<close>.\<close>

definition strip_zeros :: "string \<Rightarrow> string" where
  "strip_zeros s = rev (dropWhile (\<lambda>c. c = CHR ''0'') (rev s))"

lemma trim_id:
  assumes "s \<noteq> []" "\<not> is_space (hd s)" "\<not> is_space (last s)"
  shows "trim s = s"
proof -
  have "dropWhile is_space s = s"
    using assms(1,2) by (cases s) auto
  moreover have "dropWhile is_space (rev s) = rev s"
    using assms(1,3) by (cases "rev s") (auto simp: hd_rev [symmetric])
  ultimately show ?thesis by (simp add: trim_def trim_start_def)
qed

lemma trim_Nil [simp, text_simps]: "trim [] = []"
  by (simp add: trim_def trim_start_def)

section \<open>Decimal numerals\<close>

definition digit_val :: "char \<Rightarrow> nat" where
  "digit_val c = char_code c - 48"

definition digit_char :: "nat \<Rightarrow> char" where
  "digit_char d = char_of (48 + d)"

text \<open>\<open>BigInt(s)\<close> on a string of digits; the empty string reads as zero.\<close>

definition nat_of_digits :: "string \<Rightarrow> nat" where
  "nat_of_digits s = fold (\<lambda>c n. 10 * n + digit_val c) s 0"

text \<open>\<open>n.toString()\<close>.\<close>

fun nat_to_string :: "nat \<Rightarrow> string" where
  "nat_to_string n =
     (if n < 10 then [digit_char n] else nat_to_string (n div 10) @ [digit_char (n mod 10)])"

declare nat_to_string.simps [simp del]

lemma nat_to_string_eval:
  "n < 10 \<Longrightarrow> nat_to_string n = [digit_char n]"
  "10 \<le> n \<Longrightarrow> nat_to_string n = nat_to_string (n div 10) @ [digit_char (n mod 10)]"
  by (subst nat_to_string.simps, simp)+

lemma digit_char_eval:
  "digit_char 0 = CHR ''0''" "digit_char (Suc 0) = CHR ''1''" "digit_char 1 = CHR ''1''"
  "digit_char 2 = CHR ''2''" "digit_char 3 = CHR ''3''" "digit_char 4 = CHR ''4''"
  "digit_char 5 = CHR ''5''" "digit_char 6 = CHR ''6''" "digit_char 7 = CHR ''7''"
  "digit_char 8 = CHR ''8''" "digit_char 9 = CHR ''9''"
  by code_simp+

lemma digit_char_props [simp, text_simps]:
  assumes "d < 10"
  shows "is_digit (digit_char d)" "digit_val (digit_char d) = d" "\<not> is_space (digit_char d)"
    "digit_char d \<noteq> CHR ''.''" "digit_char d \<noteq> CHR ''-''" "digit_char d \<noteq> CHR ''+''"
proof -
  have c: "char_code (digit_char d) = 48 + d"
    using assms by (simp add: digit_char_def char_code_def)
  show "is_digit (digit_char d)" "digit_val (digit_char d) = d" "\<not> is_space (digit_char d)"
    using c assms by (auto simp: is_digit_def digit_val_def is_space_def)
  show "digit_char d \<noteq> CHR ''.''" "digit_char d \<noteq> CHR ''-''" "digit_char d \<noteq> CHR ''+''"
    using c by (auto simp: char_code_def)
qed

lemma digit_not_sep [text_simps]:
  assumes "is_digit c"
  shows "\<not> is_space c" "c \<noteq> CHR ''.''" "c \<noteq> CHR ''-''" "c \<noteq> CHR ''+''" "digit_val c < 10"
  using assms by (auto simp: is_digit_def is_space_def char_code_def digit_val_def)

lemma fold_digits: "fold (\<lambda>c n. 10 * n + digit_val c) s a = a * 10 ^ length s + nat_of_digits s"
proof -
  have shift: "fold (\<lambda>c n. 10 * n + digit_val c) s a =
      a * 10 ^ length s + fold (\<lambda>c n. 10 * n + digit_val c) s 0" for a
  proof (induction s arbitrary: a)
    case (Cons c s)
    have "fold (\<lambda>c n. 10 * n + digit_val c) (c # s) a =
        (10 * a + digit_val c) * 10 ^ length s + fold (\<lambda>c n. 10 * n + digit_val c) s 0"
      using Cons [of "10 * a + digit_val c"] by simp
    also have "\<dots> = a * 10 ^ length (c # s) + fold (\<lambda>c n. 10 * n + digit_val c) (c # s) 0"
      using Cons [of "digit_val c"] by (simp add: algebra_simps)
    finally show ?case .
  qed simp
  show ?thesis unfolding nat_of_digits_def by (rule shift)
qed

lemma nat_of_digits_Nil [simp]: "nat_of_digits [] = 0"
  by (simp add: nat_of_digits_def)

lemma nat_of_digits_Cons: "nat_of_digits (c # s) = digit_val c * 10 ^ length s + nat_of_digits s"
  using fold_digits [of s "digit_val c"] by (simp add: nat_of_digits_def)

lemma nat_of_digits_append:
  "nat_of_digits (s @ t) = nat_of_digits s * 10 ^ length t + nat_of_digits t"
  using fold_digits [of t "nat_of_digits s"] by (simp add: nat_of_digits_def)

lemma nat_of_digits_zeros [simp]: "nat_of_digits (replicate n (CHR ''0'')) = 0"
  by (induction n) (auto simp: nat_of_digits_Cons digit_val_def char_code_def)

lemma nat_of_digits_pad_start [simp]: "nat_of_digits (pad_start n (CHR ''0'') s) = nat_of_digits s"
  by (simp add: pad_start_def nat_of_digits_append)

lemma nat_of_digits_bound: "list_all is_digit s \<Longrightarrow> nat_of_digits s < 10 ^ length s"
proof (induction s)
  case Nil
  then show ?case by simp
next
  case (Cons c s)
  then have d: "digit_val c < 10" and s: "nat_of_digits s < 10 ^ length s"
    by (auto simp: digit_not_sep)
  have "digit_val c * 10 ^ length s + nat_of_digits s < (digit_val c + 1) * 10 ^ length s"
    using s by simp
  also have "\<dots> \<le> 10 * 10 ^ length s" using d by (intro mult_right_mono) auto
  finally show ?case by (simp add: nat_of_digits_Cons)
qed

lemma nat_to_string_digits [simp]: "list_all is_digit (nat_to_string n)"
  by (induction n rule: nat_to_string.induct) (subst nat_to_string.simps, auto)

lemma nat_to_string_not_Nil [simp]: "nat_to_string n \<noteq> []"
  by (subst nat_to_string.simps) simp

lemma nat_of_to_string [simp]: "nat_of_digits (nat_to_string n) = n"
proof (induction n rule: nat_to_string.induct)
  case (1 n)
  show ?case
  proof (cases "n < 10")
    case True
    then show ?thesis by (subst nat_to_string.simps) (simp add: nat_of_digits_Cons)
  next
    case False
    with "1.IH" have "nat_of_digits (nat_to_string (n div 10)) = n div 10" by simp
    with False show ?thesis
      by (subst nat_to_string.simps) (simp add: nat_of_digits_append nat_of_digits_Cons)
  qed
qed

lemma nat_to_string_length: "n < 10 ^ k \<Longrightarrow> 0 < k \<Longrightarrow> length (nat_to_string n) \<le> k"
proof (induction n arbitrary: k rule: nat_to_string.induct)
  case (1 n)
  show ?case
  proof (cases "n < 10")
    case True
    with "1.prems" show ?thesis by (subst nat_to_string.simps) simp
  next
    case False
    have "1 < k" using "1.prems" False by (cases "k = 1") auto
    then obtain j where k: "k = Suc j" "0 < j" by (cases k) auto
    with "1.prems" have "n div 10 < 10 ^ j" by (simp add: less_mult_imp_div_less mult.commute)
    with "1.IH" False k have "length (nat_to_string (n div 10)) \<le> j" by simp
    with False k show ?thesis by (subst nat_to_string.simps) simp
  qed
qed

lemma digits_no_sep: "list_all is_digit s \<Longrightarrow> CHR ''.'' \<notin> set s"
  by (induction s) (auto simp: is_digit_def char_code_def)

section \<open>Signed integers\<close>

definition int_to_string :: "int \<Rightarrow> string" where
  "int_to_string i = (if i < 0 then CHR ''-'' # nat_to_string (nat (- i)) else nat_to_string (nat i))"

text \<open>The regular expression \<open>/^-?\d+$/\<close>.\<close>

fun is_int_text :: "string \<Rightarrow> bool" where
  "is_int_text [] = False"
| "is_int_text (c # s) =
     (if c = CHR ''-'' then s \<noteq> [] \<and> list_all is_digit s else list_all is_digit (c # s))"

text \<open>\<open>BigInt(s)\<close> on text that matches it.\<close>

fun int_of_text :: "string \<Rightarrow> int" where
  "int_of_text [] = 0"
| "int_of_text (c # s) =
     (if c = CHR ''-'' then - int (nat_of_digits s) else int (nat_of_digits (c # s)))"

lemma int_to_string_is_int_text [simp]: "is_int_text (int_to_string i)"
proof (cases "i < 0")
  case True
  then show ?thesis by (simp add: int_to_string_def)
next
  case False
  obtain c s where cs: "nat_to_string (nat i) = c # s"
    by (cases "nat_to_string (nat i)") auto
  then have "list_all is_digit (c # s)"
    using nat_to_string_digits [of "nat i"] by simp
  with False cs show ?thesis by (auto simp: int_to_string_def digit_not_sep)
qed

lemma int_of_to_string [simp]: "int_of_text (int_to_string i) = i"
proof (cases "i < 0")
  case True
  then show ?thesis by (simp add: int_to_string_def)
next
  case False
  obtain c s where cs: "nat_to_string (nat i) = c # s"
    by (cases "nat_to_string (nat i)") auto
  then have "is_digit c"
    using nat_to_string_digits [of "nat i"] by simp
  with False cs show ?thesis
    using nat_of_to_string [of "nat i"] by (auto simp: int_to_string_def digit_not_sep)
qed

end
