(* ===== verification/Amount.thy ===== *)
theory Amount
  imports Js_Text
begin

text \<open>
  \<open>graphql-server/src/amount.ts\<close>: exact fixed-point arithmetic on Stellar amounts. An amount
  is a whole number of stroops; text is accepted only in plain decimal notation with at most seven
  decimal places, and printed canonically.
\<close>

definition SCALE :: nat where
  "SCALE = 7"

definition SCALE_FACTOR :: int where
  "SCALE_FACTOR = 10 ^ SCALE"

record stellar_amount =
  stroops :: int

definition mk_amount :: "int \<Rightarrow> stellar_amount" where
  "mk_amount n = \<lparr>stroops = n\<rparr>"

definition ZERO :: stellar_amount where
  "ZERO = mk_amount 0"

text \<open>What \<open>StellarAmount.from\<close> may be handed at run time; \<open>OtherArg\<close> is any other value.\<close>

datatype amount_arg = TextArg string | BigintArg int | AmountArg stellar_amount | OtherArg

datatype amount_error = InvalidAmount | TooManyDecimals string

text \<open>The regular expression \<open>DECIMAL_TEXT\<close>: \<open>/^[+-]?(?:\d+(?:\.\d*)?|\.\d+)$/\<close>.\<close>

definition strip_sign :: "string \<Rightarrow> string" where
  "strip_sign s = (case s of [] \<Rightarrow> [] | c # t \<Rightarrow> if c = CHR ''+'' \<or> c = CHR ''-'' then t else s)"

definition is_decimal_body :: "string \<Rightarrow> bool" where
  "is_decimal_body s =
     (case split_on (CHR ''.'') s of
        [w] \<Rightarrow> w \<noteq> [] \<and> list_all is_digit w
      | [w, f] \<Rightarrow> list_all is_digit w \<and> list_all is_digit f \<and> (w \<noteq> [] \<or> f \<noteq> [])
      | _ \<Rightarrow> False)"

definition decimal_text :: "string \<Rightarrow> bool" where
  "decimal_text s = is_decimal_body (strip_sign s)"

text \<open>\<open>const [whole = '0', fraction = ''] = unsigned.split('.')\<close>.\<close>

definition whole_part :: "string \<Rightarrow> string" where
  "whole_part s = hd (split_on (CHR ''.'') s)"

definition fraction_part :: "string \<Rightarrow> string" where
  "fraction_part s = (case split_on (CHR ''.'') s of _ # f # _ \<Rightarrow> f | _ \<Rightarrow> [])"

definition amount_from :: "amount_arg \<Rightarrow> amount_error + stellar_amount" where
  "amount_from v =
     (case v of
        AmountArg a \<Rightarrow> Inr a
      | BigintArg n \<Rightarrow> Inr (mk_amount n)
      | OtherArg \<Rightarrow> Inl InvalidAmount
      | TextArg value \<Rightarrow>
          (let text = trim value in
           if \<not> decimal_text text then Inl InvalidAmount
           else
             (let negative = (take 1 text = ''-'');
                  unsigned = strip_sign text;
                  whole = whole_part unsigned;
                  fraction = fraction_part unsigned
              in if SCALE < length fraction then Inl (TooManyDecimals text)
                 else
                   (let n = int (nat_of_digits whole) * SCALE_FACTOR
                            + int (nat_of_digits (pad_end SCALE (CHR ''0'') fraction))
                    in Inr (mk_amount (if negative then - n else n))))))"

definition plus_amount :: "stellar_amount \<Rightarrow> stellar_amount \<Rightarrow> stellar_amount" where
  "plus_amount a b = mk_amount (stroops a + stroops b)"

definition minus_amount :: "stellar_amount \<Rightarrow> stellar_amount \<Rightarrow> stellar_amount" where
  "minus_amount a b = mk_amount (stroops a - stroops b)"

definition equals_amount :: "stellar_amount \<Rightarrow> stellar_amount \<Rightarrow> bool" where
  "equals_amount a b = (stroops a = stroops b)"

definition isPositive :: "stellar_amount \<Rightarrow> bool" where
  "isPositive a = (0 < stroops a)"

definition toFixed :: "stellar_amount \<Rightarrow> string" where
  "toFixed a =
     (let negative = stroops a < 0;
          magnitude = (if negative then - stroops a else stroops a);
          whole = magnitude div SCALE_FACTOR;
          fraction = strip_zeros (pad_start SCALE (CHR ''0'')
                       (nat_to_string (nat (magnitude mod SCALE_FACTOR))));
          sign = (if negative then ''-'' else [])
      in if fraction \<noteq> [] then sign @ nat_to_string (nat whole) @ CHR ''.'' # fraction
         else sign @ nat_to_string (nat whole))"

lemmas amount_defs = SCALE_def SCALE_FACTOR_def mk_amount_def

lemma equals_amount_iff [simp]: "equals_amount a b \<longleftrightarrow> a = b"
  by (cases a; cases b) (simp add: equals_amount_def)

section \<open>Reading back a fraction whose trailing zeros were cut\<close>

lemma strip_zeros_decomp: "\<exists>k. s = strip_zeros s @ replicate k (CHR ''0'')"
proof -
  let ?P = "\<lambda>c. c = CHR ''0''"
  have "takeWhile ?P (rev s) = replicate (length (takeWhile ?P (rev s))) (CHR ''0'')"
    by (rule replicate_eqI) (auto dest: set_takeWhileD)
  then obtain k where "takeWhile ?P (rev s) = replicate k (CHR ''0'')" by blast
  then have "s = rev (dropWhile ?P (rev s)) @ replicate k (CHR ''0'')"
    using takeWhile_dropWhile_id [of ?P "rev s"] by (metis rev_append rev_replicate rev_rev_ident)
  then show ?thesis by (auto simp: strip_zeros_def)
qed

lemma pad_end_strip_zeros:
  assumes "length s = n"
  shows "pad_end n (CHR ''0'') (strip_zeros s) = s"
proof -
  obtain k where k: "s = strip_zeros s @ replicate k (CHR ''0'')"
    using strip_zeros_decomp by blast
  then have "n - length (strip_zeros s) = k"
    using assms by (metis add_diff_cancel_left' length_append length_replicate)
  with k show ?thesis by (simp add: pad_end_def)
qed

lemma strip_zeros_digits: "list_all is_digit s \<Longrightarrow> list_all is_digit (strip_zeros s)"
  by (auto simp: strip_zeros_def list_all_iff dest: set_dropWhileD)

lemma strip_zeros_length: "length (strip_zeros s) \<le> length s"
  unfolding strip_zeros_def by (metis length_dropWhile_le length_rev)

lemma strip_zeros_Nil_value: "strip_zeros s = [] \<Longrightarrow> nat_of_digits s = 0"
  using strip_zeros_decomp [of s] by auto

section \<open>The body that is printed is the body that is read\<close>

lemma split_body:
  assumes "list_all is_digit w"
  shows "split_on (CHR ''.'') w = [w]"
    "list_all is_digit f \<Longrightarrow> split_on (CHR ''.'') (w @ CHR ''.'' # f) = [w, f]"
  using assms by (auto simp: split_on_no_sep split_on_app digits_no_sep)

text \<open>Reading \<open>whole.fraction\<close>, with or without the point, behind an optional minus sign.\<close>

lemma amount_from_body:
  assumes w: "list_all is_digit w" "w \<noteq> []" and f: "list_all is_digit f" "length f \<le> SCALE"
  defines "body \<equiv> (if f = [] then w else w @ CHR ''.'' # f)"
    and "n \<equiv> int (nat_of_digits w) * SCALE_FACTOR + int (nat_of_digits (pad_end SCALE (CHR ''0'') f))"
  shows "amount_from (TextArg ((if neg then ''-'' else []) @ body)) =
    Inr (mk_amount (if neg then - n else n))"
proof -
  obtain c ws where cw: "w = c # ws" and c: "is_digit c"
    using w by (cases w) auto
  have hd_body: "body \<noteq> []" "hd body = c"
    using cw by (auto simp: body_def)
  have "is_digit (last body)"
    using w f by (auto simp: body_def list_all_iff)
  then have ns: "\<not> is_space (hd body)" "\<not> is_space (last body)"
    using hd_body(2) c by (simp_all add: digit_not_sep(1))
  have minus: "\<not> is_space (CHR ''-'')" by (simp add: is_space_def char_code_def)
  have trim: "trim ((if neg then ''-'' else []) @ body) = (if neg then ''-'' else []) @ body"
    using hd_body(1) ns minus by (intro trim_id) auto
  have strip: "strip_sign ((if neg then ''-'' else []) @ body) = body"
    using hd_body c by (cases body) (auto simp: strip_sign_def digit_not_sep)
  have neg: "(take 1 ((if neg then ''-'' else []) @ body) = ''-'') = neg"
    using hd_body c by (cases body) (auto simp: digit_not_sep)
  have split: "split_on (CHR ''.'') body = (if f = [] then [w] else [w, f])"
    using split_body(1) [OF w(1)] split_body(2) [OF w(1) f(1)] by (auto simp: body_def)
  have "decimal_text ((if neg then ''-'' else []) @ body)"
    using w f split by (auto simp: decimal_text_def strip is_decimal_body_def)
  then show ?thesis
    using f split neg
    by (auto simp: amount_from_def Let_def trim strip whole_part_def fraction_part_def n_def)
qed

lemma fraction_digits:
  fixes m :: int
  defines "t \<equiv> pad_start SCALE (CHR ''0'') (nat_to_string (nat (m mod SCALE_FACTOR)))"
  shows "length t = SCALE" "list_all is_digit t" "int (nat_of_digits t) = m mod SCALE_FACTOR"
proof -
  have b: "0 \<le> m mod SCALE_FACTOR" "m mod SCALE_FACTOR < 10 ^ SCALE"
    by (auto simp: amount_defs)
  then have "nat (m mod SCALE_FACTOR) < 10 ^ SCALE" by (simp add: nat_less_iff)
  then have "length (nat_to_string (nat (m mod SCALE_FACTOR))) \<le> SCALE"
    by (rule nat_to_string_length) (simp add: SCALE_def)
  then show "length t = SCALE" by (simp add: t_def pad_start_def)
  show "list_all is_digit t"
    using nat_to_string_digits [of "nat (m mod SCALE_FACTOR)"]
    by (auto simp: t_def pad_start_def list_all_iff is_digit_def char_code_def)
  show "int (nat_of_digits t) = m mod SCALE_FACTOR" using b by (simp add: t_def)
qed

lemma from_toFixed: "amount_from (TextArg (toFixed a)) = Inr a"
proof -
  define m where "m = \<bar>stroops a\<bar>"
  define t where "t = pad_start SCALE (CHR ''0'') (nat_to_string (nat (m mod SCALE_FACTOR)))"
  define w where "w = nat_to_string (nat (m div SCALE_FACTOR))"
  note t = fraction_digits [of m, folded t_def]
  have mag: "(if stroops a < 0 then - stroops a else stroops a) = m" by (simp add: m_def)
  have pad: "pad_end SCALE (CHR ''0'') (strip_zeros t) = t"
    using t(1) by (rule pad_end_strip_zeros)
  have out: "toFixed a = (if stroops a < 0 then ''-'' else []) @
      (if strip_zeros t = [] then w else w @ CHR ''.'' # strip_zeros t)"
    by (simp add: toFixed_def Let_def mag t_def w_def)
  have "length (strip_zeros t) \<le> SCALE"
    using strip_zeros_length [of t] t(1) by simp
  moreover have "list_all is_digit w" "w \<noteq> []" by (simp_all add: w_def)
  ultimately have "amount_from (TextArg (toFixed a)) = Inr (mk_amount (let n =
      int (nat_of_digits w) * SCALE_FACTOR + int (nat_of_digits t)
      in if stroops a < 0 then - n else n))"
    unfolding out Let_def
    by (subst amount_from_body) (simp_all add: strip_zeros_digits t(2) pad)
  moreover have "int (nat_of_digits w) = m div SCALE_FACTOR"
    by (simp add: w_def m_def amount_defs pos_imp_zdiv_nonneg_iff)
  then have "int (nat_of_digits w) * SCALE_FACTOR + int (nat_of_digits t) = m"
    using t(3) by simp
  ultimately show ?thesis by (simp add: m_def mk_amount_def Let_def)
qed

lemma toFixed_inject [simp]: "toFixed a = toFixed b \<longleftrightarrow> a = b"
  by (metis from_toFixed sum.inject(2))

section \<open>Properties\<close>

text \<open>
  C21: printing an amount and reading the text back gives the same amount, for every number of
  stroops, positive or negative: no stroop is lost or gained between the API's text and the ledger.
\<close>

theorem amount_from_toFixed: "amount_from (TextArg (toFixed a)) = Inr a"
  by (rule from_toFixed)

text \<open>
  Text is accepted exactly when, after trimming, it is plain decimal notation with at most
  seven decimal places; exponent notation, a second point or an eighth decimal is an error, never a
  rounded number.
\<close>

theorem amount_from_accepts:
  "is_ok (amount_from (TextArg s)) \<longleftrightarrow>
     decimal_text (trim s) \<and> length (fraction_part (strip_sign (trim s))) \<le> 7"
  by (auto simp: amount_from_def Let_def SCALE_def)

end
