(* ===== verification/Balance_History.thy ===== *)
theory Balance_History
  imports Amount "HOL-Library.List_Lexorder" "HOL-Library.Char_ord"
begin

text \<open>
  \<open>graphql-server/src/balanceHistory.ts\<close>: an account's balance over time, derived by replaying
  the operations that affect it. Instants are milliseconds; \<open>toISOString\<close> only prints them.
\<close>

section \<open>Rows\<close>

text \<open>
  A JSON value as the code can tell it apart: JSON null, a string, or another value with the text
  PostgreSQL's \<open>->>\<close> gives it and its truthiness.
\<close>

datatype jval = JNull | JStr string | JOther string bool

type_synonym details = "string \<Rightarrow> jval option"

record operation_row =
  op_id :: string
  op_network :: string
  op_type :: string
  created_at :: int
  source_account :: string
  details :: details

record balance_snapshot =
  timestamp :: int
  balance_text :: string
  operationId :: string

record balance_history =
  bh_address :: string
  bh_asset :: string
  bh_from :: int
  bh_to :: int
  snapshots :: "balance_snapshot list"

datatype history_error =
    RangeExceedsMaximum
  | FromNotBeforeTo
  | InvalidAssetFormat string
  | InvalidTimeValue
  | BadAmount amount_error

text \<open>An optional date argument; \<open>UnparsableDate\<close> is text that \<open>new Date\<close> cannot read.\<close>

datatype date_arg = AbsentDate | DateArg int | UnparsableDate

definition MAX_DAYS :: int where
  "MAX_DAYS = 90"

definition DEFAULT_DAYS :: int where
  "DEFAULT_DAYS = 30"

definition day_ms :: int where
  "day_ms = 24 * 60 * 60 * 1000"

section \<open>Assets\<close>

definition parseAsset :: "string \<Rightarrow> history_error + string option \<times> string option" where
  "parseAsset asset =
     (if asset = ''XLM'' \<or> asset = ''native'' then Inr (None, None)
      else (case split_on (CHR '':'') asset of
              [c, i] \<Rightarrow> Inr (Some c, Some i)
            | _ \<Rightarrow> Inl (InvalidAssetFormat asset)))"

text \<open>\<open>===\<close> between a field and a target that is a string or null; a missing field is undefined.\<close>

definition same_text :: "jval option \<Rightarrow> string option \<Rightarrow> bool" where
  "same_text v t = (case t of None \<Rightarrow> v = Some JNull | Some s \<Rightarrow> v = Some (JStr s))"

definition matchesAsset ::
  "jval option \<Rightarrow> jval option \<Rightarrow> jval option \<Rightarrow> string option \<Rightarrow> string option \<Rightarrow> bool" where
  "matchesAsset assetType assetCode assetIssuer targetCode targetIssuer =
     (if targetCode = None \<and> targetIssuer = None
      then assetType = Some (JStr ''native'') \<or> assetType = None
      else same_text assetCode targetCode \<and> same_text assetIssuer targetIssuer)"

definition truthy :: "jval option \<Rightarrow> bool" where
  "truthy v = (case v of None \<Rightarrow> False | Some JNull \<Rightarrow> False | Some (JStr s) \<Rightarrow> s \<noteq> []
                       | Some (JOther _ b) \<Rightarrow> b)"

text \<open>\<open>StellarAmount.from(details.x as string)\<close>: the cast changes nothing at run time.\<close>

definition amount_of :: "jval option \<Rightarrow> history_error + stellar_amount" where
  "amount_of v =
     (case amount_from (case v of Some (JStr s) \<Rightarrow> TextArg s | _ \<Rightarrow> OtherArg) of
        Inl e \<Rightarrow> Inl (BadAmount e) | Inr a \<Rightarrow> Inr a)"

section \<open>Replay\<close>

definition applyOperation ::
  "operation_row \<Rightarrow> string \<Rightarrow> string option \<Rightarrow> string option \<Rightarrow> stellar_amount
     \<Rightarrow> history_error + stellar_amount" where
  "applyOperation op address code issuer cur =
     (let d = details op; is_addr = (\<lambda>k. d k = Some (JStr address));
          add = (\<lambda>k. map_sum id (plus_amount cur) (amount_of (d k)));
          sub = (\<lambda>k. map_sum id (minus_amount cur) (amount_of (d k)))
      in if op_type op = ''create_account'' then
           (if is_addr ''account'' \<and> code = None \<and> issuer = None then add ''starting_balance''
            else if is_addr ''funder'' \<and> code = None \<and> issuer = None then sub ''starting_balance''
            else Inr cur)
         else if op_type op = ''payment'' then
           (if \<not> matchesAsset (d ''asset_type'') (d ''asset_code'') (d ''asset_issuer'') code issuer
            then Inr cur
            else (case amount_of (d ''amount'') of
                    Inl e \<Rightarrow> Inl e
                  | Inr amount \<Rightarrow>
                      if is_addr ''to'' then Inr (plus_amount cur amount)
                      else if is_addr ''from'' then Inr (minus_amount cur amount)
                      else Inr cur))
         else if op_type op = ''path_payment_strict_send''
              \<or> op_type op = ''path_payment_strict_receive'' then
           (if truthy (d ''source_asset_type'')
               \<and> matchesAsset (d ''source_asset_type'') (d ''source_asset_code'')
                   (d ''source_asset_issuer'') code issuer
               \<and> is_addr ''from''
            then sub ''source_amount''
            else if matchesAsset (d ''asset_type'') (d ''asset_code'') (d ''asset_issuer'') code issuer
                    \<and> is_addr ''to''
            then add ''amount''
            else Inr cur)
         else if op_type op = ''account_merge'' then
           (if code \<noteq> None \<or> issuer \<noteq> None then Inr cur
            else if is_addr ''into'' then Inr cur
            else if source_account op = address then Inr ZERO
            else Inr cur)
         else Inr cur)"

text \<open>\<open>for (const op of beforeRows.reverse()) balance = applyOperation(op, ...)\<close>.\<close>

fun replay ::
  "string \<Rightarrow> string option \<Rightarrow> string option \<Rightarrow> operation_row list \<Rightarrow> stellar_amount
     \<Rightarrow> history_error + stellar_amount" where
  "replay a c i [] bal = Inr bal"
| "replay a c i (op # ops) bal =
     (case applyOperation op a c i bal of Inl e \<Rightarrow> Inl e | Inr b \<Rightarrow> replay a c i ops b)"

text \<open>The loop over the rows in range: a snapshot for every operation that changes the balance.\<close>

fun replay_range ::
  "string \<Rightarrow> string option \<Rightarrow> string option \<Rightarrow> operation_row list \<Rightarrow> stellar_amount
     \<Rightarrow> history_error + balance_snapshot list" where
  "replay_range a c i [] bal = Inr []"
| "replay_range a c i (op # ops) bal =
     (case applyOperation op a c i bal of
        Inl e \<Rightarrow> Inl e
      | Inr b \<Rightarrow>
          (case replay_range a c i ops b of
             Inl e \<Rightarrow> Inl e
           | Inr ss \<Rightarrow>
               Inr (if \<not> equals_amount b bal
                    then \<lparr>timestamp = created_at op, balance_text = toFixed b, operationId = op_id op\<rparr> # ss
                    else ss)))"

section \<open>The two queries\<close>

definition affecting_types :: "string list" where
  "affecting_types = [''create_account'', ''payment'', ''path_payment_strict_send'',
     ''path_payment_strict_receive'', ''account_merge'', ''change_trust'']"

text \<open>\<open>details->>'k' = address\<close>.\<close>

definition json_text :: "jval option \<Rightarrow> string option" where
  "json_text v = (case v of Some (JStr s) \<Rightarrow> Some s | Some (JOther t _) \<Rightarrow> Some t | _ \<Rightarrow> None)"

definition affects :: "string \<Rightarrow> string \<Rightarrow> operation_row \<Rightarrow> bool" where
  "affects network address op =
     (op_network op = network
      \<and> (source_account op = address
         \<or> (\<exists>k \<in> set [''from'', ''to'', ''funder'', ''account'']. json_text (details op k) = Some address))
      \<and> op_type op \<in> set affecting_types)"

text \<open>\<open>ORDER BY created_at ASC, id ASC\<close>; the descending query reads the same order backwards.\<close>

definition by_time :: "operation_row list \<Rightarrow> operation_row list" where
  "by_time ops = sort_key created_at (sort_key op_id ops)"

definition rows_in_range ::
  "operation_row list \<Rightarrow> string \<Rightarrow> string \<Rightarrow> int \<Rightarrow> int \<Rightarrow> operation_row list" where
  "rows_in_range ops network address f t =
     by_time (filter (\<lambda>op. affects network address op \<and> f \<le> created_at op \<and> created_at op \<le> t) ops)"

definition rows_before :: "operation_row list \<Rightarrow> string \<Rightarrow> string \<Rightarrow> int \<Rightarrow> operation_row list" where
  "rows_before ops network address f =
     take 100 (rev (by_time (filter (\<lambda>op. affects network address op \<and> created_at op < f) ops)))"

definition computeBalanceHistory ::
  "operation_row list \<Rightarrow> int \<Rightarrow> string \<Rightarrow> string \<Rightarrow> string \<Rightarrow> date_arg \<Rightarrow> date_arg
     \<Rightarrow> history_error + balance_history" where
  "computeBalanceHistory ops now network address asset from to =
     (let toDate = (case to of AbsentDate \<Rightarrow> Some now | DateArg t \<Rightarrow> Some t | UnparsableDate \<Rightarrow> None);
          fromDate = (case from of
              AbsentDate \<Rightarrow> map_option (\<lambda>t. t - DEFAULT_DAYS * day_ms) toDate
            | DateArg f \<Rightarrow> Some f | UnparsableDate \<Rightarrow> None)
      in if (case (fromDate, toDate) of (Some f, Some t) \<Rightarrow> MAX_DAYS * day_ms < t - f | _ \<Rightarrow> False)
         then Inl RangeExceedsMaximum
         else if (case (fromDate, toDate) of (Some f, Some t) \<Rightarrow> t \<le> f | _ \<Rightarrow> False)
         then Inl FromNotBeforeTo
         else (case parseAsset asset of
           Inl e \<Rightarrow> Inl e
         | Inr (code, issuer) \<Rightarrow>
             (case (fromDate, toDate) of
                (Some f, Some t) \<Rightarrow>
                  (let rows = rows_in_range ops network address f t in
                   case replay address code issuer (rev (rows_before ops network address f)) ZERO of
                     Inl e \<Rightarrow> Inl e
                   | Inr start \<Rightarrow>
                       (case replay_range address code issuer rows start of
                          Inl e \<Rightarrow> Inl e
                        | Inr ss \<Rightarrow>
                            Inr \<lparr>bh_address = address, bh_asset = asset, bh_from = f, bh_to = t,
                              snapshots =
                                (if rows \<noteq> [] \<or> isPositive start
                                 then [\<lparr>timestamp = f, balance_text = toFixed start,
                                         operationId = ''initial''\<rparr>]
                                 else []) @ ss\<rparr>))
              | _ \<Rightarrow> Inl InvalidTimeValue)))"

section \<open>Snapshots follow the replay\<close>

lemma replay_append:
  "replay a c i (xs @ ys) b =
     (case replay a c i xs b of Inl e \<Rightarrow> Inl e | Inr b' \<Rightarrow> replay a c i ys b')"
  by (induction xs arbitrary: b) (auto split: sum.splits)

lemma replay_range_Cons:
  "replay_range a c i (op # ops) bal = Inr ss \<longleftrightarrow>
     (\<exists>b ss'. applyOperation op a c i bal = Inr b \<and> replay_range a c i ops b = Inr ss' \<and>
       ss = (if b = bal then ss' else
         \<lparr>timestamp = created_at op, balance_text = toFixed b, operationId = op_id op\<rparr> # ss'))"
  by (auto split: sum.splits)

lemma replay_range_ConsE:
  assumes "replay_range a c i (op # ops) bal = Inr ss"
  obtains b where "applyOperation op a c i bal = Inr b" "b = bal" "replay_range a c i ops b = Inr ss"
  | b ss' where "applyOperation op a c i bal = Inr b" "b \<noteq> bal" "replay_range a c i ops b = Inr ss'"
      "ss = \<lparr>timestamp = created_at op, balance_text = toFixed b, operationId = op_id op\<rparr> # ss'"
  using assms unfolding replay_range_Cons by (auto split: if_splits)

lemma replay_range_sound:
  assumes "replay_range a c i ops bal = Inr ss" and "s \<in> set ss"
  shows "\<exists>pre op post b. ops = pre @ op # post \<and> replay a c i (pre @ [op]) bal = Inr b \<and>
    s = \<lparr>timestamp = created_at op, balance_text = toFixed b, operationId = op_id op\<rparr>"
  using assms
proof (induction ops arbitrary: bal ss)
  case (Cons op ops)
  have later: ?case if "applyOperation op a c i bal = Inr b" "replay_range a c i ops b = Inr ss'"
    "s \<in> set ss'" for b ss'
  proof -
    from Cons.IH [OF that(2,3)] obtain pre op' post b' where
      "ops = pre @ op' # post" "replay a c i (pre @ [op']) b = Inr b'"
      "s = \<lparr>timestamp = created_at op', balance_text = toFixed b', operationId = op_id op'\<rparr>"
      by blast
    with that(1) show ?thesis by (intro exI [of _ "op # pre"]) auto
  qed
  from Cons.prems(1) show ?case
  proof (cases rule: replay_range_ConsE)
    case (2 b ss')
    then consider "s \<in> set ss'"
      | "s = \<lparr>timestamp = created_at op, balance_text = toFixed b, operationId = op_id op\<rparr>"
      using Cons.prems(2) by auto
    then show ?thesis
    proof cases
      case 1
      with 2 show ?thesis by (blast intro: later)
    next
      case s: 2
      with 2 show ?thesis by (intro exI [of _ "[]"]) auto
    qed
  qed (use Cons.prems(2) later in blast)
qed simp

lemma replay_range_last:
  "replay_range a c i ops bal = Inr ss \<Longrightarrow>
     \<exists>b. replay a c i ops bal = Inr b \<and>
       toFixed b = (if ss = [] then toFixed bal else balance_text (last ss))"
proof (induction ops arbitrary: bal ss)
  case (Cons op ops)
  from Cons.prems show ?case
    by (cases rule: replay_range_ConsE) (use Cons.IH in fastforce)+
qed simp

lemma replay_range_times:
  "replay_range a c i ops bal = Inr ss \<Longrightarrow> sorted (map created_at ops) \<Longrightarrow>
     sorted (map timestamp ss) \<and> timestamp ` set ss \<subseteq> created_at ` set ops"
proof (induction ops arbitrary: bal ss)
  case (Cons op ops)
  from Cons.prems(1) show ?case
  proof (cases rule: replay_range_ConsE)
    case (1 b)
    with Cons.IH [of b ss] Cons.prems(2) show ?thesis by auto
  next
    case (2 b ss')
    with Cons.IH [of b ss'] Cons.prems(2) show ?thesis by fastforce
  qed
qed simp

lemma replay_range_changes:
  "replay_range a c i ops bal = Inr ss \<Longrightarrow> distinct_adj (toFixed bal # map balance_text ss)"
proof (induction ops arbitrary: bal ss)
  case (Cons op ops)
  from Cons.prems show ?case
  proof (cases rule: replay_range_ConsE)
    case (1 b)
    with Cons.IH [of b ss] show ?thesis by simp
  next
    case (2 b ss')
    with Cons.IH [of b ss'] show ?thesis by (simp add: eq_commute)
  qed
qed simp

lemma by_time_props [simp]:
  "sorted (map created_at (by_time ops))" "set (by_time ops) = set ops"
  by (simp_all add: by_time_def)

lemma computeBalanceHistory_InrE:
  assumes "computeBalanceHistory ops now network address asset from to = Inr h"
  obtains code issuer start ss where
    "bh_from h < bh_to h" "bh_to h - bh_from h \<le> MAX_DAYS * day_ms"
    "parseAsset asset = Inr (code, issuer)"
    "replay address code issuer (rev (rows_before ops network address (bh_from h))) ZERO = Inr start"
    "replay_range address code issuer
       (rows_in_range ops network address (bh_from h) (bh_to h)) start = Inr ss"
    "snapshots h =
       (if rows_in_range ops network address (bh_from h) (bh_to h) \<noteq> [] \<or> isPositive start
        then [\<lparr>timestamp = bh_from h, balance_text = toFixed start, operationId = ''initial''\<rparr>]
        else []) @ ss"
  using assms unfolding computeBalanceHistory_def Let_def
  by (simp split: sum.splits prod.splits option.splits if_splits) auto

section \<open>Properties\<close>

text \<open>
  A history covers a non-empty window of at most 90 days, its snapshots lie in the window in
  time order and every snapshot differs in balance from the one before it.
\<close>

theorem balance_history_window:
  assumes "computeBalanceHistory ops now network address asset from to = Inr h"
  shows "0 < bh_to h - bh_from h \<and> bh_to h - bh_from h \<le> 90 * day_ms \<and>
    sorted (map timestamp (snapshots h)) \<and>
    timestamp ` set (snapshots h) \<subseteq> {bh_from h .. bh_to h} \<and>
    distinct_adj (map balance_text (snapshots h))"
  using assms
proof (rule computeBalanceHistory_InrE)
  fix code issuer start ss
  let ?rows = "rows_in_range ops network address (bh_from h) (bh_to h)"
  assume w: "bh_from h < bh_to h" "bh_to h - bh_from h \<le> MAX_DAYS * day_ms"
    and ss: "replay_range address code issuer ?rows start = Inr ss"
    and h: "snapshots h = (if ?rows \<noteq> [] \<or> isPositive start
        then [\<lparr>timestamp = bh_from h, balance_text = toFixed start, operationId = ''initial''\<rparr>]
        else []) @ ss"
  have "sorted (map created_at ?rows)" "created_at ` set ?rows \<subseteq> {bh_from h .. bh_to h}"
    by (auto simp: rows_in_range_def)
  with replay_range_times [OF ss] have times: "sorted (map timestamp ss)"
    "timestamp ` set ss \<subseteq> {bh_from h .. bh_to h}" using subset_trans by blast+
  moreover have "ss = []" if "?rows = []" using ss that by simp
  ultimately show ?thesis
    using w h replay_range_changes [OF ss] by (auto simp: MAX_DAYS_def)
qed

text \<open>
  The history is the replay. Its last snapshot is the balance after all operations of the
  window, replayed on top of those before it, and every later snapshot than the initial one is the
  balance right after the operation it names.
\<close>

theorem balance_history_replay:
  assumes "computeBalanceHistory ops now network address asset from to = Inr h"
    and "parseAsset asset = Inr (code, issuer)"
    and "rows = rows_in_range ops network address (bh_from h) (bh_to h)"
    and "before = rev (rows_before ops network address (bh_from h))"
    and "rows \<noteq> []"
  shows "(\<exists>b. replay address code issuer (before @ rows) ZERO = Inr b \<and>
      balance_text (last (snapshots h)) = toFixed b) \<and>
    (\<forall>s \<in> set (tl (snapshots h)). \<exists>pre op post b. rows = pre @ op # post \<and>
      replay address code issuer (before @ pre @ [op]) ZERO = Inr b \<and>
      timestamp s = created_at op \<and> operationId s = op_id op \<and> balance_text s = toFixed b)"
proof (intro conjI)
  obtain start ss where start: "replay address code issuer before ZERO = Inr start"
    and ss: "replay_range address code issuer rows start = Inr ss"
    and h: "snapshots h =
      \<lparr>timestamp = bh_from h, balance_text = toFixed start, operationId = ''initial''\<rparr> # ss"
    using assms by (elim computeBalanceHistory_InrE) auto
  show "\<exists>b. replay address code issuer (before @ rows) ZERO = Inr b \<and>
      balance_text (last (snapshots h)) = toFixed b"
    using replay_range_last [OF ss] start h by (auto simp: replay_append)
  show "\<forall>s \<in> set (tl (snapshots h)). \<exists>pre op post b. rows = pre @ op # post \<and>
      replay address code issuer (before @ pre @ [op]) ZERO = Inr b \<and>
      timestamp s = created_at op \<and> operationId s = op_id op \<and> balance_text s = toFixed b"
  proof
    fix s assume "s \<in> set (tl (snapshots h))"
    then have "s \<in> set ss" by (simp add: h)
    from replay_range_sound [OF ss this] start
    show "\<exists>pre op post b. rows = pre @ op # post \<and>
      replay address code issuer (before @ pre @ [op]) ZERO = Inr b \<and>
      timestamp s = created_at op \<and> operationId s = op_id op \<and> balance_text s = toFixed b"
      by (fastforce simp: replay_append)
  qed
qed

section \<open>Conservation\<close>

definition mover :: "operation_row \<Rightarrow> string \<Rightarrow> string \<Rightarrow> bool" where
  "mover op payer payee =
     (op_type op = ''payment'' \<and> details op ''from'' = Some (JStr payer) \<and>
        details op ''to'' = Some (JStr payee)
      \<or> op_type op = ''create_account'' \<and> details op ''funder'' = Some (JStr payer) \<and>
        details op ''account'' = Some (JStr payee))"

lemma mover_deltas:
  assumes "mover op payer payee" "payer \<noteq> payee"
  obtains x where "\<And>a bal new. applyOperation op a c i bal = Inr new \<Longrightarrow>
    stroops new = stroops bal + (if a = payee then x else if a = payer then - x else 0)"
proof -
  define v where "v = (if op_type op = ''payment''
    then (if matchesAsset (details op ''asset_type'') (details op ''asset_code'')
            (details op ''asset_issuer'') c i then amount_of (details op ''amount'') else Inr ZERO)
    else (if c = None \<and> i = None then amount_of (details op ''starting_balance'') else Inr ZERO))"
  define x where "x = (case v of Inr z \<Rightarrow> stroops z | Inl _ \<Rightarrow> 0)"
  have "stroops new = stroops bal + (if a = payee then x else if a = payer then - x else 0)"
    if "applyOperation op a c i bal = Inr new" for a bal new
    using that assms unfolding mover_def applyOperation_def Let_def x_def v_def
    by (auto simp: plus_amount_def minus_amount_def mk_amount_def ZERO_def split: if_splits sum.splits)
  then show ?thesis by (rule that)
qed

text \<open>
  A payment or an account creation between two different accounts moves value and creates
  none: over any set of accounts that holds payer and payee, the sum of the replayed balances is
  unchanged. (For a payment to oneself the code adds the amount: see \<open>self_payment_credits\<close>.)
\<close>

theorem replay_conserves:
  assumes "mover op payer payee" and "payer \<noteq> payee"
    and "finite A" and "payer \<in> A" and "payee \<in> A"
    and "\<forall>a \<in> A. applyOperation op a c i (bal a) = Inr (new a)"
  shows "(\<Sum>a \<in> A. stroops (new a)) = (\<Sum>a \<in> A. stroops (bal a))"
proof -
  obtain x where x: "\<And>a b n. applyOperation op a c i b = Inr n \<Longrightarrow>
      stroops n = stroops b + (if a = payee then x else if a = payer then - x else 0)"
    using mover_deltas [OF assms(1,2)] by blast
  let ?d = "\<lambda>a. (if a = payee then x else 0) + (if a = payer then - x else 0)"
  have "(\<Sum>a \<in> A. stroops (new a)) = (\<Sum>a \<in> A. stroops (bal a) + ?d a)"
    using assms(2,6) x by (intro sum.cong) auto
  also have "\<dots> = (\<Sum>a \<in> A. stroops (bal a)) + (x - x)"
    using assms(3-5) by (simp add: sum.distrib)
  finally show ?thesis by simp
qed

definition sample_payment :: operation_row where
  "sample_payment =
     \<lparr>op_id = ''7'', op_network = ''mainnet'', op_type = ''payment'', created_at = 500,
      source_account = ''GA'',
      details = [''from'' \<mapsto> JStr ''GA'', ''to'' \<mapsto> JStr ''GB'', ''amount'' \<mapsto> JStr ''2.5'',
                 ''asset_type'' \<mapsto> JStr ''native'']\<rparr>"

definition sample_history :: balance_history where
  "sample_history =
     \<lparr>bh_address = ''GB'', bh_asset = ''XLM'', bh_from = 100, bh_to = 900,
      snapshots = [\<lparr>timestamp = 100, balance_text = ''0'', operationId = ''initial''\<rparr>,
                   \<lparr>timestamp = 500, balance_text = ''2.5'', operationId = ''7''\<rparr>]\<rparr>"

lemmas amount_eval = amount_from_def Let_def trim_def trim_start_def is_space_def char_code_def
  decimal_text_def strip_sign_def is_decimal_body_def is_digit_def whole_part_def fraction_part_def
  nat_of_digits_Cons nat_of_digits_append digit_val_def pad_end_def amount_defs

lemma sample_numerals:
  "nat_to_string 5000000 = ''5000000''" "nat_to_string 2 = ''2''" "nat_to_string 0 = ''0''"
  by (simp_all add: nat_to_string_eval digit_char_eval)

lemma sample_amounts:
  "amount_from (TextArg ''2.5'') = Inr \<lparr>stroops = 25000000\<rparr>"
  "toFixed \<lparr>stroops = 25000000\<rparr> = ''2.5''" "toFixed \<lparr>stroops = 0\<rparr> = ''0''"
  subgoal by (simp add: amount_eval)
  subgoal by (simp add: toFixed_def Let_def amount_defs)
      (simp add: pad_start_def strip_zeros_def sample_numerals)
  subgoal by (simp add: toFixed_def Let_def amount_defs)
      (simp add: pad_start_def strip_zeros_def sample_numerals)
  done

lemma sample_rows:
  "rows_in_range [sample_payment] ''mainnet'' ''GB'' 100 900 = [sample_payment]"
  "rows_before [sample_payment] ''mainnet'' ''GB'' 100 = []"
  by (simp_all add: rows_in_range_def rows_before_def by_time_def affects_def sample_payment_def
      affecting_types_def json_text_def)

lemma sample_apply:
  "applyOperation sample_payment ''GB'' None None \<lparr>stroops = 0\<rparr> = Inr \<lparr>stroops = 25000000\<rparr>"
  "applyOperation sample_payment ''GA'' None None \<lparr>stroops = 0\<rparr> = Inr \<lparr>stroops = -25000000\<rparr>"
  by (simp_all add: applyOperation_def sample_payment_def amount_of_def sample_amounts matchesAsset_def
      plus_amount_def minus_amount_def mk_amount_def)

lemma sample_run:
  "computeBalanceHistory [sample_payment] 0 ''mainnet'' ''GB'' ''XLM'' (DateArg 100) (DateArg 900)
     = Inr sample_history"
  by (simp add: computeBalanceHistory_def Let_def MAX_DAYS_def day_ms_def parseAsset_def sample_rows
      sample_apply sample_amounts ZERO_def mk_amount_def isPositive_def sample_history_def)
    (simp add: sample_payment_def)

theorem balance_history_window_witness:
  "0 < bh_to sample_history - bh_from sample_history \<and>
   bh_to sample_history - bh_from sample_history \<le> 90 * day_ms \<and>
   sorted (map timestamp (snapshots sample_history)) \<and>
   timestamp ` set (snapshots sample_history) \<subseteq> {bh_from sample_history .. bh_to sample_history} \<and>
   distinct_adj (map balance_text (snapshots sample_history))"
  using balance_history_window [OF sample_run] .

theorem balance_history_replay_witness:
  "\<exists>b. replay ''GB'' None None [sample_payment] ZERO = Inr b \<and> ''2.5'' = toFixed b"
  using balance_history_replay [OF sample_run, of None None "[sample_payment]" "[]"]
  by (simp add: parseAsset_def sample_history_def sample_rows)

theorem replay_conserves_witness:
  "(\<Sum>a \<in> {''GA'', ''GB''}. stroops (if a = ''GB'' then \<lparr>stroops = 25000000\<rparr> else \<lparr>stroops = -25000000\<rparr>)) =
   (\<Sum>a \<in> {''GA'', ''GB''}. stroops ((\<lambda>_. \<lparr>stroops = 0\<rparr>) a))"
proof (rule replay_conserves [of sample_payment "''GA''" "''GB''" _ None None])
  show "mover sample_payment ''GA'' ''GB''" by (simp add: mover_def sample_payment_def)
qed (auto simp: sample_apply)

text \<open>A payment from an account to itself is replayed as income.\<close>

lemma self_payment_credits:
  assumes "op_type op = ''payment''" "details op ''from'' = Some (JStr a)"
    "details op ''to'' = Some (JStr a)"
    "matchesAsset (details op ''asset_type'') (details op ''asset_code'') (details op ''asset_issuer'') c i"
    "amount_of (details op ''amount'') = Inr x"
  shows "applyOperation op a c i bal = Inr (plus_amount bal x)"
  using assms by (simp add: applyOperation_def Let_def)

end
