(* ===== verification/Sql_Table.thy ===== *)
theory Sql_Table
  imports Lumina_Prelude
begin

text \<open>
  The PostgreSQL features the repository's queries use, over tables that are lists of keyed rows in
  insertion order: \<open>INSERT ... ON CONFLICT DO NOTHING\<close>, \<open>ON CONFLICT DO UPDATE\<close>,
  \<open>DELETE ... WHERE\<close>, \<open>LIMIT\<close>, and transactions whose connection may be lost at any
  statement.
\<close>

named_theorems table_simps \<open>lookups after a statement\<close>

type_synonym ('k, 'v) table = "('k \<times> 'v) list"

definition keys :: "('k, 'v) table \<Rightarrow> 'k set" where
  "keys t = set (map fst t)"

section \<open>Statements\<close>

definition insert_do_nothing :: "'k \<Rightarrow> 'v \<Rightarrow> ('k, 'v) table \<Rightarrow> ('k, 'v) table" where
  "insert_do_nothing k v t = (if k \<in> keys t then t else t @ [(k, v)])"

text \<open>\<open>f\<close> computes the row that replaces the one in conflict.\<close>

definition insert_do_update ::
  "'k \<Rightarrow> 'v \<Rightarrow> ('v \<Rightarrow> 'v) \<Rightarrow> ('k, 'v) table \<Rightarrow> ('k, 'v) table" where
  "insert_do_update k v f t =
     (if k \<in> keys t then map (\<lambda>(k', v'). (k', if k' = k then f v' else v')) t else t @ [(k, v)])"

definition delete_where :: "('k \<Rightarrow> 'v \<Rightarrow> bool) \<Rightarrow> ('k, 'v) table \<Rightarrow> ('k, 'v) table" where
  "delete_where P t = filter (\<lambda>(k, v). \<not> P k v) t"

definition update_where :: "('k \<Rightarrow> 'v \<Rightarrow> bool) \<Rightarrow> ('v \<Rightarrow> 'v) \<Rightarrow> ('k, 'v) table \<Rightarrow> ('k, 'v) table" where
  "update_where P f t = map (\<lambda>(k, v). (k, if P k v then f v else v)) t"

text \<open>Primary keys.\<close>

definition keyed :: "('k, 'v) table \<Rightarrow> bool" where
  "keyed t = distinct (map fst t)"

lemma in_keys_iff: "k \<in> keys t \<longleftrightarrow> map_of t k \<noteq> None"
  by (simp add: keys_def map_of_eq_None_iff)

lemma keys_list_simps [simp]: "keys [] = {}" "keys ((k, v) # t) = insert k (keys t)"
  "keys (s @ t) = keys s \<union> keys t"
  by (auto simp: keys_def)

lemma map_of_map_upd:
  "map_of (map (\<lambda>(k', v'). (k', if k' = k then f v' else v')) t) x =
     (if x = k then map_option f (map_of t x) else map_of t x)"
  by (induction t) auto

lemma lookup_insert_do_nothing [table_simps]:
  "map_of (insert_do_nothing k v t) x =
     (if x = k \<and> map_of t k = None then Some v else map_of t x)"
  by (auto simp: insert_do_nothing_def map_add_def in_keys_iff split: option.splits)

lemma lookup_insert_do_update [table_simps]:
  "map_of (insert_do_update k v f t) x =
     (if x = k then (case map_of t k of None \<Rightarrow> Some v | Some w \<Rightarrow> Some (f w)) else map_of t x)"
  by (auto simp: insert_do_update_def map_add_def map_of_map_upd in_keys_iff split: option.splits)

lemma lookup_delete_keys [table_simps]:
  "map_of (delete_where (\<lambda>k _. P k) t) x = (if P x then None else map_of t x)"
  by (induction t) (auto simp: delete_where_def)

lemma keys_insert [simp, table_simps]:
  "keys (insert_do_nothing k v t) = insert k (keys t)"
  "keys (insert_do_update k v f t) = insert k (keys t)"
  by (auto simp: in_keys_iff table_simps split: option.splits if_splits)

lemma keys_delete [simp, table_simps]:
  "keys (delete_where (\<lambda>k _. P k) t) = {k \<in> keys t. \<not> P k}"
  by (auto simp: in_keys_iff table_simps split: if_splits)

lemma keyed_insert [simp]:
  "keyed t \<Longrightarrow> keyed (insert_do_nothing k v t)"
  "keyed t \<Longrightarrow> keyed (insert_do_update k v f t)"
proof -
  have "map fst (map (\<lambda>(k', v'). (k', if k' = k then f v' else v')) t) = map fst t"
    by auto
  then show "keyed t \<Longrightarrow> keyed (insert_do_update k v f t)"
    by (auto simp: keyed_def keys_def insert_do_update_def simp del: map_map)
qed (auto simp: keyed_def keys_def insert_do_nothing_def)

lemma keyed_delete [simp]: "keyed t \<Longrightarrow> keyed (delete_where P t)"
  unfolding keyed_def delete_where_def by (induction t) (auto simp: image_iff)

lemma insert_do_nothing_present: "k \<in> keys t \<Longrightarrow> insert_do_nothing k v t = t"
  by (simp add: insert_do_nothing_def)

lemma lookup_update_where:
  "map_of (update_where P f t) k = map_option (\<lambda>v. if P k v then f v else v) (map_of t k)"
  by (induction t) (auto simp: update_where_def)

lemma keys_update_where [simp]: "keys (update_where P f t) = keys t"
  by (force simp: keys_def update_where_def)

lemma keyed_update [simp]: "keyed t \<Longrightarrow> keyed (update_where P f t)"
proof -
  have "map fst (update_where P f t) = map fst t" by (induction t) (auto simp: update_where_def)
  then show "keyed t \<Longrightarrow> keyed (update_where P f t)" by (simp add: keyed_def)
qed

lemma lookup_update_key:
  "map_of (update_where (\<lambda>k' _. k' = k) f t) x = (if x = k then map_option f (map_of t x) else map_of t x)"
  by (cases "map_of t x") (auto simp: lookup_update_where)

lemma lookup_snoc:
  "map_of (t @ [(k, v)]) x = (case map_of t x of Some w \<Rightarrow> Some w | None \<Rightarrow> if x = k then Some v else None)"
  by (auto simp: map_add_def split: option.splits)

lemma keyed_snoc [simp]: "keyed t \<Longrightarrow> map_of t k = None \<Longrightarrow> keyed (t @ [(k, v)])"
  by (auto simp: keyed_def map_of_eq_None_iff)

lemma list_all_update:
  "list_all P t \<Longrightarrow> (\<And>v. P (k, f v)) \<Longrightarrow> list_all P (update_where (\<lambda>k' _. k' = k) f t)"
  by (induction t) (auto simp: update_where_def)

text \<open>A sum over a table after one row of it changed.\<close>

lemma sum_update_key:
  fixes g :: "'k \<times> 'v \<Rightarrow> 'a :: ab_group_add"
  assumes "keyed t" "map_of t k = Some v"
  shows "sum_list (map g (update_where (\<lambda>k' _. k' = k) f t)) = sum_list (map g t) - g (k, v) + g (k, f v)"
  using assms
proof (induction t)
  case (Cons r t)
  obtain k' v' where r: "r = (k', v')" by (cases r)
  show ?case
  proof (cases "k' = k")
    case True
    then have "k \<notin> fst ` set t" using Cons.prems(1) r by (simp add: keyed_def)
    then have "update_where (\<lambda>k' _. k' = k) f t = t"
      by (induction t) (auto simp: update_where_def)
    with True r Cons.prems(2) show ?thesis by (simp add: update_where_def)
  next
    case False
    then have "sum_list (map g (update_where (\<lambda>k' _. k' = k) f t)) = sum_list (map g t) - g (k, v) + g (k, f v)"
      using Cons r by (simp add: keyed_def)
    with False r show ?thesis by (simp add: update_where_def algebra_simps)
  qed
qed simp

text \<open>A batch of rows, as the code's chunked \<open>VALUES\<close> lists insert it.\<close>

definition insert_rows :: "('k \<times> 'v) list \<Rightarrow> ('k, 'v) table \<Rightarrow> ('k, 'v) table" where
  "insert_rows rows t = fold (\<lambda>(k, v). insert_do_nothing k v) rows t"

lemma insert_rows_simps [simp]:
  "insert_rows [] t = t"
  "insert_rows ((k, v) # rows) t = insert_rows rows (insert_do_nothing k v t)"
  "insert_rows (xs @ ys) t = insert_rows ys (insert_rows xs t)"
  by (simp_all add: insert_rows_def)

lemma keys_insert_rows [simp]: "keys (insert_rows rows t) = keys t \<union> keys rows"
  by (induction rows arbitrary: t) auto

lemma keyed_insert_rows [simp]: "keyed t \<Longrightarrow> keyed (insert_rows rows t)"
proof (induction rows arbitrary: t)
  case (Cons r rows)
  then show ?case by (cases r) simp
qed simp

lemma insert_rows_present: "keys rows \<subseteq> keys t \<Longrightarrow> insert_rows rows t = t"
  by (induction rows arbitrary: t) (auto simp: insert_do_nothing_present)

lemma insert_rows_prefix:
  "\<exists>new. insert_rows rows t = t @ new \<and> set new \<subseteq> set rows \<and> keys new \<inter> keys t = {}"
proof (induction rows arbitrary: t)
  case (Cons r rows)
  obtain k v where r: "r = (k, v)" by (cases r)
  from Cons obtain new where "insert_rows rows (insert_do_nothing k v t) =
      insert_do_nothing k v t @ new" "set new \<subseteq> set rows" "keys new \<inter> insert k (keys t) = {}"
    by (metis keys_insert(1))
  with r show ?case
    by (cases "k \<in> keys t") (auto simp: insert_do_nothing_def)
qed simp

lemma lookup_insert_rows_old: "map_of t k = Some v \<Longrightarrow> map_of (insert_rows rows t) k = Some v"
  using insert_rows_prefix [of rows t] by auto

text \<open>Rows outside a statement's key are not touched by it.\<close>

lemma filter_untouched:
  assumes "\<not> Q k"
  shows "filter (\<lambda>r. Q (fst r)) (insert_do_nothing k v t) = filter (\<lambda>r. Q (fst r)) t"
    "filter (\<lambda>r. Q (fst r)) (insert_do_update k v f t) = filter (\<lambda>r. Q (fst r)) t"
    "filter (\<lambda>r. Q (fst r)) (delete_where (\<lambda>k' _. k' = k) t) = filter (\<lambda>r. Q (fst r)) t"
    "filter (\<lambda>r. Q (fst r)) (update_where (\<lambda>k' _. k' = k) f t) = filter (\<lambda>r. Q (fst r)) t"
proof -
  have "filter (\<lambda>r. Q (fst r)) (map (\<lambda>(k', v'). (k', if k' = k then f v' else v')) t)
      = filter (\<lambda>r. Q (fst r)) t"
    using assms by (induction t) auto
  then show "filter (\<lambda>r. Q (fst r)) (insert_do_update k v f t) = filter (\<lambda>r. Q (fst r)) t"
    using assms by (simp add: insert_do_update_def)
  show "filter (\<lambda>r. Q (fst r)) (delete_where (\<lambda>k' _. k' = k) t) = filter (\<lambda>r. Q (fst r)) t"
    unfolding delete_where_def using assms by (induction t) auto
  show "filter (\<lambda>r. Q (fst r)) (update_where (\<lambda>k' _. k' = k) f t) = filter (\<lambda>r. Q (fst r)) t"
    unfolding update_where_def using assms by (induction t) auto
qed (use assms in \<open>simp add: insert_do_nothing_def\<close>)

lemma filter_insert_rows_untouched:
  assumes "\<And>x. \<not> Q (f x)"
  shows "filter (\<lambda>r. Q (fst r)) (insert_rows (map (\<lambda>x. (f x, g x)) xs) t) = filter (\<lambda>r. Q (fst r)) t"
  by (induction xs arbitrary: t) (simp_all add: filter_untouched assms)

section \<open>Transactions\<close>

text \<open>
  Statement errors as the code can see them; \<open>ConnectionLost\<close> stands for any error that does not
  come from the statement's data.
\<close>

datatype db_error =
    CheckViolation string
  | ForeignKeyViolation string
  | CardinalityViolation
  | ConnectionLost
  | Raised string

type_synonym 'db statement = "'db \<Rightarrow> db_error + 'db"

text \<open>
  \<open>BEGIN\<close> ... \<open>COMMIT\<close>, with \<open>ROLLBACK\<close> and a rethrow in the handler. The connection is lost
  at the statement numbered \<open>crash\<close>, if any; the number after the last statement is the
  \<open>COMMIT\<close>.
\<close>

fun run_statements :: "nat option \<Rightarrow> 'db statement list \<Rightarrow> 'db \<Rightarrow> db_error + 'db" where
  "run_statements crash [] db = (if crash = Some 0 then Inl ConnectionLost else Inr db)"
| "run_statements crash (s # ss) db =
     (if crash = Some 0 then Inl ConnectionLost
      else (case s db of Inl e \<Rightarrow> Inl e
            | Inr db' \<Rightarrow> run_statements (map_option (\<lambda>n. n - 1) crash) ss db'))"

definition transaction ::
  "nat option \<Rightarrow> 'db statement list \<Rightarrow> 'db \<Rightarrow> (db_error + unit) \<times> 'db" where
  "transaction crash ss db =
     (case run_statements crash ss db of Inl e \<Rightarrow> (Inl e, db) | Inr db' \<Rightarrow> (Inr (), db'))"

text \<open>
  Statements on a pool, each committed on its own: an error leaves the earlier ones in place.
\<close>

fun autocommit :: "nat option \<Rightarrow> 'db statement list \<Rightarrow> 'db \<Rightarrow> (db_error + unit) \<times> 'db" where
  "autocommit crash [] db = (Inr (), db)"
| "autocommit crash (s # ss) db =
     (if crash = Some 0 then (Inl ConnectionLost, db)
      else (case s db of Inl e \<Rightarrow> (Inl e, db)
            | Inr db' \<Rightarrow> autocommit (map_option (\<lambda>n. n - 1) crash) ss db'))"

lemma autocommit_inv:
  assumes "P db" and "\<And>s x y. s \<in> set ss \<Longrightarrow> P x \<Longrightarrow> s x = Inr y \<Longrightarrow> P y"
  shows "P (snd (autocommit crash ss db))"
  using assms
proof (induction ss arbitrary: crash db)
  case (Cons s ss)
  have IH: "P d \<Longrightarrow> P (snd (autocommit c ss d))" for c d
    using Cons.IH Cons.prems(2) by (meson list.set_intros(2))
  show ?case
    using Cons.prems(1) Cons.prems(2) [of s db] by (cases "s db") (auto intro!: IH)
qed simp

lemma autocommit_Inr:
  "autocommit crash ss db = (Inr u, db') \<Longrightarrow> run_statements None ss db = Inr db'"
  by (induction ss arbitrary: crash db) (auto split: if_splits sum.splits)

lemma autocommit_None:
  "run_statements None ss db = Inr db' \<Longrightarrow> autocommit None ss db = (Inr (), db')"
  by (induction ss arbitrary: db) (auto split: sum.splits)

lemma run_statements_Cons:
  "run_statements crash (s # ss) db = Inr db' \<longleftrightarrow>
     crash \<noteq> Some 0 \<and> (\<exists>db1. s db = Inr db1 \<and>
       run_statements (map_option (\<lambda>n. n - 1) crash) ss db1 = Inr db')"
  by (auto split: sum.splits)

lemma run_statements_append:
  "run_statements crash (ss @ ts) db = Inr db' \<Longrightarrow>
     \<exists>db1. run_statements None ss db = Inr db1 \<and> run_statements None ts db1 = Inr db'"
proof (induction ss arbitrary: crash db)
  case Nil
  have "run_statements crash ts db = Inr db' \<Longrightarrow> run_statements None ts db = Inr db'" for crash
    by (induction ts arbitrary: crash db) (auto split: if_splits sum.splits)
  with Nil show ?case by auto
next
  case (Cons s ss)
  then show ?case by (auto split: if_splits sum.splits)
qed

lemma transaction_ok:
  "transaction crash ss db = (Inr u, db') \<longleftrightarrow> run_statements crash ss db = Inr db'"
  by (auto simp: transaction_def split: sum.splits)

lemma run_statements_inv:
  assumes "run_statements crash ss db = Inr db'" and "P db"
    and "\<And>s x y. s \<in> set ss \<Longrightarrow> P x \<Longrightarrow> s x = Inr y \<Longrightarrow> P y"
  shows "P db'"
  using assms
proof (induction ss arbitrary: crash db)
  case (Cons s ss)
  from Cons.prems(1) obtain db1 where "s db = Inr db1"
    "run_statements (map_option (\<lambda>n. n - 1) crash) ss db1 = Inr db'"
    by (auto simp only: run_statements_Cons)
  with Cons show ?case by (metis list.set_intros)
qed (auto split: if_splits)

lemma transaction_inv:
  assumes "P db" and "\<And>s x y. s \<in> set ss \<Longrightarrow> P x \<Longrightarrow> s x = Inr y \<Longrightarrow> P y"
  shows "P (snd (transaction crash ss db))"
  using assms run_statements_inv [of crash ss db _ P]
  by (auto simp: transaction_def split: sum.splits)

lemma run_statements_establishes:
  assumes "run_statements crash ss db = Inr db'" and "s \<in> set ss"
    and est: "\<And>x y. s x = Inr y \<Longrightarrow> P y"
    and keep: "\<And>s' x y. s' \<in> set ss \<Longrightarrow> P x \<Longrightarrow> s' x = Inr y \<Longrightarrow> P y"
  shows "P db'"
proof -
  obtain us vs where ss: "ss = us @ s # vs" using assms(2) by (auto dest: split_list)
  from run_statements_append [OF assms(1) [unfolded ss]]
  obtain d where "run_statements None (s # vs) d = Inr db'" by blast
  then obtain d1 where d1: "s d = Inr d1" "run_statements None vs d1 = Inr db'"
    by (auto simp only: run_statements_Cons option.map)
  from d1(2) est [OF d1(1)] show ?thesis
    by (rule run_statements_inv) (auto simp: ss intro: keep)
qed

text \<open>Without a lost connection, statements that succeed on every state with \<open>P\<close> all succeed.\<close>

lemma run_statements_total:
  assumes "P db" and "\<And>s x. s \<in> set ss \<Longrightarrow> P x \<Longrightarrow> \<exists>y. s x = Inr y \<and> P y"
  shows "\<exists>db'. run_statements None ss db = Inr db' \<and> P db'"
  using assms
proof (induction ss arbitrary: db)
  case (Cons s ss)
  then obtain y where y: "s db = Inr y" "P y" by (meson list.set_intros(1))
  with Cons.IH [of y] Cons.prems(2) show ?case by auto
qed simp

lemma run_statements_None_append:
  "run_statements None (ss @ ts) db =
     (case run_statements None ss db of Inl e \<Rightarrow> Inl e | Inr d \<Rightarrow> run_statements None ts d)"
  by (induction ss arbitrary: db) (auto split: sum.splits)

lemma run_statements_None: "run_statements crash ss db = Inr d \<Longrightarrow> run_statements None ss db = Inr d"
  using run_statements_append [of crash ss "[]" db d] by auto

end
