(* ===== verification/Js_Value.thy ===== *)
theory Js_Value
  imports Js_Text
begin

text \<open>
  The JavaScript values that reach the event decoder: what \<open>scValToNative\<close> returns and what
  \<open>JSON.parse\<close> returns, with the operations the code applies to them (\<open>typeof\<close> tests, property
  reads, \<open>BigInt(...)\<close>, \<open>String(...)\<close>, \<open>JSON.stringify\<close>).
\<close>

section \<open>Values\<close>

text \<open>
  \<open>JInt\<close> is a number that is an integer, of a magnitude below \<open>10^21\<close> (larger ones print in
  exponent form); \<open>JNum\<close> is every other number, given by its \<open>String(...)\<close> text, whether it is
  finite and its value if it is an integer. \<open>JBytes\<close> is a \<open>Buffer\<close>. Objects list their own properties
  in order; \<open>JFun\<close> is any function.
\<close>

datatype jsval =
    JUndefined
  | JNull
  | JBool bool
  | JInt int
  | JNum string bool "int option"
  | JBig int
  | JStr string
  | JBytes "nat list"
  | JArr "jsval list"
  | JObj "(string \<times> jsval) list"
  | JFun

definition MAX_SAFE_INTEGER :: int where
  "MAX_SAFE_INTEGER = 9007199254740991"

definition is_safe_integer :: "int \<Rightarrow> bool" where
  "is_safe_integer i = (- MAX_SAFE_INTEGER \<le> i \<and> i \<le> MAX_SAFE_INTEGER)"

definition bool_text :: "bool \<Rightarrow> string" where
  "bool_text b = (if b then ''true'' else ''false'')"

text \<open>Members found on the prototype when an object has no property of its own of that name.\<close>

definition object_members :: "string list" where
  "object_members = [''constructor'', ''toString'', ''toLocaleString'', ''valueOf'', ''hasOwnProperty'',
     ''isPrototypeOf'', ''propertyIsEnumerable'', ''__defineGetter__'', ''__defineSetter__'',
     ''__lookupGetter__'', ''__lookupSetter__'']"

definition array_members :: "string list" where
  "array_members = [''at'', ''concat'', ''copyWithin'', ''entries'', ''every'', ''fill'', ''filter'', ''find'',
     ''findIndex'', ''findLast'', ''findLastIndex'', ''flat'', ''flatMap'', ''forEach'', ''includes'',
     ''indexOf'', ''join'', ''keys'', ''lastIndexOf'', ''map'', ''pop'', ''push'', ''reduce'', ''reduceRight'',
     ''reverse'', ''shift'', ''slice'', ''some'', ''sort'', ''splice'', ''toReversed'', ''toSorted'',
     ''toSpliced'', ''unshift'', ''values'', ''with'']"

text \<open>
  \<open>(current as Record)[segment]\<close> on a value with \<open>typeof\<close> object. A prototype object has no
  enumerable properties and is represented by the empty object; of a buffer's members only the
  length is read as data.
\<close>

definition get_member :: "jsval \<Rightarrow> string \<Rightarrow> jsval" where
  "get_member v s =
     (let inherited = (if s \<in> set object_members then JFun
                       else if s = ''__proto__'' then JObj [] else JUndefined) in
      case v of
        JObj ps \<Rightarrow> (case map_of ps s of Some x \<Rightarrow> x | None \<Rightarrow> inherited)
      | JArr xs \<Rightarrow> (if s = ''length'' then JInt (int (length xs))
                    else if s \<in> set array_members then JFun else inherited)
      | JBytes bs \<Rightarrow> (if s = ''length'' then JInt (int (length bs)) else inherited)
      | _ \<Rightarrow> JUndefined)"

section \<open>Numerals\<close>

definition hex_digit :: "char \<Rightarrow> nat option" where
  "hex_digit c =
     (if is_digit c then Some (digit_val c)
      else if 97 \<le> char_code c \<and> char_code c \<le> 102 then Some (char_code c - 87)
      else if 65 \<le> char_code c \<and> char_code c \<le> 70 then Some (char_code c - 55)
      else None)"

fun radix_value :: "nat \<Rightarrow> string \<Rightarrow> nat \<Rightarrow> nat option" where
  "radix_value r [] a = Some a"
| "radix_value r (c # cs) a =
     (case hex_digit c of Some d \<Rightarrow> if d < r then radix_value r cs (a * r + d) else None | None \<Rightarrow> None)"

definition radix_of :: "char \<Rightarrow> nat option" where
  "radix_of c = (if c \<in> {CHR ''x'', CHR ''X''} then Some 16
                 else if c \<in> {CHR ''o'', CHR ''O''} then Some 8
                 else if c \<in> {CHR ''b'', CHR ''B''} then Some 2 else None)"

text \<open>\<open>BigInt(text)\<close>; \<open>None\<close> is the \<open>SyntaxError\<close>.\<close>

definition bigint_of_text :: "string \<Rightarrow> int option" where
  "bigint_of_text s =
     (case trim s of
        [] \<Rightarrow> Some 0
      | c # cs \<Rightarrow>
          if is_int_text (c # cs) then Some (int_of_text (c # cs))
          else if c = CHR ''+'' \<and> cs \<noteq> [] \<and> list_all is_digit cs then Some (int (nat_of_digits cs))
          else (case cs of
                  x # y # ys \<Rightarrow>
                    (if c = CHR ''0''
                     then (case radix_of x of
                             Some r \<Rightarrow> map_option int (radix_value r (y # ys) 0)
                           | None \<Rightarrow> None)
                     else None)
                | _ \<Rightarrow> None))"

text \<open>
  \<open>Number(text)\<close> where \<open>Number.isInteger\<close> holds of it: decimal notation with an optional point and
  exponent, or a radix prefix. Exact, so it agrees with the source below \<open>2 ^ 53\<close>.
\<close>

definition unsigned_exponent :: "string \<Rightarrow> int option" where
  "unsigned_exponent ex =
     (case ex of
        [] \<Rightarrow> Some 0
      | _ # ds \<Rightarrow> (if is_int_text ds then Some (int_of_text ds)
                   else (case ds of c # cs \<Rightarrow> if c = CHR ''+'' \<and> cs \<noteq> [] \<and> list_all is_digit cs
                                             then Some (int (nat_of_digits cs)) else None
                                  | [] \<Rightarrow> None)))"

definition unsigned_integer :: "string \<Rightarrow> nat option" where
  "unsigned_integer u =
     (let m = takeWhile (\<lambda>c. c \<noteq> CHR ''e'' \<and> c \<noteq> CHR ''E'') u;
          ip = takeWhile (\<lambda>c. c \<noteq> CHR ''.'') m; fp = drop (length ip + 1) m in
      if \<not> list_all is_digit (ip @ fp) \<or> ip @ fp = [] then None
      else (case unsigned_exponent (drop (length m) u) of
              None \<Rightarrow> None
            | Some e \<Rightarrow>
                (let n = nat_of_digits (ip @ fp); k = e - int (length fp) in
                 if 0 \<le> k then Some (n * 10 ^ nat k)
                 else if n mod 10 ^ nat (- k) = 0 then Some (n div 10 ^ nat (- k)) else None)))"

definition integer_of_text :: "string \<Rightarrow> int option" where
  "integer_of_text s =
     (case trim s of
        [] \<Rightarrow> Some 0
      | c # cs \<Rightarrow>
          if c = CHR ''-'' then map_option (\<lambda>n. - int n) (unsigned_integer cs)
          else if c = CHR ''+'' then map_option int (unsigned_integer cs)
          else (case cs of
                  x # y # ys \<Rightarrow>
                    (case (if c = CHR ''0'' then radix_of x else None) of
                       Some r \<Rightarrow> map_option int (radix_value r (y # ys) 0)
                     | None \<Rightarrow> map_option int (unsigned_integer (c # cs)))
                | _ \<Rightarrow> map_option int (unsigned_integer (c # cs))))"

text \<open>\<open>BigInt(v)\<close> for the values \<open>isUnsignedPair\<close> lets through.\<close>

definition bigint_of :: "jsval \<Rightarrow> int option" where
  "bigint_of v = (case v of JBig i \<Rightarrow> Some i | JInt i \<Rightarrow> Some i | JNum _ _ i \<Rightarrow> i
      | JStr s \<Rightarrow> bigint_of_text s | _ \<Rightarrow> None)"

section \<open>JSON\<close>

text \<open>
  \<open>JSON.stringify\<close> followed by \<open>JSON.parse\<close>: \<open>None\<close> is the \<open>TypeError\<close> a \<open>bigint\<close> raises,
  \<open>JUndefined\<close> at the top is the result \<open>undefined\<close>. With \<open>big\<close> set, the replacer
  \<open>bigintReplacer\<close> writes a \<open>bigint\<close> as a string.
\<close>

fun jsonify :: "bool \<Rightarrow> jsval \<Rightarrow> jsval option"
  and jsonify_items :: "bool \<Rightarrow> jsval list \<Rightarrow> jsval list option"
  and jsonify_props :: "bool \<Rightarrow> (string \<times> jsval) list \<Rightarrow> (string \<times> jsval) list option" where
  "jsonify big JUndefined = Some JUndefined"
| "jsonify big JFun = Some JUndefined"
| "jsonify big JNull = Some JNull"
| "jsonify big (JBool b) = Some (JBool b)"
| "jsonify big (JInt i) = Some (JInt i)"
| "jsonify big (JNum t fin whole) = Some (if fin then JNum t fin whole else JNull)"
| "jsonify big (JBig i) = (if big then Some (JStr (int_to_string i)) else None)"
| "jsonify big (JStr s) = Some (JStr s)"
| "jsonify big (JBytes bs) =
     Some (JObj [(''type'', JStr ''Buffer''), (''data'', JArr (map (JInt \<circ> int) bs))])"
| "jsonify big (JArr xs) = map_option JArr (jsonify_items big xs)"
| "jsonify big (JObj ps) = map_option JObj (jsonify_props big ps)"
| "jsonify_items big [] = Some []"
| "jsonify_items big (x # xs) =
     (case jsonify big x of
        None \<Rightarrow> None
      | Some y \<Rightarrow> map_option (Cons (if y = JUndefined then JNull else y)) (jsonify_items big xs))"
| "jsonify_props big [] = Some []"
| "jsonify_props big ((k, x) # ps) =
     (case jsonify big x of
        None \<Rightarrow> None
      | Some y \<Rightarrow> map_option (\<lambda>qs. if y = JUndefined then qs else (k, y) # qs) (jsonify_props big ps))"

text \<open>A value that JSON text denotes.\<close>

fun is_json :: "jsval \<Rightarrow> bool" where
  "is_json (JArr xs) = list_all is_json xs"
| "is_json (JObj ps) = list_all (\<lambda>p. is_json (snd p)) ps"
| "is_json (JNum t fin whole) = fin"
| "is_json JUndefined = False"
| "is_json JFun = False"
| "is_json (JBig i) = False"
| "is_json (JBytes bs) = False"
| "is_json v = True"

lemma jsonify_is_json:
  "jsonify big v = Some w \<Longrightarrow> w \<noteq> JUndefined \<Longrightarrow> is_json w"
  "jsonify_items big xs = Some ys \<Longrightarrow> list_all is_json ys"
  "jsonify_props big ps = Some qs \<Longrightarrow> list_all (\<lambda>p. is_json (snd p)) qs"
proof (induction big v and big xs and big ps arbitrary: w and ys and qs
    rule: jsonify_jsonify_items_jsonify_props.induct)
  case (9 big bs)
  then show ?case by (auto simp: list_all_iff)
qed (auto split: if_splits option.splits)

text \<open>With the replacer, \<open>JSON.stringify\<close> cannot fail on these values.\<close>

lemma jsonify_total:
  "big \<Longrightarrow> \<exists>w. jsonify big v = Some w"
  "big \<Longrightarrow> \<exists>ys. jsonify_items big xs = Some ys"
  "big \<Longrightarrow> \<exists>qs. jsonify_props big ps = Some qs"
proof (induction big v and big xs and big ps
    rule: jsonify_jsonify_items_jsonify_props.induct)
qed auto

text \<open>JSON text of a value that \<open>JSON.parse\<close> returned.\<close>

definition escape_char :: "char \<Rightarrow> string" where
  "escape_char c =
     (let n = char_code c in
      if c = CHR 0x22 then [CHR 0x5C, CHR 0x22]
      else if c = CHR 0x5C then [CHR 0x5C, CHR 0x5C]
      else if n = 8 then [CHR 0x5C, CHR ''b'']
      else if n = 9 then [CHR 0x5C, CHR ''t'']
      else if n = 10 then [CHR 0x5C, CHR ''n'']
      else if n = 12 then [CHR 0x5C, CHR ''f'']
      else if n = 13 then [CHR 0x5C, CHR ''r'']
      else if n < 32 then CHR 0x5C # ''u00'' @
        [if n < 16 then CHR ''0'' else CHR ''1'',
         if n mod 16 < 10 then digit_char (n mod 16) else char_of (87 + n mod 16)]
      else [c])"

definition quote :: "string \<Rightarrow> string" where
  "quote s = CHR 0x22 # concat (map escape_char s) @ [CHR 0x22]"

fun join_with :: "string \<Rightarrow> string list \<Rightarrow> string" where
  "join_with sep [] = []"
| "join_with sep [x] = x"
| "join_with sep (x # xs) = x @ sep @ join_with sep xs"

fun json_text :: "jsval \<Rightarrow> string" where
  "json_text (JBool b) = bool_text b"
| "json_text (JInt i) = int_to_string i"
| "json_text (JNum t fin whole) = t"
| "json_text (JStr s) = quote s"
| "json_text (JArr xs) = ''['' @ join_with '','' (map json_text xs) @ '']''"
| "json_text (JObj ps) = ''{'' @ join_with '','' (map (\<lambda>p. quote (fst p) @ '':'' @ json_text (snd p)) ps) @ ''}''"
| "json_text v = ''null''"

end
