(* ===== verification/Ledger_Store.thy ===== *)
theory Ledger_Store
  imports Sql_Table Js_Value
begin

text \<open>
  The write path of \<open>indexer/src/db.ts\<close>: \<open>indexLedger\<close>, which lands one ledger in a single
  transaction, and the statements it shares with the other writers (cursor, failure records, retry
  queue, backfill progress). The type-specific decoders (\<open>processAssetOperation\<close> and the eight
  after it) write tables of their own; here they are a list of handlers over an arbitrary state \<open>'d\<close>,
  each run under the savepoint that isolates the operation, and \<open>Op_Tables\<close> gives the nine.
  Column checks and foreign keys are those of \<open>db/schema.sql\<close>.
\<close>

section \<open>What Horizon reports\<close>

record horizon_ledger =
  l_sequence :: int
  l_closed_at :: int
  l_successful_count :: int
  l_failed_count :: int
  l_operation_count :: int
  l_base_fee :: int
  l_base_reserve :: int

record horizon_transaction =
  t_hash :: string
  t_ledger :: int
  t_created_at :: int
  t_source_account :: string
  t_fee_charged :: int
  t_operation_count :: int
  t_successful :: bool
  t_memo_type :: "string option"
  t_memo :: "string option"
  t_source_account_sequence :: "string option"

text \<open>
  \<open>o_json\<close> is \<open>JSON.stringify(op)\<close>; \<open>o_fields\<close> are the properties that depend on the type, under
  the interface's index signature.
\<close>

record horizon_operation =
  o_id :: string
  o_type :: string
  o_transaction_hash :: string
  o_created_at :: int
  o_source_account :: string
  o_json :: string
  o_fields :: "(string \<times> jsval) list"

record horizon_effect =
  e_id :: string
  e_paging_token :: string
  e_operation_id :: string
  e_account :: string
  e_type :: string
  e_type_i :: int
  e_created_at :: int
  e_details :: string

text \<open>\<open>a_state\<close> is the JSON text of balances, flags and thresholds.\<close>

record horizon_account =
  a_account_id :: string
  a_sequence :: string
  a_subentry_count :: int
  a_last_modified_ledger :: int
  a_num_sponsored :: int
  a_num_sponsoring :: int
  a_state :: string

section \<open>Tables\<close>

record ledger_row =
  closed_at :: int
  transaction_count :: int
  operation_count :: int
  base_fee :: int
  base_reserve :: int

record operation_record =
  or_type :: string
  or_transaction_hash :: string
  or_ledger :: int
  or_created_at :: int
  or_source_account :: string
  or_details :: string

record effect_record =
  er_effect :: horizon_effect
  er_ledger :: int

record refresh_row =
  last_requested_ledger :: int
  queued_at :: int

record failed_row =
  fail_error :: string
  fail_attempts :: nat
  failed_at :: int

record retry_row =
  attempt_count :: nat
  next_attempt_at :: int
  last_error :: string
  first_failed_at :: int
  last_attempted_at :: int
  permanently_failed :: bool

record dead_letter =
  dl_network :: string
  dl_ledger :: int
  dl_operation_id :: string
  dl_payload :: string
  dl_error :: string
  dl_processed :: bool

datatype cursor_purpose = Forward | Backfill | Events

datatype indexed_kind = LedgerKind | EventsKind

record indexed_notification =
  n_kind :: indexed_kind
  n_network :: string
  n_ledger :: int
  n_transactions :: "nat option"
  n_operations :: "nat option"
  n_events :: "nat option"
  n_effects :: "nat option"

record backfill_row =
  current_ledger :: int
  completed_at :: "int option"

text \<open>
  The database. Every key carries the network. \<open>delivered\<close> are the notifications that reached
  listeners: inside a transaction they are only queued, and a rollback drops them with the rest of
  the transaction's state.
\<close>

record 'd store =
  ledgers :: "(int \<times> string, ledger_row) table"
  transactions :: "(string \<times> string, horizon_transaction) table"
  operations :: "(string \<times> string, operation_record) table"
  effects :: "(string \<times> string, effect_record) table"
  accounts :: "(string \<times> string, horizon_account) table"
  account_history :: "(string \<times> string \<times> int, horizon_account) table"
  refresh_queue :: "(string \<times> string, refresh_row) table"
  failed_ledgers :: "(int \<times> string, failed_row) table"
  retry_queue :: "(int \<times> string, retry_row) table"
  cursors :: "(string \<times> cursor_purpose, int) table"
  backfill_progress :: "(string \<times> int \<times> int, backfill_row) table"
  dead_letters :: "dead_letter list"
  delivered :: "indexed_notification list"
  derived :: 'd

definition BATCH_CHUNK_SIZE :: nat where
  "BATCH_CHUNK_SIZE = 500"

section \<open>Statements\<close>

definition insert_ledger :: "string \<Rightarrow> horizon_ledger \<Rightarrow> 'd store statement" where
  "insert_ledger network l db =
     (if l_sequence l \<le> 0 \<or> l_successful_count l + l_failed_count l < 0 \<or> l_operation_count l < 0
      then Inl (CheckViolation ''ledgers'')
      else Inr (db\<lparr>ledgers := insert_do_nothing (l_sequence l, network)
             \<lparr>closed_at = l_closed_at l,
              transaction_count = l_successful_count l + l_failed_count l,
              operation_count = l_operation_count l,
              base_fee = l_base_fee l, base_reserve = l_base_reserve l\<rparr> (ledgers db)\<rparr>))"

definition tx_check :: "horizon_transaction \<Rightarrow> bool" where
  "tx_check t = (t_hash t \<noteq> [] \<and> 0 < t_ledger t \<and> t_source_account t \<noteq> [] \<and> 0 \<le> t_operation_count t)"

text \<open>
  One multi-row \<open>INSERT\<close>. The checks apply to every proposed row, the foreign key to the rows
  that are new.
\<close>

definition insert_transactions :: "string \<Rightarrow> horizon_transaction list \<Rightarrow> 'd store statement" where
  "insert_transactions network chunk db =
     (let rows = map (\<lambda>t. ((t_hash t, network), t)) chunk in
      if \<not> list_all tx_check chunk then Inl (CheckViolation ''transactions'')
      else if \<not> list_all (\<lambda>t. (t_hash t, network) \<in> keys (transactions db)
                             \<or> (t_ledger t, network) \<in> keys (ledgers db)) chunk
      then Inl (ForeignKeyViolation ''transactions'')
      else Inr (db\<lparr>transactions := insert_rows rows (transactions db)\<rparr>))"

definition op_check :: "int \<Rightarrow> horizon_operation \<Rightarrow> bool" where
  "op_check sequence op =
     (o_id op \<noteq> [] \<and> o_type op \<noteq> [] \<and> o_transaction_hash op \<noteq> [] \<and> 0 < sequence
      \<and> o_source_account op \<noteq> [])"

definition op_record :: "int \<Rightarrow> horizon_operation \<Rightarrow> operation_record" where
  "op_record sequence op =
     \<lparr>or_type = o_type op, or_transaction_hash = o_transaction_hash op, or_ledger = sequence,
      or_created_at = o_created_at op, or_source_account = o_source_account op,
      or_details = o_json op\<rparr>"

definition insert_operations :: "string \<Rightarrow> int \<Rightarrow> horizon_operation list \<Rightarrow> 'd store statement" where
  "insert_operations network sequence chunk db =
     (let rows = map (\<lambda>op. ((o_id op, network), op_record sequence op)) chunk in
      if \<not> list_all (op_check sequence) chunk then Inl (CheckViolation ''operations'')
      else if \<not> list_all (\<lambda>op. (o_id op, network) \<in> keys (operations db)
                \<or> (o_transaction_hash op, network) \<in> keys (transactions db)) chunk
      then Inl (ForeignKeyViolation ''operations'')
      else Inr (db\<lparr>operations := insert_rows rows (operations db)\<rparr>))"

definition insert_effects :: "string \<Rightarrow> int \<Rightarrow> horizon_effect list \<Rightarrow> 'd store statement" where
  "insert_effects network sequence chunk db =
     (let rows = map (\<lambda>e. ((e_id e, network), \<lparr>er_effect = e, er_ledger = sequence\<rparr>)) chunk in
      if \<not> list_all (\<lambda>e. e_id e \<noteq> [] \<and> e_type e \<noteq> []) chunk then Inl (CheckViolation ''effects'')
      else Inr (db\<lparr>effects := insert_rows rows (effects db)\<rparr>))"

definition recordDeadLetterOperation ::
  "string \<Rightarrow> int \<Rightarrow> horizon_operation \<Rightarrow> string \<Rightarrow> 'd store \<Rightarrow> 'd store" where
  "recordDeadLetterOperation network ledger op err db =
     db\<lparr>dead_letters := dead_letters db @
        [\<lparr>dl_network = network, dl_ledger = ledger, dl_operation_id = o_id op,
          dl_payload = o_json op, dl_error = err, dl_processed = False\<rparr>]\<rparr>"

text \<open>A decoder: the network, the ledger, the operation and its transaction, on the derived tables.\<close>

type_synonym 'd handler =
  "string \<Rightarrow> int \<Rightarrow> horizon_operation \<Rightarrow> horizon_transaction option \<Rightarrow> 'd \<Rightarrow> string + 'd"

fun run_handlers ::
  "'d handler list \<Rightarrow> string \<Rightarrow> int \<Rightarrow> horizon_operation \<Rightarrow> horizon_transaction option \<Rightarrow> 'd \<Rightarrow> string + 'd" where
  "run_handlers [] network s op tx d = Inr d"
| "run_handlers (h # hs) network s op tx d =
     (case h network s op tx d of Inl e \<Rightarrow> Inl e | Inr d' \<Rightarrow> run_handlers hs network s op tx d')"

text \<open>\<open>new Map(transactions.map(tx => [tx.hash, tx]))\<close>: the last of equal hashes wins.\<close>

definition transactionsByHash :: "horizon_transaction list \<Rightarrow> string \<Rightarrow> horizon_transaction option" where
  "transactionsByHash txs = map_of (rev (map (\<lambda>t. (t_hash t, t)) txs))"

text \<open>
  The savepoint around one operation: its decoders run as a unit, and one that throws leaves
  nothing but a dead letter.
\<close>

definition process_operation ::
  "'d handler list \<Rightarrow> string \<Rightarrow> int \<Rightarrow> horizon_transaction list \<Rightarrow> horizon_operation \<Rightarrow> 'd store statement" where
  "process_operation hs network sequence txs op db =
     (case run_handlers hs network sequence op (transactionsByHash txs (o_transaction_hash op)) (derived db) of
        Inr d \<Rightarrow> Inr (db\<lparr>derived := d\<rparr>)
      | Inl e \<Rightarrow> Inr (recordDeadLetterOperation network sequence op e db))"

definition request_refresh :: "int \<Rightarrow> string \<Rightarrow> int \<Rightarrow> string \<Rightarrow> 'd store \<Rightarrow> 'd store" where
  "request_refresh now network sequence address db =
     db\<lparr>refresh_queue := insert_do_update (network, address)
          \<lparr>last_requested_ledger = sequence, queued_at = now\<rparr>
          (\<lambda>r. r\<lparr>last_requested_ledger := max (last_requested_ledger r) sequence\<rparr>)
          (refresh_queue db)\<rparr>"

text \<open>A statement that would update one row twice is rejected by PostgreSQL.\<close>

definition enqueue_refreshes :: "int \<Rightarrow> string \<Rightarrow> int \<Rightarrow> string list \<Rightarrow> 'd store statement" where
  "enqueue_refreshes now network sequence addresses db =
     (if distinct addresses then Inr (fold (request_refresh now network sequence) addresses db)
      else Inl CardinalityViolation)"

definition clearLedgerFailures :: "string \<Rightarrow> int \<Rightarrow> 'd store \<Rightarrow> 'd store" where
  "clearLedgerFailures network sequence db =
     db\<lparr>failed_ledgers := delete_where (\<lambda>k _. k = (sequence, network)) (failed_ledgers db),
        retry_queue := delete_where (\<lambda>k _. k = (sequence, network)) (retry_queue db)\<rparr>"

definition setIndexerCursor :: "string \<Rightarrow> cursor_purpose \<Rightarrow> int \<Rightarrow> 'd store \<Rightarrow> 'd store" where
  "setIndexerCursor network purpose cursor db =
     db\<lparr>cursors := insert_do_update (network, purpose) cursor (\<lambda>_. cursor) (cursors db)\<rparr>"

definition notifyIndexed :: "indexed_notification \<Rightarrow> 'd store \<Rightarrow> 'd store" where
  "notifyIndexed n db = db\<lparr>delivered := delivered db @ [n]\<rparr>"

section \<open>Landing a ledger\<close>

record ledger_bundle =
  b_ledger :: horizon_ledger
  b_transactions :: "horizon_transaction list"
  b_operations :: "horizon_operation list"
  b_effects :: "horizon_effect list"
  b_accounts :: "string list"

definition ledger_notification :: "string \<Rightarrow> ledger_bundle \<Rightarrow> indexed_notification" where
  "ledger_notification network b =
     \<lparr>n_kind = LedgerKind, n_network = network, n_ledger = l_sequence (b_ledger b),
      n_transactions = Some (length (b_transactions b)), n_operations = Some (length (b_operations b)),
      n_events = None, n_effects = Some (length (b_effects b))\<rparr>"

definition ledger_statements ::
  "'d handler list \<Rightarrow> int \<Rightarrow> string \<Rightarrow> ledger_bundle \<Rightarrow> 'd store statement list" where
  "ledger_statements hs now network b =
     (let sequence = l_sequence (b_ledger b) in
      [insert_ledger network (b_ledger b)]
      @ map (insert_transactions network) (chunks BATCH_CHUNK_SIZE (b_transactions b))
      @ map (insert_operations network sequence) (chunks BATCH_CHUNK_SIZE (b_operations b))
      @ map (process_operation hs network sequence (b_transactions b)) (b_operations b)
      @ map (insert_effects network sequence) (chunks BATCH_CHUNK_SIZE (b_effects b))
      @ (if b_accounts b \<noteq> [] then [enqueue_refreshes now network sequence (b_accounts b)] else [])
      @ [\<lambda>db. Inr (clearLedgerFailures network sequence db),
         \<lambda>db. Inr (setIndexerCursor network Forward sequence db),
         \<lambda>db. Inr (notifyIndexed (ledger_notification network b) db)])"

definition indexLedger ::
  "'d handler list \<Rightarrow> nat option \<Rightarrow> int \<Rightarrow> string \<Rightarrow> ledger_bundle \<Rightarrow> 'd store
     \<Rightarrow> (db_error + unit) \<times> 'd store" where
  "indexLedger hs crash now network b db = transaction crash (ledger_statements hs now network b) db"

definition empty_store :: "'d \<Rightarrow> 'd store" where
  "empty_store d =
     \<lparr>ledgers = [], transactions = [], operations = [], effects = [], accounts = [], account_history = [], refresh_queue = [],
      failed_ledgers = [], retry_queue = [], cursors = [], backfill_progress = [],
      dead_letters = [], delivered = [], derived = d\<rparr>"

section \<open>Facts about the statements\<close>

lemmas statement_defs = insert_ledger_def insert_transactions_def insert_operations_def
  process_operation_def insert_effects_def enqueue_refreshes_def clearLedgerFailures_def
  setIndexerCursor_def notifyIndexed_def recordDeadLetterOperation_def Let_def

lemma ledger_statements_cases [consumes 1]:
  assumes "s \<in> set (ledger_statements hs now network b)"
  obtains (ledger) "s = insert_ledger network (b_ledger b)"
  | (txs) c where "set c \<subseteq> set (b_transactions b)" "s = insert_transactions network c"
  | (ops) c where "set c \<subseteq> set (b_operations b)"
      "s = insert_operations network (l_sequence (b_ledger b)) c"
  | (process) op where "op \<in> set (b_operations b)"
      "s = process_operation hs network (l_sequence (b_ledger b)) (b_transactions b) op"
  | (effects) c where "set c \<subseteq> set (b_effects b)"
      "s = insert_effects network (l_sequence (b_ledger b)) c"
  | (refresh) "s = enqueue_refreshes now network (l_sequence (b_ledger b)) (b_accounts b)"
  | (clear) "s = (\<lambda>db. Inr (clearLedgerFailures network (l_sequence (b_ledger b)) db))"
  | (cursor) "s = (\<lambda>db. Inr (setIndexerCursor network Forward (l_sequence (b_ledger b)) db))"
  | (notify) "s = (\<lambda>db. Inr (notifyIndexed (ledger_notification network b) db))"
  using assms by (auto simp: ledger_statements_def Let_def split: if_splits dest!: chunks_subset)

lemma insert_transactions_Inr:
  "insert_transactions network c x = Inr y \<longleftrightarrow>
     list_all tx_check c \<and>
     list_all (\<lambda>t. (t_hash t, network) \<in> keys (transactions x) \<or> (t_ledger t, network) \<in> keys (ledgers x)) c \<and>
     y = x\<lparr>transactions := insert_rows (map (\<lambda>t. ((t_hash t, network), t)) c) (transactions x)\<rparr>"
  by (simp add: insert_transactions_def Let_def eq_commute)

lemma insert_operations_Inr:
  "insert_operations network s c x = Inr y \<longleftrightarrow>
     list_all (op_check s) c \<and>
     list_all (\<lambda>op. (o_id op, network) \<in> keys (operations x)
       \<or> (o_transaction_hash op, network) \<in> keys (transactions x)) c \<and>
     y = x\<lparr>operations := insert_rows (map (\<lambda>op. ((o_id op, network), op_record s op)) c) (operations x)\<rparr>"
  by (simp add: insert_operations_def Let_def eq_commute)

lemma fold_refresh_frame [simp]:
  "ledgers (fold (request_refresh now n s) as db) = ledgers db"
  "transactions (fold (request_refresh now n s) as db) = transactions db"
  "operations (fold (request_refresh now n s) as db) = operations db"
  "effects (fold (request_refresh now n s) as db) = effects db"
  "accounts (fold (request_refresh now n s) as db) = accounts db"
  "account_history (fold (request_refresh now n s) as db) = account_history db"
  "failed_ledgers (fold (request_refresh now n s) as db) = failed_ledgers db"
  "retry_queue (fold (request_refresh now n s) as db) = retry_queue db"
  "cursors (fold (request_refresh now n s) as db) = cursors db"
  "backfill_progress (fold (request_refresh now n s) as db) = backfill_progress db"
  "dead_letters (fold (request_refresh now n s) as db) = dead_letters db"
  "delivered (fold (request_refresh now n s) as db) = delivered db"
  "derived (fold (request_refresh now n s) as db) = derived db"
  by (induction as arbitrary: db) (simp_all add: request_refresh_def)

lemma fold_refresh_queue:
  "keys (refresh_queue (fold (request_refresh now n s) as db)) =
     keys (refresh_queue db) \<union> Pair n ` set as"
  by (induction as arbitrary: db) (auto simp: request_refresh_def)

text \<open>No statement of the write path removes a ledger, transaction, operation or effect.\<close>

lemma statements_grow:
  assumes "s \<in> set (ledger_statements hs now network b)" "s x = Inr y"
  shows "keys (ledgers x) \<subseteq> keys (ledgers y)" "keys (transactions x) \<subseteq> keys (transactions y)"
    "keys (operations x) \<subseteq> keys (operations y)" "keys (effects x) \<subseteq> keys (effects y)"
    "keys (refresh_queue x) \<subseteq> keys (refresh_queue y)"
    "keys (failed_ledgers y) \<subseteq> keys (failed_ledgers x)" "keys (retry_queue y) \<subseteq> keys (retry_queue x)"
    "set (dead_letters x) \<subseteq> set (dead_letters y)"
  using assms
  by (cases rule: ledger_statements_cases;
      auto simp: statement_defs fold_refresh_queue split: if_splits sum.splits)+

lemma statements_member:
  "insert_ledger network (b_ledger b) \<in> set (ledger_statements hs now network b)"
  "t \<in> set (b_transactions b) \<Longrightarrow>
     \<exists>c. t \<in> set c \<and> insert_transactions network c \<in> set (ledger_statements hs now network b)"
  "op \<in> set (b_operations b) \<Longrightarrow>
     \<exists>c. op \<in> set c \<and> insert_operations network (l_sequence (b_ledger b)) c
       \<in> set (ledger_statements hs now network b)"
  "op \<in> set (b_operations b) \<Longrightarrow>
     process_operation hs network (l_sequence (b_ledger b)) (b_transactions b) op
       \<in> set (ledger_statements hs now network b)"
  "e \<in> set (b_effects b) \<Longrightarrow>
     \<exists>c. e \<in> set c \<and> insert_effects network (l_sequence (b_ledger b)) c
       \<in> set (ledger_statements hs now network b)"
  "a \<in> set (b_accounts b) \<Longrightarrow>
     enqueue_refreshes now network (l_sequence (b_ledger b)) (b_accounts b)
       \<in> set (ledger_statements hs now network b)"
  "(\<lambda>db. Inr (clearLedgerFailures network (l_sequence (b_ledger b)) db))
     \<in> set (ledger_statements hs now network b)"
proof -
  show "t \<in> set (b_transactions b) \<Longrightarrow>
     \<exists>c. t \<in> set c \<and> insert_transactions network c \<in> set (ledger_statements hs now network b)"
    using chunks_cover [of BATCH_CHUNK_SIZE t "b_transactions b"]
    by (auto simp: ledger_statements_def Let_def BATCH_CHUNK_SIZE_def)
  show "op \<in> set (b_operations b) \<Longrightarrow>
     \<exists>c. op \<in> set c \<and> insert_operations network (l_sequence (b_ledger b)) c
       \<in> set (ledger_statements hs now network b)"
    using chunks_cover [of BATCH_CHUNK_SIZE op "b_operations b"]
    by (auto simp: ledger_statements_def Let_def BATCH_CHUNK_SIZE_def)
  show "e \<in> set (b_effects b) \<Longrightarrow>
     \<exists>c. e \<in> set c \<and> insert_effects network (l_sequence (b_ledger b)) c
       \<in> set (ledger_statements hs now network b)"
    using chunks_cover [of BATCH_CHUNK_SIZE e "b_effects b"]
    by (auto simp: ledger_statements_def Let_def BATCH_CHUNK_SIZE_def)
qed (auto simp: ledger_statements_def Let_def)

lemma keys_rows: "keys (map (\<lambda>x. (f x, g x)) xs) = f ` set xs"
  by (induction xs) auto

lemma landed_rows:
  assumes run: "run_statements crash (ledger_statements hs now network b) db = Inr db'"
  shows "(l_sequence (b_ledger b), network) \<in> keys (ledgers db')"
    and "t \<in> set (b_transactions b) \<Longrightarrow> (t_hash t, network) \<in> keys (transactions db')"
    and "op \<in> set (b_operations b) \<Longrightarrow> (o_id op, network) \<in> keys (operations db')"
    and "e \<in> set (b_effects b) \<Longrightarrow> (e_id e, network) \<in> keys (effects db')"
    and "a \<in> set (b_accounts b) \<Longrightarrow> (network, a) \<in> keys (refresh_queue db')"
    and "(l_sequence (b_ledger b), network) \<notin> keys (failed_ledgers db') \<union> keys (retry_queue db')"
proof -
  note grow = statements_grow [where hs = hs and now = now and network = network and b = b]
  show "(l_sequence (b_ledger b), network) \<in> keys (ledgers db')"
    by (rule run_statements_establishes [OF run statements_member(1)])
      (use grow(1) in \<open>auto simp: insert_ledger_def split: if_splits\<close>)
  show "(t_hash t, network) \<in> keys (transactions db')" if t: "t \<in> set (b_transactions b)"
  proof -
    obtain c where c: "t \<in> set c" "insert_transactions network c \<in> set (ledger_statements hs now network b)"
      using statements_member(2) [OF t] by blast
    show ?thesis
      by (rule run_statements_establishes [OF run c(2)])
        (use grow(2) c(1) in \<open>auto simp: insert_transactions_def Let_def keys_rows split: if_splits\<close>)
  qed
  show "(o_id op, network) \<in> keys (operations db')" if op: "op \<in> set (b_operations b)"
  proof -
    obtain c where c: "op \<in> set c" "insert_operations network (l_sequence (b_ledger b)) c
        \<in> set (ledger_statements hs now network b)"
      using statements_member(3) [OF op] by blast
    show ?thesis
      by (rule run_statements_establishes [OF run c(2)])
        (use grow(3) c(1) in \<open>auto simp: insert_operations_def Let_def keys_rows split: if_splits\<close>)
  qed
  show "(e_id e, network) \<in> keys (effects db')" if e: "e \<in> set (b_effects b)"
  proof -
    obtain c where c: "e \<in> set c" "insert_effects network (l_sequence (b_ledger b)) c
        \<in> set (ledger_statements hs now network b)"
      using statements_member(5) [OF e] by blast
    show ?thesis
      by (rule run_statements_establishes [OF run c(2)])
        (use grow(4) c(1) in \<open>auto simp: insert_effects_def Let_def keys_rows split: if_splits\<close>)
  qed
  show "(network, a) \<in> keys (refresh_queue db')" if a: "a \<in> set (b_accounts b)"
    by (rule run_statements_establishes [OF run statements_member(6) [OF a]])
      (use grow(5) a in \<open>auto simp: enqueue_refreshes_def fold_refresh_queue split: if_splits\<close>)
  show "(l_sequence (b_ledger b), network) \<notin> keys (failed_ledgers db') \<union> keys (retry_queue db')"
    by (rule run_statements_establishes [OF run statements_member(7)])
      (use grow(6,7) in \<open>fastforce simp: clearLedgerFailures_def\<close>)+
qed

text \<open>The last three statements decide the cursor and the notification.\<close>

lemma landed_tail:
  fixes db :: "'d store"
  assumes run: "run_statements crash (ledger_statements hs now network b) db = Inr db'"
  shows "map_of (cursors db') = (map_of (cursors db))((network, Forward) \<mapsto> l_sequence (b_ledger b))"
    and "delivered db' = delivered db @ [ledger_notification network b]"
proof -
  let ?tail = "[\<lambda>db. Inr (clearLedgerFailures network (l_sequence (b_ledger b)) db),
         \<lambda>db. Inr (setIndexerCursor network Forward (l_sequence (b_ledger b)) db),
         \<lambda>db. Inr (notifyIndexed (ledger_notification network b) db)]"
  obtain body where body: "ledger_statements hs now network b = body @ ?tail"
    and keep: "\<And>s x y. s \<in> set body \<Longrightarrow> s x = Inr y \<Longrightarrow> cursors y = cursors x \<and> delivered y = delivered x"
  proof (rule that)
    show "ledger_statements hs now network b =
      (butlast (butlast (butlast (ledger_statements hs now network b)))) @ ?tail"
      by (simp add: ledger_statements_def Let_def butlast_append)
    fix s and x y :: "'d store"
    assume "s \<in> set (butlast (butlast (butlast (ledger_statements hs now network b))))" "s x = Inr y"
    then show "cursors y = cursors x \<and> delivered y = delivered x"
      by (auto simp: ledger_statements_def Let_def butlast_append statement_defs
          split: if_splits sum.splits)
  qed
  from run_statements_append [OF run [unfolded body]] obtain d where
    d: "run_statements None body db = Inr d" and db': "run_statements None ?tail d = Inr db'" by blast
  have "cursors d = cursors db \<and> delivered d = delivered db"
    using d by (rule run_statements_inv) (auto dest: keep)
  with db' show "map_of (cursors db') = (map_of (cursors db))((network, Forward) \<mapsto> l_sequence (b_ledger b))"
    "delivered db' = delivered db @ [ledger_notification network b]"
    by (auto simp: clearLedgerFailures_def setIndexerCursor_def notifyIndexed_def table_simps
        split: option.splits)
qed

end
