(* ===== verification/Ledger_Queries.thy ===== *)
theory Ledger_Queries
  imports Ledger_Store "HOL-Library.List_Lexorder" "HOL-Library.Char_ord"
begin

text \<open>
  The reads of \<open>indexer/src/db.ts\<close> that drive the indexing loops (indexed range, cursors, audit
  window, gap detection, pending retries) and the small writers beside \<open>indexLedger\<close>: failure
  records, the retry queue with its back-off, backfill progress and the account refresh queue.
\<close>

section \<open>Indexed range\<close>

definition sequences :: "string \<Rightarrow> 'd store \<Rightarrow> int list" where
  "sequences network db = map (fst \<circ> fst) (filter (\<lambda>((s, n), _). n = network) (ledgers db))"

text \<open>\<open>MAX\<close> and \<open>MIN\<close> over no rows are NULL, which the code reads as 0.\<close>

definition getLatestIndexedLedger :: "string \<Rightarrow> 'd store \<Rightarrow> int" where
  "getLatestIndexedLedger network db =
     (case sequences network db of [] \<Rightarrow> 0 | s # ss \<Rightarrow> fold max ss s)"

definition getEarliestIndexedLedger :: "string \<Rightarrow> 'd store \<Rightarrow> int" where
  "getEarliestIndexedLedger network db =
     (case sequences network db of [] \<Rightarrow> 0 | s # ss \<Rightarrow> fold min ss s)"

definition getIndexerCursor :: "string \<Rightarrow> cursor_purpose \<Rightarrow> 'd store \<Rightarrow> int option" where
  "getIndexerCursor network purpose db = map_of (cursors db) (network, purpose)"

text \<open>\<open>ORDER BY sequence DESC LIMIT windowSize\<close>, listed in ascending order.\<close>

definition recent_window :: "string \<Rightarrow> nat \<Rightarrow> 'd store \<Rightarrow> int list" where
  "recent_window network windowSize db = rev (take windowSize (rev (sort (sequences network db))))"

definition getNextLedgerForAudit :: "string \<Rightarrow> int \<Rightarrow> nat \<Rightarrow> 'd store \<Rightarrow> int option" where
  "getNextLedgerForAudit network afterSequence windowSize db =
     (case filter (\<lambda>s. afterSequence < s) (recent_window network windowSize db) of
        s # _ \<Rightarrow> Some s
      | [] \<Rightarrow> (case recent_window network windowSize db of s # _ \<Rightarrow> Some s | [] \<Rightarrow> None))"

definition getLedgerRowCounts :: "string \<Rightarrow> int \<Rightarrow> 'd store \<Rightarrow> nat \<times> nat" where
  "getLedgerRowCounts network sequence db =
     (length (filter (\<lambda>((_, n), t). n = network \<and> t_ledger t = sequence) (transactions db)),
      length (filter (\<lambda>((_, n), r). n = network \<and> or_ledger r = sequence) (operations db)))"

section \<open>Failure records and the retry queue\<close>

definition recordFailedLedger :: "int \<Rightarrow> string \<Rightarrow> int \<Rightarrow> string \<Rightarrow> nat \<Rightarrow> 'd store \<Rightarrow> 'd store" where
  "recordFailedLedger now network sequence err attemptCount db =
     (let row = \<lparr>fail_error = err, fail_attempts = attemptCount, failed_at = now\<rparr> in
      db\<lparr>failed_ledgers := insert_do_update (sequence, network) row (\<lambda>_. row) (failed_ledgers db)\<rparr>)"

definition getFailedLedgers :: "string \<Rightarrow> nat \<Rightarrow> 'd store \<Rightarrow> (int \<times> failed_row) list" where
  "getFailedLedgers network limit db =
     take limit (sort_key fst (map (\<lambda>((s, _), r). (s, r))
       (filter (\<lambda>((_, n), _). n = network) (failed_ledgers db))))"

definition MAX_RETRY_ATTEMPTS :: nat where
  "MAX_RETRY_ATTEMPTS = 10"

definition RETRY_BACKOFF_BASE_MS :: int where
  "RETRY_BACKOFF_BASE_MS = 5000"

definition retry_backoff_ms :: "nat \<Rightarrow> int" where
  "retry_backoff_ms attemptCount = min (RETRY_BACKOFF_BASE_MS * 2 ^ (attemptCount - 1)) 3600000"

definition enqueueLedgerRetry :: "int \<Rightarrow> string \<Rightarrow> int \<Rightarrow> string \<Rightarrow> 'd store \<Rightarrow> 'd store" where
  "enqueueLedgerRetry now network ledger err db =
     (let attemptCount = (case map_of (retry_queue db) (ledger, network) of
                            Some r \<Rightarrow> attempt_count r + 1 | None \<Rightarrow> 1);
          isPermanentlyFailed = (MAX_RETRY_ATTEMPTS \<le> attemptCount);
          backoffMs = retry_backoff_ms attemptCount
      in db\<lparr>retry_queue := insert_do_update (ledger, network)
           \<lparr>attempt_count = attemptCount, next_attempt_at = now + backoffMs, last_error = err,
            first_failed_at = now, last_attempted_at = now, permanently_failed = isPermanentlyFailed\<rparr>
           (\<lambda>r. r\<lparr>attempt_count := attemptCount, next_attempt_at := now + backoffMs, last_error := err,
                  last_attempted_at := now, permanently_failed := isPermanentlyFailed\<rparr>)
           (retry_queue db)\<rparr>)"

definition getPendingRetries :: "int \<Rightarrow> string \<Rightarrow> nat \<Rightarrow> 'd store \<Rightarrow> int list" where
  "getPendingRetries now network limit db =
     map (fst \<circ> fst) (take limit (sort_key (\<lambda>(_, r). next_attempt_at r)
       (filter (\<lambda>((_, n), r). n = network \<and> \<not> permanently_failed r \<and> next_attempt_at r \<le> now)
          (retry_queue db))))"

definition removeLedgerFromRetryQueue :: "string \<Rightarrow> int \<Rightarrow> 'd store \<Rightarrow> 'd store" where
  "removeLedgerFromRetryQueue network ledger db =
     db\<lparr>retry_queue := delete_where (\<lambda>k _. k = (ledger, network)) (retry_queue db)\<rparr>"

section \<open>Gaps\<close>

text \<open>
  \<open>LEAD(sequence) OVER (ORDER BY sequence)\<close> pairs every indexed sequence with the next one;
  a pair more than one apart is a range of missing ledgers.
\<close>

definition seq_gaps :: "string \<Rightarrow> 'd store \<Rightarrow> (int \<times> int) list" where
  "seq_gaps network db = (let ss = sort (sequences network db) in zip ss (tl ss))"

definition gap_ranges :: "(int \<times> int) list \<Rightarrow> (int \<times> int) list" where
  "gap_ranges ps = map (\<lambda>(s, nx). (s + 1, nx - 1)) (filter (\<lambda>(s, nx). s + 1 < nx) ps)"

definition detected_gaps :: "string \<Rightarrow> 'd store \<Rightarrow> int list" where
  "detected_gaps network db = concat (map (\<lambda>(a, z). [a..z]) (gap_ranges (seq_gaps network db)))"

definition failed_sequences :: "string \<Rightarrow> 'd store \<Rightarrow> int list" where
  "failed_sequences network db =
     map (fst \<circ> fst) (filter (\<lambda>((_, n), _). n = network) (failed_ledgers db))"

definition all_gaps :: "string \<Rightarrow> 'd store \<Rightarrow> int list" where
  "all_gaps network db = sort (remdups (detected_gaps network db @ failed_sequences network db))"

definition findLedgerGaps :: "string \<Rightarrow> nat \<Rightarrow> 'd store \<Rightarrow> int list" where
  "findLedgerGaps network limit db = take limit (all_gaps network db)"

definition countLedgerGaps :: "string \<Rightarrow> 'd store \<Rightarrow> nat" where
  "countLedgerGaps network db = length (all_gaps network db)"

section \<open>Backfill progress\<close>

definition backfill_check :: "int \<Rightarrow> int \<Rightarrow> int \<Rightarrow> bool" where
  "backfill_check startLedger endLedger current =
     (startLedger \<le> endLedger \<and> startLedger - 1 \<le> current \<and> current \<le> endLedger)"

definition getOrInitBackfillProgress ::
  "string \<Rightarrow> int \<Rightarrow> int \<Rightarrow> 'd store \<Rightarrow> (db_error + backfill_row) \<times> 'd store" where
  "getOrInitBackfillProgress network startLedger endLedger db =
     (if \<not> backfill_check startLedger endLedger endLedger
      then (Inl (CheckViolation ''backfill_progress''), db)
      else
        (let t = insert_do_nothing (network, startLedger, endLedger)
                   \<lparr>current_ledger = endLedger, completed_at = None\<rparr> (backfill_progress db)
         in (case map_of t (network, startLedger, endLedger) of
               Some r \<Rightarrow> (Inr r, db\<lparr>backfill_progress := t\<rparr>)
             | None \<Rightarrow> (Inl (Raised ''no row''), db))))"

definition update_backfill_row ::
  "int \<Rightarrow> string \<Rightarrow> int \<Rightarrow> int \<Rightarrow> int \<Rightarrow> 'd store statement" where
  "update_backfill_row now network startLedger endLedger currentLedger db =
     (if (network, startLedger, endLedger) \<in> keys (backfill_progress db)
         \<and> \<not> backfill_check startLedger endLedger currentLedger
      then Inl (CheckViolation ''backfill_progress'')
      else Inr (db\<lparr>backfill_progress :=
             update_where (\<lambda>k _. k = (network, startLedger, endLedger))
               (\<lambda>r. r\<lparr>current_ledger := currentLedger,
                      completed_at := (if currentLedger < startLedger then Some now else completed_at r)\<rparr>)
               (backfill_progress db)\<rparr>))"

definition updateBackfillProgress ::
  "nat option \<Rightarrow> int \<Rightarrow> string \<Rightarrow> int \<Rightarrow> int \<Rightarrow> int \<Rightarrow> 'd store \<Rightarrow> (db_error + unit) \<times> 'd store" where
  "updateBackfillProgress crash now network startLedger endLedger currentLedger db =
     transaction crash
       [update_backfill_row now network startLedger endLedger currentLedger,
        \<lambda>db. Inr (setIndexerCursor network Backfill currentLedger db)] db"

section \<open>Accounts and their refresh queue\<close>

definition getAccountsNeedingRefresh :: "string \<Rightarrow> string list \<Rightarrow> int \<Rightarrow> 'd store \<Rightarrow> string list" where
  "getAccountsNeedingRefresh network addresses ledger db =
     filter (\<lambda>a. case map_of (accounts db) (a, network) of
                   None \<Rightarrow> True | Some acc \<Rightarrow> a_last_modified_ledger acc < ledger) addresses"

record refresh_request =
  rq_address :: string
  rq_lastRequestedLedger :: int
  rq_lastModifiedLedger :: "int option"

text \<open>\<open>ORDER BY q.queued_at, q.address LIMIT $2\<close>.\<close>

definition getPendingAccountRefreshes :: "int \<Rightarrow> string \<Rightarrow> nat \<Rightarrow> 'd store \<Rightarrow> refresh_request list" where
  "getPendingAccountRefreshes now network limit db =
     map (\<lambda>((n, a), r). \<lparr>rq_address = a, rq_lastRequestedLedger = last_requested_ledger r,
            rq_lastModifiedLedger = map_option a_last_modified_ledger (map_of (accounts db) (a, n))\<rparr>)
       (take limit (sort_key (\<lambda>(_, r). queued_at r) (sort_key (\<lambda>((_, a), _). a)
          (filter (\<lambda>((n, _), r). n = network \<and> queued_at r \<le> now) (refresh_queue db)))))"

definition account_check :: "horizon_account \<Rightarrow> bool" where
  "account_check acc =
     (a_account_id acc \<noteq> [] \<and> a_sequence acc \<noteq> [] \<and> 0 \<le> a_subentry_count acc
      \<and> 0 < a_last_modified_ledger acc \<and> 0 \<le> a_num_sponsored acc \<and> 0 \<le> a_num_sponsoring acc)"

definition upsertAccount :: "string \<Rightarrow> horizon_account \<Rightarrow> 'd store statement" where
  "upsertAccount network acc db =
     (if \<not> account_check acc then Inl (CheckViolation ''accounts'')
      else Inr (db\<lparr>accounts := insert_do_update (a_account_id acc, network) acc (\<lambda>_. acc) (accounts db)\<rparr>))"

definition insertAccountStateHistory :: "string \<Rightarrow> horizon_account \<Rightarrow> 'd store statement" where
  "insertAccountStateHistory network acc db =
     Inr (db\<lparr>account_history :=
       insert_do_nothing (a_account_id acc, network, a_last_modified_ledger acc) acc (account_history db)\<rparr>)"

text \<open>Only a request that was not renewed since it was read is taken off the queue.\<close>

definition dequeue_refreshes :: "string \<Rightarrow> refresh_request list \<Rightarrow> 'd store statement" where
  "dequeue_refreshes network reqs db =
     Inr (db\<lparr>refresh_queue := delete_where (\<lambda>(n, a) r. n = network \<and>
        (\<exists>q \<in> set reqs. a = rq_address q \<and> last_requested_ledger r = rq_lastRequestedLedger q))
        (refresh_queue db)\<rparr>)"

definition completeAccountRefreshes ::
  "nat option \<Rightarrow> string \<Rightarrow> (refresh_request \<times> horizon_account option) list \<Rightarrow> 'd store
     \<Rightarrow> (db_error + unit) \<times> 'd store" where
  "completeAccountRefreshes crash network completed db =
     (if completed = [] then (Inr (), db)
      else transaction crash
        (concat (map (\<lambda>(_, acc). case acc of
             Some a \<Rightarrow> [upsertAccount network a, insertAccountStateHistory network a] | None \<Rightarrow> []) completed)
         @ [dequeue_refreshes network (map fst completed)]) db)"

definition deferAccountRefreshes :: "int \<Rightarrow> string \<Rightarrow> refresh_request list \<Rightarrow> 'd store \<Rightarrow> 'd store" where
  "deferAccountRefreshes now network deferred db =
     (if deferred = [] then db
      else db\<lparr>refresh_queue := update_where (\<lambda>(n, a) r. n = network \<and>
             (\<exists>q \<in> set deferred. a = rq_address q \<and> last_requested_ledger r = rq_lastRequestedLedger q))
             (\<lambda>r. r\<lparr>queued_at := now + 5000\<rparr>) (refresh_queue db)\<rparr>)"

section \<open>Gap detection computes the missing ledgers\<close>

lemma set_sequences: "set (sequences network db) = {s. (s, network) \<in> keys (ledgers db)}"
  by (force simp: sequences_def keys_def)

lemma set_failed_sequences: "set (failed_sequences network db) = {s. (s, network) \<in> keys (failed_ledgers db)}"
  by (force simp: failed_sequences_def keys_def)

text \<open>Missing integers between consecutive elements of a sorted list.\<close>

lemma lead_gaps:
  "sorted (x # xs) \<Longrightarrow>
     (\<Union>(a, z) \<in> set (gap_ranges (zip (x # xs) xs)). {a..z}) = {x..last (x # xs)} - set (x # xs)"
proof (induction xs arbitrary: x)
  case (Cons y ys)
  have IH: "(\<Union>(a, z) \<in> set (gap_ranges (zip (y # ys) ys)). {a..z}) = {y..last (y # ys)} - set (y # ys)"
    using Cons by simp
  have "(\<Union>(a, z) \<in> set (gap_ranges (zip (x # y # ys) (y # ys))). {a..z}) =
      {x + 1..y - 1} \<union> ({y..last (y # ys)} - set (y # ys))"
    using IH by (auto simp: gap_ranges_def)
  also have "\<dots> = {x..last (x # y # ys)} - set (x # y # ys)"
    using Cons.prems by (auto dest!: last_in_set simp: Suc_le_eq)
  finally show ?case .
qed (auto simp: gap_ranges_def)

lemma last_sorted_ge: "sorted (x # xs) \<Longrightarrow> y \<in> set (x # xs) \<Longrightarrow> y \<le> last (x # xs)"
proof (induction xs arbitrary: x)
  case (Cons z zs)
  then show ?case by (cases "y = x") (auto intro: order_trans)
qed simp

text \<open>The ledgers an operator would call missing: between two indexed ones, and not indexed.\<close>

definition missing :: "string \<Rightarrow> 'd store \<Rightarrow> int set" where
  "missing network db = {s. (s, network) \<notin> keys (ledgers db) \<and>
     (\<exists>lo hi. (lo, network) \<in> keys (ledgers db) \<and> (hi, network) \<in> keys (ledgers db) \<and> lo < s \<and> s < hi)}"

lemma set_detected_gaps: "set (detected_gaps network db) = missing network db"
proof (cases "sort (sequences network db)")
  case Nil
  have "set (sequences network db) = {}"
    using arg_cong [OF Nil, of set] by simp
  with Nil show ?thesis
    by (auto simp: detected_gaps_def seq_gaps_def gap_ranges_def missing_def set_sequences)
next
  case (Cons x xs)
  have sorted: "sorted (x # xs)" using sorted_sort [of "sequences network db"] Cons by simp
  have mem: "set (x # xs) = {s. (s, network) \<in> keys (ledgers db)}"
    using arg_cong [OF Cons, of set] by (simp add: set_sequences)
  have "set (detected_gaps network db) = {x..last (x # xs)} - set (x # xs)"
    using lead_gaps [OF sorted] by (simp add: detected_gaps_def seq_gaps_def Cons case_prod_unfold)
  also have "\<dots> = missing network db"
  proof (rule set_eqI)
    fix s
    have x: "x \<in> set (x # xs)" and l: "last (x # xs) \<in> set (x # xs)"
      by (simp, rule last_in_set) simp
    have lo: "x \<le> y" and hi: "y \<le> last (x # xs)" if "y \<in> set (x # xs)" for y
      using that sorted last_sorted_ge [OF sorted that] by auto
    show "s \<in> {x..last (x # xs)} - set (x # xs) \<longleftrightarrow> s \<in> missing network db"
      (is "?L \<longleftrightarrow> ?R")
    proof
      assume ?L
      then have "x < s" "s < last (x # xs)" "s \<notin> set (x # xs)"
        using x l by (auto simp: order_less_le simp del: set_simps last.simps)
      then show ?R using x l unfolding missing_def mem by blast
    next
      assume ?R
      then obtain a z where "a \<in> set (x # xs)" "z \<in> set (x # xs)" "a < s" "s < z" "s \<notin> set (x # xs)"
        unfolding missing_def mem by blast
      then show ?L using lo hi by (force simp del: set_simps last.simps)
    qed
  qed
  finally show ?thesis .
qed

lemma all_gaps_spec:
  "all_gaps network db =
     sorted_list_of_set (missing network db \<union> {s. (s, network) \<in> keys (failed_ledgers db)})"
  by (simp add: all_gaps_def sorted_list_of_set_sort_remdups [symmetric] set_detected_gaps
      set_failed_sequences)

text \<open>
  C2: the window-function query of \<open>findLedgerGaps\<close> returns, lowest first and without repetition,
  exactly the sequences between two indexed ledgers that are not indexed, together with the recorded
  failures, cut off at the limit; \<open>countLedgerGaps\<close> is their number.
\<close>

theorem findLedgerGaps_exact:
  "findLedgerGaps network limit db =
     take limit (sorted_list_of_set (missing network db \<union> {s. (s, network) \<in> keys (failed_ledgers db)}))
   \<and> countLedgerGaps network db = card (missing network db \<union> {s. (s, network) \<in> keys (failed_ledgers db)})"
  by (simp add: findLedgerGaps_def countLedgerGaps_def all_gaps_spec)

end
