(* ===== verification/Ledger_Integrity.thy ===== *)
theory Ledger_Integrity
  imports Ledger_Queries
begin

text \<open>
  What the write path guarantees of the database as a whole: a ledger lands completely or not at
  all, landing is repeatable, undecodable operations cannot block a ledger, foreign keys and primary
  keys hold in every reachable state, and one network's work is invisible to every other network.
\<close>

section \<open>Keys and references\<close>

definition tx_refs ::
  "(int \<times> string, ledger_row) table \<Rightarrow> (string \<times> string, horizon_transaction) table \<Rightarrow> bool" where
  "tx_refs ls ts = list_all (\<lambda>((h, n), t). (t_ledger t, n) \<in> keys ls) ts"

definition op_refs ::
  "(string \<times> string, horizon_transaction) table \<Rightarrow> (string \<times> string, operation_record) table \<Rightarrow> bool" where
  "op_refs ts os = list_all (\<lambda>((i, n), r). (or_transaction_hash r, n) \<in> keys ts) os"

definition store_ok :: "'d store \<Rightarrow> bool" where
  "store_ok db \<longleftrightarrow>
     keyed (ledgers db) \<and> keyed (transactions db) \<and> keyed (operations db) \<and> keyed (effects db) \<and>
     tx_refs (ledgers db) (transactions db) \<and> op_refs (transactions db) (operations db)"

lemma refs_mono:
  "tx_refs ls ts \<Longrightarrow> keys ls \<subseteq> keys ls' \<Longrightarrow> tx_refs ls' ts"
  "op_refs ts os \<Longrightarrow> keys ts \<subseteq> keys ts' \<Longrightarrow> op_refs ts' os"
  by (auto simp: tx_refs_def op_refs_def list_all_iff)

lemma refs_append [simp]:
  "tx_refs ls (ts @ us) \<longleftrightarrow> tx_refs ls ts \<and> tx_refs ls us"
  "op_refs ts (os @ ps) \<longleftrightarrow> op_refs ts os \<and> op_refs ts ps"
  by (simp_all add: tx_refs_def op_refs_def)

lemma store_ok_frame:
  "ledgers y = ledgers x \<Longrightarrow> transactions y = transactions x \<Longrightarrow> operations y = operations x \<Longrightarrow>
   keyed (effects y) \<Longrightarrow> store_ok x \<Longrightarrow> store_ok y"
  by (simp add: store_ok_def)

lemma insert_transactions_ok:
  assumes ok: "store_ok x" and ins: "insert_transactions network c x = Inr y"
  shows "store_ok y"
proof -
  let ?rows = "map (\<lambda>t. ((t_hash t, network), t)) c"
  obtain new where new: "insert_rows ?rows (transactions x) = transactions x @ new"
    "set new \<subseteq> set ?rows" "keys new \<inter> keys (transactions x) = {}"
    using insert_rows_prefix [of ?rows "transactions x"] by blast
  have "(t_ledger t, n) \<in> keys (ledgers x)" if "((h, n), t) \<in> set new" for h n t
  proof -
    have t: "t \<in> set c" "h = t_hash t" "n = network" using new(2) that by auto
    moreover have "(h, n) \<in> keys new" using that by (force simp: keys_def)
    ultimately show ?thesis
      using new(3) ins unfolding insert_transactions_Inr list_all_iff by blast
  qed
  then have "tx_refs (ledgers x) new" by (auto simp: tx_refs_def list_all_iff)
  moreover have "keyed (transactions x @ new)"
    using ok unfolding new(1) [symmetric] by (simp add: store_ok_def)
  moreover have "op_refs (transactions x @ new) (operations x)"
    using ok by (auto simp: store_ok_def intro: refs_mono(2))
  ultimately show ?thesis
    using ok ins by (simp add: insert_transactions_Inr store_ok_def new(1))
qed

lemma insert_operations_ok:
  assumes ok: "store_ok x" and ins: "insert_operations network s c x = Inr y"
  shows "store_ok y"
proof -
  let ?rows = "map (\<lambda>op. ((o_id op, network), op_record s op)) c"
  obtain new where new: "insert_rows ?rows (operations x) = operations x @ new"
    "set new \<subseteq> set ?rows" "keys new \<inter> keys (operations x) = {}"
    using insert_rows_prefix [of ?rows "operations x"] by blast
  have "(or_transaction_hash r, n) \<in> keys (transactions x)" if r: "((i, n), r) \<in> set new" for i n r
  proof -
    obtain op where op: "op \<in> set c" "i = o_id op" "n = network" "r = op_record s op"
      using subsetD [OF new(2) r] by auto
    moreover have "(i, n) \<in> keys new" using r by (force simp: keys_def)
    moreover have "or_transaction_hash r = o_transaction_hash op" using op by (simp add: op_record_def)
    ultimately show ?thesis
      using new(3) ins unfolding insert_operations_Inr list_all_iff by auto
  qed
  then have "op_refs (transactions x) new" by (auto simp: op_refs_def list_all_iff)
  moreover have "keyed (operations x @ new)"
    using ok unfolding new(1) [symmetric] by (simp add: store_ok_def)
  ultimately show ?thesis
    using ok ins by (simp add: insert_operations_Inr store_ok_def new(1))
qed

lemma ledger_statement_ok:
  assumes s: "s \<in> set (ledger_statements hs now network b)" and ok: "store_ok x" and y: "s x = Inr y"
  shows "store_ok y"
  using s
proof (cases rule: ledger_statements_cases)
  case ledger
  with ok y show ?thesis
    by (auto simp: insert_ledger_def store_ok_def split: if_splits intro: refs_mono(1))
next
  case (txs c)
  with ok y show ?thesis by (blast intro: insert_transactions_ok)
next
  case (ops c)
  with ok y show ?thesis by (blast intro: insert_operations_ok)
next
  case (process op)
  with y ok show ?thesis
    by (auto simp: store_ok_def process_operation_def recordDeadLetterOperation_def split: sum.splits)
next
  case (effects c)
  with y ok show ?thesis
    by (auto simp: store_ok_def insert_effects_def Let_def split: if_splits)
next
  case refresh
  with y ok show ?thesis by (auto simp: store_ok_def enqueue_refreshes_def split: if_splits)
next
  case clear
  with y ok show ?thesis by (auto simp: store_ok_def clearLedgerFailures_def)
next
  case cursor
  with y ok show ?thesis by (auto simp: store_ok_def setIndexerCursor_def)
next
  case notify
  with y ok show ?thesis by (auto simp: store_ok_def notifyIndexed_def)
qed

section \<open>The store's operations\<close>

datatype 'd store_op =
    IndexLedger "'d handler list" "nat option" int ledger_bundle
  | RecordFailed int int string nat
  | EnqueueRetry int int string
  | RemoveRetry int
  | SetCursor cursor_purpose int
  | InitBackfill int int
  | UpdateBackfill "nat option" int int int int
  | CompleteRefreshes "nat option" "(refresh_request \<times> horizon_account option) list"
  | DeferRefreshes int "refresh_request list"

fun apply_op :: "string \<Rightarrow> 'd store_op \<Rightarrow> 'd store \<Rightarrow> 'd store" where
  "apply_op n (IndexLedger hs crash now b) db = snd (indexLedger hs crash now n b db)"
| "apply_op n (RecordFailed now s e k) db = recordFailedLedger now n s e k db"
| "apply_op n (EnqueueRetry now s e) db = enqueueLedgerRetry now n s e db"
| "apply_op n (RemoveRetry s) db = removeLedgerFromRetryQueue n s db"
| "apply_op n (SetCursor p c) db = setIndexerCursor n p c db"
| "apply_op n (InitBackfill a z) db = snd (getOrInitBackfillProgress n a z db)"
| "apply_op n (UpdateBackfill crash now a z c) db = snd (updateBackfillProgress crash now n a z c db)"
| "apply_op n (CompleteRefreshes crash cs) db = snd (completeAccountRefreshes crash n cs db)"
| "apply_op n (DeferRefreshes now rs) db = deferAccountRefreshes now n rs db"

inductive store_step :: "'d store \<Rightarrow> 'd store \<Rightarrow> bool" where
  "store_step db (apply_op n a db)"

inductive_cases store_stepE: "store_step db db'"

lemma update_backfill_ok:
  "store_ok db \<Longrightarrow> store_ok (snd (updateBackfillProgress crash now n a z c db))"
  unfolding updateBackfillProgress_def
  by (erule transaction_inv) (auto simp: update_backfill_row_def setIndexerCursor_def store_ok_def
      split: if_splits)

lemma refresh_statements_cases [consumes 1]:
  assumes "s \<in> set (concat (map (\<lambda>(_, acc). case acc of
             Some a \<Rightarrow> [upsertAccount n a, insertAccountStateHistory n a] | None \<Rightarrow> []) cs)
         @ [dequeue_refreshes n (map fst cs)])"
  obtains (up) a where "s = upsertAccount n a" | (hist) a where "s = insertAccountStateHistory n a"
  | (deq) "s = dequeue_refreshes n (map fst cs)"
  using assms by (auto split: option.splits)

lemma complete_refreshes_ok:
  "store_ok db \<Longrightarrow> store_ok (snd (completeAccountRefreshes crash n cs db))"
proof (cases "cs = []")
  case False
  assume "store_ok db"
  then show ?thesis
    unfolding completeAccountRefreshes_def using False
    by (simp del: set_append set_concat) (erule transaction_inv, erule refresh_statements_cases,
      auto simp: upsertAccount_def insertAccountStateHistory_def dequeue_refreshes_def store_ok_def
        split: if_splits)
qed (simp add: completeAccountRefreshes_def)

lemma apply_op_ok: "store_ok db \<Longrightarrow> store_ok (apply_op n a db)"
proof (cases a)
  case (IndexLedger hs crash now b)
  assume "store_ok db"
  then show ?thesis
    unfolding IndexLedger apply_op.simps indexLedger_def
    by (rule transaction_inv) (rule ledger_statement_ok)
next
  case (UpdateBackfill crash now a' z c)
  assume "store_ok db"
  then show ?thesis by (simp add: UpdateBackfill update_backfill_ok)
next
  case (CompleteRefreshes crash cs)
  assume "store_ok db"
  then show ?thesis by (simp add: CompleteRefreshes complete_refreshes_ok)
qed (auto simp: store_ok_def deferAccountRefreshes_def recordFailedLedger_def enqueueLedgerRetry_def Let_def
    removeLedgerFromRetryQueue_def setIndexerCursor_def getOrInitBackfillProgress_def split: option.splits)

interpretation store_sys: invariant_system "\<lambda>db. \<exists>d. db = empty_store d" store_step store_ok
proof
  show "store_ok s" if "\<exists>d. s = empty_store d" for s :: "'a store"
    using that by (auto simp: empty_store_def store_ok_def keyed_def tx_refs_def op_refs_def)
  show "store_ok t" if "store_ok s" "store_step s t" for s t :: "'a store"
    using that by (auto elim!: store_stepE intro: apply_op_ok)
qed


section \<open>All or nothing\<close>

definition landed :: "string \<Rightarrow> ledger_bundle \<Rightarrow> 'd store \<Rightarrow> 'd store \<Rightarrow> bool" where
  "landed n b db db' \<longleftrightarrow>
     (l_sequence (b_ledger b), n) \<in> keys (ledgers db') \<and>
     (\<forall>t \<in> set (b_transactions b). (t_hash t, n) \<in> keys (transactions db')) \<and>
     (\<forall>op \<in> set (b_operations b). (o_id op, n) \<in> keys (operations db')) \<and>
     (\<forall>e \<in> set (b_effects b). (e_id e, n) \<in> keys (effects db')) \<and>
     (\<forall>a \<in> set (b_accounts b). (n, a) \<in> keys (refresh_queue db')) \<and>
     (l_sequence (b_ledger b), n) \<notin> keys (failed_ledgers db') \<and>
     (l_sequence (b_ledger b), n) \<notin> keys (retry_queue db') \<and>
     getIndexerCursor n Forward db' = Some (l_sequence (b_ledger b)) \<and>
     delivered db' = delivered db @ [ledger_notification n b]"

lemma indexLedger_landed:
  assumes "indexLedger hs crash now n b db = (Inr u, db')"
  shows "landed n b db db'"
proof -
  have run: "run_statements crash (ledger_statements hs now n b) db = Inr db'"
    using assms by (simp add: indexLedger_def transaction_ok)
  show ?thesis
    using landed_rows [OF run] landed_tail [OF run] by (simp add: landed_def getIndexerCursor_def)
qed


section \<open>Undecodable operations cannot block a ledger\<close>

definition bundle_ok :: "ledger_bundle \<Rightarrow> bool" where
  "bundle_ok b \<longleftrightarrow>
     0 < l_sequence (b_ledger b) \<and> 0 \<le> l_successful_count (b_ledger b) + l_failed_count (b_ledger b) \<and>
     0 \<le> l_operation_count (b_ledger b) \<and>
     list_all tx_check (b_transactions b) \<and>
     list_all (\<lambda>t. t_ledger t = l_sequence (b_ledger b)) (b_transactions b) \<and>
     list_all (op_check (l_sequence (b_ledger b))) (b_operations b) \<and>
     list_all (\<lambda>op. o_transaction_hash op \<in> t_hash ` set (b_transactions b)) (b_operations b) \<and>
     list_all (\<lambda>e. e_id e \<noteq> [] \<and> e_type e \<noteq> []) (b_effects b) \<and>
     distinct (b_accounts b)"

lemma list_all_subset: "list_all P xs \<Longrightarrow> set ys \<subseteq> set xs \<Longrightarrow> list_all P ys"
  by (auto simp: list_all_iff)

lemma transactions_phase:
  fixes db :: "'d store"
  assumes "bundle_ok b" and "(l_sequence (b_ledger b), n) \<in> keys (ledgers db)"
  obtains d where
    "run_statements None (map (insert_transactions n) (chunks BATCH_CHUNK_SIZE (b_transactions b))) db = Inr d"
    "\<And>t. t \<in> set (b_transactions b) \<Longrightarrow> (t_hash t, n) \<in> keys (transactions d)"
proof -
  let ?ss = "map (insert_transactions n) (chunks BATCH_CHUNK_SIZE (b_transactions b)) :: 'd store statement list"
  have "\<exists>d. run_statements None ?ss db = Inr d \<and> (l_sequence (b_ledger b), n) \<in> keys (ledgers d)"
  proof (rule run_statements_total)
    fix s and x :: "'d store"
    assume "s \<in> set ?ss" and x: "(l_sequence (b_ledger b), n) \<in> keys (ledgers x)"
    then obtain c where s: "s = insert_transactions n c" and "set c \<subseteq> set (b_transactions b)"
      by (auto dest: chunks_subset)
    with assms(1) have "list_all tx_check c" "list_all (\<lambda>t. t_ledger t = l_sequence (b_ledger b)) c"
      by (auto simp: bundle_ok_def intro: list_all_subset)
    with x show "\<exists>y. s x = Inr y \<and> (l_sequence (b_ledger b), n) \<in> keys (ledgers y)"
      unfolding s insert_transactions_Inr by (auto simp: list_all_iff)
  qed (fact assms(2))
  then obtain d where d: "run_statements None ?ss db = Inr d" by blast
  moreover have "(t_hash t, n) \<in> keys (transactions d)" if t: "t \<in> set (b_transactions b)" for t
  proof -
    obtain c where c: "c \<in> set (chunks BATCH_CHUNK_SIZE (b_transactions b))" "t \<in> set c"
      using chunks_cover [OF _ t, of BATCH_CHUNK_SIZE] by (auto simp: BATCH_CHUNK_SIZE_def)
    show ?thesis
    proof (rule run_statements_establishes [OF d])
      show "insert_transactions n c \<in> set ?ss" using c by simp
    qed (use c(2) in \<open>auto simp: insert_transactions_Inr keys_rows\<close>)
  qed
  ultimately show ?thesis by (rule that)
qed

lemma operations_phase:
  fixes db :: "'d store"
  assumes "bundle_ok b" and txs: "\<And>t. t \<in> set (b_transactions b) \<Longrightarrow> (t_hash t, n) \<in> keys (transactions db)"
  obtains d where
    "run_statements None (map (insert_operations n (l_sequence (b_ledger b)))
       (chunks BATCH_CHUNK_SIZE (b_operations b))) db = Inr d"
proof -
  let ?ss = "map (insert_operations n (l_sequence (b_ledger b)))
      (chunks BATCH_CHUNK_SIZE (b_operations b)) :: 'd store statement list"
  let ?P = "\<lambda>x :: 'd store. \<forall>t \<in> set (b_transactions b). (t_hash t, n) \<in> keys (transactions x)"
  have "\<exists>d. run_statements None ?ss db = Inr d \<and> ?P d"
  proof (rule run_statements_total)
    fix s and x :: "'d store"
    assume "s \<in> set ?ss" and x: "?P x"
    then obtain c where s: "s = insert_operations n (l_sequence (b_ledger b)) c"
      and "set c \<subseteq> set (b_operations b)"
      by (auto dest: chunks_subset)
    with assms(1) have "list_all (op_check (l_sequence (b_ledger b))) c"
      "list_all (\<lambda>op. o_transaction_hash op \<in> t_hash ` set (b_transactions b)) c"
      by (auto simp: bundle_ok_def intro: list_all_subset)
    with x show "\<exists>y. s x = Inr y \<and> ?P y"
      unfolding s insert_operations_Inr by (fastforce simp: list_all_iff)
  qed (use txs in blast)
  then show ?thesis using that by blast
qed

lemma remaining_phase:
  assumes "bundle_ok b" and "s = l_sequence (b_ledger b)"
  shows "\<exists>d. run_statements None
      (map (process_operation hs n s (b_transactions b)) (b_operations b)
       @ map (insert_effects n s) (chunks BATCH_CHUNK_SIZE (b_effects b))
       @ (if b_accounts b \<noteq> [] then [enqueue_refreshes now n s (b_accounts b)] else [])
       @ [\<lambda>db. Inr (clearLedgerFailures n s db), \<lambda>db. Inr (setIndexerCursor n Forward s db),
          \<lambda>db. Inr (notifyIndexed (ledger_notification n b) db)]) db = Inr d"
    (is "\<exists>d. run_statements None ?ss db = Inr d")
proof -
  have "\<exists>d. run_statements None ?ss db = Inr d \<and> True"
  proof (rule run_statements_total)
    fix st x assume "st \<in> set ?ss"
    then consider op where "st = process_operation hs n s (b_transactions b) op"
      | c where "st = insert_effects n s c" "set c \<subseteq> set (b_effects b)"
      | "st = enqueue_refreshes now n s (b_accounts b)"
      | "\<exists>y. st x = Inr y"
      by (auto split: if_splits dest: chunks_subset)
    then show "\<exists>y. st x = Inr y \<and> True"
    proof cases
      case (2 c)
      with assms(1) have "list_all (\<lambda>e. e_id e \<noteq> [] \<and> e_type e \<noteq> []) c"
        by (auto simp: bundle_ok_def intro: list_all_subset)
      with 2 show ?thesis by (simp add: insert_effects_def Let_def)
    qed (use assms(1) in \<open>auto simp: process_operation_def enqueue_refreshes_def bundle_ok_def
        split: sum.splits\<close>)
  qed simp
  then show ?thesis by blast
qed

lemma indexLedger_total:
  assumes b: "bundle_ok b"
  shows "\<exists>db'. indexLedger hs None now n b db = (Inr (), db')"
proof -
  obtain d1 where d1: "insert_ledger n (b_ledger b) db = Inr d1"
    "(l_sequence (b_ledger b), n) \<in> keys (ledgers d1)"
    using b by (simp add: insert_ledger_def bundle_ok_def)
  obtain d2 where d2: "run_statements None (map (insert_transactions n)
      (chunks BATCH_CHUNK_SIZE (b_transactions b))) d1 = Inr d2"
    "\<And>t. t \<in> set (b_transactions b) \<Longrightarrow> (t_hash t, n) \<in> keys (transactions d2)"
    using transactions_phase [OF b d1(2)] by blast
  obtain d3 where d3: "run_statements None (map (insert_operations n (l_sequence (b_ledger b)))
      (chunks BATCH_CHUNK_SIZE (b_operations b))) d2 = Inr d3"
    using operations_phase [OF b d2(2)] by blast
  obtain d4 where "run_statements None (ledger_statements hs now n b) db = Inr d4"
    using remaining_phase [OF b refl, of hs n now d3] d1(1) d2(1) d3
    by (auto simp: ledger_statements_def Let_def run_statements_None_append)
  then show ?thesis by (simp add: indexLedger_def transaction_def)
qed

text \<open>
  C3: a ledger whose own rows are well formed always lands when the connection holds, whatever the
  decoders do; an operation that its decoders reject is kept in the dead-letter table.
\<close>

theorem poison_operation_never_blocks:
  assumes "bundle_ok b"
  shows "\<exists>db'. indexLedger hs None now n b db = (Inr (), db') \<and> landed n b db db' \<and>
    (\<forall>op \<in> set (b_operations b).
       (\<forall>d. \<exists>e. run_handlers hs n (l_sequence (b_ledger b)) op
              (transactionsByHash (b_transactions b) (o_transaction_hash op)) d = Inl e) \<longrightarrow>
       (\<exists>l \<in> set (dead_letters db'). dl_network l = n \<and> dl_ledger l = l_sequence (b_ledger b) \<and>
          dl_operation_id l = o_id op \<and> dl_payload l = o_json op \<and> \<not> dl_processed l))"
proof -
  obtain db' where db': "indexLedger hs None now n b db = (Inr (), db')"
    using indexLedger_total [OF assms] by blast
  have run: "run_statements None (ledger_statements hs now n b) db = Inr db'"
    using db' by (simp add: indexLedger_def transaction_ok)
  have "\<exists>l \<in> set (dead_letters db'). dl_network l = n \<and> dl_ledger l = l_sequence (b_ledger b) \<and>
          dl_operation_id l = o_id op \<and> dl_payload l = o_json op \<and> \<not> dl_processed l"
    if op: "op \<in> set (b_operations b)" and bad: "\<forall>d. \<exists>e. run_handlers hs n (l_sequence (b_ledger b)) op
              (transactionsByHash (b_transactions b) (o_transaction_hash op)) d = Inl e" for op
  proof (rule run_statements_establishes [OF run statements_member(4) [OF op]])
    fix x y assume "process_operation hs n (l_sequence (b_ledger b)) (b_transactions b) op x = Inr y"
    with bad [rule_format, of "derived x"]
    show "\<exists>l \<in> set (dead_letters y). dl_network l = n \<and> dl_ledger l = l_sequence (b_ledger b) \<and>
          dl_operation_id l = o_id op \<and> dl_payload l = o_json op \<and> \<not> dl_processed l"
      by (auto simp: process_operation_def recordDeadLetterOperation_def)
  qed (meson statements_grow(8) subsetD)
  with db' indexLedger_landed [OF db'] show ?thesis by blast
qed

section \<open>Landing again\<close>

lemma landing_again_keeps_rows:
  assumes "indexLedger hs crash now n b db = (Inr (), db')"
  shows "ledgers (snd (indexLedger hs' crash' now' n b db')) = ledgers db' \<and>
    transactions (snd (indexLedger hs' crash' now' n b db')) = transactions db' \<and>
    operations (snd (indexLedger hs' crash' now' n b db')) = operations db' \<and>
    effects (snd (indexLedger hs' crash' now' n b db')) = effects db'"
  unfolding indexLedger_def
proof (rule transaction_inv)
  let ?P = "\<lambda>x :: 'a store. ledgers x = ledgers db' \<and> transactions x = transactions db' \<and>
    operations x = operations db' \<and> effects x = effects db'"
  have l: "landed n b db db'" using assms by (rule indexLedger_landed)
  fix s and x y :: "'a store"
  assume s: "s \<in> set (ledger_statements hs' now' n b)" "s x = Inr y" and x: "?P x"
  from s(1) show "?P y"
    by (cases rule: ledger_statements_cases;
      use s(2) l x in \<open>auto simp: statement_defs landed_def insert_do_nothing_present keys_rows subset_iff
        intro!: insert_rows_present split: if_splits sum.splits\<close>)
qed simp

text \<open>
  C5: landing a ledger a second time (after a retry, a backfill or a gap repair has already landed
  it) changes no ledger, transaction, operation or effect row.
\<close>

theorem indexLedger_idempotent:
  assumes "indexLedger hs crash now n b db = (Inr (), db')"
  shows "ledgers (snd (indexLedger hs' crash' now' n b db')) = ledgers db' \<and>
    transactions (snd (indexLedger hs' crash' now' n b db')) = transactions db' \<and>
    operations (snd (indexLedger hs' crash' now' n b db')) = operations db' \<and>
    effects (snd (indexLedger hs' crash' now' n b db')) = effects db'"
  using assms by (rule landing_again_keeps_rows)

section \<open>Networks do not see each other\<close>

text \<open>Everything a query scoped to one network can read of the modelled tables.\<close>

record network_rows =
  v_ledgers :: "((int \<times> string) \<times> ledger_row) list"
  v_transactions :: "((string \<times> string) \<times> horizon_transaction) list"
  v_operations :: "((string \<times> string) \<times> operation_record) list"
  v_effects :: "((string \<times> string) \<times> effect_record) list"
  v_accounts :: "((string \<times> string) \<times> horizon_account) list"
  v_history :: "((string \<times> string \<times> int) \<times> horizon_account) list"
  v_refresh :: "((string \<times> string) \<times> refresh_row) list"
  v_failed :: "((int \<times> string) \<times> failed_row) list"
  v_retry :: "((int \<times> string) \<times> retry_row) list"
  v_cursors :: "((string \<times> cursor_purpose) \<times> int) list"
  v_backfill :: "((string \<times> int \<times> int) \<times> backfill_row) list"
  v_dead :: "dead_letter list"
  v_notified :: "indexed_notification list"

definition network_view :: "string \<Rightarrow> 'd store \<Rightarrow> network_rows" where
  "network_view m db =
     \<lparr>v_ledgers = filter (\<lambda>r. snd (fst r) = m) (ledgers db),
      v_transactions = filter (\<lambda>r. snd (fst r) = m) (transactions db),
      v_operations = filter (\<lambda>r. snd (fst r) = m) (operations db),
      v_effects = filter (\<lambda>r. snd (fst r) = m) (effects db),
      v_accounts = filter (\<lambda>r. snd (fst r) = m) (accounts db),
      v_history = filter (\<lambda>r. fst (snd (fst r)) = m) (account_history db),
      v_refresh = filter (\<lambda>r. fst (fst r) = m) (refresh_queue db),
      v_failed = filter (\<lambda>r. snd (fst r) = m) (failed_ledgers db),
      v_retry = filter (\<lambda>r. snd (fst r) = m) (retry_queue db),
      v_cursors = filter (\<lambda>r. fst (fst r) = m) (cursors db),
      v_backfill = filter (\<lambda>r. fst (fst r) = m) (backfill_progress db),
      v_dead = filter (\<lambda>l. dl_network l = m) (dead_letters db),
      v_notified = filter (\<lambda>e. n_network e = m) (delivered db)\<rparr>"

lemmas untouched = filter_untouched [where Q = "\<lambda>k. fst k = m" for m]
  filter_untouched [where Q = "\<lambda>k. snd k = m" for m]
  filter_insert_rows_untouched [where Q = "\<lambda>k. snd k = m" and f = "\<lambda>x. (h x, n)" for m h n]

lemmas untouched_history = filter_untouched(1) [where Q = "\<lambda>k. fst (snd k) = m" for m]

lemma refresh_rows_untouched:
  assumes "m \<noteq> n"
  shows "filter (\<lambda>r. fst (fst r) = m) (delete_where (\<lambda>(n', a) r. n' = n \<and> P a r) t) = filter (\<lambda>r. fst (fst r) = m) t"
    "filter (\<lambda>r. fst (fst r) = m) (update_where (\<lambda>(n', a) r. n' = n \<and> P a r) f t) = filter (\<lambda>r. fst (fst r) = m) t"
  using assms unfolding delete_where_def update_where_def by (induction t) auto

lemma complete_refreshes_frame:
  assumes "m \<noteq> n"
  shows "network_view m (snd (completeAccountRefreshes crash n cs db)) = network_view m db"
proof (cases "cs = []")
  case False
  have step: "network_view m y = network_view m x" if "s \<in> set (concat (map (\<lambda>(_, acc). case acc of
             Some a \<Rightarrow> [upsertAccount n a, insertAccountStateHistory n a] | None \<Rightarrow> []) cs)
         @ [dequeue_refreshes n (map fst cs)])" "s x = Inr y" for s and x y :: "'a store"
    using that(1)
    by (cases rule: refresh_statements_cases; use that(2) assms assms [symmetric] in
        \<open>auto simp: upsertAccount_def insertAccountStateHistory_def dequeue_refreshes_def network_view_def
          untouched untouched_history refresh_rows_untouched split: if_splits\<close>)
  show ?thesis
    unfolding completeAccountRefreshes_def using False
    by (simp del: set_append set_concat)
      (rule transaction_inv [where P = "\<lambda>x. network_view m x = network_view m db"], use step in \<open>auto simp del: set_append set_concat\<close>)
qed (simp add: completeAccountRefreshes_def)

lemma fold_refresh_untouched:
  "m \<noteq> n \<Longrightarrow> filter (\<lambda>r. fst (fst r) = m) (refresh_queue (fold (request_refresh now n s) as db)) =
     filter (\<lambda>r. fst (fst r) = m) (refresh_queue db)"
  by (induction as arbitrary: db) (simp_all add: request_refresh_def untouched)

lemma ledger_statement_frame:
  assumes "s \<in> set (ledger_statements hs now n b)" "s x = Inr y" "m \<noteq> n"
  shows "network_view m y = network_view m x"
  using assms(1)
  by (cases rule: ledger_statements_cases;
      use assms(2,3) assms(3) [symmetric] in \<open>auto simp: statement_defs network_view_def untouched keys_rows
        fold_refresh_untouched ledger_notification_def split: if_splits sum.splits\<close>)

lemma set_cursor_frame:
  "m \<noteq> n \<Longrightarrow> network_view m (setIndexerCursor n p c db) = network_view m db"
  by (simp add: network_view_def setIndexerCursor_def untouched Let_def split: option.splits)

lemma update_backfill_frame:
  "update_backfill_row now n a z c db = Inr db' \<Longrightarrow> m \<noteq> n \<Longrightarrow> network_view m db' = network_view m db"
  by (auto simp add: network_view_def update_backfill_row_def untouched split: if_split_asm)

lemma apply_op_frame:
  assumes "m \<noteq> n"
  shows "network_view m (apply_op n a db) = network_view m db"
proof (cases a)
  case (IndexLedger hs crash now b)
  show ?thesis
    unfolding IndexLedger apply_op.simps indexLedger_def
    by (rule transaction_inv [where P = "\<lambda>x. network_view m x = network_view m db"])
      (auto dest: ledger_statement_frame [OF _ _ assms])
next
  case (UpdateBackfill crash now a' z c)
  show ?thesis
    unfolding UpdateBackfill apply_op.simps updateBackfillProgress_def
    by (rule transaction_inv [where P = "\<lambda>x. network_view m x = network_view m db"])
      (auto simp: set_cursor_frame [OF assms] dest: update_backfill_frame [OF _ assms])
next
  case (CompleteRefreshes crash cs)
  then show ?thesis by (simp add: complete_refreshes_frame [OF assms])
next
  case (SetCursor p c)
  then show ?thesis by (simp add: set_cursor_frame [OF assms])
qed (use assms assms [symmetric] in \<open>simp_all add: network_view_def deferAccountRefreshes_def
    refresh_rows_untouched recordFailedLedger_def enqueueLedgerRetry_def Let_def
    removeLedgerFromRetryQueue_def getOrInitBackfillProgress_def untouched
    split: option.splits\<close>)

interpretation networks: network_store apply_op network_view
  by unfold_locales (rule apply_op_frame)

text \<open>
  C6: whatever the other networks' loops write, in any order and interleaving and with any
  failures, a network's own ledgers, transactions, operations, effects, queues, cursors, backfill
  progress, dead letters and notifications stay as they were.
\<close>

theorem networks_isolated:
  assumes "\<forall>(n, a) \<in> set ops. n \<noteq> m"
  shows "network_view m (fold (\<lambda>(n, a). apply_op n a) ops db) = network_view m db"
  using assms by (rule networks.frame_many)

section \<open>A concrete ledger\<close>

definition sample_bundle :: ledger_bundle where
  "sample_bundle =
     \<lparr>b_ledger = \<lparr>l_sequence = 42, l_closed_at = 1000, l_successful_count = 1, l_failed_count = 0,
        l_operation_count = 1, l_base_fee = 100, l_base_reserve = 5000000\<rparr>,
      b_transactions = [\<lparr>t_hash = ''ab'', t_ledger = 42, t_created_at = 1000, t_source_account = ''GA'',
        t_fee_charged = 100, t_operation_count = 1, t_successful = True, t_memo_type = None, t_memo = None,
        t_source_account_sequence = None\<rparr>],
      b_operations = [\<lparr>o_id = ''7'', o_type = ''payment'', o_transaction_hash = ''ab'', o_created_at = 1000,
        o_source_account = ''GA'', o_json = ''{}'', o_fields = []\<rparr>],
      b_effects = [], b_accounts = [''GA'']\<rparr>"

definition rejecting_decoder :: "unit handler" where
  "rejecting_decoder network s op tx d = Inl ''unsupported''"

lemma sample_bundle_ok: "bundle_ok sample_bundle"
  by (simp add: bundle_ok_def sample_bundle_def tx_check_def op_check_def)


theorem poison_operation_never_blocks_witness:
  "\<exists>db'. indexLedger [rejecting_decoder] None 0 ''mainnet'' sample_bundle (empty_store ()) = (Inr (), db')
     \<and> (\<exists>l \<in> set (dead_letters db'). dl_operation_id l = ''7'')"
  using poison_operation_never_blocks [OF sample_bundle_ok,
      of "[rejecting_decoder]" 0 "''mainnet''" "empty_store ()"]
  by (auto simp: sample_bundle_def rejecting_decoder_def)

theorem indexLedger_idempotent_witness:
  "\<exists>db'. indexLedger [] None 0 ''mainnet'' sample_bundle (empty_store ()) = (Inr (), db')
     \<and> transactions (snd (indexLedger [] (Some 3) 9 ''mainnet'' sample_bundle db')) = transactions db'"
proof -
  obtain db' where "indexLedger [] None 0 ''mainnet'' sample_bundle (empty_store ()) = (Inr (), db')"
    using indexLedger_total [OF sample_bundle_ok] by blast
  with indexLedger_idempotent [OF this] show ?thesis by blast
qed

theorem networks_isolated_witness:
  "network_view ''mainnet'' (fold (\<lambda>(n, a). apply_op n a)
     [(''testnet'', SetCursor Forward 5), (''futurenet'', EnqueueRetry 0 7 ''timeout'')] (empty_store ())) =
   network_view ''mainnet'' (empty_store ())"
  by (rule networks_isolated) simp

end
