(* ===== verification/Ledger_Drivers.thy ===== *)
theory Ledger_Drivers
  imports Lumina_Prelude Complex_Main
begin

text \<open>
  The loops of \<open>indexer/src/index.ts\<close> and \<open>retryWorker.ts\<close> that decide which ledger is indexed
  next: inline retries with jittered back-off, forward catch-up, gap repair, the retry worker's
  pass and the backward backfill walk. As in the code, the function that indexes one ledger is an
  argument (\<open>indexOne\<close>); what they rely on is the interface \<open>ledger_sink\<close>. The world \<open>'w\<close> is
  whatever \<open>indexOne\<close> reads and changes.
\<close>

section \<open>Inline retries\<close>

datatype index_error = HorizonUnavailable string | OtherError string

definition err_message :: "index_error \<Rightarrow> string" where
  "err_message e = (case e of HorizonUnavailable m \<Rightarrow> m | OtherError m \<Rightarrow> m)"

text \<open>\<open>draw\<close> is the value of \<open>randomFn()\<close>. \<open>baseMs\<close> and \<open>maxDelayMs\<close> are whole milliseconds.\<close>

definition calculateBackoffWithJitter :: "int \<Rightarrow> nat \<Rightarrow> int \<Rightarrow> rat \<Rightarrow> int" where
  "calculateBackoffWithJitter baseMs attempt maxDelayMs draw =
     (if baseMs \<le> 0 then 0
      else (let ceiling = min maxDelayMs (baseMs * 2 ^ (attempt - 1));
                half = ceiling div 2
            in min ceiling (half + \<lfloor>draw * of_int (ceiling - half + 1)\<rfloor>)))"

text \<open>
  \<open>fetchAndIndexLedgerWithRetry\<close>. \<open>recordFailed\<close> never throws (the default swallows its error);
  \<open>enqueueRetry\<close> may, and then the error propagates. \<open>sleepFn\<close> is what the world does meanwhile.
\<close>

record 'w retry_env =
  r_indexOne :: "int \<Rightarrow> 'w \<Rightarrow> (index_error + unit) \<times> 'w"
  r_recordFailed :: "int \<Rightarrow> string \<Rightarrow> nat \<Rightarrow> 'w \<Rightarrow> 'w"
  r_enqueueRetry :: "int \<Rightarrow> string \<Rightarrow> 'w \<Rightarrow> (string + unit) \<times> 'w"
  r_sleep :: "int \<Rightarrow> 'w \<Rightarrow> 'w"
  r_draw :: "'w \<Rightarrow> rat"
  r_attempts :: nat
  r_baseMs :: int

function retry_from :: "'w retry_env \<Rightarrow> int \<Rightarrow> nat \<Rightarrow> 'w \<Rightarrow> (string + bool) \<times> 'w" where
  "retry_from env sequence attempt w =
     (if r_attempts env < attempt then (Inr False, w)
      else (case r_indexOne env sequence w of
              (Inr _, w1) \<Rightarrow> (Inr True, w1)
            | (Inl err, w1) \<Rightarrow>
                if attempt = r_attempts env then
                  (case err of
                     HorizonUnavailable _ \<Rightarrow> (Inr False, w1)
                   | OtherError m \<Rightarrow>
                       (let w2 = r_recordFailed env sequence m attempt w1 in
                        case r_enqueueRetry env sequence m w2 of
                          (Inl e, w3) \<Rightarrow> (Inl e, w3)
                        | (Inr _, w3) \<Rightarrow> (Inr False, w3)))
                else retry_from env sequence (attempt + 1)
                       (r_sleep env (calculateBackoffWithJitter (r_baseMs env) attempt 30000 (r_draw env w1)) w1)))"
  by pat_completeness auto
termination
  by (relation "measure (\<lambda>(env, s, a, w). r_attempts env + 1 - a)") auto

declare retry_from.simps [simp del]

definition fetchAndIndexLedgerWithRetry ::
  "'w retry_env \<Rightarrow> int \<Rightarrow> 'w \<Rightarrow> (string + bool) \<times> 'w" where
  "fetchAndIndexLedgerWithRetry env sequence w = retry_from env sequence 1 w"

section \<open>Catch-up, gap repair, retry worker, backfill\<close>

text \<open>
  The loop re-reads \<open>isShuttingDown\<close> before every ledger. A throw propagates; the cursor reached
  so far is the one \<open>onAdvanced\<close> was last told.
\<close>

function runLedgerCatchUp ::
  "('w \<Rightarrow> bool) \<Rightarrow> (int \<Rightarrow> 'w \<Rightarrow> ('e + bool) \<times> 'w) \<Rightarrow> int \<Rightarrow> int \<Rightarrow> 'w \<Rightarrow> 'e option \<times> int \<times> 'w" where
  "runLedgerCatchUp shut indexOne cursor latest w =
     (if latest < cursor + 1 \<or> shut w then (None, cursor, w)
      else (case indexOne (cursor + 1) w of
              (Inl e, w') \<Rightarrow> (Some e, cursor, w')
            | (Inr False, w') \<Rightarrow> (None, cursor, w')
            | (Inr True, w') \<Rightarrow> runLedgerCatchUp shut indexOne (cursor + 1) latest w'))"
  by pat_completeness auto
termination
  by (relation "measure (\<lambda>(_, _, c, l, _). nat (l - c))") auto

declare runLedgerCatchUp.simps [simp del]

text \<open>The loop over the detected gaps: the sequences that were indexed, in order.\<close>

fun repair_each ::
  "('w \<Rightarrow> bool) \<Rightarrow> (int \<Rightarrow> 'w \<Rightarrow> ('e + bool) \<times> 'w) \<Rightarrow> int list \<Rightarrow> 'w \<Rightarrow> ('e + int list) \<times> 'w" where
  "repair_each shut indexOne [] w = (Inr [], w)"
| "repair_each shut indexOne (s # ss) w =
     (if shut w then (Inr [], w)
      else (case indexOne s w of
              (Inl e, w') \<Rightarrow> (Inl e, w')
            | (Inr ok, w') \<Rightarrow>
                (case repair_each shut indexOne ss w' of
                   (Inl e, w'') \<Rightarrow> (Inl e, w'')
                 | (Inr repaired, w'') \<Rightarrow> (Inr (if ok then s # repaired else repaired), w''))))"

definition repairLedgerGaps ::
  "('w \<Rightarrow> nat) \<Rightarrow> ('w \<Rightarrow> nat \<Rightarrow> int list) \<Rightarrow> ('w \<Rightarrow> bool) \<Rightarrow> (int \<Rightarrow> 'w \<Rightarrow> ('e + bool) \<times> 'w)
     \<Rightarrow> nat \<Rightarrow> 'w \<Rightarrow> ('e + nat \<times> nat) \<times> 'w" where
  "repairLedgerGaps countGaps findGaps shut indexOne batchLimit w =
     (let initialGapCount = countGaps w in
      if initialGapCount = 0 then (Inr (0, 0), w)
      else (case repair_each shut indexOne (findGaps w batchLimit) w of
              (Inl e, w') \<Rightarrow> (Inl e, w')
            | (Inr repaired, w') \<Rightarrow> (Inr (initialGapCount, length repaired), w')))"

text \<open>
  \<open>RetryWorker.processRetries\<close>: a throw of one ledger is logged and the next one is tried.
\<close>

fun retry_each ::
  "('w \<Rightarrow> bool) \<Rightarrow> (int \<Rightarrow> 'w \<Rightarrow> ('e + bool) \<times> 'w) \<Rightarrow> (int \<Rightarrow> 'w \<Rightarrow> 'w) \<Rightarrow> int list \<Rightarrow> 'w \<Rightarrow> 'w" where
  "retry_each stopped indexOne remove [] w = w"
| "retry_each stopped indexOne remove (s # ss) w =
     (if stopped w then w
      else (case indexOne s w of
              (Inr True, w') \<Rightarrow> retry_each stopped indexOne remove ss (remove s w')
            | (_, w') \<Rightarrow> retry_each stopped indexOne remove ss w'))"

definition processRetries ::
  "('w \<Rightarrow> nat \<Rightarrow> int list) \<Rightarrow> ('w \<Rightarrow> bool) \<Rightarrow> (int \<Rightarrow> 'w \<Rightarrow> ('e + bool) \<times> 'w) \<Rightarrow> (int \<Rightarrow> 'w \<Rightarrow> 'w)
     \<Rightarrow> 'w \<Rightarrow> 'w" where
  "processRetries pending stopped indexOne remove w =
     retry_each stopped indexOne remove (pending w 10) w"

text \<open>
  The walk of \<open>runBackfillWorker\<close>. It pauses and tries the same ledger again after a failure, so it
  need not end: \<open>fuel\<close> bounds the number of iterations and the result says where the walk is.
  \<open>save\<close> is \<open>updateBackfillProgress\<close>; a failed save is retried with the ledger.
\<close>

fun backfill_walk ::
  "('w \<Rightarrow> bool) \<Rightarrow> (int \<Rightarrow> 'w \<Rightarrow> ('e + bool) \<times> 'w) \<Rightarrow> (int \<Rightarrow> 'w \<Rightarrow> bool \<times> 'w) \<Rightarrow> int \<Rightarrow> nat \<Rightarrow> int \<Rightarrow> 'w
     \<Rightarrow> int \<times> 'w" where
  "backfill_walk shut indexOne save startLedger 0 at_ledger w = (at_ledger, w)"
| "backfill_walk shut indexOne save startLedger (Suc fuel) at_ledger w =
     (if at_ledger < startLedger \<or> shut w then (at_ledger, w)
      else (case indexOne at_ledger w of
              (Inr True, w') \<Rightarrow>
                (case save (at_ledger - 1) w' of
                   (True, w'') \<Rightarrow> backfill_walk shut indexOne save startLedger fuel (at_ledger - 1) w''
                 | (False, w'') \<Rightarrow> backfill_walk shut indexOne save startLedger fuel at_ledger w'')
            | (_, w') \<Rightarrow> backfill_walk shut indexOne save startLedger fuel at_ledger w'))"

section \<open>Interface: a sink that indexes one ledger at a time\<close>

text \<open>
  \<open>served s\<close> says that the upstream answers a request for ledger \<open>s\<close> with ledger \<open>s\<close>. The
  provider promises that a successful call indexes the ledger and records no failure for it, and
  that nothing indexed is ever lost or marked failed again by work on another ledger.
\<close>

locale ledger_sink =
  fixes index_one :: "int \<Rightarrow> 'w \<Rightarrow> ('e + bool) \<times> 'w"
    and indexed :: "'w \<Rightarrow> int \<Rightarrow> bool"
    and failing :: "'w \<Rightarrow> int \<Rightarrow> bool"
    and served :: "int \<Rightarrow> bool"
  assumes index_ok: "index_one s w = (Inr True, w') \<Longrightarrow> served s \<Longrightarrow> indexed w' s \<and> \<not> failing w' s"
    and index_keep: "index_one s w = (r, w') \<Longrightarrow> indexed w t \<Longrightarrow> indexed w' t"
    and failing_keep: "index_one s w = (r, w') \<Longrightarrow> s \<noteq> t \<Longrightarrow> \<not> failing w t \<Longrightarrow> \<not> failing w' t"
begin

lemma catch_up_no_gap:
  assumes "runLedgerCatchUp shut index_one c l w = (e, c', w')" "\<forall>s. c < s \<and> s \<le> l \<longrightarrow> served s"
  shows "c \<le> c' \<and> c' \<le> max c l \<and> (\<forall>s. c < s \<and> s \<le> c' \<longrightarrow> indexed w' s) \<and>
    (\<forall>s. indexed w s \<longrightarrow> indexed w' s)"
  using assms
proof (induction "nat (l - c)" arbitrary: c w rule: less_induct)
  case less
  show ?case
  proof (cases "l < c + 1 \<or> shut w")
    case True
    with less.prems(1) show ?thesis by (subst (asm) runLedgerCatchUp.simps) auto
  next
    case False
    then have served: "served (c + 1)" using less.prems(2) by auto
    obtain r w1 where i: "index_one (c + 1) w = (r, w1)" by force
    note keep = index_keep [OF i]
    consider (err) e' where "r = Inl e'" | (no) "r = Inr False" | (yes) "r = Inr True"
      by (cases r) auto
    then show ?thesis
    proof cases
      case yes
      have "runLedgerCatchUp shut index_one (c + 1) l w1 = (e, c', w')"
        using less.prems(1) False i yes by (subst (asm) runLedgerCatchUp.simps) auto
      with less.hyps [of "c + 1" w1] less.prems(2) False
      have IH: "c + 1 \<le> c' \<and> c' \<le> max (c + 1) l \<and> (\<forall>s. c + 1 < s \<and> s \<le> c' \<longrightarrow> indexed w' s) \<and>
        (\<forall>s. indexed w1 s \<longrightarrow> indexed w' s)" by auto
      moreover have "indexed w1 (c + 1)" using index_ok [OF i [unfolded yes] served] by blast
      ultimately have "indexed w' s" if "c < s" "s \<le> c'" for s
        using that by (cases "s = c + 1") auto
      with IH False keep show ?thesis by auto
    qed (use less.prems(1) False i keep in \<open>subst (asm) runLedgerCatchUp.simps, auto\<close>)+
  qed
qed

lemma repair_each_repaired:
  assumes "repair_each shut index_one ss w = (Inr repaired, w')" "\<forall>s \<in> set ss. served s" "distinct ss"
  shows "set repaired \<subseteq> set ss \<and> distinct repaired \<and> (\<forall>s \<in> set repaired. indexed w' s \<and> \<not> failing w' s) \<and>
    (\<forall>t. indexed w t \<longrightarrow> indexed w' t) \<and> (\<forall>t. t \<notin> set ss \<longrightarrow> \<not> failing w t \<longrightarrow> \<not> failing w' t)"
  using assms
proof (induction ss arbitrary: w repaired)
  case (Cons s ss)
  show ?case
  proof (cases "shut w")
    case False
    obtain r w1 where i: "index_one s w = (r, w1)" by force
    with Cons.prems(1) False obtain ok repaired' where r: "r = Inr ok"
      and rest: "repair_each shut index_one ss w1 = (Inr repaired', w')"
      and repaired: "repaired = (if ok then s # repaired' else repaired')"
      by (auto split: sum.splits prod.splits)
    have IH: "set repaired' \<subseteq> set ss" "distinct repaired'" "\<forall>s \<in> set repaired'. indexed w' s \<and> \<not> failing w' s"
      "\<forall>t. indexed w1 t \<longrightarrow> indexed w' t" "\<forall>t. t \<notin> set ss \<longrightarrow> \<not> failing w1 t \<longrightarrow> \<not> failing w' t"
      using Cons.IH [OF rest] Cons.prems by auto
    have served: "served s" using Cons.prems(2) by simp
    have s: "s \<notin> set ss" using Cons.prems(3) by simp
    have "indexed w' s \<and> \<not> failing w' s" if ok
      using index_ok [OF _ served, of w w1] i r that IH(4,5) s by auto
    moreover have "\<not> failing w' t" if "t \<notin> set (s # ss)" "\<not> failing w t" for t
      using failing_keep [OF i, of t] that IH(5) by auto
    ultimately show ?thesis
      using IH repaired s index_keep [OF i] by auto
  qed (use Cons.prems in auto)
qed simp

lemma backfill_covers:
  assumes "backfill_walk shut index_one save a fuel c w = (c', w')"
    and "\<forall>s. a \<le> s \<and> s \<le> c \<longrightarrow> served s"
    and save_keep: "\<And>x v v' b t. save x v = (b, v') \<Longrightarrow> indexed v t \<Longrightarrow> indexed v' t"
  shows "c' \<le> c \<and> (a - 1 \<le> c \<longrightarrow> a - 1 \<le> c') \<and> (\<forall>s. c' < s \<and> s \<le> c \<longrightarrow> indexed w' s) \<and>
    (\<forall>s. indexed w s \<longrightarrow> indexed w' s)"
  using assms(1,2)
proof (induction fuel arbitrary: c w)
  case (Suc fuel)
  show ?case
  proof (cases "c < a \<or> shut w")
    case False
    obtain r w1 where i: "index_one c w = (r, w1)" by force
    obtain b w2 where sv: "save (c - 1) w1 = (b, w2)" by force
    note keep = index_keep [OF i] save_keep [OF sv]
    have served: "served c" using Suc.prems(2) False by auto
    consider (no) "r \<noteq> Inr True" | (saved) "r = Inr True" b | (unsaved) "r = Inr True" "\<not> b" by blast
    then show ?thesis
    proof cases
      case no
      then have "backfill_walk shut index_one save a fuel c w1 = (c', w')"
        using Suc.prems(1) False i by (auto split: sum.splits bool.splits)
      from Suc.IH [OF this Suc.prems(2)] keep(1) show ?thesis by blast
    next
      case unsaved
      then have "backfill_walk shut index_one save a fuel c w2 = (c', w')"
        using Suc.prems(1) False i sv by (auto split: bool.splits)
      from Suc.IH [OF this Suc.prems(2)] keep show ?thesis by blast
    next
      case saved
      then have "backfill_walk shut index_one save a fuel (c - 1) w2 = (c', w')"
        using Suc.prems(1) False i sv by (auto split: bool.splits)
      from Suc.IH [OF this] Suc.prems(2)
      have IH: "c' \<le> c - 1 \<and> (a - 1 \<le> c - 1 \<longrightarrow> a - 1 \<le> c') \<and> (\<forall>s. c' < s \<and> s \<le> c - 1 \<longrightarrow> indexed w' s) \<and>
        (\<forall>s. indexed w2 s \<longrightarrow> indexed w' s)" by auto
      have "indexed w1 c" using index_ok i saved served by blast
      with keep(2) IH have "indexed w' c" by blast
      moreover have "indexed w' s" if "c' < s" "s \<le> c" for s
        using IH that \<open>indexed w' c\<close> by (cases "s = c") auto
      ultimately show ?thesis using IH False keep by auto
    qed
  qed (use Suc.prems in auto)
qed auto

lemma backfill_progress_truthful:
  fixes progress :: "'w \<Rightarrow> int option"
  assumes "backfill_walk shut index_one save a fuel c w = (c', w')" and "progress w = Some c"
    and "\<And>s v v' r. index_one s v = (r, v') \<Longrightarrow> progress v' = progress v"
    and "\<And>x v v' b. save x v = (b, v') \<Longrightarrow> progress v' = (if b then map_option (\<lambda>_. x) (progress v) else progress v)"
  shows "progress w' = Some c'"
  using assms(1,2)
proof (induction fuel arbitrary: c w)
  case (Suc fuel)
  obtain r w1 where i: "index_one c w = (r, w1)" by force
  obtain b w2 where sv: "save (c - 1) w1 = (b, w2)" by force
  have p1: "progress w1 = Some c" using assms(3) [OF i] Suc.prems(2) by simp
  have p2: "progress w2 = Some (if b then c - 1 else c)" using assms(4) [OF sv] p1 by simp
  show ?case
    using Suc.prems Suc.IH [of c w1] Suc.IH [of "c - 1" w2] Suc.IH [of c w2] i sv p1 p2
    by (auto split: if_splits sum.splits bool.splits)
qed simp

end

section \<open>Facts about inline retries\<close>

lemma retry_from_success:
  "retry_from env s a w = (Inr True, w') \<Longrightarrow> \<exists>w0 u. r_indexOne env s w0 = (Inr u, w')"
proof (induction env s a w rule: retry_from.induct)
  case (1 env s a w)
  obtain r w1 where i: "r_indexOne env s w = (r, w1)" by force
  show ?case
  proof (cases r)
    case (Inl err)
    with "1.prems" i have "a < r_attempts env" "\<not> r_attempts env < a"
      by (subst (asm) retry_from.simps, auto simp: Let_def split: if_splits index_error.splits sum.splits prod.splits)+
    with "1.prems" i Inl "1.IH" show ?thesis by (subst (asm) retry_from.simps) auto
  qed (use "1.prems" i in \<open>subst (asm) retry_from.simps, auto split: if_splits\<close>)
qed

lemma retry_from_inv:
  assumes "P w"
    and idx: "\<And>w w' r. P w \<Longrightarrow> r_indexOne env s w = (r, w') \<Longrightarrow> P w'"
    and rec: "\<And>w m k. P w \<Longrightarrow> P (r_recordFailed env s m k w)"
    and enq: "\<And>w w' m r. P w \<Longrightarrow> r_enqueueRetry env s m w = (r, w') \<Longrightarrow> P w'"
    and slp: "\<And>w d. P w \<Longrightarrow> P (r_sleep env d w)"
  shows "P (snd (retry_from env s a w))"
  using assms(1)
proof (induction "r_attempts env + 1 - a" arbitrary: a w rule: less_induct)
  case less
  obtain r w1 where i: "r_indexOne env s w = (r, w1)" by force
  then have w1: "P w1" using less.prems idx by blast
  consider (stop) "r_attempts env < a \<or> (\<exists>u. r = Inr u)"
    | (last) err where "r = Inl err" "a = r_attempts env"
    | (again) err where "r = Inl err" "a < r_attempts env"
    by (cases r) force+
  then show ?case
  proof cases
    case stop
    with i w1 less.prems show ?thesis by (subst retry_from.simps) auto
  next
    case last
    obtain r2 w3 where e: "r_enqueueRetry env s (err_message err)
      (r_recordFailed env s (err_message err) a w1) = (r2, w3)" by force
    then have "P w3" using enq rec w1 by blast
    with i last e w1 show ?thesis
      by (subst retry_from.simps) (auto simp: Let_def err_message_def split: index_error.splits sum.splits)
  next
    case again
    let ?w = "r_sleep env (calculateBackoffWithJitter (r_baseMs env) a 30000 (r_draw env w1)) w1"
    have "P (snd (retry_from env s (a + 1) ?w))"
      using again slp [OF w1] by (intro less.hyps) auto
    with again i show ?thesis by (subst retry_from.simps) simp
  qed
qed

text \<open>Giving up for a reason other than an unavailable Horizon goes through the retry queue.\<close>

lemma retry_from_gives_up:
  assumes "retry_from env s a w = (Inr False, w')" "a \<le> r_attempts env"
    and "\<And>v v' e. r_indexOne env s v = (Inl e, v') \<Longrightarrow> \<exists>m. e = OtherError m"
  shows "\<exists>v m u. r_enqueueRetry env s m v = (Inr u, w')"
  using assms(1,2)
proof (induction "r_attempts env + 1 - a" arbitrary: a w rule: less_induct)
  case less
  obtain r w1 where i: "r_indexOne env s w = (r, w1)" by force
  then obtain e where r: "r = Inl e"
    using less.prems by (cases r) (auto simp: retry_from.simps [of env s a w] split: if_splits)
  with i assms(3) obtain m where e: "e = OtherError m" by blast
  show ?case
  proof (cases "a = r_attempts env")
    case True
    with less.prems i r e show ?thesis
      by (auto simp: retry_from.simps [of env s "r_attempts env" w] Let_def split: prod.splits sum.splits)
  next
    case False
    let ?w = "r_sleep env (calculateBackoffWithJitter (r_baseMs env) a 30000 (r_draw env w1)) w1"
    have "retry_from env s (a + 1) ?w = (Inr False, w')"
      using less.prems i r False by (simp add: retry_from.simps [of env s a w])
    then show ?thesis using False less.prems(2) by (intro less.hyps [of "a + 1" ?w]) auto
  qed
qed

text \<open>
  With a positive base the inline back-off lies between half its ceiling and the ceiling,
  where the ceiling doubles with every attempt and never exceeds the maximum delay, for every value
  the random source can give.
\<close>

theorem backoff_jitter_bounds:
  assumes "0 < baseMs" and "0 \<le> maxDelayMs" and "0 \<le> draw" and "draw \<le> 1"
  shows "min maxDelayMs (baseMs * 2 ^ (attempt - 1)) div 2 \<le> calculateBackoffWithJitter baseMs attempt maxDelayMs draw \<and>
    calculateBackoffWithJitter baseMs attempt maxDelayMs draw \<le> min maxDelayMs (baseMs * 2 ^ (attempt - 1))"
proof -
  define c where "c = min maxDelayMs (baseMs * 2 ^ (attempt - 1))"
  have "0 \<le> c" using assms by (simp add: c_def)
  then have "0 \<le> c - c div 2 + 1" by linarith
  then have "0 \<le> draw * of_int (c - c div 2 + 1)"
    using assms(3) by (metis mult_nonneg_nonneg of_int_0_le_iff)
  then have "0 \<le> \<lfloor>draw * of_int (c - c div 2 + 1)\<rfloor>" by simp
  moreover have "c div 2 \<le> c" using \<open>0 \<le> c\<close> by linarith
  moreover have "calculateBackoffWithJitter baseMs attempt maxDelayMs draw =
      min c (c div 2 + \<lfloor>draw * of_int (c - c div 2 + 1)\<rfloor>)"
    using assms(1) unfolding calculateBackoffWithJitter_def Let_def c_def by simp
  ultimately show ?thesis unfolding c_def [symmetric] by linarith
qed

theorem backoff_jitter_bounds_witness:
  "min 30000 (500 * 2 ^ (3 - 1)) div 2 \<le> calculateBackoffWithJitter 500 3 30000 (1/2) \<and>
   calculateBackoffWithJitter 500 3 30000 (1/2) \<le> min 30000 (500 * 2 ^ (3 - 1))"
  by (rule backoff_jitter_bounds) simp_all

end
