(* ===== verification/Network_Loop.thy ===== *)
theory Network_Loop
  imports Ledger_Queries Ledger_Drivers
begin

text \<open>
  One network's loop of \<open>indexer/src/index.ts\<close> over the store: the bounded account cache, fetching
  and landing one ledger, the durable failure path, catch-up, gap repair, backfill, the rotating
  integrity audit (with \<open>ledgerIntegrity.ts\<close>) and the resume cursor. Horizon is an argument: what
  it answers may differ at every call, so answers and the clock are functions of a call counter.
\<close>

section \<open>State\<close>

record 'd world =
  store :: "'d store"
  calls :: nat
  accountCache :: "(string, int) table"
  accountCacheOrder :: "string list"
  latestIndexedLedger :: int
  lastIndexedAt :: "int option"
  integrityCursor :: int

record 'd net_env =
  network :: string
  horizon :: "nat \<Rightarrow> int \<Rightarrow> index_error + (horizon_ledger \<times> horizon_transaction list \<times> horizon_operation list \<times> horizon_effect list)"
  handlers :: "'d handler list"
  crash_at :: "nat \<Rightarrow> nat option"
  clock :: "nat \<Rightarrow> int"
  random :: "nat \<Rightarrow> rat"
  queue_down :: "nat \<Rightarrow> bool"
  cacheTtlMs :: int
  cacheMaxSize :: nat
  ledgerRetryAttempts :: nat
  ledgerRetryBaseMs :: int

section \<open>The account cache\<close>

text \<open>\<open>while (cache.size > MAX && order.length > 0)\<close>: evict from the least recently added.\<close>

fun evict_lru :: "nat \<Rightarrow> (string, int) table \<Rightarrow> string list \<Rightarrow> (string, int) table \<times> string list" where
  "evict_lru maxSize cache [] = (cache, [])"
| "evict_lru maxSize cache (a # order) =
     (if maxSize < length cache
      then evict_lru maxSize (if a \<noteq> [] then delete_where (\<lambda>k _. k = a) cache else cache) order
      else (cache, a # order))"

definition pruneAccountCache ::
  "int \<Rightarrow> nat \<Rightarrow> int \<Rightarrow> (string, int) table \<Rightarrow> string list \<Rightarrow> (string, int) table \<times> string list" where
  "pruneAccountCache ttl maxSize now cache order =
     (let fresh = delete_where (\<lambda>_ fetchedAt. ttl < now - fetchedAt) cache in
      evict_lru maxSize fresh (filter (\<lambda>a. map_of fresh a \<noteq> None) order))"

text \<open>\<open>cache.set(address, now)\<close> and the move to the end of the order, for every fetched address.\<close>

definition touch :: "int \<Rightarrow> string \<Rightarrow> (string, int) table \<times> string list \<Rightarrow> (string, int) table \<times> string list" where
  "touch now a = (\<lambda>(cache, order). (insert_do_update a now (\<lambda>_. now) cache, remove1 a order @ [a]))"

section \<open>Fetching and landing one ledger\<close>

definition fetchAndIndexLedger ::
  "'d net_env \<Rightarrow> bool \<Rightarrow> int \<Rightarrow> 'd world \<Rightarrow> (index_error + unit) \<times> 'd world" where
  "fetchAndIndexLedger env isBackfillMode sequence w =
     (let k = calls w; w0 = w\<lparr>calls := k + 1\<rparr> in
      case horizon env k sequence of
        Inl e \<Rightarrow> (Inl e, w0)
      | Inr (ledger, txs, ops, effs) \<Rightarrow>
          (let now = clock env k;
               addresses = uniq (map t_source_account txs @ map o_source_account ops);
               (cache, order) = pruneAccountCache (cacheTtlMs env) (cacheMaxSize env) now
                                  (accountCache w) (accountCacheOrder w);
               expired = filter (\<lambda>a. case map_of cache a of None \<Rightarrow> True
                                      | Some fetchedAt \<Rightarrow> cacheTtlMs env < now - fetchedAt) addresses;
               toFetch = getAccountsNeedingRefresh (network env) expired sequence (store w);
               b = \<lparr>b_ledger = ledger, b_transactions = txs, b_operations = ops, b_effects = effs,
                    b_accounts = toFetch\<rparr>;
               w1 = w0\<lparr>accountCache := cache, accountCacheOrder := order\<rparr>
           in case indexLedger (handlers env) (crash_at env k) now (network env) b (store w) of
                (Inl e, s) \<Rightarrow> (Inl (OtherError ''write rejected''), w1\<lparr>store := s\<rparr>)
              | (Inr _, s) \<Rightarrow>
                  (let (cache', order') = fold (touch now) expired (cache, order);
                       w2 = w1\<lparr>store := s, accountCache := cache', accountCacheOrder := order'\<rparr>
                   in (Inr (),
                       if isBackfillMode then w2
                       else w2\<lparr>latestIndexedLedger := max (latestIndexedLedger w) sequence,
                               lastIndexedAt := Some (clock env k)\<rparr>))))"

definition retry_env_of :: "'d net_env \<Rightarrow> bool \<Rightarrow> 'd world retry_env" where
  "retry_env_of env isBackfillMode =
     \<lparr>r_indexOne = fetchAndIndexLedger env isBackfillMode,
      r_recordFailed = (\<lambda>s m k w. if queue_down env (calls w) then w\<lparr>calls := calls w + 1\<rparr>
          else w\<lparr>calls := calls w + 1,
                 store := recordFailedLedger (clock env (calls w)) (network env) s m k (store w)\<rparr>),
      r_enqueueRetry = (\<lambda>s m w. if queue_down env (calls w)
          then (Inl ''retry queue unavailable'', w\<lparr>calls := calls w + 1\<rparr>)
          else (Inr (), w\<lparr>calls := calls w + 1,
                 store := enqueueLedgerRetry (clock env (calls w)) (network env) s m (store w)\<rparr>)),
      r_sleep = (\<lambda>_ w. w\<lparr>calls := calls w + 1\<rparr>),
      r_draw = (\<lambda>w. random env (calls w)),
      r_attempts = ledgerRetryAttempts env, r_baseMs = ledgerRetryBaseMs env\<rparr>"

text \<open>The two closures of \<open>runNetworkLoop\<close>, \<open>indexOne\<close> and \<open>indexOneBackfill\<close>.\<close>

definition indexOne :: "'d net_env \<Rightarrow> bool \<Rightarrow> int \<Rightarrow> 'd world \<Rightarrow> (string + bool) \<times> 'd world" where
  "indexOne env isBackfillMode = fetchAndIndexLedgerWithRetry (retry_env_of env isBackfillMode)"

section \<open>Resume, catch-up, repair, backfill\<close>

text \<open>\<open>initCursor\<close>; \<open>tip\<close> is the latest ledger Horizon reports.\<close>

definition initCursor :: "'d net_env \<Rightarrow> int option \<Rightarrow> int \<Rightarrow> 'd world \<Rightarrow> int" where
  "initCursor env startLedger tip w =
     (let cursor = (case getIndexerCursor (network env) Forward (store w) of
                      Some c \<Rightarrow> c | None \<Rightarrow> getLatestIndexedLedger (network env) (store w))
      in if cursor = 0 then (case startLedger of Some s \<Rightarrow> s - 1 | None \<Rightarrow> tip) else cursor)"

definition catch_up ::
  "'d net_env \<Rightarrow> ('d world \<Rightarrow> bool) \<Rightarrow> int \<Rightarrow> int \<Rightarrow> 'd world \<Rightarrow> string option \<times> int \<times> 'd world" where
  "catch_up env shut = runLedgerCatchUp shut (indexOne env False)"

definition repair_gaps ::
  "'d net_env \<Rightarrow> ('d world \<Rightarrow> bool) \<Rightarrow> 'd world \<Rightarrow> (string + nat \<times> nat) \<times> 'd world" where
  "repair_gaps env shut =
     repairLedgerGaps (\<lambda>w. countLedgerGaps (network env) (store w))
       (\<lambda>w limit. findLedgerGaps (network env) limit (store w)) shut (indexOne env False) 10"

definition process_retries :: "'d net_env \<Rightarrow> ('d world \<Rightarrow> bool) \<Rightarrow> 'd world \<Rightarrow> 'd world" where
  "process_retries env stopped w =
     processRetries (\<lambda>w limit. getPendingRetries (clock env (calls w)) (network env) limit (store w)) stopped
       (indexOne env False)
       (\<lambda>s w. w\<lparr>store := removeLedgerFromRetryQueue (network env) s (store w)\<rparr>) w"

definition save_backfill :: "'d net_env \<Rightarrow> int \<Rightarrow> int \<Rightarrow> int \<Rightarrow> 'd world \<Rightarrow> bool \<times> 'd world" where
  "save_backfill env startLedger endLedger nextLedger w =
     (case updateBackfillProgress (crash_at env (calls w)) (clock env (calls w)) (network env)
             startLedger endLedger nextLedger (store w) of
        (Inl e, s) \<Rightarrow> (False, w\<lparr>calls := calls w + 1, store := s\<rparr>)
      | (Inr _, s) \<Rightarrow> (True, w\<lparr>calls := calls w + 1, store := s\<rparr>))"

text \<open>\<open>runBackfillWorker\<close>, once the cursor is initialised; \<open>fuel\<close> bounds the walk's iterations.\<close>

datatype backfill_outcome = NotConfigured | NothingIndexed | EmptyRange | AlreadyCompleted
  | ProgressFailed db_error | WalkedTo int

definition runBackfillWorker ::
  "'d net_env \<Rightarrow> ('d world \<Rightarrow> bool) \<Rightarrow> nat \<Rightarrow> int option \<Rightarrow> int option \<Rightarrow> 'd world
     \<Rightarrow> backfill_outcome \<times> 'd world" where
  "runBackfillWorker env shut fuel startOpt endOpt w =
     (case startOpt of
        None \<Rightarrow> (NotConfigured, w)
      | Some startLedger \<Rightarrow>
          (let earliest = getEarliestIndexedLedger (network env) (store w) in
           if endOpt = None \<and> earliest = 0 then (NothingIndexed, w)
           else
             (let endLedger = (case endOpt of Some e \<Rightarrow> e | None \<Rightarrow> earliest - 1) in
              if endLedger < startLedger then (EmptyRange, w)
              else (case getOrInitBackfillProgress (network env) startLedger endLedger (store w) of
                      (Inl e, s) \<Rightarrow> (ProgressFailed e, w\<lparr>store := s\<rparr>)
                    | (Inr progress, s) \<Rightarrow>
                        (let w1 = w\<lparr>store := s\<rparr> in
                         if completed_at progress \<noteq> None then (AlreadyCompleted, w1)
                         else (case backfill_walk shut (indexOne env True)
                                      (save_backfill env startLedger endLedger) startLedger fuel
                                      (current_ledger progress) w1 of
                                 (c, w2) \<Rightarrow> (WalkedTo c, w2)))))))"

section \<open>The integrity audit\<close>

datatype entity = TransactionsEntity | OperationsEntity

text \<open>\<open>findLedgerCountDiscrepancies\<close>: counts are transactions and operations.\<close>

definition findLedgerCountDiscrepancies :: "nat \<times> nat \<Rightarrow> nat \<times> nat \<Rightarrow> (entity \<times> nat \<times> nat) list" where
  "findLedgerCountDiscrepancies expected actual =
     filter (\<lambda>(_, e, a). e \<noteq> a)
       [(TransactionsEntity, fst expected, fst actual), (OperationsEntity, snd expected, snd actual)]"

record repair_result =
  detected :: "(entity \<times> nat \<times> nat) list"
  remaining :: "(entity \<times> nat \<times> nat) list"
  repairSucceeded :: bool

definition verifyAndRepairLedgerCounts ::
  "nat \<times> nat \<Rightarrow> nat \<times> nat \<Rightarrow> ('w \<Rightarrow> ('e + bool) \<times> 'w) \<Rightarrow> ('w \<Rightarrow> nat \<times> nat) \<Rightarrow> 'w \<Rightarrow> ('e + repair_result) \<times> 'w" where
  "verifyAndRepairLedgerCounts expected actual repair readActual w =
     (let found = findLedgerCountDiscrepancies expected actual in
      if found = [] then (Inr \<lparr>detected = found, remaining = [], repairSucceeded = True\<rparr>, w)
      else (case repair w of
              (Inl e, w') \<Rightarrow> (Inl e, w')
            | (Inr ok, w') \<Rightarrow> (Inr \<lparr>detected = found,
                  remaining = findLedgerCountDiscrepancies expected (readActual w'),
                  repairSucceeded = ok\<rparr>, w')))"

definition INTEGRITY_AUDIT_BATCH_SIZE :: nat where
  "INTEGRITY_AUDIT_BATCH_SIZE = 20"

definition INTEGRITY_AUDIT_WINDOW_SIZE :: nat where
  "INTEGRITY_AUDIT_WINDOW_SIZE = 100"

definition auditOneLedger ::
  "'d net_env \<Rightarrow> 'd world \<Rightarrow> (string + int option) \<times> 'd world" where
  "auditOneLedger env w =
     (case getNextLedgerForAudit (network env) (integrityCursor w) INTEGRITY_AUDIT_WINDOW_SIZE (store w) of
        None \<Rightarrow> (Inr None, w)
      | Some sequence \<Rightarrow>
          (case horizon env (calls w) sequence of
             Inl e \<Rightarrow> (Inl (err_message e), w\<lparr>calls := calls w + 1\<rparr>)
           | Inr (ledger, _) \<Rightarrow>
               (let w1 = w\<lparr>calls := calls w + 1, integrityCursor := sequence\<rparr>;
                    read = (\<lambda>v. getLedgerRowCounts (network env) sequence (store v));
                    expected = (nat (l_successful_count ledger + l_failed_count ledger),
                                nat (l_operation_count ledger))
                in case verifyAndRepairLedgerCounts expected (read w) (indexOne env False sequence) read w1 of
                     (Inl e, w2) \<Rightarrow> (Inl e, w2)
                   | (Inr _, w2) \<Rightarrow> (Inr (Some sequence), w2))))"

fun audit_batch :: "'d net_env \<Rightarrow> nat \<Rightarrow> int list \<Rightarrow> 'd world \<Rightarrow> (string + int list) \<times> 'd world" where
  "audit_batch env 0 audited w = (Inr audited, w)"
| "audit_batch env (Suc count) audited w =
     (case auditOneLedger env w of
        (Inl e, w') \<Rightarrow> (Inl e, w')
      | (Inr None, w') \<Rightarrow> (Inr audited, w')
      | (Inr (Some s), w') \<Rightarrow>
          if s \<in> set audited then (Inr audited, w') else audit_batch env count (audited @ [s]) w')"

definition auditRecentLedgers :: "'d net_env \<Rightarrow> 'd world \<Rightarrow> (string + int list) \<times> 'd world" where
  "auditRecentLedgers env w = audit_batch env INTEGRITY_AUDIT_BATCH_SIZE [] w"

section \<open>The loop's way of indexing one ledger is a ledger sink\<close>

definition indexed :: "'d net_env \<Rightarrow> 'd world \<Rightarrow> int \<Rightarrow> bool" where
  "indexed env w s = ((s, network env) \<in> keys (ledgers (store w)))"

definition failing :: "'d net_env \<Rightarrow> 'd world \<Rightarrow> int \<Rightarrow> bool" where
  "failing env w s = ((s, network env) \<in> keys (failed_ledgers (store w)))"

text \<open>Horizon answers a request for ledger \<open>s\<close> with ledger \<open>s\<close> (\<open>GET /ledgers/{sequence}\<close>).\<close>

definition served :: "'d net_env \<Rightarrow> int \<Rightarrow> bool" where
  "served env s = (\<forall>k l txs ops effs. horizon env k s = Inr (l, txs, ops, effs) \<longrightarrow> l_sequence l = s)"

lemma fetch_store:
  assumes "fetchAndIndexLedger env bf s w = (r, w')"
  obtains (unchanged) e where "r = Inl e" "store w' = store w"
  | (landed) l txs ops effs b where "r = Inr ()" "horizon env (calls w) s = Inr (l, txs, ops, effs)"
      "b_ledger b = l" "run_statements (crash_at env (calls w))
        (ledger_statements (handlers env) (clock env (calls w)) (network env) b) (store w) = Inr (store w')"
proof (cases "horizon env (calls w) s")
  case (Inl e)
  with assms show ?thesis by (auto simp: fetchAndIndexLedger_def Let_def intro: unchanged)
next
  case (Inr a)
  then obtain l txs ops effs where h: "horizon env (calls w) s = Inr (l, txs, ops, effs)" by (cases a) auto
  obtain cache order where pr: "pruneAccountCache (cacheTtlMs env) (cacheMaxSize env) (clock env (calls w))
      (accountCache w) (accountCacheOrder w) = (cache, order)" by force
  define b where "b = \<lparr>b_ledger = l, b_transactions = txs, b_operations = ops, b_effects = effs,
      b_accounts = getAccountsNeedingRefresh (network env)
        (filter (\<lambda>a. case map_of cache a of None \<Rightarrow> True
           | Some fetchedAt \<Rightarrow> cacheTtlMs env < clock env (calls w) - fetchedAt)
           (uniq (map t_source_account txs @ map o_source_account ops))) s (store w)\<rparr>"
  let ?run = "run_statements (crash_at env (calls w))
        (ledger_statements (handlers env) (clock env (calls w)) (network env) b) (store w)"
  show ?thesis
  proof (cases ?run)
    case (Inl e)
    with assms h pr have "r = Inl (OtherError ''write rejected'')" "store w' = store w"
      by (auto simp: fetchAndIndexLedger_def Let_def indexLedger_def transaction_def b_def)
    then show ?thesis by (rule unchanged)
  next
    case (Inr x)
    with assms h pr have "r = Inr ()" "store w' = x"
      by (auto simp: fetchAndIndexLedger_def Let_def indexLedger_def transaction_def b_def
          split: prod.splits if_splits)
    with Inr show ?thesis by (intro landed [OF _ h, of b]) (simp_all add: b_def)
  qed
qed

lemma fetch_keeps:
  assumes "fetchAndIndexLedger env bf s w = (r, w')"
  shows "indexed env w t \<Longrightarrow> indexed env w' t" "\<not> failing env w t \<Longrightarrow> \<not> failing env w' t"
proof -
  from assms show "indexed env w t \<Longrightarrow> indexed env w' t"
  proof (cases rule: fetch_store)
    case (landed l txs ops effs b)
    then show "indexed env w t \<Longrightarrow> indexed env w' t"
      unfolding indexed_def
      by (elim run_statements_inv [where P = "\<lambda>x. (t, network env) \<in> keys (ledgers x)"])
        (auto dest: statements_grow(1))
  qed (simp add: indexed_def)
  from assms show "\<not> failing env w t \<Longrightarrow> \<not> failing env w' t"
  proof (cases rule: fetch_store)
    case (landed l txs ops effs b)
    then show "\<not> failing env w t \<Longrightarrow> \<not> failing env w' t"
      unfolding failing_def
      by (elim run_statements_inv [where P = "\<lambda>x. (t, network env) \<notin> keys (failed_ledgers x)"])
        (auto dest: statements_grow(6))
  qed (simp add: failing_def)
qed

lemma indexOne_keeps:
  assumes "indexOne env bf s w = (r, w')"
  shows "indexed env w t \<Longrightarrow> indexed env w' t"
    "s \<noteq> t \<Longrightarrow> \<not> failing env w t \<Longrightarrow> \<not> failing env w' t"
proof -
  have w': "w' = snd (retry_from (retry_env_of env bf) s 1 w)"
    using assms by (simp add: indexOne_def fetchAndIndexLedgerWithRetry_def)
  show "indexed env w t \<Longrightarrow> indexed env w' t"
    unfolding w' by (erule retry_from_inv) (auto simp: retry_env_of_def indexed_def recordFailedLedger_def
        enqueueLedgerRetry_def Let_def split: if_splits dest: fetch_keeps(1) [unfolded indexed_def])
  show "\<not> failing env w' t" if "s \<noteq> t" "\<not> failing env w t"
    unfolding w' using that by (intro retry_from_inv [where P = "\<lambda>w. \<not> failing env w t"])
      (auto simp: retry_env_of_def failing_def recordFailedLedger_def
        enqueueLedgerRetry_def Let_def split: if_splits dest: fetch_keeps(2) [unfolded failing_def])
qed

lemma indexOne_success:
  assumes "indexOne env bf s w = (Inr True, w')" "served env s"
  shows "indexed env w' s \<and> \<not> failing env w' s"
proof -
  obtain w0 u where "fetchAndIndexLedger env bf s w0 = (Inr u, w')"
    using assms(1) retry_from_success [of "retry_env_of env bf" s 1 w w']
    by (auto simp: indexOne_def fetchAndIndexLedgerWithRetry_def retry_env_of_def)
  then show ?thesis
  proof (cases rule: fetch_store)
    case (landed l txs ops effs b)
    then have "l_sequence (b_ledger b) = s" using assms(2) unfolding served_def by blast
    with landed_rows(1,6) [OF landed(4)] show ?thesis by (simp add: indexed_def failing_def)
  qed simp
qed

interpretation sink: ledger_sink "indexOne env bf" "indexed env" "failing env" "served env"
  for env :: "'d net_env" and bf
proof
  show "indexed env w' s \<and> \<not> failing env w' s"
    if "indexOne env bf s w = (Inr True, w')" "served env s" for s w w'
    using that by (rule indexOne_success)
qed (auto dest: indexOne_keeps)

section \<open>Catch-up\<close>


section \<open>Gap repair\<close>

text \<open>
  C8: a gap-repair pass that reports \<open>r\<close> repaired ledgers has really closed \<open>r\<close> different ones of the
  gaps it found: they are indexed afterwards and no gap query returns them any more.
\<close>

theorem repair_gaps_closes:
  assumes "repair_gaps env shut w = (Inr (d, r), w')"
    and "\<forall>s \<in> set (findLedgerGaps (network env) 10 (store w)). served env s"
  shows "d = countLedgerGaps (network env) (store w) \<and>
    (\<exists>closed. length closed = r \<and> distinct closed \<and>
      set closed \<subseteq> set (findLedgerGaps (network env) 10 (store w)) \<and>
      (\<forall>s \<in> set closed. indexed env w' s \<and> (\<forall>limit. s \<notin> set (findLedgerGaps (network env) limit (store w')))))"
proof -
  let ?gaps = "findLedgerGaps (network env) 10 (store w)"
  have dist: "distinct ?gaps"
    by (simp add: findLedgerGaps_def all_gaps_def distinct_take)
  have gone: "s \<notin> set (findLedgerGaps (network env) limit (store w'))"
    if "indexed env w' s" "\<not> failing env w' s" for s limit
  proof -
    have "set (all_gaps (network env) (store w')) = missing (network env) (store w') \<union>
        {s. (s, network env) \<in> keys (failed_ledgers (store w'))}"
      by (simp add: all_gaps_def set_detected_gaps set_failed_sequences)
    with that have "s \<notin> set (all_gaps (network env) (store w'))"
      by (auto simp: missing_def indexed_def failing_def)
    then show ?thesis by (auto simp: findLedgerGaps_def dest: in_set_takeD)
  qed
  show ?thesis
  proof (cases "countLedgerGaps (network env) (store w) = 0")
    case True
    with assms(1) show ?thesis by (auto simp: repair_gaps_def repairLedgerGaps_def)
  next
    case False
    with assms(1) obtain closed where
      run: "repair_each shut (indexOne env False) ?gaps w = (Inr closed, w')"
      and "d = countLedgerGaps (network env) (store w)" "r = length closed"
      by (auto simp: repair_gaps_def repairLedgerGaps_def Let_def split: prod.splits sum.splits)
    with sink.repair_each_repaired [OF run assms(2) dist] gone show ?thesis by blast
  qed
qed

section \<open>Giving up on a ledger\<close>

text \<open>
  When the loop gives up on a ledger and Horizon was reachable, the ledger is in the durable
  retry queue: it cannot be forgotten.
\<close>

theorem given_up_ledger_is_queued:
  assumes "indexOne env bf s w = (Inr False, w')" and "0 < ledgerRetryAttempts env"
    and "\<forall>k e. horizon env k s = Inl e \<longrightarrow> (\<exists>m. e = OtherError m)"
  shows "(s, network env) \<in> keys (retry_queue (store w'))"
proof -
  have "\<exists>m. e = OtherError m" if "fetchAndIndexLedger env bf s v = (Inl e, v')" for v v' e
    using that assms(3)
    by (auto simp: fetchAndIndexLedger_def Let_def split: sum.splits prod.splits if_splits)
  then obtain v m where "r_enqueueRetry (retry_env_of env bf) s m v = (Inr (), w')"
    using retry_from_gives_up [of "retry_env_of env bf" s 1 w w'] assms(1,2)
    by (auto simp: indexOne_def fetchAndIndexLedgerWithRetry_def retry_env_of_def)
  then show ?thesis
    by (auto simp: retry_env_of_def enqueueLedgerRetry_def Let_def split: if_splits)
qed

end
