(* ===== verification/Loop_Properties.thy ===== *)
theory Loop_Properties
  imports Network_Loop
begin

text \<open>
  Further guarantees of one network's loop: the backfill's durable progress, the account cache's
  bound, the rotation of the integrity audit, and the resume cursor; with a concrete network on
  which the loop's properties are exercised.
\<close>

section \<open>Backfill\<close>

lemma statements_backfill:
  assumes "s \<in> set (ledger_statements hs now n b)" "s x = Inr y"
  shows "backfill_progress y = backfill_progress x"
  using assms
  by (cases rule: ledger_statements_cases) (auto simp: statement_defs split: if_splits sum.splits)

lemma fetch_backfill:
  assumes "fetchAndIndexLedger env bf s w = (r, w')"
  shows "backfill_progress (store w') = backfill_progress (store w)"
  using assms
proof (cases rule: fetch_store)
  case (landed l txs ops effs b)
  from landed(4) show ?thesis
    by (rule run_statements_inv [where P = "\<lambda>x. backfill_progress x = backfill_progress (store w)"])
      (auto dest: statements_backfill)
qed simp

lemma indexOne_backfill:
  assumes "indexOne env bf s w = (r, w')"
  shows "backfill_progress (store w') = backfill_progress (store w)"
proof -
  have w': "w' = snd (retry_from (retry_env_of env bf) s 1 w)"
    using assms by (simp add: indexOne_def fetchAndIndexLedgerWithRetry_def)
  show ?thesis
    unfolding w' by (rule retry_from_inv [where P = "\<lambda>v. backfill_progress (store v) = backfill_progress (store w)"])
      (auto simp: retry_env_of_def recordFailedLedger_def enqueueLedgerRetry_def Let_def
        split: if_splits dest: fetch_backfill)
qed

lemma map_of_update_where:
  "map_of (update_where (\<lambda>k' _. k' = k) f t) k = map_option f (map_of t k)"
  unfolding update_where_def by (induction t) auto

lemma update_backfill_cases:
  assumes "updateBackfillProgress crash now n a z c db = (r, db')"
  obtains (failed) e where "r = Inl e" "db' = db"
  | (saved) "r = Inr ()" "ledgers db' = ledgers db"
      "map_option current_ledger (map_of (backfill_progress db') (n, a, z)) =
       map_option (\<lambda>_. c) (map_of (backfill_progress db) (n, a, z))"
proof (cases "run_statements crash [update_backfill_row now n a z c,
        \<lambda>db. Inr (setIndexerCursor n Backfill c db)] db")
  case (Inl e)
  with assms show ?thesis by (auto simp: updateBackfillProgress_def transaction_def intro: failed)
next
  case (Inr x)
  with assms have x: "r = Inr ()" "db' = x" by (auto simp: updateBackfillProgress_def transaction_def)
  obtain y where "update_backfill_row now n a z c db = Inr y" "x = setIndexerCursor n Backfill c y"
    using run_statements_None [OF Inr] by (auto split: sum.splits)
  with x show ?thesis
    by (intro saved) (auto simp: update_backfill_row_def setIndexerCursor_def map_of_update_where
        option.map_comp comp_def split: if_splits)
qed

definition saved_progress :: "'d net_env \<Rightarrow> int \<Rightarrow> int \<Rightarrow> 'd world \<Rightarrow> int option" where
  "saved_progress env a z w = map_option current_ledger (map_of (backfill_progress (store w)) (network env, a, z))"

lemma save_backfill_laws:
  assumes "save_backfill env a z x v = (b, v')"
  shows "indexed env v t \<Longrightarrow> indexed env v' t"
    "saved_progress env a z v' = (if b then map_option (\<lambda>_. x) (saved_progress env a z v) else saved_progress env a z v)"
proof -
  obtain r s where u: "updateBackfillProgress (crash_at env (calls v)) (clock env (calls v)) (network env)
      a z x (store v) = (r, s)" by force
  from u show "saved_progress env a z v' = (if b then map_option (\<lambda>_. x) (saved_progress env a z v) else saved_progress env a z v)"
    by (cases rule: update_backfill_cases)
      (use assms u in \<open>auto simp: save_backfill_def saved_progress_def option.map_comp comp_def\<close>)
  from u show "indexed env v t \<Longrightarrow> indexed env v' t"
    by (cases rule: update_backfill_cases) (use assms u in \<open>auto simp: save_backfill_def indexed_def\<close>)
qed

text \<open>
  C22: backfill progress never claims more than what is indexed. After any number of iterations,
  with failures of Horizon, of the write and of saving the progress itself, the walk's position is the
  saved one, and every ledger from just above it up to where this run resumed is indexed.
\<close>

theorem backfill_progress_is_truthful:
  assumes "runBackfillWorker env shut fuel (Some a) (Some z) w = (WalkedTo c, w')"
    and "\<forall>s. a \<le> s \<and> s \<le> z \<longrightarrow> served env s"
    and "\<forall>r. map_of (backfill_progress (store w)) (network env, a, z) = Some r \<longrightarrow> current_ledger r \<le> z"
  shows "\<exists>p. saved_progress env a z w' = Some c \<and> c \<le> p \<and>
    p = (case saved_progress env a z w of Some q \<Rightarrow> q | None \<Rightarrow> z) \<and>
    (\<forall>s. c < s \<and> s \<le> p \<longrightarrow> indexed env w' s)"
proof -
  obtain progress db where init: "getOrInitBackfillProgress (network env) a z (store w) = (Inr progress, db)"
    and walk: "backfill_walk shut (indexOne env True) (save_backfill env a z) a fuel
      (current_ledger progress) (w\<lparr>store := db\<rparr>) = (c, w')"
    using assms(1) by (auto simp: runBackfillWorker_def Let_def split: if_splits prod.splits sum.splits)
  have db: "map_of (backfill_progress db) (network env, a, z) = Some progress"
    and p: "current_ledger progress = (case saved_progress env a z w of Some q \<Rightarrow> q | None \<Rightarrow> z)"
    and le: "current_ledger progress \<le> z"
    using init assms(3) by (auto simp: getOrInitBackfillProgress_def Let_def saved_progress_def table_simps
        split: if_splits option.splits)
  have "saved_progress env a z w' = Some c"
  proof (rule sink.backfill_progress_truthful [OF walk])
    show "saved_progress env a z (w\<lparr>store := db\<rparr>) = Some (current_ledger progress)"
      using db by (simp add: saved_progress_def)
    show "saved_progress env a z v' = saved_progress env a z v" if "indexOne env True s v = (r, v')" for s v v' r
      using indexOne_backfill [OF that] by (simp add: saved_progress_def)
  qed (rule save_backfill_laws)
  moreover have "c \<le> current_ledger progress \<and> (\<forall>s. c < s \<and> s \<le> current_ledger progress \<longrightarrow> indexed env w' s)"
  proof -
    have "\<forall>s. a \<le> s \<and> s \<le> current_ledger progress \<longrightarrow> served env s" using assms(2) le by auto
    from sink.backfill_covers [OF walk this] show ?thesis using save_backfill_laws(1) by blast
  qed
  ultimately show ?thesis using p by blast
qed

section \<open>Resuming\<close>

text \<open>
  The durable forward cursor follows every landed ledger, also an old one: after a ledger has
  been backfilled, a restarted loop resumes right after that ledger, however far the forward loop
  had come.
\<close>

theorem resume_cursor_follows_backfill:
  assumes "fetchAndIndexLedger env True s w = (Inr u, w')" "served env s" "s \<noteq> 0"
  shows "initCursor env startLedger tip w' = s"
  using assms(1)
proof (cases rule: fetch_store)
  case (landed l txs ops effs b)
  then have "l_sequence (b_ledger b) = s" using assms(2) unfolding served_def by blast
  with landed_tail(1) [OF landed(4)] assms(3) show ?thesis
    by (simp add: initCursor_def getIndexerCursor_def)
qed simp

section \<open>The account cache\<close>

definition cache_ok :: "(string, int) table \<Rightarrow> string list \<Rightarrow> bool" where
  "cache_ok cache order \<longleftrightarrow> keyed cache \<and> distinct order \<and> set order = keys cache \<and> [] \<notin> set order"

lemma evict_lru_bounded:
  "cache_ok cache order \<Longrightarrow> evict_lru m cache order = (cache', order') \<Longrightarrow>
     cache_ok cache' order' \<and> length cache' \<le> m \<and> (\<exists>evicted. order = evicted @ order') \<and>
     (\<forall>a. map_of cache' a = (if a \<in> set order' then map_of cache a else None))"
proof (induction m cache order rule: evict_lru.induct)
  case (1 m cache)
  then have "keys cache = {}" by (simp add: cache_ok_def)
  then have "cache = []" by (cases cache) (auto simp: keys_def)
  with 1 show ?case by auto
next
  case (2 m cache a order)
  show ?case
  proof (cases "m < length cache")
    case True
    let ?c = "delete_where (\<lambda>k _. k = a) cache"
    have a: "a \<noteq> []" using 2(2) by (auto simp: cache_ok_def)
    have ok: "cache_ok ?c order" using 2(2) by (auto simp: cache_ok_def)
    have run: "evict_lru m ?c order = (cache', order')" using 2(3) True a by simp
    have c: "(if a \<noteq> [] then ?c else cache) = ?c" using a by simp
    from 2(1) [OF True, unfolded c, OF ok run]
    have IH: "cache_ok cache' order'" "length cache' \<le> m"
      "\<exists>evicted. order = evicted @ order'" "\<forall>x. map_of cache' x = (if x \<in> set order' then map_of ?c x else None)"
      by blast+
    have "distinct (a # order)" using 2(2) unfolding cache_ok_def by (elim conjE)
    then have a': "a \<notin> set order'" using IH(3) by auto
    have "map_of cache' x = (if x \<in> set order' then map_of cache x else None)" for x
      using IH(4) [rule_format, of x] a' by (cases "x = a") (simp_all add: lookup_delete_keys)
    moreover obtain evicted where "a # order = (a # evicted) @ order'" using IH(3) by auto
    ultimately show ?thesis using IH(1,2) by blast
  next
    case False
    then have eq: "cache' = cache" "order' = a # order" using 2(3) by simp_all
    have "set (a # order) = keys cache" using 2(2) unfolding cache_ok_def by (elim conjE)
    then have "map_of cache x = (if x \<in> set (a # order) then map_of cache x else None)" for x
      using in_keys_iff [of x cache] by presburger
    moreover have "length cache \<le> m" using False by simp
    ultimately show ?thesis using 2(2) unfolding eq by blast
  qed
qed

lemma delete_expired:
  "keyed cache \<Longrightarrow> map_of (delete_where (\<lambda>_ v. P v) cache) a =
     (case map_of cache a of Some v \<Rightarrow> if P v then None else Some v | None \<Rightarrow> None)"
  unfolding keyed_def delete_where_def
  by (induction cache) (auto simp: map_of_eq_None_iff image_iff split: option.splits)

text \<open>
  Pruning leaves at most the configured number of entries, none older than the time to live,
  with their fetch times unchanged; what it evicts beyond the expired entries is a prefix of the
  least-recently-used order, and the order list again names exactly the cached addresses.
\<close>

theorem pruneAccountCache_bounded:
  assumes "cache_ok cache order" and "pruneAccountCache ttl m now cache order = (cache', order')"
  shows "cache_ok cache' order' \<and> length cache' \<le> m \<and>
    (\<forall>a v. map_of cache' a = Some v \<longrightarrow> map_of cache a = Some v \<and> now - v \<le> ttl) \<and>
    (\<exists>evicted. filter (\<lambda>a. \<exists>v. map_of cache a = Some v \<and> now - v \<le> ttl) order = evicted @ order')"
proof -
  let ?fresh = "delete_where (\<lambda>_ fetchedAt. ttl < now - fetchedAt) cache"
  have k: "keyed cache" using assms(1) by (simp add: cache_ok_def)
  note look = delete_expired [OF k, where P = "\<lambda>v. ttl < now - v"]
  have flt: "filter (\<lambda>a. map_of ?fresh a \<noteq> None) order =
      filter (\<lambda>a. \<exists>v. map_of cache a = Some v \<and> now - v \<le> ttl) order"
    by (rule filter_cong) (auto simp: look not_less split: option.splits)
  have ok: "cache_ok ?fresh (filter (\<lambda>a. map_of ?fresh a \<noteq> None) order)"
    using assms(1) by (auto simp: cache_ok_def in_keys_iff look split: option.splits if_splits)
  have run: "evict_lru m ?fresh (filter (\<lambda>a. map_of ?fresh a \<noteq> None) order) = (cache', order')"
    using assms(2) unfolding pruneAccountCache_def Let_def .
  note E = evict_lru_bounded [OF ok run, unfolded flt]
  have "map_of cache a = Some v \<and> now - v \<le> ttl" if "map_of cache' a = Some v" for a v
  proof -
    have "map_of ?fresh a = Some v" using E that by (metis option.distinct(1))
    then show ?thesis by (simp add: look split: option.splits if_splits)
  qed
  with E show ?thesis by blast
qed

theorem pruneAccountCache_bounded_witness:
  "length (fst (pruneAccountCache 60 1 100 [(''GA'', 90), (''GB'', 95), (''GC'', 10)] [''GC'', ''GA'', ''GB''])) \<le> 1"
proof -
  have "cache_ok [(''GA'', 90), (''GB'', 95), (''GC'', 10)] [''GC'', ''GA'', ''GB'']"
    by (auto simp: cache_ok_def keyed_def keys_def)
  from pruneAccountCache_bounded [OF this prod.collapse [symmetric]] show ?thesis by blast
qed

section \<open>The audit rotates through its window\<close>

lemma window_sorted:
  assumes "keyed (ledgers db)"
  shows "sorted (recent_window n sz db)" "distinct (recent_window n sz db)"
proof -
  have "distinct (sequences n db)"
    using assms unfolding sequences_def keyed_def
    by (simp add: distinct_map inj_on_def) fastforce
  then show "distinct (recent_window n sz db)" by (simp add: recent_window_def distinct_take)
  have "rev (take sz (rev (sort (sequences n db)))) =
      drop (length (sequences n db) - sz) (sort (sequences n db))"
    by (simp add: take_rev)
  then show "sorted (recent_window n sz db)" by (simp add: recent_window_def sorted_wrt_drop)
qed

lemma next_audit_step:
  assumes k: "keyed (ledgers db)" and i: "i < length (recent_window n sz db)"
  shows "getNextLedgerForAudit n (recent_window n sz db ! i) sz db =
    Some (recent_window n sz db ! (Suc i mod length (recent_window n sz db)))"
proof -
  let ?W = "recent_window n sz db"
  let ?x = "?W ! i"
  have W: "?W = take (Suc i) ?W @ drop (Suc i) ?W" by simp
  have "sorted_wrt (<) ?W" using window_sorted [OF k] by (simp add: strict_sorted_iff)
  then have less: "?W ! p < ?W ! q" if "p < q" "q < length ?W" for p q
    using that by (rule sorted_wrt_nth_less)
  have "\<not> ?x < ?W ! p" if "p \<le> i" for p
    using less [of p i] that i by (cases "p = i") auto
  then have "filter (\<lambda>s. ?x < s) (take (Suc i) ?W) = []"
    by (auto simp: filter_empty_conv in_set_conv_nth)
  moreover have "?x < y" if "y \<in> set (drop (Suc i) ?W)" for y
    using that less by (auto simp: in_set_conv_nth)
  then have "filter (\<lambda>s. ?x < s) (drop (Suc i) ?W) = drop (Suc i) ?W"
    by (simp add: filter_id_conv)
  ultimately have f: "filter (\<lambda>s. ?x < s) ?W = drop (Suc i) ?W"
    by (metis W append_Nil filter_append)
  show ?thesis
  proof (cases "Suc i < length ?W")
    case True
    then have "drop (Suc i) ?W = ?W ! Suc i # drop (Suc (Suc i)) ?W" by (simp add: Cons_nth_drop_Suc)
    with True f show ?thesis by (simp add: getNextLedgerForAudit_def)
  next
    case False
    with i f have "filter (\<lambda>s. ?x < s) ?W = []" "Suc i = length ?W" by simp_all
    with i show ?thesis
      by (cases ?W) (auto simp: getNextLedgerForAudit_def)
  qed
qed

text \<open>
  The audit is fair. From any audited ledger of the recent window, the following audits visit
  every ledger of the window within as many steps as the window is long.
\<close>

theorem audit_visits_every_ledger:
  assumes "keyed (ledgers db)" and "a \<in> set (recent_window n sz db)" and "s \<in> set (recent_window n sz db)"
  shows "\<exists>k. 0 < k \<and> k \<le> length (recent_window n sz db) \<and>
    ((\<lambda>x. Option.bind x (\<lambda>c. getNextLedgerForAudit n c sz db)) ^^ k) (Some a) = Some s"
proof -
  let ?W = "recent_window n sz db"
  let ?f = "\<lambda>x. Option.bind x (\<lambda>c. getNextLedgerForAudit n c sz db)"
  obtain i where i: "i < length ?W" "?W ! i = a" using assms(2) by (auto simp: in_set_conv_nth)
  obtain j where j: "j < length ?W" "?W ! j = s" using assms(3) by (auto simp: in_set_conv_nth)
  have iter: "(?f ^^ k) (Some a) = Some (?W ! ((i + k) mod length ?W))" for k
  proof (induction k)
    case (Suc k)
    have "(i + k) mod length ?W < length ?W" using i by (auto intro: mod_less_divisor)
    then show ?case using Suc next_audit_step [OF assms(1)] by (simp add: mod_Suc_eq)
  qed (use i in simp)
  define k where "k = (if i < j then j - i else length ?W - i + j)"
  have k: "0 < k" "k \<le> length ?W" using i j by (auto simp: k_def)
  have "(i + k) mod length ?W = j" using i j by (auto simp: k_def)
  with iter [of k] j k show ?thesis by auto
qed

section \<open>A concrete network\<close>

text \<open>Horizon serves empty ledgers, except ledger 13, which it cannot deliver.\<close>

definition sample_env :: "unit net_env" where
  "sample_env =
     \<lparr>network = ''mainnet'',
      horizon = (\<lambda>k s. if s = 13 then Inl (OtherError ''boom'')
        else Inr (\<lparr>l_sequence = s, l_closed_at = 0, l_successful_count = 0, l_failed_count = 0,
                   l_operation_count = 0, l_base_fee = 100, l_base_reserve = 5000000\<rparr>, [], [], [])),
      handlers = [], crash_at = (\<lambda>_. None), clock = (\<lambda>k. int k), random = (\<lambda>_. 0),
      queue_down = (\<lambda>_. False), cacheTtlMs = 60, cacheMaxSize = 10,
      ledgerRetryAttempts = 2, ledgerRetryBaseMs = 0\<rparr>"

definition sample_world :: "unit world" where
  "sample_world =
     \<lparr>store = \<lparr>ledgers = [((10, ''mainnet''), \<lparr>closed_at = 0, transaction_count = 0, operation_count = 0,
          base_fee = 100, base_reserve = 5000000\<rparr>)],
        transactions = [], operations = [], effects = [], accounts = [], account_history = [],
        refresh_queue = [], failed_ledgers = [], retry_queue = [], cursors = [],
        backfill_progress = [], dead_letters = [], delivered = [], derived = ()\<rparr>,
      calls = 0, accountCache = [], accountCacheOrder = [], latestIndexedLedger = 10,
      lastIndexedAt = None, integrityCursor = 0\<rparr>"

lemma sample_served: "served sample_env s"
  by (auto simp: served_def sample_env_def split: if_splits)

lemma sample_catch_up: "fst (snd (catch_up sample_env (\<lambda>_. False) 10 15 sample_world)) = 12"
  by code_simp

lemma sample_give_up: "fst (indexOne sample_env False 13 sample_world) = Inr False"
  by code_simp

lemma sample_backfill:
  "fst (runBackfillWorker sample_env (\<lambda>_. False) 5 (Some 7) (Some 9) sample_world) = WalkedTo 6"
  by code_simp


definition sample_gap_world :: "unit world" where
  "sample_gap_world = sample_world\<lparr>store := (store sample_world)\<lparr>ledgers := ledgers (store sample_world) @
     [((14, ''mainnet''), \<lparr>closed_at = 0, transaction_count = 0, operation_count = 0,
          base_fee = 100, base_reserve = 5000000\<rparr>)]\<rparr>\<rparr>"

lemma sample_repair: "fst (repair_gaps sample_env (\<lambda>_. False) sample_gap_world) = Inr (3, 2)"
  by code_simp

theorem repair_gaps_closes_witness:
  "\<exists>closed. length closed = 2 \<and> distinct closed \<and>
     list_all (indexed sample_env (snd (repair_gaps sample_env (\<lambda>_. False) sample_gap_world))) closed"
  using repair_gaps_closes [of sample_env "\<lambda>_. False" sample_gap_world 3 2
      "snd (repair_gaps sample_env (\<lambda>_. False) sample_gap_world)"]
    sample_served sample_repair unfolding list_all_iff
  by (metis prod.collapse)

theorem given_up_ledger_is_queued_witness:
  "(13, ''mainnet'') \<in> keys (retry_queue (store (snd (indexOne sample_env False 13 sample_world))))"
proof -
  have "(13, network sample_env) \<in> keys (retry_queue (store (snd (indexOne sample_env False 13 sample_world))))"
    by (rule given_up_ledger_is_queued [of sample_env False 13 sample_world])
      (simp_all add: sample_env_def sample_give_up [unfolded sample_env_def] prod_eq_iff)
  then show ?thesis by (simp add: sample_env_def)
qed

theorem backfill_progress_is_truthful_witness:
  "indexed sample_env (snd (runBackfillWorker sample_env (\<lambda>_. False) 5 (Some 7) (Some 9) sample_world)) 7 \<and>
   saved_progress sample_env 7 9
     (snd (runBackfillWorker sample_env (\<lambda>_. False) 5 (Some 7) (Some 9) sample_world)) = Some 6"
proof -
  let ?w = "snd (runBackfillWorker sample_env (\<lambda>_. False) 5 (Some 7) (Some 9) sample_world)"
  have "runBackfillWorker sample_env (\<lambda>_. False) 5 (Some 7) (Some 9) sample_world = (WalkedTo 6, ?w)"
    using sample_backfill by (simp add: prod_eq_iff)
  moreover have "map_of (backfill_progress (store sample_world)) k = None" for k
    by (simp add: sample_world_def)
  ultimately show ?thesis
    using backfill_progress_is_truthful [of sample_env "\<lambda>_. False" 5 7 9 sample_world 6 ?w] sample_served
    by (auto simp: saved_progress_def)
qed

theorem audit_visits_every_ledger_witness:
  "\<exists>k. 0 < k \<and> k \<le> length (recent_window ''mainnet'' 100 (store sample_gap_world)) \<and>
    ((\<lambda>x. Option.bind x (\<lambda>c. getNextLedgerForAudit ''mainnet'' c 100 (store sample_gap_world))) ^^ k) (Some 14) = Some 10"
proof (rule audit_visits_every_ledger)
  show "keyed (ledgers (store sample_gap_world))" by code_simp
  have "recent_window ''mainnet'' 100 (store sample_gap_world) = [10, 14]" by code_simp
  then show "14 \<in> set (recent_window ''mainnet'' 100 (store sample_gap_world))"
    "10 \<in> set (recent_window ''mainnet'' 100 (store sample_gap_world))" by simp_all
qed

theorem resume_cursor_follows_backfill_witness:
  "initCursor sample_env None 99 (snd (fetchAndIndexLedger sample_env True 5 sample_world)) = 5"
proof (rule resume_cursor_follows_backfill)
  show "fetchAndIndexLedger sample_env True 5 sample_world =
      (Inr (), snd (fetchAndIndexLedger sample_env True 5 sample_world))"
    unfolding prod_eq_iff by (rule conjI, code_simp, simp)
qed (simp_all add: sample_served)

end
