(* ===== verification/Retention.thy ===== *)
theory Retention
  imports Lumina_Prelude
begin

text \<open>
  \<open>indexer/src/retention.ts\<close>: pruning of history tables by age. Rows carry what pruning depends
  on: their key, the time column and, along the chain \<open>operations\<close>, \<open>transactions\<close>,
  \<open>ledgers\<close>, the parent row they reference. A \<open>DELETE\<close> that would leave a dangling reference is
  rejected, as PostgreSQL does, and a rejected statement rejects the pass.
\<close>

datatype retention_table =
  Operations | Transactions | Contract_events | Custom_events | Effects | Ledgers | Account_state_history

definition MS_PER_DAY :: int where
  "MS_PER_DAY = 24 * 60 * 60 * 1000"

definition MAX_BATCHES_PER_ROUND :: nat where
  "MAX_BATCHES_PER_ROUND = 20"

text \<open>\<open>RETENTION_SPECS\<close>, in prune order.\<close>

definition RETENTION_TABLES :: "retention_table list" where
  "RETENTION_TABLES =
     [Operations, Transactions, Contract_events, Custom_events, Effects, Ledgers, Account_state_history]"

text \<open>\<open>[parent, child]\<close>.\<close>

definition FK_CHAIN :: "(retention_table \<times> retention_table) list" where
  "FK_CHAIN = [(Ledgers, Transactions), (Transactions, Operations)]"

type_synonym windows = "retention_table \<Rightarrow> int"

definition unlimitedRetentionWindows :: windows where
  "unlimitedRetentionWindows = (\<lambda>_. 0)"

definition isRetentionEnabled :: "windows \<Rightarrow> bool" where
  "isRetentionEnabled w = list_ex (\<lambda>t. 0 < w t) RETENTION_TABLES"

definition retainedTables :: "windows \<Rightarrow> retention_table list" where
  "retainedTables w = filter (\<lambda>t. 0 < w t) RETENTION_TABLES"

text \<open>One problem per link of the chain: parent, child and their windows in days.\<close>

definition retentionWindowConflicts ::
  "windows \<Rightarrow> (retention_table \<times> retention_table \<times> int \<times> int) list" where
  "retentionWindowConflicts w =
     concat (map (\<lambda>(parent, child).
       if w parent \<le> 0 then [] else if w parent \<le> w child then [] else [(parent, child, w parent, w child)])
       FK_CHAIN)"

definition retentionCutoff :: "int \<Rightarrow> int \<Rightarrow> int" where
  "retentionCutoff days now = now - days * MS_PER_DAY"

section \<open>Rows and deletes\<close>

type_synonym row_key = "string \<times> string"

record history_row =
  row_key :: row_key
  row_time :: int
  row_parent :: "row_key option"

type_synonym history = "retention_table \<Rightarrow> history_row list"

definition child_table :: "retention_table \<Rightarrow> retention_table option" where
  "child_table t = (case t of Ledgers \<Rightarrow> Some Transactions | Transactions \<Rightarrow> Some Operations | _ \<Rightarrow> None)"

definition references :: "history \<Rightarrow> retention_table \<Rightarrow> row_key \<Rightarrow> bool" where
  "references db t k = (case child_table t of None \<Rightarrow> False
     | Some c \<Rightarrow> list_ex (\<lambda>r. row_parent r = Some k) (db c))"

text \<open>\<open>SELECT ctid ... WHERE time < cutoff LIMIT batchSize\<close>: the first expired rows in physical order.\<close>

fun split_expired :: "int \<Rightarrow> nat \<Rightarrow> history_row list \<Rightarrow> history_row list \<times> history_row list" where
  "split_expired cutoff n [] = ([], [])"
| "split_expired cutoff n (r # rs) =
     (if row_time r < cutoff \<and> 0 < n
      then (case split_expired cutoff (n - 1) rs of (del, keep) \<Rightarrow> (r # del, keep))
      else (case split_expired cutoff n rs of (del, keep) \<Rightarrow> (del, r # keep)))"

datatype prune_error = ForeignKey retention_table

definition deleteExpiredBatch ::
  "retention_table \<Rightarrow> int \<Rightarrow> nat \<Rightarrow> history \<Rightarrow> (prune_error + nat) \<times> history" where
  "deleteExpiredBatch t cutoff batchSize db =
     (case split_expired cutoff batchSize (db t) of
        (del, keep) \<Rightarrow>
          if list_ex (\<lambda>r. references db t (row_key r)) del then (Inl (ForeignKey t), db)
          else (Inr (length del), db(t := keep)))"

record retention_report =
  rp_table :: retention_table
  rp_days :: int
  rp_cutoff :: int
  rp_rowsPruned :: nat
  rp_skipped :: bool

text \<open>The batch loop of \<open>pruneTable\<close>, with the batches left in this round.\<close>

fun prune_batches ::
  "nat \<Rightarrow> retention_table \<Rightarrow> int \<Rightarrow> nat \<Rightarrow> history \<Rightarrow> (prune_error + nat) \<times> history" where
  "prune_batches 0 t cutoff batchSize db = (Inr 0, db)"
| "prune_batches (Suc left) t cutoff batchSize db =
     (case deleteExpiredBatch t cutoff batchSize db of
        (Inl e, db') \<Rightarrow> (Inl e, db')
      | (Inr deleted, db') \<Rightarrow>
          if deleted = 0 then (Inr 0, db')
          else (case prune_batches left t cutoff batchSize db' of
                  (Inl e, db'') \<Rightarrow> (Inl e, db'')
                | (Inr rest, db'') \<Rightarrow> (Inr (deleted + rest), db'')))"

definition pruneTable ::
  "retention_table \<Rightarrow> int \<Rightarrow> nat \<Rightarrow> int \<Rightarrow> history \<Rightarrow> (prune_error + retention_report) \<times> history" where
  "pruneTable t days batchSize now db =
     (let cutoff = retentionCutoff days now in
      case prune_batches MAX_BATCHES_PER_ROUND t cutoff batchSize db of
        (Inl e, db') \<Rightarrow> (Inl e, db')
      | (Inr n, db') \<Rightarrow>
          (Inr \<lparr>rp_table = t, rp_days = days, rp_cutoff = cutoff, rp_rowsPruned = n, rp_skipped = False\<rparr>, db'))"

fun prune_each ::
  "retention_table list \<Rightarrow> windows \<Rightarrow> nat \<Rightarrow> int \<Rightarrow> history \<Rightarrow> (prune_error + retention_report list) \<times> history" where
  "prune_each [] w batchSize now db = (Inr [], db)"
| "prune_each (t # ts) w batchSize now db =
     (case (if w t \<le> 0
            then (Inr \<lparr>rp_table = t, rp_days = w t, rp_cutoff = retentionCutoff 0 now, rp_rowsPruned = 0,
                       rp_skipped = True\<rparr>, db)
            else pruneTable t (w t) batchSize now db) of
        (Inl e, db') \<Rightarrow> (Inl e, db')
      | (Inr report, db') \<Rightarrow>
          (case prune_each ts w batchSize now db' of
             (Inl e, db'') \<Rightarrow> (Inl e, db'')
           | (Inr reports, db'') \<Rightarrow> (Inr (report # reports), db'')))"

definition pruneExpiredData ::
  "windows \<Rightarrow> nat \<Rightarrow> int \<Rightarrow> history \<Rightarrow> (prune_error + retention_report list) \<times> history" where
  "pruneExpiredData w batchSize now db = prune_each RETENTION_TABLES w batchSize now db"

section \<open>What a statement deletes\<close>

lemma split_expired_sets:
  "set (fst (split_expired c n rs)) \<subseteq> {r \<in> set rs. row_time r < c}"
  "set (snd (split_expired c n rs)) \<subseteq> set rs"
  by (induction c n rs rule: split_expired.induct) (auto split: prod.splits)

lemma split_expired_length:
  "length (fst (split_expired c n rs)) \<le> n"
  "length (fst (split_expired c n rs)) + length (snd (split_expired c n rs)) = length rs"
  by (induction c n rs rule: split_expired.induct) (auto split: prod.splits)

lemma split_expired_enough:
  "length (filter (\<lambda>r. row_time r < c) rs) \<le> n \<Longrightarrow>
     split_expired c n rs = (filter (\<lambda>r. row_time r < c) rs, filter (\<lambda>r. \<not> row_time r < c) rs)"
proof (induction c n rs rule: split_expired.induct)
  case (2 c n r rs)
  show ?case
  proof (cases "row_time r < c")
    case True
    with 2(3) have "0 < n" "length (filter (\<lambda>r. row_time r < c) rs) \<le> n - 1" by auto
    with 2(1) True show ?thesis by simp
  next
    case False
    with 2(2,3) show ?thesis by simp
  qed
qed simp

definition kept :: "int \<Rightarrow> history_row list \<Rightarrow> history_row list" where
  "kept cutoff rs = filter (\<lambda>r. \<not> row_time r < cutoff) rs"

lemma split_expired_kept: "kept c (snd (split_expired c n rs)) = kept c rs"
  by (induction c n rs rule: split_expired.induct) (auto simp: kept_def split: prod.splits)

lemma delete_batch_cases:
  assumes "deleteExpiredBatch t cutoff n db = (r, db')"
  obtains e where "r = Inl e" "db' = db"
  | "r = Inr (length (fst (split_expired cutoff n (db t))))" "db' = db(t := snd (split_expired cutoff n (db t)))"
  using assms unfolding deleteExpiredBatch_def by (cases "split_expired cutoff n (db t)") (auto split: if_splits)

lemma delete_batch_facts:
  assumes "deleteExpiredBatch t cutoff n db = (r, db')"
  shows "u \<noteq> t \<Longrightarrow> db' u = db u" "kept cutoff (db' t) = kept cutoff (db t)" "set (db' t) \<subseteq> set (db t)"
  using assms by (cases rule: delete_batch_cases; simp add: split_expired_kept split_expired_sets)+

lemma prune_batches_facts:
  "prune_batches left t cutoff n db = (r, db') \<Longrightarrow>
     (\<forall>u. u \<noteq> t \<longrightarrow> db' u = db u) \<and> kept cutoff (db' t) = kept cutoff (db t) \<and> set (db' t) \<subseteq> set (db t)"
proof (induction left arbitrary: db r)
  case (Suc left)
  obtain x db1 where d: "deleteExpiredBatch t cutoff n db = (x, db1)" by force
  note f = delete_batch_facts [OF d]
  show ?case
  proof (cases "\<exists>k. x = Inr k \<and> k \<noteq> 0")
    case True
    then obtain y where "prune_batches left t cutoff n db1 = (y, db')"
      using Suc.prems d by (auto split: prod.splits sum.splits)
    from Suc.IH [OF this] f show ?thesis by auto
  next
    case False
    then have "db' = db1" using Suc.prems d by (auto split: sum.splits)
    with f show ?thesis by auto
  qed
qed auto

lemma prune_each_facts:
  "prune_each ts w n now db = (r, db') \<Longrightarrow> distinct ts \<Longrightarrow>
     set (db' t) \<subseteq> set (db t) \<and>
     (if t \<in> set ts \<and> 0 < w t then kept (retentionCutoff (w t) now) (db' t) = kept (retentionCutoff (w t) now) (db t)
      else db' t = db t)"
proof (induction ts arbitrary: db r)
  case (Cons u ts)
  define res where "res = (if w u \<le> 0
            then (Inr \<lparr>rp_table = u, rp_days = w u, rp_cutoff = retentionCutoff 0 now, rp_rowsPruned = 0,
                       rp_skipped = True\<rparr>, db)
            else pruneTable u (w u) n now db)"
  obtain x db1 where res: "res = (x, db1)" by force
  have step: "(\<forall>v. v \<noteq> u \<longrightarrow> db1 v = db v) \<and> set (db1 u) \<subseteq> set (db u) \<and>
      (if 0 < w u then kept (retentionCutoff (w u) now) (db1 u) = kept (retentionCutoff (w u) now) (db u)
       else db1 u = db u)"
    using res prune_batches_facts [of MAX_BATCHES_PER_ROUND u "retentionCutoff (w u) now" n db]
    by (auto simp: res_def pruneTable_def Let_def split: if_splits prod.splits sum.splits)
  show ?case
  proof (cases x)
    case (Inl e)
    then have "db' = db1" using Cons.prems(1) res by (simp add: res_def [symmetric])
    with step show ?thesis by (cases "t = u") auto
  next
    case (Inr report)
    then obtain y where y: "prune_each ts w n now db1 = (y, db')"
      using Cons.prems(1) res by (auto simp: res_def [symmetric] split: prod.splits sum.splits)
    from Cons.IH [OF y] Cons.prems(2) step show ?thesis by (cases "t = u") auto
  qed
qed simp


section \<open>A pass that completes\<close>

abbreviation expired :: "int \<Rightarrow> history_row list \<Rightarrow> history_row list" where
  "expired c rs \<equiv> filter (\<lambda>r. row_time r < c) rs"

lemma split_expired_counts:
  "length (fst (split_expired c n rs)) = min n (length (expired c rs))"
  "length (expired c (snd (split_expired c n rs))) = length (expired c rs) - n"
  by (induction c n rs rule: split_expired.induct) (auto split: prod.splits)

lemma kept_expired_id: "expired c rs = [] \<Longrightarrow> kept c rs = rs"
  by (simp add: kept_def filter_empty_conv filter_id_conv)

lemma prune_batches_complete:
  assumes "length (expired c (db t)) \<le> left * n" "0 < n" "child_table t \<noteq> Some t"
    and "\<And>r. r \<in> set (db t) \<Longrightarrow> row_time r < c \<Longrightarrow> \<not> references db t (row_key r)"
  shows "\<exists>k. prune_batches left t c n db = (Inr k, db(t := kept c (db t)))"
  using assms(1,4)
proof (induction left arbitrary: db)
  case 0
  then show ?case by (simp add: kept_expired_id)
next
  case (Suc left)
  obtain del keep where sp: "split_expired c n (db t) = (del, keep)" by force
  note facts = split_expired_sets [of c n "db t"] split_expired_counts [of c n "db t"]
    split_expired_kept [of c n "db t"]
  have batch: "deleteExpiredBatch t c n db = (Inr (length del), db(t := keep))"
    using Suc.prems(2) facts(1) sp by (auto simp: deleteExpiredBatch_def list_ex_iff)
  show ?case
  proof (cases "del = []")
    case True
    with facts(3) sp assms(2) have none: "expired c (db t) = []"
      by (auto simp: min_def split: if_splits)
    then have "keep = db t" using sp split_expired_enough [of c "db t" n] by (simp add: filter_id_conv filter_empty_conv)
    with True batch none show ?thesis by (simp add: kept_expired_id)
  next
    case False
    have refs: "references (db(t := keep)) t k = references db t k" for k
      using assms(3) by (auto simp: references_def split: option.splits)
    have "\<exists>k. prune_batches left t c n (db(t := keep)) = (Inr k, (db(t := keep))(t := kept c ((db(t := keep)) t)))"
    proof (rule Suc.IH)
      show "length (expired c ((db(t := keep)) t)) \<le> left * n"
        using Suc.prems(1) facts(4) sp by simp
      fix r assume "r \<in> set ((db(t := keep)) t)" "row_time r < c"
      then show "\<not> references (db(t := keep)) t (row_key r)"
        using Suc.prems(2) facts(2) sp unfolding refs by auto
    qed
    with batch False facts(5) sp show ?thesis by (auto simp: fun_eq_iff)
  qed
qed

text \<open>Children are pruned at least as far as their parents, in time.\<close>

definition windows_coherent :: "windows \<Rightarrow> bool" where
  "windows_coherent w = list_all (\<lambda>(p, c). w p \<le> 0 \<or> (0 < w c \<and> w c \<le> w p)) FK_CHAIN"

text \<open>A row is not younger than the row it references (a transaction closes with its ledger).\<close>

definition times_coherent :: "history \<Rightarrow> bool" where
  "times_coherent db = (\<forall>(p, c) \<in> set FK_CHAIN. \<forall>r \<in> set (db c). \<forall>q \<in> set (db p).
     row_parent r = Some (row_key q) \<longrightarrow> row_time r \<le> row_time q)"

definition pruned :: "windows \<Rightarrow> int \<Rightarrow> retention_table \<Rightarrow> history_row list \<Rightarrow> history_row list" where
  "pruned w now t rs = (if 0 < w t then kept (retentionCutoff (w t) now) rs else rs)"

definition stage :: "windows \<Rightarrow> int \<Rightarrow> retention_table set \<Rightarrow> history \<Rightarrow> history" where
  "stage w now P db = (\<lambda>t. if t \<in> P then pruned w now t (db t) else db t)"

lemma child_in_chain: "child_table t = Some c \<longleftrightarrow> (t, c) \<in> set FK_CHAIN"
  by (cases t) (auto simp: child_table_def FK_CHAIN_def)

lemma prune_stage:
  assumes w: "windows_coherent w" and tc: "times_coherent db" and n: "0 < n"
    and cap: "length (expired (retentionCutoff (w t) now) (db t)) \<le> MAX_BATCHES_PER_ROUND * n"
    and t: "t \<notin> P" "\<And>c. child_table t = Some c \<Longrightarrow> c \<in> P" and pos: "0 < w t"
  shows "\<exists>k. prune_batches MAX_BATCHES_PER_ROUND t (retentionCutoff (w t) now) n (stage w now P db)
    = (Inr k, stage w now (insert t P) db)"
proof -
  let ?c = "retentionCutoff (w t) now"
  have here: "stage w now P db t = db t" using t(1) by (simp add: stage_def)
  have "\<not> references (stage w now P db) t (row_key r)" if r: "r \<in> set (db t)" "row_time r < ?c" for r
  proof
    assume "references (stage w now P db) t (row_key r)"
    then obtain c r' where c: "child_table t = Some c" and r': "r' \<in> set (stage w now P db c)"
      "row_parent r' = Some (row_key r)"
      by (auto simp: references_def list_ex_iff split: option.splits)
    have chain: "(t, c) \<in> set FK_CHAIN" using c by (simp add: child_in_chain)
    then have wc: "0 < w c" "w c \<le> w t" using w pos by (auto simp: windows_coherent_def list_all_iff)
    with r'(1) t(2) [OF c] have mem: "r' \<in> set (db c)" "retentionCutoff (w c) now \<le> row_time r'"
      by (auto simp: stage_def pruned_def kept_def)
    have "row_time r' \<le> row_time r"
      using tc chain mem(1) r'(2) r(1) unfolding times_coherent_def by blast
    moreover have "?c \<le> retentionCutoff (w c) now"
      using wc(2) by (simp add: retentionCutoff_def MS_PER_DAY_def)
    ultimately show False using mem(2) r(2) by linarith
  qed
  then have "\<exists>k. prune_batches MAX_BATCHES_PER_ROUND t ?c n (stage w now P db) =
      (Inr k, (stage w now P db)(t := kept ?c (stage w now P db t)))"
    using cap n by (intro prune_batches_complete) (auto simp: here child_table_def split: retention_table.splits)
  moreover have "(stage w now P db)(t := kept ?c (stage w now P db t)) = stage w now (insert t P) db"
    using pos t(1) by (auto simp: stage_def pruned_def fun_eq_iff)
  ultimately show ?thesis by simp
qed

lemma prune_each_stage:
  assumes w: "windows_coherent w" and tc: "times_coherent db" and n: "0 < n"
    and cap: "\<And>t. length (expired (retentionCutoff (w t) now) (db t)) \<le> MAX_BATCHES_PER_ROUND * n"
  shows "distinct ts \<Longrightarrow> set ts \<inter> P = {} \<Longrightarrow>
    (\<And>us t vs c. ts = us @ t # vs \<Longrightarrow> child_table t = Some c \<Longrightarrow> c \<in> P \<union> set us) \<Longrightarrow>
    \<exists>reports. prune_each ts w n now (stage w now P db) = (Inr reports, stage w now (P \<union> set ts) db)"
proof (induction ts arbitrary: P)
  case (Cons t ts)
  have child: "c \<in> P" if "child_table t = Some c" for c
    using Cons.prems(3) [of "[]" t ts c] that by simp
  have "\<exists>reports. prune_each ts w n now (stage w now (insert t P) db) =
      (Inr reports, stage w now (insert t P \<union> set ts) db)"
  proof (rule Cons.IH)
    fix us u vs c assume "ts = us @ u # vs" "child_table u = Some c"
    then show "c \<in> insert t P \<union> set us" using Cons.prems(3) [of "t # us" u vs c] by auto
  qed (use Cons.prems in auto)
  moreover have "stage w now (insert t P) db = stage w now P db" if "\<not> 0 < w t"
    using that by (auto simp: stage_def pruned_def fun_eq_iff)
  moreover have "\<exists>k. prune_batches MAX_BATCHES_PER_ROUND t (retentionCutoff (w t) now) n (stage w now P db)
    = (Inr k, stage w now (insert t P) db)" if "0 < w t"
    using prune_stage [OF w tc n cap _ child that] Cons.prems(2) by auto
  ultimately show ?case by (cases "0 < w t") (auto simp: pruneTable_def Let_def)
qed simp

text \<open>
  With child windows no longer than their parents', rows no younger than what they reference
  and a backlog within the round's capacity, a pass succeeds and leaves exactly the rows inside the
  windows: no statement trips over a foreign key.
\<close>

theorem prune_converges:
  assumes "windows_coherent w" and "times_coherent db" and "0 < n"
    and "\<forall>t. length (filter (\<lambda>r. row_time r < retentionCutoff (w t) now) (db t)) \<le> 20 * n"
  shows "\<exists>reports. pruneExpiredData w n now db = (Inr reports, \<lambda>t. if 0 < w t
    then filter (\<lambda>r. retentionCutoff (w t) now \<le> row_time r) (db t) else db t)"
proof -
  have "\<exists>reports. prune_each RETENTION_TABLES w n now (stage w now {} db) =
      (Inr reports, stage w now ({} \<union> set RETENTION_TABLES) db)"
  proof (rule prune_each_stage [OF assms(1-3)])
    fix us t vs c assume "RETENTION_TABLES = us @ t # vs" "child_table t = Some c"
    then show "c \<in> {} \<union> set us"
      by (cases t) (auto simp: RETENTION_TABLES_def child_table_def Cons_eq_append_conv)
  qed (use assms(4) in \<open>auto simp: RETENTION_TABLES_def MAX_BATCHES_PER_ROUND_def\<close>)
  moreover have "stage w now {} db = db" by (simp add: stage_def)
  moreover have "set RETENTION_TABLES = UNIV"
    by (auto simp: RETENTION_TABLES_def intro: retention_table.exhaust)
  moreover have "stage w now UNIV db = (\<lambda>t. if 0 < w t
      then filter (\<lambda>r. retentionCutoff (w t) now \<le> row_time r) (db t) else db t)"
    by (auto simp: stage_def pruned_def kept_def not_less fun_eq_iff)
  ultimately show ?thesis by (simp add: pruneExpiredData_def)
qed

section \<open>The start-up check\<close>

definition aged_history :: history where
  "aged_history = (\<lambda>_. [])
     (Ledgers := [\<lparr>row_key = (''5'', ''mainnet''), row_time = - 60 * MS_PER_DAY, row_parent = None\<rparr>],
      Transactions := [\<lparr>row_key = (''ab'', ''mainnet''), row_time = - 60 * MS_PER_DAY,
                        row_parent = Some (''5'', ''mainnet'')\<rparr>])"

definition longer_children :: windows where
  "longer_children = (\<lambda>_. 0)(Ledgers := 30, Transactions := 90, Operations := 90)"

definition shorter_children :: windows where
  "shorter_children = (\<lambda>_. 0)(Ledgers := 90, Transactions := 30, Operations := 30)"


theorem prune_converges_witness:
  "\<exists>reports. pruneExpiredData shorter_children 1 0 aged_history = (Inr reports, \<lambda>t. if 0 < shorter_children t
    then filter (\<lambda>r. retentionCutoff (shorter_children t) 0 \<le> row_time r) (aged_history t) else aged_history t)"
proof (rule prune_converges)
  show "windows_coherent shorter_children" by code_simp
  show "times_coherent aged_history"
    by (simp add: times_coherent_def FK_CHAIN_def aged_history_def)
  show "\<forall>t. length (filter (\<lambda>r. row_time r < retentionCutoff (shorter_children t) 0) (aged_history t)) \<le> 20 * 1"
    by (simp add: aged_history_def)
qed simp

end
