(* ===== verification/Pagination.thy ===== *)
theory Pagination
  imports Js_Text "HOL-Library.Product_Lexorder" "HOL-Library.List_Lexorder" "HOL-Library.Char_ord"
begin

text \<open>
  \<open>graphql-server/src/pagination.ts\<close> and the keyset listings of \<open>graphql-server/src/db.ts\<close> that
  use it. A cursor's text is base64url of a JSON value; it is represented by the value it parses to,
  \<open>None\<close> for text that does not parse. Sort keys are whole numbers and strings.
\<close>

section \<open>Limits\<close>

definition DEFAULT_PAGE_LIMIT :: int where "DEFAULT_PAGE_LIMIT = 20"

definition MAX_PAGE_SIZE :: int where "MAX_PAGE_SIZE = 100"

definition MAX_AGGREGATE_ROWS :: int where "MAX_AGGREGATE_ROWS = 1000"

text \<open>A number argument; \<open>Fraction\<close> is any number that is not a whole one, NaN and infinities included.\<close>

datatype js_number = Whole int | Fraction

datatype page_error =
    NotPositive | ExceedsMaximum int
  | RangeTooWide int
  | NotACursor | IssuedBy string | WrongArity nat | NotAnArray | NoSortKey
  | KeysetMismatch | CastFailed
  | BadInput | NotFound | Internal

definition is_safe_integer :: "js_number \<Rightarrow> bool" where
  "is_safe_integer n = (case n of Whole i \<Rightarrow> \<bar>i\<bar> \<le> 9007199254740991 | Fraction \<Rightarrow> False)"

definition bounded_limit :: "int \<Rightarrow> js_number option \<Rightarrow> int \<Rightarrow> page_error + int" where
  "bounded_limit maximum limit def_limit =
     (let requested = (case limit of Some n \<Rightarrow> n | None \<Rightarrow> Whole def_limit) in
      case requested of
        Fraction \<Rightarrow> Inl NotPositive
      | Whole i \<Rightarrow>
          if \<not> is_safe_integer requested \<or> i < 1 then Inl NotPositive
          else if maximum < i then Inl (ExceedsMaximum i)
          else Inr i)"

definition getPageSize :: "js_number option \<Rightarrow> page_error + int" where
  "getPageSize limit = bounded_limit MAX_PAGE_SIZE limit DEFAULT_PAGE_LIMIT"

definition getAggregateLimit :: "js_number option \<Rightarrow> int \<Rightarrow> page_error + int" where
  "getAggregateLimit limit def_limit = bounded_limit MAX_AGGREGATE_ROWS limit def_limit"

datatype granularity = Hour | Day

definition granularitySeconds :: "granularity \<Rightarrow> int" where
  "granularitySeconds g = (if g = Day then 86400 else 3600)"

text \<open>Instants in milliseconds; \<open>None\<close> is text \<open>Date.parse\<close> cannot read.\<close>

definition countBuckets :: "int option \<Rightarrow> int option \<Rightarrow> granularity \<Rightarrow> int option" where
  "countBuckets startTime endTime g =
     (case (startTime, endTime) of
        (Some s, Some e) \<Rightarrow> if e \<le> s then None else Some (- ((s - e) div (1000 * granularitySeconds g)))
      | _ \<Rightarrow> None)"

definition assertRangeWithinLimit :: "int option \<Rightarrow> int option \<Rightarrow> granularity \<Rightarrow> int \<Rightarrow> page_error + unit" where
  "assertRangeWithinLimit startTime endTime g limit =
     (case countBuckets startTime endTime g of
        None \<Rightarrow> Inr ()
      | Some buckets \<Rightarrow> if limit < buckets then Inl (RangeTooWide buckets) else Inr ())"

section \<open>Cursors\<close>

datatype json = JNull | JBool bool | JNum int | JStr string | JArr "json list" | JObj "(string \<times> json) list"

datatype cursor_value = CNum int | CStr string

record keyset =
  ks_query :: string
  ks_columns :: "string list"
  ks_types :: "string list"

definition KEYSETS :: "(string \<times> keyset) list" where
  "KEYSETS = map (\<lambda>(name, q, cs, ts). (name, \<lparr>ks_query = q, ks_columns = cs, ks_types = ts\<rparr>))
    [(''accountLifecycle'', ''accountLifecycle'', [''ledger'', ''id''], [''bigint'', ''text'']),
     (''transactions'', ''transactions'', [''ledger'', ''hash''], [''bigint'', ''text'']),
     (''ledgers'', ''ledgers'', [''sequence''], [''bigint'']),
     (''accountsActivity'', ''accounts'', [''last_modified_ledger'', ''address''], [''bigint'', ''text'']),
     (''accountsAddress'', ''accounts'', [''address''], [''text'']),
     (''operations'', ''operations'', [''ledger'', ''id''], [''bigint'', ''text'']),
     (''assetOperations'', ''operations'', [''ledger'', ''id''], [''bigint'', ''text'']),
     (''events'', ''events'', [''ledger'', ''id''], [''bigint'', ''text'']),
     (''customEvents'', ''customEvents'', [''ledger'', ''event_id''], [''bigint'', ''text'']),
     (''search'', ''search'', [''rank'', ''ledger'', ''hash''], [''real'', ''bigint'', ''text'']),
     (''trades'', ''trades'', [''ledger_close_time'', ''id''], [''timestamptz'', ''text'']),
     (''effects'', ''effects'', [''ledger'', ''id''], [''bigint'', ''text''])]"

definition keysetFor :: "string \<Rightarrow> keyset option" where
  "keysetFor query = find (\<lambda>k. ks_query k = query) (map snd KEYSETS)"

fun value_json :: "cursor_value \<Rightarrow> json" where
  "value_json (CNum n) = JNum n"
| "value_json (CStr s) = JStr s"

fun json_value :: "json \<Rightarrow> page_error + cursor_value" where
  "json_value (JNum n) = Inr (CNum n)"
| "json_value (JStr s) = Inr (CStr s)"
| "json_value _ = Inl NoSortKey"

definition encodeCursor :: "string \<Rightarrow> cursor_value list \<Rightarrow> json" where
  "encodeCursor query values = JObj [(''q'', JStr query), (''k'', JArr (map value_json values))]"

text \<open>A property of a parsed object; of equal names the last one counts.\<close>

definition json_field :: "(string \<times> json) list \<Rightarrow> string \<Rightarrow> json option" where
  "json_field envelope name = map_of (rev envelope) name"

definition decodeCursor :: "json option \<Rightarrow> string \<Rightarrow> nat \<Rightarrow> page_error + cursor_value list" where
  "decodeCursor parsed query arity =
     (case parsed of
        Some (JObj envelope) \<Rightarrow>
          if json_field envelope ''q'' \<noteq> Some (JStr query)
          then (case json_field envelope ''q'' of Some (JStr other) \<Rightarrow> Inl (IssuedBy other) | _ \<Rightarrow> Inl NotACursor)
          else (case json_field envelope ''k'' of
                  Some (JArr k) \<Rightarrow> if length k \<noteq> arity then Inl (WrongArity (length k)) else traverse json_value k
                | _ \<Rightarrow> Inl NotAnArray)
      | _ \<Rightarrow> Inl NotACursor)"

section \<open>Page information\<close>

datatype direction = FORWARD | BACKWARD

record page_info =
  hasNextPage :: bool
  hasPreviousPage :: bool
  startCursor :: "json option"
  endCursor :: "json option"
  pi_cursor :: "json option"
  totalCount :: "int option"

definition pageInfo ::
  "keyset \<Rightarrow> 'a list \<Rightarrow> nat \<Rightarrow> ('a \<Rightarrow> cursor_value list) \<Rightarrow> direction \<Rightarrow> bool \<Rightarrow> int option
     \<Rightarrow> page_error + page_info" where
  "pageInfo keyset items limit keyOf direction hasPrior count =
     (if items = []
      then Inr \<lparr>hasNextPage = False, hasPreviousPage = hasPrior, startCursor = None, endCursor = None,
                pi_cursor = None, totalCount = count\<rparr>
      else
        (let firstValues = keyOf (hd items); lastValues = keyOf (last items) in
         if length firstValues \<noteq> length (ks_columns keyset) \<or> length lastValues \<noteq> length (ks_columns keyset)
         then Inl KeysetMismatch
         else
           (let isFullPage = (length items = limit);
                c1 = encodeCursor (ks_query keyset) firstValues;
                c2 = encodeCursor (ks_query keyset) lastValues
            in Inr \<lparr>hasNextPage = (if direction = FORWARD then isFullPage else hasPrior),
                    hasPreviousPage = (if direction = FORWARD then hasPrior else isFullPage),
                    startCursor = Some c1, endCursor = Some c2, pi_cursor = Some c2,
                    totalCount = count\<rparr>)))"

section \<open>The keyset condition\<close>

datatype sort_order = ASC | DESC

datatype comparison = Less | Greater

text \<open>The operator of \<open>cursorCondition\<close>.\<close>

definition cursor_operator :: "direction \<Rightarrow> sort_order \<Rightarrow> comparison" where
  "cursor_operator direction baseOrder =
     (if baseOrder = ASC then (if direction = FORWARD then Greater else Less)
      else (if direction = FORWARD then Less else Greater))"

definition compare :: "comparison \<Rightarrow> 'k::linorder \<Rightarrow> 'k \<Rightarrow> bool" where
  "compare c a b = (case c of Less \<Rightarrow> a < b | Greater \<Rightarrow> b < a)"

text \<open>The bind casts \<open>::bigint\<close> and \<open>::text\<close>.\<close>

definition cast_bigint :: "cursor_value \<Rightarrow> page_error + int" where
  "cast_bigint v = (case v of CNum n \<Rightarrow> Inr n
     | CStr s \<Rightarrow> if is_int_text (trim s) then Inr (int_of_text (trim s)) else Inl CastFailed)"

definition cast_text :: "cursor_value \<Rightarrow> string" where
  "cast_text v = (case v of CNum n \<Rightarrow> int_to_string n | CStr s \<Rightarrow> s)"

text \<open>\<open>cursorCondition\<close> for the keysets \<open>(bigint, text)\<close>: the key to resume from.\<close>

definition resume_key :: "string \<Rightarrow> json option option \<Rightarrow> page_error + (int \<times> string) option" where
  "resume_key query cursor =
     (case cursor of
        None \<Rightarrow> Inr None
      | Some raw \<Rightarrow>
          (case decodeCursor raw query 2 of
             Inl e \<Rightarrow> Inl e
           | Inr [a, b] \<Rightarrow> map_sum id (\<lambda>n. Some (n, cast_text b)) (cast_bigint a)
           | Inr _ \<Rightarrow> Inl NotACursor))"

text \<open>
  \<open>WHERE ... AND (key) op (cursor) ORDER BY key queryOrder LIMIT n\<close>, and the reversal of a backward
  page: the common shape of the listings.
\<close>

definition keyset_page ::
  "('a \<Rightarrow> 'k::linorder) \<Rightarrow> sort_order \<Rightarrow> direction \<Rightarrow> nat \<Rightarrow> 'k option \<Rightarrow> 'a list \<Rightarrow> 'a list" where
  "keyset_page key baseOrder direction limit cursor rows =
     (let matching = (case cursor of None \<Rightarrow> rows
            | Some c \<Rightarrow> filter (\<lambda>r. compare (cursor_operator direction baseOrder) (key r) c) rows);
          ascending = ((baseOrder = ASC) = (direction = FORWARD));
          ordered = (if ascending then sort_key key matching else rev (sort_key key matching));
          page = take limit ordered
      in if direction = FORWARD then page else rev page)"

section \<open>Listings\<close>

record tx_row =
  tx_network :: string
  tx_ledger :: int
  tx_hash :: string
  tx_created_at :: int
  tx_source_account :: string
  tx_successful :: bool

record tx_options =
  opt_order :: "sort_order option"
  opt_direction :: "direction option"
  opt_successful :: "bool option"
  opt_from :: "int option"
  opt_to :: "int option"
  opt_sourceAccount :: "string option"

definition tx_matches :: "string \<Rightarrow> tx_options \<Rightarrow> tx_row \<Rightarrow> bool" where
  "tx_matches network opts r =
     (tx_network r = network
      \<and> (case opt_successful opts of None \<Rightarrow> True | Some b \<Rightarrow> tx_successful r = b)
      \<and> (case opt_from opts of None \<Rightarrow> True | Some f \<Rightarrow> f \<le> tx_created_at r)
      \<and> (case opt_to opts of None \<Rightarrow> True | Some t \<Rightarrow> tx_created_at r \<le> t)
      \<and> (case opt_sourceAccount opts of None \<Rightarrow> True | Some a \<Rightarrow> a = [] \<or> tx_source_account r = a))"

definition tx_key :: "tx_row \<Rightarrow> int \<times> string" where
  "tx_key r = (tx_ledger r, tx_hash r)"

definition getTransactions ::
  "tx_row list \<Rightarrow> string \<Rightarrow> nat \<Rightarrow> json option option \<Rightarrow> tx_options \<Rightarrow> page_error + tx_row list" where
  "getTransactions rows network limit cursor opts =
     (let baseOrder = (case opt_order opts of Some x \<Rightarrow> x | None \<Rightarrow> DESC);
          direction = (case opt_direction opts of Some d \<Rightarrow> d | None \<Rightarrow> FORWARD)
      in case resume_key ''transactions'' cursor of
           Inl e \<Rightarrow> Inl e
         | Inr k \<Rightarrow> Inr (keyset_page tx_key baseOrder direction limit k (filter (tx_matches network opts) rows)))"

text \<open>\<open>getOperations\<close>, with the account and type filters; \<open>Server_Lists\<close> extends the row by its details.\<close>

record op_row =
  opr_network :: string
  opr_ledger :: int
  opr_id :: string
  opr_type :: string
  opr_source_account :: string

definition op_key :: "'z op_row_scheme \<Rightarrow> int \<times> string" where
  "op_key r = (opr_ledger r, opr_id r)"

definition getOperations ::
  "'z op_row_scheme list \<Rightarrow> string \<Rightarrow> string option \<Rightarrow> string option \<Rightarrow> nat \<Rightarrow> json option option
     \<Rightarrow> direction option \<Rightarrow> sort_order option \<Rightarrow> page_error + 'z op_row_scheme list" where
  "getOperations rows network account type limit cursor dir ord =
     (let baseOrder = (case ord of Some x \<Rightarrow> x | None \<Rightarrow> DESC);
          direction = (case dir of Some d \<Rightarrow> d | None \<Rightarrow> FORWARD);
          matching = filter (\<lambda>r. opr_network r = network
            \<and> (case account of None \<Rightarrow> True | Some a \<Rightarrow> a = [] \<or> opr_source_account r = a)
            \<and> (case type of None \<Rightarrow> True | Some t \<Rightarrow> t = [] \<or> opr_type r = lower_case t)) rows
      in case resume_key ''operations'' cursor of
           Inl e \<Rightarrow> Inl e
         | Inr k \<Rightarrow> Inr (keyset_page op_key baseOrder direction limit k matching))"

text \<open>\<open>getLedgers\<close>: one sort key, newest first.\<close>

definition getLedgers ::
  "(int \<times> string) list \<Rightarrow> string \<Rightarrow> nat \<Rightarrow> json option option \<Rightarrow> direction \<Rightarrow> page_error + (int \<times> string) list" where
  "getLedgers rows network limit cursor direction =
     (let matching = filter (\<lambda>(_, n). n = network) rows in
      case cursor of
        None \<Rightarrow> Inr (keyset_page fst DESC direction limit None matching)
      | Some raw \<Rightarrow>
          (case decodeCursor raw ''ledgers'' 1 of
             Inl e \<Rightarrow> Inl e
           | Inr [a] \<Rightarrow> map_sum id (\<lambda>c. keyset_page fst DESC direction limit (Some c) matching) (cast_bigint a)
           | Inr _ \<Rightarrow> Inl NotACursor))"

text \<open>
  \<open>getAccounts\<close> in the order \<open>RECENT_ACTIVITY\<close>: \<open>ORDER BY last_modified_ledger DESC, address ASC\<close>
  (\<open>ASC\<close>, \<open>DESC\<close> backwards), resumed by the row comparison \<open>(last_modified_ledger, address) < cursor\<close>.
  The rows are addresses with their last-modified ledger.
\<close>

definition by_activity :: "(string \<times> int) list \<Rightarrow> (string \<times> int) list" where
  "by_activity rows = sort_key (\<lambda>(_, l). - l) (sort_key fst rows)"

definition getAccounts_recent ::
  "(string \<times> int) list \<Rightarrow> nat \<Rightarrow> json option option \<Rightarrow> direction \<Rightarrow> page_error + (string \<times> int) list" where
  "getAccounts_recent rows limit cursor direction =
     (case resume_key ''accounts'' cursor of
        Inl e \<Rightarrow> Inl e
      | Inr k \<Rightarrow>
          (let matching = (case k of None \<Rightarrow> rows
                 | Some c \<Rightarrow> filter (\<lambda>(a, l). compare (cursor_operator direction DESC) (l, a) c) rows);
               page = take limit (if direction = FORWARD then by_activity matching else rev (by_activity matching))
           in Inr (if direction = FORWARD then page else rev page)))"

text \<open>
  A client's walk: pass back the cursor of every page until \<open>hasNextPage\<close> is false. \<open>fuel\<close> bounds
  the number of pages.
\<close>

fun walk ::
  "(json option option \<Rightarrow> page_error + 'a list) \<Rightarrow> ('a list \<Rightarrow> bool \<Rightarrow> page_error + page_info) \<Rightarrow> nat
     \<Rightarrow> json option option \<Rightarrow> page_error + 'a list" where
  "walk fetch info 0 cursor = Inr []"
| "walk fetch info (Suc fuel) cursor =
     (case fetch cursor of
        Inl e \<Rightarrow> Inl e
      | Inr items \<Rightarrow>
          (case info items (cursor \<noteq> None) of
             Inl e \<Rightarrow> Inl e
           | Inr i \<Rightarrow>
               if hasNextPage i then map_sum id (\<lambda>rest. items @ rest) (walk fetch info fuel (Some (pi_cursor i)))
               else Inr items))"

section \<open>A keyset walk visits every row once\<close>

text \<open>The whole listing in its base order.\<close>

definition listing :: "('a \<Rightarrow> 'k::linorder) \<Rightarrow> sort_order \<Rightarrow> 'a list \<Rightarrow> 'a list" where
  "listing key baseOrder rows = (if baseOrder = ASC then sort_key key rows else rev (sort_key key rows))"

lemma set_listing [simp]: "set (listing key base rows) = set rows"
  by (simp add: listing_def)

lemma listing_order:
  assumes "distinct (map key rows)"
  shows "sorted_wrt (\<lambda>a b. compare (cursor_operator FORWARD base) (key b) (key a)) (listing key base rows)"
proof -
  have "distinct (map key (sort_key key rows))"
    using assms by (simp add: distinct_map)
  then have "sorted_wrt (<) (map key (sort_key key rows))"
    using sorted_sort_key [of key rows] unfolding strict_sorted_iff by blast
  then have s: "sorted_wrt (\<lambda>a b. key a < key b) (sort_key key rows)"
    by (simp add: sorted_wrt_map)
  show ?thesis
    using s by (cases base) (auto simp: listing_def cursor_operator_def compare_def sorted_wrt_rev)
qed

lemma compare_cases:
  "compare c a b \<Longrightarrow> \<not> compare c b a" "\<not> compare c a a"
  by (cases c; auto simp: compare_def)+

text \<open>Resuming after a row yields what follows it in the listing.\<close>

lemma page_after:
  assumes d: "distinct (map key rows)" and l: "listing key base rows = xs @ r # ys"
  shows "keyset_page key base FORWARD limit (Some (key r)) rows = take limit ys"
proof -
  let ?P = "\<lambda>a. compare (cursor_operator FORWARD base) (key a) (key r)"
  have w: "sorted_wrt (\<lambda>a b. compare (cursor_operator FORWARD base) (key b) (key a)) (xs @ r # ys)"
    using listing_order [OF d, of base] l by simp
  have "filter ?P (xs @ r # ys) = ys"
    using w by (auto simp: sorted_wrt_append filter_empty_conv filter_id_conv compare_cases)
  moreover have "listing key base (filter ?P rows) = filter ?P (listing key base rows)"
    by (simp add: listing_def filter_sort rev_filter [symmetric])
  moreover have "keyset_page key base FORWARD limit (Some (key r)) rows = take limit (listing key base (filter ?P rows))"
    by (cases base) (simp_all add: keyset_page_def listing_def)
  ultimately show ?thesis using l by simp
qed

lemma page_first: "keyset_page key base FORWARD limit None rows = take limit (listing key base rows)"
  by (cases base) (simp_all add: keyset_page_def listing_def)

text \<open>What a listing has to provide for the walk: its first page and the page after any row.\<close>

locale keyset_listing =
  fixes fetch :: "json option option \<Rightarrow> page_error + 'a list"
    and info :: "'a list \<Rightarrow> bool \<Rightarrow> page_error + page_info"
    and cursor_of :: "'a \<Rightarrow> json option"
    and whole :: "'a list"
    and limit :: nat
  assumes limit_pos: "0 < limit"
    and fetch_first: "fetch None = Inr (take limit whole)"
    and fetch_after: "whole = xs @ r # ys \<Longrightarrow> fetch (Some (cursor_of r)) = Inr (take limit ys)"
    and info_page: "items \<noteq> [] \<Longrightarrow> \<exists>i. info items prior = Inr i \<and> hasNextPage i = (length items = limit) \<and>
        pi_cursor i = cursor_of (last items)"
    and info_empty: "\<exists>i. info [] prior = Inr i \<and> \<not> hasNextPage i"
begin

lemma walk_step:
  "walk fetch info (Suc fuel) c = Inr (take limit ys)" if "fetch c = Inr (take limit ys)" "length ys < limit"
  using that info_page [of ys "c \<noteq> None"] info_empty [of "c \<noteq> None"]
  by (cases "ys = []") (auto simp: limit_pos)

lemma walk_from:
  "fetch c = Inr (take limit ys) \<Longrightarrow> whole = xs @ ys \<Longrightarrow> length ys < fuel * limit \<Longrightarrow>
     walk fetch info fuel c = Inr ys"
proof (induction fuel arbitrary: c xs ys)
  case (Suc fuel)
  show ?case
  proof (cases "length ys < limit")
    case True
    with walk_step [OF Suc.prems(1)] show ?thesis by simp
  next
    case False
    let ?p = "take limit ys"
    have p: "?p \<noteq> []" "length ?p = limit" using False limit_pos by auto
    then obtain i where i: "info ?p (c \<noteq> None) = Inr i" "hasNextPage i" "pi_cursor i = cursor_of (last ?p)"
      using info_page [OF p(1), of "c \<noteq> None"] by auto
    have "ys = butlast ?p @ last ?p # drop limit ys"
      using p(1) by (metis append_butlast_last_id append_Cons append_assoc append_Nil append_take_drop_id)
    then have w: "whole = (xs @ butlast ?p) @ last ?p # drop limit ys" using Suc.prems(2) by simp
    have "walk fetch info fuel (Some (pi_cursor i)) = Inr (drop limit ys)"
    proof (rule Suc.IH)
      show "fetch (Some (pi_cursor i)) = Inr (take limit (drop limit ys))"
        using fetch_after [OF w] i(3) by simp
      show "whole = (xs @ ?p) @ drop limit ys" using Suc.prems(2) by simp
      show "length (drop limit ys) < fuel * limit" using Suc.prems(3) False by simp
    qed
    with Suc.prems(1) i show ?thesis by simp
  qed
qed simp

lemma walk_whole: "length whole < fuel * limit \<Longrightarrow> walk fetch info fuel None = Inr whole"
  by (rule walk_from [OF fetch_first, of "[]"]) simp_all

end

section \<open>Cursors round trip\<close>

lemma traverse_values: "traverse json_value (map value_json vs) = Inr vs"
proof (induction vs)
  case (Cons v vs)
  then show ?case by (cases v) simp_all
qed simp

lemma decode_encode: "decodeCursor (Some (encodeCursor q vs)) q (length vs) = Inr vs"
  by (simp add: decodeCursor_def encodeCursor_def json_field_def traverse_values)

text \<open>
  A cursor decodes to exactly the sort key it was minted from, and only for the query that
  issued it: another query's cursor, a cursor of another width and text that is not a cursor are
  all errors, never an empty page.
\<close>

theorem cursor_roundtrip:
  "decodeCursor (Some (encodeCursor q vs)) q' n =
     (if q' \<noteq> q then Inl (IssuedBy q) else if n \<noteq> length vs then Inl (WrongArity (length vs)) else Inr vs)
   \<and> decodeCursor None q' n = Inl NotACursor"
  by (auto simp: decodeCursor_def encodeCursor_def json_field_def traverse_values)

section \<open>The transactions listing\<close>

definition tx_keyset :: keyset where
  "tx_keyset = (case map_of KEYSETS ''transactions'' of Some k \<Rightarrow> k | None \<Rightarrow> undefined)"

lemma tx_keyset_eq:
  "tx_keyset = \<lparr>ks_query = ''transactions'', ks_columns = [''ledger'', ''hash''], ks_types = [''bigint'', ''text'']\<rparr>"
  by (simp add: tx_keyset_def KEYSETS_def)

definition tx_cursor_values :: "tx_row \<Rightarrow> cursor_value list" where
  "tx_cursor_values r = [CNum (tx_ledger r), CStr (tx_hash r)]"

definition tx_cursor :: "tx_row \<Rightarrow> json option" where
  "tx_cursor r = Some (encodeCursor ''transactions'' (tx_cursor_values r))"

lemma resume_tx: "resume_key ''transactions'' (Some (tx_cursor r)) = Inr (Some (tx_key r))"
  using decode_encode [of "''transactions''" "tx_cursor_values r"]
  by (simp add: resume_key_def tx_cursor_def tx_cursor_values_def tx_key_def cast_bigint_def cast_text_def
      numeral_2_eq_2)

text \<open>A \<open>transactions\<close> table: \<open>(hash, network)\<close> is its primary key.\<close>

typedef tx_table = "{rows :: tx_row list. distinct (map (\<lambda>r. (tx_hash r, tx_network r)) rows)}"
  morphisms tx_rows Tx_table
  by (rule exI [of _ "[]"]) simp

lemma tx_keys_distinct:
  "distinct (map (\<lambda>r. (tx_hash r, tx_network r)) rows) \<Longrightarrow> distinct (map tx_key (filter (tx_matches n opts) rows))"
  by (induction rows) (auto simp: tx_key_def tx_matches_def)

definition tx_listing :: "tx_row list \<Rightarrow> string \<Rightarrow> tx_options \<Rightarrow> tx_row list" where
  "tx_listing rows network opts =
     listing tx_key (case opt_order opts of Some x \<Rightarrow> x | None \<Rightarrow> DESC) (filter (tx_matches network opts) rows)"

lemma tx_page_after:
  assumes "distinct (map (\<lambda>r. (tx_hash r, tx_network r)) rows)"
    and "opt_direction opts = None" and "tx_listing rows network opts = xs @ r # ys"
  shows "getTransactions rows network limit (Some (tx_cursor r)) opts = Inr (take limit ys)"
  using page_after [OF tx_keys_distinct [OF assms(1)]] assms(2,3)
  by (simp add: getTransactions_def resume_tx Let_def tx_listing_def)

interpretation tx_walk: keyset_listing
  "\<lambda>c. getTransactions (tx_rows t) network (Suc n) c (opts\<lparr>opt_direction := None\<rparr>)"
  "\<lambda>items prior. pageInfo tx_keyset items (Suc n) tx_cursor_values FORWARD prior None"
  tx_cursor "tx_listing (tx_rows t) network (opts\<lparr>opt_direction := None\<rparr>)" "Suc n"
  for t network opts n
proof
  show "getTransactions (tx_rows t) network (Suc n) None (opts\<lparr>opt_direction := None\<rparr>) =
      Inr (take (Suc n) (tx_listing (tx_rows t) network (opts\<lparr>opt_direction := None\<rparr>)))"
    by (simp add: getTransactions_def resume_key_def Let_def page_first tx_listing_def)
  show "getTransactions (tx_rows t) network (Suc n) (Some (tx_cursor r)) (opts\<lparr>opt_direction := None\<rparr>) =
      Inr (take (Suc n) ys)"
    if "tx_listing (tx_rows t) network (opts\<lparr>opt_direction := None\<rparr>) = xs @ r # ys" for xs r ys
    by (rule tx_page_after [OF _ _ that]) (use tx_rows [of t] in simp_all)
qed (auto simp: pageInfo_def Let_def tx_keyset_eq tx_cursor_def tx_cursor_values_def)

text \<open>
  C28: a client that follows \<open>pageInfo.cursor\<close> until \<open>hasNextPage\<close> is false reads every matching
  transaction exactly once, in the listing's order, for every filter, either order and every page
  size; the number of pages is bounded by the fuel's hypothesis, so the walk ends.
\<close>

theorem transactions_walk_complete:
  assumes "distinct (map (\<lambda>r. (tx_hash r, tx_network r)) rows)" and "0 < limit"
    and "opt_direction opts = None" and "length rows < fuel * limit"
  shows "walk (\<lambda>c. getTransactions rows network limit c opts)
      (\<lambda>items prior. pageInfo tx_keyset items limit tx_cursor_values FORWARD prior None) fuel None =
    Inr (tx_listing rows network opts)"
proof -
  obtain n where n: "limit = Suc n" using assms(2) by (cases limit) auto
  have r: "tx_rows (Tx_table rows) = rows" using assms(1) by (simp add: Tx_table_inverse)
  have o: "opts\<lparr>opt_direction := None\<rparr> = opts" using assms(3) by (cases opts) simp
  have "length (tx_listing rows network opts) \<le> length rows"
    by (simp add: tx_listing_def listing_def)
  then show ?thesis
    using tx_walk.walk_whole [of "Tx_table rows" network opts fuel n, unfolded r o] assms(4) n by simp
qed

section \<open>Paging backwards\<close>

lemma page_before:
  assumes d: "distinct (map key rows)" and l: "listing key base rows = xs @ r # ys"
  shows "keyset_page key base BACKWARD limit (Some (key r)) rows = drop (length xs - limit) xs"
proof -
  let ?P = "\<lambda>a. compare (cursor_operator BACKWARD base) (key a) (key r)"
  have w: "sorted_wrt (\<lambda>a b. compare (cursor_operator FORWARD base) (key b) (key a)) (xs @ r # ys)"
    using listing_order [OF d, of base] l by simp
  have P: "?P a = compare (cursor_operator FORWARD base) (key r) (key a)" for a
    by (cases base) (auto simp: cursor_operator_def compare_def)
  have "filter ?P (xs @ r # ys) = xs"
    unfolding P using w by (auto simp: sorted_wrt_append filter_empty_conv filter_id_conv compare_cases)
  moreover have "listing key base (filter ?P rows) = filter ?P (listing key base rows)"
    by (simp add: listing_def filter_sort rev_filter [symmetric])
  moreover have "keyset_page key base BACKWARD limit (Some (key r)) rows =
      rev (take limit (rev (listing key base (filter ?P rows))))"
    by (cases base) (simp_all add: keyset_page_def listing_def)
  ultimately show ?thesis using l by (simp add: take_rev)
qed

text \<open>
  Paging backwards from a row returns the rows right before it, as many as the limit allows, in
  the listing's own order.
\<close>

theorem transactions_backward_page:
  assumes "distinct (map (\<lambda>r. (tx_hash r, tx_network r)) rows)"
    and "opt_direction opts = Some BACKWARD"
    and "tx_listing rows network opts = xs @ r # ys"
  shows "getTransactions rows network limit (Some (tx_cursor r)) opts = Inr (drop (length xs - limit) xs)"
  using page_before [OF tx_keys_distinct [OF assms(1)]] assms(2,3)
  by (simp add: getTransactions_def resume_tx Let_def tx_listing_def)

section \<open>The accounts listing\<close>

definition accounts_keyset :: keyset where
  "accounts_keyset = (case map_of KEYSETS ''accountsActivity'' of Some k \<Rightarrow> k | None \<Rightarrow> undefined)"

text \<open>
  The default order of \<open>accounts\<close> cannot be walked. Its tie-break is ascending while its keyset
  condition compares both columns downwards, so of three accounts modified in the same ledger a walk
  with pages of two returns the first one twice and never the third.
\<close>

theorem accounts_walk_loses_rows:
  "walk (\<lambda>c. getAccounts_recent [(''GA'', 5), (''GB'', 5), (''GC'', 5)] 2 c FORWARD)
     (\<lambda>items prior. pageInfo accounts_keyset items 2 (\<lambda>(a, l). [CNum l, CStr a]) FORWARD prior None) 9 None
   = Inr [(''GA'', 5), (''GB'', 5), (''GA'', 5)]"
  by code_simp

section \<open>Concrete listings\<close>

definition sample_txs :: "tx_row list" where
  "sample_txs = map (\<lambda>(l, h). \<lparr>tx_network = ''mainnet'', tx_ledger = l, tx_hash = h, tx_created_at = l,
      tx_source_account = ''GA'', tx_successful = True\<rparr>) [(5, ''a''), (7, ''b''), (5, ''c'')]"

definition no_options :: tx_options where
  "no_options = \<lparr>opt_order = None, opt_direction = None, opt_successful = None, opt_from = None,
      opt_to = None, opt_sourceAccount = None\<rparr>"

theorem transactions_walk_complete_witness:
  "walk (\<lambda>c. getTransactions sample_txs ''mainnet'' 2 c no_options)
      (\<lambda>items prior. pageInfo tx_keyset items 2 tx_cursor_values FORWARD prior None) 2 None =
    Inr (tx_listing sample_txs ''mainnet'' no_options)"
  by (rule transactions_walk_complete) (simp_all add: sample_txs_def no_options_def)

theorem transactions_backward_page_witness:
  "getTransactions sample_txs ''mainnet'' 1 (Some (tx_cursor (hd sample_txs)))
     (no_options\<lparr>opt_direction := Some BACKWARD\<rparr>) = Inr [sample_txs ! 2]"
proof -
  have "tx_listing sample_txs ''mainnet'' (no_options\<lparr>opt_direction := Some BACKWARD\<rparr>) =
      [sample_txs ! 1, sample_txs ! 2] @ hd sample_txs # []"
    by code_simp
  from transactions_backward_page [OF _ _ this, of 1] show ?thesis
    by (simp add: sample_txs_def no_options_def)
qed

end
