(* ===== verification/Circuit_Breaker.thy ===== *)
theory Circuit_Breaker
  imports Lumina_Prelude
begin

text \<open>
  \<open>indexer/src/circuitBreaker.ts\<close>: contract ids that keep failing are left out of event polling and
  retried periodically. The module's variables are one state record; the three counters are its
  metrics.
\<close>

record cb_entry =
  consecutiveFailures :: nat
  cb_dropped :: bool
  droppedAt :: "int option"
  lastFailureAt :: "int option"

record breaker =
  cb_state :: "string \<Rightarrow> cb_entry option"
  cycleCount :: nat
  droppedContractIds :: nat
  recoveredContractIds :: nat
  retryAttempts :: nat

definition FAILURE_THRESHOLD :: nat where "FAILURE_THRESHOLD = 5"

definition RETRY_INTERVAL_CYCLES :: nat where "RETRY_INTERVAL_CYCLES = 60"

definition BATCH_SIZE :: nat where "BATCH_SIZE = 10"

definition fresh_entry :: cb_entry where
  "fresh_entry = \<lparr>consecutiveFailures = 0, cb_dropped = False, droppedAt = None, lastFailureAt = None\<rparr>"

definition resetCircuitBreaker :: "breaker \<Rightarrow> breaker" where
  "resetCircuitBreaker s = s\<lparr>cb_state := (\<lambda>_. None), cycleCount := 0\<rparr>"

definition record_one_failure :: "int \<Rightarrow> string \<Rightarrow> breaker \<Rightarrow> breaker" where
  "record_one_failure now cid s =
     (let old = (case cb_state s cid of Some e \<Rightarrow> e | None \<Rightarrow> fresh_entry);
          e = old\<lparr>consecutiveFailures := consecutiveFailures old + 1, lastFailureAt := Some now\<rparr>
      in if FAILURE_THRESHOLD \<le> consecutiveFailures e \<and> \<not> cb_dropped e
         then s\<lparr>cb_state := (cb_state s)(cid \<mapsto> e\<lparr>cb_dropped := True, droppedAt := Some now\<rparr>),
                droppedContractIds := droppedContractIds s + 1\<rparr>
         else s\<lparr>cb_state := (cb_state s)(cid \<mapsto> e)\<rparr>)"

definition recordFailure :: "int \<Rightarrow> string list \<Rightarrow> breaker \<Rightarrow> breaker" where
  "recordFailure now ids s = fold (record_one_failure now) ids s"

definition record_one_success :: "string \<Rightarrow> breaker \<Rightarrow> breaker" where
  "record_one_success cid s =
     (let s' = (case cb_state s cid of
                  Some e \<Rightarrow> if cb_dropped e then s\<lparr>recoveredContractIds := recoveredContractIds s + 1\<rparr> else s
                | None \<Rightarrow> s)
      in s'\<lparr>cb_state := (cb_state s)(cid \<mapsto> fresh_entry)\<rparr>)"

definition recordSuccess :: "string list \<Rightarrow> breaker \<Rightarrow> breaker" where
  "recordSuccess ids s = fold record_one_success ids s"

text \<open>The loop of \<open>filterContractIds\<close>, after the cycle counter was advanced.\<close>

fun filter_loop :: "string list \<Rightarrow> breaker \<Rightarrow> string list \<times> breaker" where
  "filter_loop [] s = ([], s)"
| "filter_loop (cid # ids) s =
     (if (case cb_state s cid of None \<Rightarrow> True | Some e \<Rightarrow> \<not> cb_dropped e)
      then (case filter_loop ids s of (out, s') \<Rightarrow> (cid # out, s'))
      else if cycleCount s mod RETRY_INTERVAL_CYCLES = 0
      then (case filter_loop ids (s\<lparr>cb_state := (cb_state s)(cid \<mapsto> fresh_entry),
                                    retryAttempts := retryAttempts s + 1\<rparr>) of
              (out, s') \<Rightarrow> (cid # out, s'))
      else filter_loop ids s)"

definition filterContractIds :: "string list \<Rightarrow> breaker \<Rightarrow> string list \<times> breaker" where
  "filterContractIds ids s = filter_loop ids (s\<lparr>cycleCount := cycleCount s + 1\<rparr>)"

definition chunkContractIds :: "string list \<Rightarrow> string list list" where
  "chunkContractIds ids = chunks BATCH_SIZE ids"

definition getCircuitBreakerState :: "breaker \<Rightarrow> (string \<Rightarrow> cb_entry option)" where
  "getCircuitBreakerState s = cb_state s"

section \<open>Runs\<close>

datatype cb_action = Fail int "string list" | Succeed "string list" | Filter "string list"

fun perform :: "cb_action \<Rightarrow> breaker \<Rightarrow> breaker" where
  "perform (Fail now ids) s = recordFailure now ids s"
| "perform (Succeed ids) s = recordSuccess ids s"
| "perform (Filter ids) s = snd (filterContractIds ids s)"

inductive cb_step :: "breaker \<Rightarrow> breaker \<Rightarrow> bool" where
  "cb_step s (perform a s)"
| "cb_step s (resetCircuitBreaker s)"

inductive_cases cb_stepE: "cb_step s t"

definition initial_breaker :: breaker where
  "initial_breaker = \<lparr>cb_state = (\<lambda>_. None), cycleCount = 0, droppedContractIds = 0,
     recoveredContractIds = 0, retryAttempts = 0\<rparr>"

text \<open>An id is dropped exactly while it has reached the threshold.\<close>

definition entry_ok :: "cb_entry \<Rightarrow> bool" where
  "entry_ok e = (cb_dropped e \<longleftrightarrow> FAILURE_THRESHOLD \<le> consecutiveFailures e)"

definition breaker_ok :: "breaker \<Rightarrow> bool" where
  "breaker_ok s \<longleftrightarrow> (\<forall>cid e. cb_state s cid = Some e \<longrightarrow> entry_ok e)"

definition failures_of :: "breaker \<Rightarrow> string \<Rightarrow> nat" where
  "failures_of s cid = (case cb_state s cid of None \<Rightarrow> 0 | Some e \<Rightarrow> consecutiveFailures e)"

lemma fresh_ok [simp]: "entry_ok fresh_entry"
  by (simp add: entry_ok_def fresh_entry_def FAILURE_THRESHOLD_def)

lemma breaker_ok_update:
  "breaker_ok s \<Longrightarrow> entry_ok e \<Longrightarrow> cb_state t = (cb_state s)(cid \<mapsto> e) \<Longrightarrow> breaker_ok t"
  by (auto simp: breaker_ok_def)

lemma record_one_failure_ok:
  assumes "breaker_ok s"
  shows "breaker_ok (record_one_failure now cid s)"
proof -
  define old where "old = (case cb_state s cid of Some e \<Rightarrow> e | None \<Rightarrow> fresh_entry)"
  have "entry_ok old" using assms by (auto simp: old_def breaker_ok_def split: option.splits)
  then show ?thesis
    unfolding record_one_failure_def Let_def old_def [symmetric]
    using assms unfolding breaker_ok_def by (auto simp: entry_ok_def split: if_splits)
qed

lemma record_one_success_ok: "breaker_ok s \<Longrightarrow> breaker_ok (record_one_success cid s)"
  by (rule breaker_ok_update [OF _ fresh_ok]) (auto simp: record_one_success_def Let_def split: option.splits)

lemma filter_loop_ok: "breaker_ok s \<Longrightarrow> breaker_ok (snd (filter_loop ids s))"
proof (induction ids s rule: filter_loop.induct)
  case (2 cid ids s)
  have "breaker_ok (s\<lparr>cb_state := (cb_state s)(cid \<mapsto> fresh_entry), retryAttempts := retryAttempts s + 1\<rparr>)"
    by (rule breaker_ok_update [OF "2.prems" fresh_ok]) simp
  with 2 show ?case by (cases "cb_state s cid") (auto simp: case_prod_unfold)
qed simp

lemma fold_ok: "(\<And>x s. breaker_ok s \<Longrightarrow> breaker_ok (f x s)) \<Longrightarrow> breaker_ok s \<Longrightarrow> breaker_ok (fold f xs s)"
  by (induction xs arbitrary: s) auto

lemma perform_ok: "breaker_ok s \<Longrightarrow> breaker_ok (perform a s)"
proof (cases a)
  case (Filter ids)
  assume "breaker_ok s"
  then have "breaker_ok (s\<lparr>cycleCount := cycleCount s + 1\<rparr>)" by (simp add: breaker_ok_def)
  with Filter show ?thesis by (simp add: filterContractIds_def filter_loop_ok)
qed (auto simp: recordFailure_def recordSuccess_def record_one_failure_ok record_one_success_ok intro!: fold_ok)

interpretation breaker_sys: invariant_system "\<lambda>s. s = initial_breaker" cb_step breaker_ok
proof
  show "breaker_ok s" if "s = initial_breaker" for s
    using that by (simp add: initial_breaker_def breaker_ok_def)
  show "breaker_ok t" if "breaker_ok s" "cb_step s t" for s t
    using that(2)
  proof (cases rule: cb_step.cases)
    case 1
    with that(1) show ?thesis by (simp add: perform_ok)
  next
    case 2
    then show ?thesis by (simp add: resetCircuitBreaker_def breaker_ok_def)
  qed
qed

section \<open>What is let through\<close>

lemma filter_loop_retry:
  "cycleCount s mod RETRY_INTERVAL_CYCLES = 0 \<Longrightarrow> fst (filter_loop ids s) = ids"
  by (induction ids s rule: filter_loop.induct) (auto split: prod.splits)

lemma filter_loop_normal:
  "cycleCount s mod RETRY_INTERVAL_CYCLES \<noteq> 0 \<Longrightarrow>
     filter_loop ids s = (filter (\<lambda>cid. case cb_state s cid of None \<Rightarrow> True | Some e \<Rightarrow> \<not> cb_dropped e) ids, s)"
  by (induction ids) auto

text \<open>
  In every reachable state an ordinary cycle attempts exactly the ids with fewer than five
  consecutive failures, in their given order and with nothing else changed; every sixtieth cycle
  attempts all of them.
\<close>

theorem breaker_lets_healthy_through:
  assumes "cb_step\<^sup>*\<^sup>* initial_breaker s"
  shows "fst (filterContractIds ids s) =
    (if (cycleCount s + 1) mod 60 = 0 then ids else filter (\<lambda>cid. failures_of s cid < 5) ids)"
proof -
  have ok: "breaker_ok s" by (rule breaker_sys.inv_reachable [OF refl assms])
  have "(case cb_state s cid of None \<Rightarrow> True | Some e \<Rightarrow> \<not> cb_dropped e) = (failures_of s cid < 5)" for cid
    using ok by (auto simp: failures_of_def breaker_ok_def entry_ok_def FAILURE_THRESHOLD_def split: option.splits)
  then show ?thesis
    using filter_loop_retry [of "s\<lparr>cycleCount := cycleCount s + 1\<rparr>" ids]
      filter_loop_normal [of "s\<lparr>cycleCount := cycleCount s + 1\<rparr>" ids]
    by (auto simp: filterContractIds_def RETRY_INTERVAL_CYCLES_def)
qed

theorem breaker_lets_healthy_through_witness:
  "fst (filterContractIds [''CA'', ''CB''] (recordFailure 0 (replicate 5 ''CA'') initial_breaker)) =
    (if (cycleCount (recordFailure 0 (replicate 5 ''CA'') initial_breaker) + 1) mod 60 = 0 then [''CA'', ''CB'']
     else filter (\<lambda>cid. failures_of (recordFailure 0 (replicate 5 ''CA'') initial_breaker) cid < 5) [''CA'', ''CB''])"
proof (rule breaker_lets_healthy_through)
  show "cb_step\<^sup>*\<^sup>* initial_breaker (recordFailure 0 (replicate 5 ''CA'') initial_breaker)"
    using cb_step.intros(1) [of initial_breaker "Fail 0 (replicate 5 ''CA'')"] by simp
qed

section \<open>No id is dropped for good\<close>

text \<open>The inputs and outputs of the filter calls of a run.\<close>

fun filter_calls :: "cb_action list \<Rightarrow> breaker \<Rightarrow> (string list \<times> string list) list" where
  "filter_calls [] s = []"
| "filter_calls (Filter ids # as) s =
     (ids, fst (filterContractIds ids s)) # filter_calls as (snd (filterContractIds ids s))"
| "filter_calls (a # as) s = filter_calls as (perform a s)"

lemma cycle_kept [simp]:
  "cycleCount (recordFailure now ids s) = cycleCount s" "cycleCount (recordSuccess ids s) = cycleCount s"
  "cycleCount (snd (filter_loop ids s)) = cycleCount s"
proof -
  have one: "cycleCount (record_one_failure now cid s) = cycleCount s"
    "cycleCount (record_one_success cid s) = cycleCount s" for cid s
    by (auto simp: record_one_failure_def record_one_success_def Let_def split: option.splits)
  show "cycleCount (recordFailure now ids s) = cycleCount s" "cycleCount (recordSuccess ids s) = cycleCount s"
    unfolding recordFailure_def recordSuccess_def by (induction ids arbitrary: s) (simp_all add: one)
  show "cycleCount (snd (filter_loop ids s)) = cycleCount s"
    by (induction ids s rule: filter_loop.induct) (auto split: prod.splits)
qed

lemma cycle_filter [simp]: "cycleCount (snd (filterContractIds ids s)) = cycleCount s + 1"
  by (simp add: filterContractIds_def)

lemma filter_call_all: "(cycleCount s + 1) mod RETRY_INTERVAL_CYCLES = 0 \<Longrightarrow> fst (filterContractIds ids s) = ids"
  unfolding filterContractIds_def by (rule filter_loop_retry) simp

lemma filter_calls_reach:
  "d < length (filter_calls as s) \<Longrightarrow> (cycleCount s + 1 + d) mod RETRY_INTERVAL_CYCLES = 0 \<Longrightarrow>
     snd (filter_calls as s ! d) = fst (filter_calls as s ! d)"
proof (induction as s arbitrary: d rule: filter_calls.induct)
  case (2 ids as s)
  show ?case
  proof (cases d)
    case 0
    with "2.prems" show ?thesis by (simp add: filter_call_all)
  next
    case (Suc k)
    with "2.prems" "2.IH" [of k] show ?thesis by simp
  qed
qed auto

text \<open>
  However many failures are recorded, in any sixty consecutive filter calls of a run at least
  one attempts every id it was given.
\<close>

theorem breaker_retries_everything:
  assumes "60 \<le> length (filter_calls as s)"
  shows "\<exists>d < 60. snd (filter_calls as s ! d) = fst (filter_calls as s ! d)"
proof -
  define d where "d = (60 - (cycleCount s + 1) mod 60) mod 60"
  have "d < 60" by (simp add: d_def)
  moreover have "(cycleCount s + 1 + d) mod 60 = 0"
  proof -
    define m where "m = (cycleCount s + 1) mod 60"
    have m: "m < 60" by (simp add: m_def)
    have "(cycleCount s + 1 + d) mod 60 = (m + d) mod 60" by (simp only: m_def mod_add_left_eq)
    also have "\<dots> = (m + (60 - m)) mod 60" by (simp only: d_def m_def mod_add_right_eq)
    also have "\<dots> = 0" using m by simp
    finally show ?thesis .
  qed
  ultimately show ?thesis
    using filter_calls_reach [of d as s] assms by (auto simp: RETRY_INTERVAL_CYCLES_def)
qed

theorem breaker_retries_everything_witness:
  "\<exists>d < 60. snd (filter_calls (replicate 60 (Filter [''CA''])) initial_breaker ! d) =
     fst (filter_calls (replicate 60 (Filter [''CA''])) initial_breaker ! d)"
proof (rule breaker_retries_everything)
  have "length (filter_calls (replicate n (Filter ids)) s) = n" for n ids s
    by (induction n arbitrary: s) auto
  then show "60 \<le> length (filter_calls (replicate 60 (Filter [''CA''])) initial_breaker)" by simp
qed

end
