(* ===== verification/Custom_Schema.thy ===== *)
theory Custom_Schema
  imports Js_Value
begin

text \<open>
  \<open>indexer/src/customSchema.ts\<close>: validation of the per-contract event schemas third parties submit.
  An error carries the path of the offending value and the reason; the wording is left out.
\<close>

section \<open>Schemas\<close>

datatype field_type = AddressT | StringT | SymbolT | BoolT | BytesT | I32T | U32T | I64T | U64T | I128T | U128T | JsonT

definition FIELD_TYPES :: "(string \<times> field_type) list" where
  "FIELD_TYPES = [(''address'', AddressT), (''string'', StringT), (''symbol'', SymbolT), (''bool'', BoolT),
     (''bytes'', BytesT), (''i32'', I32T), (''u32'', U32T), (''i64'', I64T), (''u64'', U64T),
     (''i128'', I128T), (''u128'', U128T), (''json'', JsonT)]"

definition NUMERIC_TYPES :: "field_type list" where
  "NUMERIC_TYPES = [I32T, U32T, I64T, U64T, I128T, U128T]"

record field_definition =
  fd_name :: string
  fd_type :: field_type
  fd_source :: string
  fd_optional :: bool

record event_definition =
  ed_name :: string
  ed_topic :: string
  ed_fields :: "field_definition list"

record contract_schema =
  cs_contractId :: string
  cs_version :: int
  cs_events :: "event_definition list"

definition MAX_EVENTS_PER_SCHEMA :: nat where "MAX_EVENTS_PER_SCHEMA = 50"
definition MAX_FIELDS_PER_EVENT :: nat where "MAX_FIELDS_PER_EVENT = 40"
definition MAX_NAME_LENGTH :: nat where "MAX_NAME_LENGTH = 63"
definition MAX_TOPIC_LENGTH :: nat where "MAX_TOPIC_LENGTH = 128"

lemmas schema_limits = MAX_EVENTS_PER_SCHEMA_def MAX_FIELDS_PER_EVENT_def MAX_NAME_LENGTH_def MAX_TOPIC_LENGTH_def

datatype schema_reason =
    MustBeObject | MustBeString | MustBeBoolean | MustBeInteger
  | BadName | NameTooLong | BadContractId | BadVersion | NoEvents | TooManyEvents | DuplicateEvent
  | BadTopic | NoFields | TooManyFields | DuplicateField | ReservedName | BadType | BadSource

datatype schema_error = SchemaValidationError string schema_reason

section \<open>Patterns\<close>

text \<open>\<open>/^[a-z][a-z0-9_]*$/i\<close>.\<close>

definition name_char :: "char \<Rightarrow> bool" where
  "name_char c = (is_alpha c \<or> is_digit c \<or> c = CHR ''_'')"

fun NAME_PATTERN :: "string \<Rightarrow> bool" where
  "NAME_PATTERN [] = False"
| "NAME_PATTERN (c # cs) = (is_alpha c \<and> list_all name_char cs)"

definition RESERVED_FIELD_NAMES :: "string list" where
  "RESERVED_FIELD_NAMES = [''event_id'', ''eventid'', ''contract_id'', ''contractid'', ''event_name'', ''eventname'',
     ''ledger'', ''created_at'', ''createdat'', ''schema_version'', ''schemaversion'', ''fields'']"

text \<open>\<open>/^C[A-Z0-9]{55}$/\<close>.\<close>

definition is_contract_id :: "string \<Rightarrow> bool" where
  "is_contract_id s =
     (length s = 56 \<and> hd s = CHR ''C'' \<and> list_all (\<lambda>c. is_upper c \<or> is_digit c) (tl s))"

text \<open>\<open>/^topic\[(\d+)\]$/\<close>, with the captured index.\<close>

definition topic_index :: "string \<Rightarrow> nat option" where
  "topic_index s =
     (let ds = butlast (drop 6 s) in
      if take 6 s = ''topic['' \<and> drop 6 s \<noteq> [] \<and> last (drop 6 s) = CHR '']'' \<and> ds \<noteq> [] \<and> list_all is_digit ds
      then Some (nat_of_digits ds) else None)"

text \<open>\<open>[A-Za-z_][A-Za-z0-9_]*\<close>.\<close>

fun path_segment :: "string \<Rightarrow> bool" where
  "path_segment [] = False"
| "path_segment (c # cs) = ((is_alpha c \<or> c = CHR ''_'') \<and> list_all name_char cs)"

definition SOURCE_PATTERN :: "string \<Rightarrow> bool" where
  "SOURCE_PATTERN s =
     (topic_index s \<noteq> None \<or>
      (case split_on (CHR ''.'') s of [] \<Rightarrow> False | p # ps \<Rightarrow> p = ''value'' \<and> list_all path_segment ps))"

section \<open>Validation\<close>

definition own :: "(string \<times> jsval) list \<Rightarrow> string \<Rightarrow> jsval" where
  "own ps k = (case map_of ps k of Some v \<Rightarrow> v | None \<Rightarrow> JUndefined)"

definition requireObject :: "jsval \<Rightarrow> string \<Rightarrow> schema_error + (string \<times> jsval) list" where
  "requireObject v path =
     (case v of JObj ps \<Rightarrow> Inr ps
      | JBytes _ \<Rightarrow> Inr []
      | _ \<Rightarrow> Inl (SchemaValidationError path MustBeObject))"

definition requireString :: "jsval \<Rightarrow> string \<Rightarrow> schema_error + string" where
  "requireString v path =
     (case v of JStr s \<Rightarrow> Inr s | _ \<Rightarrow> Inl (SchemaValidationError path MustBeString))"

definition requireBoolean :: "jsval \<Rightarrow> string \<Rightarrow> schema_error + bool" where
  "requireBoolean v path =
     (case v of JBool b \<Rightarrow> Inr b | _ \<Rightarrow> Inl (SchemaValidationError path MustBeBoolean))"

definition requireInteger :: "jsval \<Rightarrow> string \<Rightarrow> schema_error + int" where
  "requireInteger v path =
     (case v of JInt i \<Rightarrow> Inr i | JNum _ _ (Some i) \<Rightarrow> Inr i
      | _ \<Rightarrow> Inl (SchemaValidationError path MustBeInteger))"

definition requireName :: "jsval \<Rightarrow> string \<Rightarrow> schema_error + string" where
  "requireName v path =
     and_then (requireString v path) (\<lambda>name.
     and_then (guard (NAME_PATTERN name) (SchemaValidationError path BadName)) (\<lambda>_.
     and_then (guard (length name \<le> MAX_NAME_LENGTH) (SchemaValidationError path NameTooLong)) (\<lambda>_.
     Inr name)))"

text \<open>\<open>if (!Array.isArray(raw) || raw.length === 0) throw e\<close>.\<close>

definition requireItems :: "jsval \<Rightarrow> schema_error \<Rightarrow> schema_error + jsval list" where
  "requireItems v e = (case v of JArr xs \<Rightarrow> if xs = [] then Inl e else Inr xs | _ \<Rightarrow> Inl e)"

lemma requireItems_Inr: "requireItems v e = Inr xs \<longleftrightarrow> v = JArr xs \<and> xs \<noteq> []"
  by (cases v) (auto simp: requireItems_def)

definition parseField :: "jsval \<Rightarrow> string \<Rightarrow> schema_error + field_definition" where
  "parseField input path =
     and_then (requireObject input path) (\<lambda>doc.
     and_then (requireName (own doc ''name'') (path @ ''.name'')) (\<lambda>name.
     and_then (guard (lower_case name \<notin> set RESERVED_FIELD_NAMES)
                 (SchemaValidationError (path @ ''.name'') ReservedName)) (\<lambda>_.
     and_then (requireString (own doc ''type'') (path @ ''.type'')) (\<lambda>tname.
     and_then (case map_of FIELD_TYPES tname of
                 Some ty \<Rightarrow> Inr ty
               | None \<Rightarrow> Inl (SchemaValidationError (path @ ''.type'') BadType)) (\<lambda>ty.
     and_then (requireString (own doc ''source'') (path @ ''.source'')) (\<lambda>source.
     and_then (guard (SOURCE_PATTERN source) (SchemaValidationError (path @ ''.source'') BadSource)) (\<lambda>_.
     and_then (if own doc ''optional'' = JUndefined then Inr False
               else requireBoolean (own doc ''optional'') (path @ ''.optional'')) (\<lambda>opt.
     Inr \<lparr>fd_name = name, fd_type = ty, fd_source = source, fd_optional = opt\<rparr>))))))))"

text \<open>The loop over an array: each element is parsed, and a name seen before is refused.\<close>

definition indexed_path :: "string \<Rightarrow> nat \<Rightarrow> string" where
  "indexed_path path i = path @ ''['' @ nat_to_string i @ '']''"

fun parse_items ::
  "(jsval \<Rightarrow> string \<Rightarrow> schema_error + 'a) \<Rightarrow> ('a \<Rightarrow> string) \<Rightarrow> schema_error \<Rightarrow> string \<Rightarrow> nat \<Rightarrow> string list
     \<Rightarrow> jsval list \<Rightarrow> schema_error + 'a list" where
  "parse_items parse name dup path i seen [] = Inr []"
| "parse_items parse name dup path i seen (x # xs) =
     and_then (parse x (indexed_path path i)) (\<lambda>y.
     and_then (guard (name y \<notin> set seen) dup) (\<lambda>_.
     and_then (parse_items parse name dup path (i + 1) (name y # seen) xs) (\<lambda>ys.
     Inr (y # ys))))"

definition parseEvent :: "jsval \<Rightarrow> string \<Rightarrow> schema_error + event_definition" where
  "parseEvent input path =
     and_then (requireObject input path) (\<lambda>doc.
     and_then (requireName (own doc ''name'') (path @ ''.name'')) (\<lambda>name.
     and_then (requireString (own doc ''topic'') (path @ ''.topic'')) (\<lambda>topic.
     and_then (guard (topic \<noteq> [] \<and> length topic \<le> MAX_TOPIC_LENGTH)
                 (SchemaValidationError (path @ ''.topic'') BadTopic)) (\<lambda>_.
     and_then (requireItems (own doc ''fields'') (SchemaValidationError (path @ ''.fields'') NoFields)) (\<lambda>rawFields.
     and_then (guard (length rawFields \<le> MAX_FIELDS_PER_EVENT) (SchemaValidationError path TooManyFields)) (\<lambda>_.
     and_then (parse_items parseField fd_name (SchemaValidationError name DuplicateField) (path @ ''.fields'') 0 []
                 rawFields) (\<lambda>fs.
     Inr \<lparr>ed_name = name, ed_topic = topic, ed_fields = fs\<rparr>)))))))"

definition parseContractSchema :: "jsval \<Rightarrow> schema_error + contract_schema" where
  "parseContractSchema input =
     and_then (requireObject input ''schema'') (\<lambda>doc.
     and_then (requireString (own doc ''contractId'') ''contractId'') (\<lambda>contractId.
     and_then (guard (is_contract_id contractId) (SchemaValidationError ''contractId'' BadContractId)) (\<lambda>_.
     and_then (if own doc ''version'' = JUndefined then Inr 1
               else requireInteger (own doc ''version'') ''version'') (\<lambda>version.
     and_then (guard (1 \<le> version) (SchemaValidationError ''version'' BadVersion)) (\<lambda>_.
     and_then (requireItems (own doc ''events'') (SchemaValidationError ''events'' NoEvents)) (\<lambda>rawEvents.
     and_then (guard (length rawEvents \<le> MAX_EVENTS_PER_SCHEMA) (SchemaValidationError ''events'' TooManyEvents)) (\<lambda>_.
     and_then (parse_items parseEvent ed_name (SchemaValidationError ''events'' DuplicateEvent) ''events'' 0 []
                 rawEvents) (\<lambda>evs.
     Inr \<lparr>cs_contractId = contractId, cs_version = version, cs_events = evs\<rparr>))))))))"

section \<open>Matching an event\<close>

text \<open>
  Topics are stored as JSON text. The model keeps the value the text denotes, and \<open>json_text\<close> is the
  text itself, returned where the value is neither text, number nor boolean.
\<close>

definition normalizeTopic :: "jsval option \<Rightarrow> string option" where
  "normalizeTopic t =
     (case t of
        None \<Rightarrow> None
      | Some JUndefined \<Rightarrow> None
      | Some v \<Rightarrow> Some (case v of JStr s \<Rightarrow> s | JInt i \<Rightarrow> int_to_string i | JNum s _ _ \<Rightarrow> s
                       | JBool b \<Rightarrow> bool_text b | _ \<Rightarrow> json_text v))"

definition findEventDefinition :: "contract_schema \<Rightarrow> jsval list \<Rightarrow> event_definition option" where
  "findEventDefinition schema topics =
     (case normalizeTopic (case topics of [] \<Rightarrow> None | t # _ \<Rightarrow> Some t) of
        None \<Rightarrow> None
      | Some first \<Rightarrow> List.find (\<lambda>e. ed_topic e = first) (cs_events schema))"

section \<open>Accepted schemas\<close>

definition field_ok :: "field_definition \<Rightarrow> bool" where
  "field_ok f =
     (NAME_PATTERN (fd_name f) \<and> length (fd_name f) \<le> MAX_NAME_LENGTH
      \<and> lower_case (fd_name f) \<notin> set RESERVED_FIELD_NAMES \<and> SOURCE_PATTERN (fd_source f))"

definition event_ok :: "event_definition \<Rightarrow> bool" where
  "event_ok e =
     (NAME_PATTERN (ed_name e) \<and> length (ed_name e) \<le> MAX_NAME_LENGTH
      \<and> ed_topic e \<noteq> [] \<and> length (ed_topic e) \<le> MAX_TOPIC_LENGTH
      \<and> ed_fields e \<noteq> [] \<and> length (ed_fields e) \<le> MAX_FIELDS_PER_EVENT
      \<and> distinct (map fd_name (ed_fields e)) \<and> list_all field_ok (ed_fields e))"

definition schema_ok :: "contract_schema \<Rightarrow> bool" where
  "schema_ok s =
     (is_contract_id (cs_contractId s) \<and> 1 \<le> cs_version s
      \<and> cs_events s \<noteq> [] \<and> length (cs_events s) \<le> MAX_EVENTS_PER_SCHEMA
      \<and> distinct (map ed_name (cs_events s)) \<and> list_all event_ok (cs_events s))"

text \<open>The document \<open>JSON.stringify(schema)\<close> writes.\<close>

definition field_type_name :: "field_type \<Rightarrow> string" where
  "field_type_name ty = (case map_of (map (\<lambda>(n, t). (t, n)) FIELD_TYPES) ty of Some n \<Rightarrow> n | None \<Rightarrow> [])"

definition field_json :: "field_definition \<Rightarrow> jsval" where
  "field_json f = JObj [(''name'', JStr (fd_name f)), (''type'', JStr (field_type_name (fd_type f))),
     (''source'', JStr (fd_source f)), (''optional'', JBool (fd_optional f))]"

definition event_json :: "event_definition \<Rightarrow> jsval" where
  "event_json e = JObj [(''name'', JStr (ed_name e)), (''topic'', JStr (ed_topic e)),
     (''fields'', JArr (map field_json (ed_fields e)))]"

definition schema_json :: "contract_schema \<Rightarrow> jsval" where
  "schema_json s = JObj [(''contractId'', JStr (cs_contractId s)), (''version'', JInt (cs_version s)),
     (''events'', JArr (map event_json (cs_events s)))]"

lemmas require_defs = requireObject_def requireString_def requireBoolean_def requireInteger_def requireName_def own_def requireItems_def

lemma parse_items_sound:
  assumes "parse_items parse name dup path i seen xs = Inr ys"
    and P: "\<And>x p y. parse x p = Inr y \<Longrightarrow> P y"
  shows "length ys = length xs \<and> distinct (map name ys) \<and> set (map name ys) \<inter> set seen = {} \<and> list_all P ys"
  using assms(1)
proof (induction xs arbitrary: ys i seen)
  case (Cons x xs)
  from Cons.prems obtain y ys' where y: "parse x (indexed_path path i) = Inr y" "name y \<notin> set seen"
    and ys: "parse_items parse name dup path (i + 1) (name y # seen) xs = Inr ys'" "ys = y # ys'"
    by (auto simp: and_then_Inr)
  from Cons.IH [OF ys(1)] y P [OF y(1)] show ?case by (auto simp: ys(2))
qed simp

lemma parse_items_complete:
  assumes "\<And>y p. y \<in> set ys \<Longrightarrow> parse (enc y) p = Inr y"
    and "distinct (map name ys)" "set (map name ys) \<inter> set seen = {}"
  shows "parse_items parse name dup path i seen (map enc ys) = Inr ys"
  using assms by (induction ys arbitrary: i seen) auto

lemma parseField_sound: "parseField v path = Inr f \<Longrightarrow> field_ok f"
  by (auto simp: parseField_def requireName_def and_then_Inr field_ok_def)

lemma parseEvent_sound:
  assumes "parseEvent v path = Inr e"
  shows "event_ok e"
proof -
  from assms obtain doc name topic raw fs where
    "requireName (own doc ''name'') (path @ ''.name'') = Inr name"
    "topic \<noteq> []" "length topic \<le> MAX_TOPIC_LENGTH" "raw \<noteq> []" "length raw \<le> MAX_FIELDS_PER_EVENT"
    and fs: "parse_items parseField fd_name (SchemaValidationError name DuplicateField) (path @ ''.fields'') 0 [] raw = Inr fs"
    and e: "e = \<lparr>ed_name = name, ed_topic = topic, ed_fields = fs\<rparr>"
    by (auto simp: parseEvent_def and_then_Inr requireItems_Inr)
  moreover have "length fs = length raw \<and> distinct (map fd_name fs) \<and> list_all field_ok fs"
    using parse_items_sound [OF fs parseField_sound] by auto
  ultimately show ?thesis by (auto simp: event_ok_def requireName_def and_then_Inr)
qed

lemma parseContractSchema_sound:
  assumes "parseContractSchema v = Inr s"
  shows "schema_ok s"
proof -
  from assms obtain doc cid version raw evs where
    "is_contract_id cid" "1 \<le> version" "raw \<noteq> []" "length raw \<le> MAX_EVENTS_PER_SCHEMA"
    and evs: "parse_items parseEvent ed_name (SchemaValidationError ''events'' DuplicateEvent) ''events'' 0 [] raw = Inr evs"
    and s: "s = \<lparr>cs_contractId = cid, cs_version = version, cs_events = evs\<rparr>"
    by (auto simp: parseContractSchema_def and_then_Inr requireItems_Inr)
  moreover have "length evs = length raw \<and> distinct (map ed_name evs) \<and> list_all event_ok evs"
    using parse_items_sound [OF evs parseEvent_sound] by auto
  ultimately show ?thesis by (auto simp: schema_ok_def)
qed

lemma field_type_name_inverse [simp]: "map_of FIELD_TYPES (field_type_name ty) = Some ty"
  by (cases ty) (simp_all add: FIELD_TYPES_def field_type_name_def)

lemma parseField_complete: "field_ok f \<Longrightarrow> parseField (field_json f) path = Inr f"
  by (simp add: parseField_def field_json_def require_defs field_ok_def)

lemma parseEvent_complete:
  assumes "event_ok e"
  shows "parseEvent (event_json e) path = Inr e"
proof -
  have "parse_items parseField fd_name (SchemaValidationError (ed_name e) DuplicateField) (path @ ''.fields'') 0 []
      (map field_json (ed_fields e)) = Inr (ed_fields e)"
    using assms by (intro parse_items_complete) (auto simp: event_ok_def list_all_iff parseField_complete)
  with assms show ?thesis by (simp add: parseEvent_def event_json_def require_defs event_ok_def)
qed

lemma parseContractSchema_complete:
  assumes "schema_ok s"
  shows "parseContractSchema (schema_json s) = Inr s"
proof -
  have "parse_items parseEvent ed_name (SchemaValidationError ''events'' DuplicateEvent) ''events'' 0 []
      (map event_json (cs_events s)) = Inr (cs_events s)"
    using assms by (intro parse_items_complete) (auto simp: schema_ok_def list_all_iff parseEvent_complete)
  with assms show ?thesis by (simp add: parseContractSchema_def schema_json_def require_defs schema_ok_def)
qed

end
