(* ===== verification/Soroban_Client.thy ===== *)
theory Soroban_Client
  imports Js_Value
begin

text \<open>
  \<open>indexer/src/soroban.ts\<close> and the paging of \<open>registry.ts\<close>: the client of the Soroban RPC node. The
  node's methods and the XDR decoders of the Stellar SDK are arguments, collected in a record; an
  answer \<open>Inl\<close> is a call that throws (an RPC error, a timeout, an HTTP failure). Pacing and metrics
  are left out.
\<close>

section \<open>Wire records\<close>

record rpc_event =
  re_type :: string
  re_ledger :: int
  re_ledgerClosedAt :: string
  re_contractId :: string
  re_id :: string
  re_pagingToken :: string
  re_topic :: "string list"
  re_value :: string
  re_txHash :: "string option"
  re_transactionIndex :: "int option"

record event_page =
  ep_events :: "rpc_event list option"
  ep_latestLedger :: "int option"
  ep_cursor :: "string option"

record soroban_tx =
  st_txHash :: string
  st_status :: string
  st_ledger :: int
  st_createdAt :: string
  st_applicationOrder :: int

record tx_page =
  tp_transactions :: "soroban_tx list option"
  tp_latestLedger :: "int option"
  tp_cursor :: "string option"

record ledger_entry =
  le_key :: string
  le_xdr :: string
  le_lastModifiedLedgerSeq :: int
  le_liveUntilLedgerSeq :: "int option"

record entry_page =
  np_entries :: "ledger_entry list option"
  np_latestLedger :: "int option"

text \<open>A cursor replaces the ledger range in a follow-up request.\<close>

datatype tx_request = RangeRequest int int nat | CursorRequest string nat

record soroban_rpc =
  rpc_getEvents :: "int \<Rightarrow> string list \<Rightarrow> nat \<Rightarrow> string option \<Rightarrow> string + event_page"
  rpc_getTransactions :: "tx_request \<Rightarrow> string + tx_page"
  rpc_getLedgerEntries :: "string list \<Rightarrow> string + entry_page"
  rpc_getLatestLedger :: "string + int"
  rpc_getNetwork :: "string + int option"
  sdk_scval :: "string \<Rightarrow> jsval option"
  sdk_ledger_key :: "string \<Rightarrow> string + (string \<times> string \<times> string)"
  sdk_entry_data :: "string \<Rightarrow> string + jsval option"

section \<open>Results\<close>

record contract_event =
  ev_id :: string
  ev_type :: string
  ev_contractId :: string
  ev_ledger :: int
  ev_createdAt :: string
  ev_pagingToken :: string
  ev_topics :: "jsval list"
  ev_value :: jsval
  ev_transactionHash :: "string option"

record events_result =
  er_events :: "contract_event list"
  er_latestLedger :: int
  er_truncated :: bool

record storage_entry =
  se_contractId :: string
  se_key :: string
  se_durability :: string
  se_value :: jsval
  se_valueXdr :: string
  se_liveUntilLedgerSeq :: "int option"
  se_lastModifiedLedgerSeq :: int

definition GET_LEDGER_ENTRIES_MAX_KEYS :: nat where "GET_LEDGER_ENTRIES_MAX_KEYS = 200"
definition GET_EVENTS_MAX_CONTRACT_IDS :: nat where "GET_EVENTS_MAX_CONTRACT_IDS = 5"
definition EVENTS_PAGE_LIMIT :: nat where "EVENTS_PAGE_LIMIT = 200"
definition TX_PAGE_LIMIT :: nat where "TX_PAGE_LIMIT = 200"
definition MAX_TRANSACTIONS :: nat where "MAX_TRANSACTIONS = 10000"

text \<open>\<open>xs ?? []\<close>, \<open>n ?? 0\<close>, and a cursor that is a non-empty string.\<close>

definition or_empty :: "'a list option \<Rightarrow> 'a list" where
  "or_empty x = (case x of Some xs \<Rightarrow> xs | None \<Rightarrow> [])"

definition or_zero :: "int option \<Rightarrow> int" where
  "or_zero x = (case x of Some n \<Rightarrow> n | None \<Rightarrow> 0)"

definition has_cursor :: "string option \<Rightarrow> bool" where
  "has_cursor c = (c \<noteq> None \<and> c \<noteq> Some [])"

section \<open>Ledger entries\<close>

fun entries_loop :: "soroban_rpc \<Rightarrow> string list list \<Rightarrow> ledger_entry list \<Rightarrow> int \<Rightarrow> string + ledger_entry list \<times> int" where
  "entries_loop rpc [] acc latest = Inr (acc, latest)"
| "entries_loop rpc (batch # batches) acc latest =
     (case rpc_getLedgerEntries rpc batch of
        Inl e \<Rightarrow> Inl e
      | Inr page \<Rightarrow> entries_loop rpc batches (acc @ or_empty (np_entries page))
                      (max latest (or_zero (np_latestLedger page))))"

definition getLedgerEntries :: "soroban_rpc \<Rightarrow> string list \<Rightarrow> string + ledger_entry list \<times> int" where
  "getLedgerEntries rpc ks = entries_loop rpc (chunks GET_LEDGER_ENTRIES_MAX_KEYS ks) [] 0"

text \<open>The SDK reports the kind of key, the contract id and the durability.\<close>

definition parseLedgerKey :: "soroban_rpc \<Rightarrow> string \<Rightarrow> string + string \<times> string" where
  "parseLedgerKey rpc key =
     and_then (sdk_ledger_key rpc key) (\<lambda>(kind, contractId, durability).
     if kind \<noteq> ''contractData'' then Inl ''refusing to index a non-contract-data ledger key''
     else Inr (contractId, durability))"

definition storage_entry_of :: "soroban_rpc \<Rightarrow> ledger_entry \<Rightarrow> string + storage_entry" where
  "storage_entry_of rpc r =
     and_then (parseLedgerKey rpc (le_key r)) (\<lambda>(contractId, durability).
     and_then (sdk_entry_data rpc (le_xdr r)) (\<lambda>data.
     Inr \<lparr>se_contractId = contractId, se_key = le_key r, se_durability = durability,
          se_value = (case data of Some v \<Rightarrow> v | None \<Rightarrow> JNull), se_valueXdr = le_xdr r,
          se_liveUntilLedgerSeq = le_liveUntilLedgerSeq r,
          se_lastModifiedLedgerSeq = le_lastModifiedLedgerSeq r\<rparr>))"

definition getContractStorageEntries :: "soroban_rpc \<Rightarrow> string list \<Rightarrow> string + storage_entry list \<times> int" where
  "getContractStorageEntries rpc ks =
     and_then (getLedgerEntries rpc ks) (\<lambda>(raw, latest).
     and_then (traverse (storage_entry_of rpc) raw) (\<lambda>entries. Inr (entries, latest)))"

section \<open>Transactions\<close>

text \<open>A node that keeps naming a cursor and returns nothing would keep this loop going.\<close>

partial_function (option) tx_loop ::
  "soroban_rpc \<Rightarrow> int \<Rightarrow> int \<Rightarrow> nat \<Rightarrow> string option \<Rightarrow> soroban_tx list \<Rightarrow> int
     \<Rightarrow> (string + soroban_tx list \<times> int) option" where
  "tx_loop rpc startLedger endLedger maxTx cursor acc latest =
     (if length acc < maxTx
      then (let limit = min TX_PAGE_LIMIT (maxTx - length acc);
                request = (case cursor of Some c \<Rightarrow> if c \<noteq> [] then CursorRequest c limit
                                                   else RangeRequest startLedger endLedger limit
                           | None \<Rightarrow> RangeRequest startLedger endLedger limit)
            in case rpc_getTransactions rpc request of
                 Inl e \<Rightarrow> Some (Inl e)
               | Inr page \<Rightarrow>
                   (let acc' = acc @ or_empty (tp_transactions page);
                        latest' = max latest (or_zero (tp_latestLedger page))
                    in if \<not> has_cursor (tp_cursor page) \<or> maxTx \<le> length acc' then Some (Inr (acc', latest'))
                       else tx_loop rpc startLedger endLedger maxTx (tp_cursor page) acc' latest'))
      else Some (Inr (acc, latest)))"

definition getTransactions_rpc :: "soroban_rpc \<Rightarrow> int \<Rightarrow> int \<Rightarrow> nat \<Rightarrow> (string + soroban_tx list \<times> int) option" where
  "getTransactions_rpc rpc startLedger endLedger maxTx = tx_loop rpc startLedger endLedger maxTx None [] startLedger"

section \<open>Events\<close>

text \<open>
  One chunk of contract ids: pages are followed until one is short, the budget is used up, or the node
  names no cursor. Every iteration that continues has added a full page, so the loop ends.
\<close>

function chunk_loop ::
  "soroban_rpc \<Rightarrow> string list \<Rightarrow> int \<Rightarrow> nat \<Rightarrow> string option \<Rightarrow> rpc_event list \<Rightarrow> int
     \<Rightarrow> string + rpc_event list \<times> int \<times> bool" where
  "chunk_loop rpc ids startLedger maxEvents cursor acc latest =
     (if length acc < maxEvents
      then (let limit = min EVENTS_PAGE_LIMIT (maxEvents - length acc)
            in case rpc_getEvents rpc startLedger ids limit (if has_cursor cursor then cursor else None) of
                 Inl e \<Rightarrow> Inl e
               | Inr page \<Rightarrow>
                   (let events = or_empty (ep_events page);
                        acc' = acc @ events;
                        latest' = max latest (or_zero (ep_latestLedger page))
                    in if length events < limit then Inr (acc', latest', False)
                       else if has_cursor (ep_cursor page) \<and> length acc' < maxEvents
                       then chunk_loop rpc ids startLedger maxEvents (ep_cursor page) acc' latest'
                       else if length events = limit \<and> maxEvents \<le> length acc' then Inr (acc', latest', True)
                       else Inr (acc', latest', False)))
      else Inr (acc, latest, False))"
  by pat_completeness auto
termination
proof (relation "measure (\<lambda>(rpc, ids, start, maxEvents, cursor, acc, latest). maxEvents - length acc)", goal_cases)
  case (2 rpc ids startLedger maxEvents cursor acc latest limit page events acc' latest')
  from 2(1,2) have "0 < limit" by (simp add: EVENTS_PAGE_LIMIT_def)
  with 2(7) have "0 < length events" by linarith
  with 2(1) have "maxEvents - length acc' < maxEvents - length acc"
    unfolding 2(5) length_append by linarith
  then show ?case by simp
qed simp

declare chunk_loop.simps [simp del]

definition getEventsChunk ::
  "soroban_rpc \<Rightarrow> string list \<Rightarrow> int \<Rightarrow> nat \<Rightarrow> string + rpc_event list \<times> int \<times> bool" where
  "getEventsChunk rpc ids startLedger maxEvents = chunk_loop rpc ids startLedger maxEvents None [] startLedger"

text \<open>The chunks share the budget of the cycle.\<close>

fun chunks_loop ::
  "soroban_rpc \<Rightarrow> int \<Rightarrow> nat \<Rightarrow> string list list \<Rightarrow> rpc_event list \<Rightarrow> int \<Rightarrow> string + rpc_event list \<times> int \<times> bool" where
  "chunks_loop rpc startLedger maxEvents [] acc latest = Inr (acc, latest, False)"
| "chunks_loop rpc startLedger maxEvents (ids # rest) acc latest =
     (if maxEvents \<le> length acc then Inr (acc, latest, True)
      else (case getEventsChunk rpc ids startLedger (maxEvents - length acc) of
              Inl e \<Rightarrow> Inl e
            | Inr (records, l, truncated) \<Rightarrow>
                (if truncated then Inr (acc @ records, max latest l, True)
                 else chunks_loop rpc startLedger maxEvents rest (acc @ records) (max latest l))))"

text \<open>\<open>decodeScValLegacy\<close>, and \<open>JSON.stringify\<close> of a topic, which throws on a \<open>bigint\<close>.\<close>

definition decodeScValLegacy :: "soroban_rpc \<Rightarrow> string \<Rightarrow> jsval" where
  "decodeScValLegacy rpc b = (case sdk_scval rpc b of Some v \<Rightarrow> v | None \<Rightarrow> JNull)"

definition topic_json :: "soroban_rpc \<Rightarrow> string \<Rightarrow> string + jsval" where
  "topic_json rpc t =
     (case jsonify False (decodeScValLegacy rpc t) of
        Some v \<Rightarrow> Inr v | None \<Rightarrow> Inl ''TypeError: Do not know how to serialize a BigInt'')"

definition transactionByPosition :: "soroban_tx list \<Rightarrow> int \<times> int \<Rightarrow> soroban_tx option" where
  "transactionByPosition txs = map_of (rev (map (\<lambda>t. ((st_ledger t, st_applicationOrder t), t)) txs))"

definition map_event :: "soroban_rpc \<Rightarrow> soroban_tx list \<Rightarrow> rpc_event \<Rightarrow> string + contract_event" where
  "map_event rpc txs r =
     and_then (traverse (topic_json rpc) (re_topic r)) (\<lambda>topics.
     Inr \<lparr>ev_id = re_id r, ev_type = re_type r, ev_contractId = re_contractId r, ev_ledger = re_ledger r,
          ev_createdAt = re_ledgerClosedAt r, ev_pagingToken = re_pagingToken r, ev_topics = topics,
          ev_value = decodeScValLegacy rpc (re_value r),
          ev_transactionHash =
            (case re_txHash r of
               Some h \<Rightarrow> Some h
             | None \<Rightarrow> (case re_transactionIndex r of
                         None \<Rightarrow> None
                       | Some i \<Rightarrow> map_option st_txHash (transactionByPosition txs (re_ledger r, i))))\<rparr>)"

text \<open>The lookup of the transactions is best effort: its failure leaves events without a hash.\<close>

definition event_transactions :: "soroban_rpc \<Rightarrow> rpc_event list \<Rightarrow> soroban_tx list option" where
  "event_transactions rpc records =
     (case map re_ledger records of
        [] \<Rightarrow> Some []
      | l # ls \<Rightarrow>
          (case getTransactions_rpc rpc (fold min ls l) (fold max ls l + 1) MAX_TRANSACTIONS of
             None \<Rightarrow> None
           | Some (Inl e) \<Rightarrow> Some []
           | Some (Inr (txs, _)) \<Rightarrow> Some txs))"

definition getEvents :: "soroban_rpc \<Rightarrow> string list \<Rightarrow> int \<Rightarrow> nat \<Rightarrow> (string + events_result) option" where
  "getEvents rpc contractIds startLedger maxEventsPerCycle =
     (let unique = uniq contractIds in
      if unique = [] then Some (Inr \<lparr>er_events = [], er_latestLedger = startLedger, er_truncated = False\<rparr>)
      else (case chunks_loop rpc startLedger maxEventsPerCycle (chunks GET_EVENTS_MAX_CONTRACT_IDS unique) [] startLedger of
              Inl e \<Rightarrow> Some (Inl e)
            | Inr (records, latest, truncated) \<Rightarrow>
                (case event_transactions rpc records of
                   None \<Rightarrow> None
                 | Some txs \<Rightarrow>
                     Some (and_then (traverse (map_event rpc txs) records) (\<lambda>events.
                       Inr \<lparr>er_events = events, er_latestLedger = latest, er_truncated = truncated\<rparr>)))))"

definition getLatestLedgerSequence :: "soroban_rpc \<Rightarrow> string + int" where
  "getLatestLedgerSequence rpc = rpc_getLatestLedger rpc"

text \<open>\<open>undefined\<close> on any failure; the field itself may be missing from an answer.\<close>

definition getRetentionInfo :: "soroban_rpc \<Rightarrow> int option" where
  "getRetentionInfo rpc = (case rpc_getNetwork rpc of Inl e \<Rightarrow> None | Inr oldest \<Rightarrow> oldest)"

section \<open>Registry discovery\<close>

definition PAGE_LIMIT :: nat where "PAGE_LIMIT = 50"
definition MAX_PAGES :: nat where "MAX_PAGES = 20"

text \<open>\<open>simulate offset limit\<close> is the simulated \<open>get_active_contracts\<close> call.\<close>

fun registry_pages :: "(nat \<Rightarrow> nat \<Rightarrow> string + string list) \<Rightarrow> nat \<Rightarrow> nat \<Rightarrow> string list \<Rightarrow> string + string list" where
  "registry_pages simulate page 0 acc = Inr acc"
| "registry_pages simulate page (Suc n) acc =
     (case simulate (page * PAGE_LIMIT) PAGE_LIMIT of
        Inl e \<Rightarrow> Inl e
      | Inr entries \<Rightarrow>
          (if length entries < PAGE_LIMIT then Inr (acc @ entries)
           else registry_pages simulate (page + 1) n (acc @ entries)))"

definition getActiveContracts :: "(nat \<Rightarrow> nat \<Rightarrow> string + string list) \<Rightarrow> string + string list" where
  "getActiveContracts simulate = registry_pages simulate 0 MAX_PAGES []"

end
