(* ===== verification/Custom_Decode.thy ===== *)
theory Custom_Decode
  imports Custom_Schema Soroban_Client
begin

text \<open>
  \<open>indexer/src/customDecode.ts\<close>: applying a schema to the events of a batch. A thrown error is a
  reason and the field it names.
\<close>

section \<open>Decoding\<close>

text \<open>\<open>FAbsent\<close> is the value \<open>undefined\<close>, which \<open>JSON.stringify(fields)\<close> leaves out.\<close>

datatype field_value = FNull | FText string | FAbsent

record decoded_event =
  de_eventId :: string
  de_contractId :: string
  de_eventName :: string
  de_ledger :: int
  de_createdAt :: string
  de_schemaVersion :: int
  de_fields :: "(string \<times> field_value) list"

datatype decode_reason = Missing | ExpectedBool | ExpectedBytes | ExpectedType | NotInteger | UnsafeNumber
  | BadBigInt | NotSerializable

record decode_failure =
  df_eventId :: string
  df_eventName :: string
  df_reason :: "string \<times> decode_reason"

text \<open>The loop over the segments of \<open>value.a.b\<close>.\<close>

fun read_path :: "jsval \<Rightarrow> string list \<Rightarrow> jsval" where
  "read_path v [] = v"
| "read_path v (s # ss) =
     (case v of JObj _ \<Rightarrow> read_path (get_member v s) ss
      | JArr _ \<Rightarrow> read_path (get_member v s) ss
      | JBytes _ \<Rightarrow> read_path (get_member v s) ss
      | _ \<Rightarrow> JUndefined)"

definition readSource :: "string \<Rightarrow> contract_event \<Rightarrow> jsval" where
  "readSource source event =
     (case topic_index source of
        Some i \<Rightarrow> (if i < length (ev_topics event) then ev_topics event ! i else JUndefined)
      | None \<Rightarrow> (if source = ''value'' then ev_value event
                 else read_path (ev_value event) (split_on (CHR ''.'') (drop 6 source))))"

definition hex_text :: "nat list \<Rightarrow> string" where
  "hex_text bs = concat (map (\<lambda>b. map (\<lambda>d. if d < 10 then digit_char d else char_of (87 + d))
     [b div 16 mod 16, b mod 16]) bs)"

definition coerceText :: "jsval \<Rightarrow> decode_reason + string" where
  "coerceText raw =
     (case raw of JStr s \<Rightarrow> Inr s | JInt i \<Rightarrow> Inr (int_to_string i) | JNum t _ _ \<Rightarrow> Inr t
      | JBool b \<Rightarrow> Inr (bool_text b) | JBig i \<Rightarrow> Inr (int_to_string i) | _ \<Rightarrow> Inl ExpectedType)"

definition pair_part :: "jsval \<Rightarrow> bool" where
  "pair_part v = (case v of JStr _ \<Rightarrow> True | JInt _ \<Rightarrow> True | JNum _ _ _ \<Rightarrow> True | JBig _ \<Rightarrow> True | _ \<Rightarrow> False)"

definition isUnsignedPair :: "jsval \<Rightarrow> bool" where
  "isUnsignedPair raw =
     ((case raw of JObj _ \<Rightarrow> True | JArr _ \<Rightarrow> True | JBytes _ \<Rightarrow> True | _ \<Rightarrow> False)
      \<and> pair_part (get_member raw ''hi'') \<and> pair_part (get_member raw ''lo''))"

definition coerceInteger :: "jsval \<Rightarrow> decode_reason + string" where
  "coerceInteger raw =
     (case raw of
        JBig i \<Rightarrow> Inr (int_to_string i)
      | JInt i \<Rightarrow> (if is_safe_integer i then Inr (int_to_string i) else Inl UnsafeNumber)
      | JNum _ _ (Some _) \<Rightarrow> Inl UnsafeNumber
      | JNum _ _ None \<Rightarrow> Inl NotInteger
      | JStr s \<Rightarrow> (if is_int_text (trim s) then Inr (int_to_string (int_of_text (trim s))) else Inl NotInteger)
      | _ \<Rightarrow>
          (if isUnsignedPair raw
           then (case (bigint_of (get_member raw ''hi''), bigint_of (get_member raw ''lo'')) of
                   (Some hi, Some lo) \<Rightarrow> Inr (int_to_string (hi * 2 ^ 64 + lo))
                 | _ \<Rightarrow> Inl BadBigInt)
           else Inl ExpectedType))"

definition coerce :: "field_definition \<Rightarrow> jsval \<Rightarrow> decode_reason + field_value" where
  "coerce field raw =
     (case fd_type field of
        BoolT \<Rightarrow> (case raw of JBool b \<Rightarrow> Inr (FText (bool_text b)) | _ \<Rightarrow> Inl ExpectedBool)
      | BytesT \<Rightarrow> (case raw of JStr s \<Rightarrow> Inr (FText s) | JBytes bs \<Rightarrow> Inr (FText (hex_text bs))
                   | _ \<Rightarrow> Inl ExpectedBytes)
      | JsonT \<Rightarrow> (case jsonify False raw of
                    None \<Rightarrow> Inl NotSerializable
                  | Some JUndefined \<Rightarrow> Inr FAbsent
                  | Some v \<Rightarrow> Inr (FText (json_text v)))
      | ty \<Rightarrow> and_then (if ty \<in> set NUMERIC_TYPES then coerceInteger raw else coerceText raw)
                 (\<lambda>t. Inr (FText t)))"

definition decode_field :: "contract_event \<Rightarrow> field_definition \<Rightarrow> (string \<times> decode_reason) + string \<times> field_value" where
  "decode_field event field =
     (let raw = readSource (fd_source field) event in
      if raw = JUndefined \<or> raw = JNull
      then (if fd_optional field then Inr (fd_name field, FNull) else Inl (fd_name field, Missing))
      else (case coerce field raw of Inl r \<Rightarrow> Inl (fd_name field, r) | Inr v \<Rightarrow> Inr (fd_name field, v)))"

definition decodeFields ::
  "event_definition \<Rightarrow> contract_event \<Rightarrow> (string \<times> decode_reason) + (string \<times> field_value) list" where
  "decodeFields d event = traverse (decode_field event) (ed_fields d)"

fun decode_loop ::
  "(string \<Rightarrow> contract_schema option) \<Rightarrow> contract_event list \<Rightarrow> decoded_event list \<Rightarrow> decode_failure list
     \<Rightarrow> decoded_event list \<times> decode_failure list" where
  "decode_loop schemas [] decoded failures = (decoded, failures)"
| "decode_loop schemas (event # events) decoded failures =
     (case schemas (ev_contractId event) of
        None \<Rightarrow> decode_loop schemas events decoded failures
      | Some schema \<Rightarrow>
          (case findEventDefinition schema (ev_topics event) of
             None \<Rightarrow> decode_loop schemas events decoded failures
           | Some d \<Rightarrow>
               (case decodeFields d event of
                  Inr fs \<Rightarrow> decode_loop schemas events
                    (decoded @ [\<lparr>de_eventId = ev_id event, de_contractId = ev_contractId event,
                       de_eventName = ed_name d, de_ledger = ev_ledger event, de_createdAt = ev_createdAt event,
                       de_schemaVersion = cs_version schema, de_fields = fs\<rparr>]) failures
                | Inl r \<Rightarrow> decode_loop schemas events decoded
                    (failures @ [\<lparr>df_eventId = ev_id event, df_eventName = ed_name d, df_reason = r\<rparr>]))))"

definition decodeEvents ::
  "(string \<Rightarrow> contract_schema option) \<Rightarrow> contract_event list \<Rightarrow> decoded_event list \<times> decode_failure list" where
  "decodeEvents schemas events = decode_loop schemas events [] []"

section \<open>Amounts are exact\<close>

text \<open>
  The integer a decoded value stands for, whatever its shape: a \<open>bigint\<close>, a number, decimal text, or
  the halves of a 128-bit integer.
\<close>

fun stands_for :: "jsval \<Rightarrow> int option" where
  "stands_for (JBig i) = Some i"
| "stands_for (JInt i) = Some i"
| "stands_for (JNum _ _ i) = i"
| "stands_for (JStr s) = bigint_of_text s"
| "stands_for (JObj ps) =
     (case (bigint_of (get_member (JObj ps) ''hi''), bigint_of (get_member (JObj ps) ''lo'')) of
        (Some hi, Some lo) \<Rightarrow> Some (hi * 2 ^ 64 + lo) | _ \<Rightarrow> None)"
| "stands_for _ = None"

text \<open>A number that a double may already have rounded.\<close>

fun rounded :: "jsval \<Rightarrow> bool" where
  "rounded (JInt i) = (\<not> is_safe_integer i)"
| "rounded (JNum _ _ _) = True"
| "rounded _ = False"

lemma bigint_of_int_text:
  assumes "is_int_text (trim s)"
  shows "bigint_of_text s = Some (int_of_text (trim s))"
proof -
  obtain c cs where "trim s = c # cs" using assms by (cases "trim s") auto
  with assms show ?thesis by (simp add: bigint_of_text_def del: is_int_text.simps int_of_text.simps)
qed

lemma no_pair [simp]: "\<not> isUnsignedPair (JArr xs)" "\<not> isUnsignedPair (JBytes bs)"
  "\<not> isUnsignedPair JNull" "\<not> isUnsignedPair JUndefined" "\<not> isUnsignedPair (JBool b)" "\<not> isUnsignedPair JFun"
  by (simp_all add: isUnsignedPair_def get_member_def array_members_def object_members_def pair_part_def)

lemma coerceInteger_exact:
  assumes "coerceInteger raw = Inr t"
  shows "\<exists>i. stands_for raw = Some i \<and> \<not> rounded raw \<and> t = int_to_string i"
proof (cases raw)
  case (JObj ps)
  then show ?thesis
    using assms by (auto simp: coerceInteger_def split: if_splits option.splits)
qed (use assms in \<open>auto simp: coerceInteger_def bigint_of_int_text split: if_splits option.splits\<close>)

lemma coerce_numeric:
  "fd_type f \<in> set NUMERIC_TYPES \<Longrightarrow> coerce f raw = and_then (coerceInteger raw) (\<lambda>t. Inr (FText t))"
  by (auto simp: coerce_def NUMERIC_TYPES_def)

lemma decode_field_name: "decode_field event f = Inr r \<Longrightarrow> fst r = fd_name f"
  by (auto simp: decode_field_def Let_def split: if_splits sum.splits)

lemma decode_field_number:
  assumes "decode_field event f = Inr (n, v)" and "fd_type f \<in> set NUMERIC_TYPES" and "v \<noteq> FNull"
  shows "\<exists>i. stands_for (readSource (fd_source f) event) = Some i \<and> \<not> rounded (readSource (fd_source f) event)
    \<and> v = FText (int_to_string i)"
  using assms coerceInteger_exact [of "readSource (fd_source f) event"]
  by (auto simp: decode_field_def Let_def coerce_numeric and_then_Inr split: if_splits sum.splits)

lemma coerce_not_null: "coerce f raw = Inr v \<Longrightarrow> v \<noteq> FNull"
  by (cases "fd_type f"; cases raw)
    (auto simp: coerce_def and_then_Inr split: option.splits jsval.splits)

text \<open>What a stored field says of the event it was read from.\<close>

definition field_faithful :: "contract_event \<Rightarrow> field_definition \<Rightarrow> string \<times> field_value \<Rightarrow> bool" where
  "field_faithful event f r =
     (let raw = readSource (fd_source f) event in
      fst r = fd_name f \<and>
      (case snd r of
         FNull \<Rightarrow> fd_optional f \<and> raw \<in> {JUndefined, JNull}
       | FAbsent \<Rightarrow> fd_type f = JsonT
       | FText t \<Rightarrow> (if fd_type f \<in> set NUMERIC_TYPES
                    then is_int_text t \<and> stands_for raw = Some (int_of_text t) \<and> \<not> rounded raw
                    else True)))"

lemma decode_field_faithful:
  assumes "decode_field event f = Inr r"
  shows "field_faithful event f r"
proof (cases "snd r")
  case FNull
  then show ?thesis using assms coerce_not_null [of f]
    by (auto simp: field_faithful_def decode_field_def Let_def split: if_splits sum.splits)
next
  case (FText t)
  then show ?thesis using assms decode_field_number [of event f "fst r" "snd r"] decode_field_name [of event f r]
    by (cases r) (auto simp: field_faithful_def Let_def)
next
  case FAbsent
  have "fd_type f = JsonT" if "coerce f raw = Inr FAbsent" for raw
    using that by (cases "fd_type f") (auto simp: coerce_def and_then_Inr split: jsval.splits)
  then show ?thesis using assms FAbsent
    by (auto simp: field_faithful_def decode_field_def Let_def split: if_splits sum.splits)
qed

text \<open>
  A decoded event has exactly the declared fields, in order and under their declared names. A
  field of a numeric type holds decimal text that reads back as exactly the integer the contract
  emitted, never a number a double could have rounded, and a field is null only where it is optional
  and the event has nothing there.
\<close>

theorem decoded_amounts_are_exact:
  assumes "decodeFields d event = Inr fs"
  shows "list_all2 (field_faithful event) (ed_fields d) fs"
  using assms unfolding decodeFields_def traverse_Inr_iff
  by (rule list_all2_mono) (rule decode_field_faithful)

definition sample_event :: contract_event where
  "sample_event = \<lparr>ev_id = ''0001-1'', ev_type = ''contract'', ev_contractId = ''CA'', ev_ledger = 7,
     ev_createdAt = ''t'', ev_pagingToken = ''0001-1'', ev_topics = [JStr ''transfer'', JStr ''GA''],
     ev_value = JObj [(''amount'', JBig 42)], ev_transactionHash = None\<rparr>"

definition sample_definition :: event_definition where
  "sample_definition = \<lparr>ed_name = ''moved'', ed_topic = ''transfer'', ed_fields =
     [\<lparr>fd_name = ''sender'', fd_type = AddressT, fd_source = ''topic[1]'', fd_optional = False\<rparr>,
      \<lparr>fd_name = ''amount'', fd_type = I128T, fd_source = ''value.amount'', fd_optional = False\<rparr>,
      \<lparr>fd_name = ''note'', fd_type = StringT, fd_source = ''topic[2]'', fd_optional = True\<rparr>]\<rparr>"

theorem decoded_amounts_are_exact_witness:
  "list_all2 (field_faithful sample_event) (ed_fields sample_definition)
     [(''sender'', FText ''GA''), (''amount'', FText ''42''), (''note'', FNull)]"
  by (rule decoded_amounts_are_exact) code_simp

section \<open>One event at a time\<close>

definition matching_definition ::
  "(string \<Rightarrow> contract_schema option) \<Rightarrow> contract_event \<Rightarrow> (contract_schema \<times> event_definition) option" where
  "matching_definition schemas event =
     (case schemas (ev_contractId event) of
        None \<Rightarrow> None
      | Some schema \<Rightarrow> map_option (Pair schema) (findEventDefinition schema (ev_topics event)))"

text \<open>What one event contributes to the batch.\<close>

definition outcome ::
  "(string \<Rightarrow> contract_schema option) \<Rightarrow> contract_event \<Rightarrow> decoded_event list \<times> decode_failure list" where
  "outcome schemas event = decodeEvents schemas [event]"

lemma decode_loop_acc:
  "decode_loop schemas (e # es) ds fs =
     (let (d1, f1) = outcome schemas e in decode_loop schemas es (ds @ d1) (fs @ f1))"
  by (auto simp: outcome_def decodeEvents_def split: option.splits sum.splits)

lemma decode_loop_pointwise:
  "decode_loop schemas es ds fs =
     (ds @ concat (map (fst \<circ> outcome schemas) es), fs @ concat (map (snd \<circ> outcome schemas) es))"
proof (induction es arbitrary: ds fs)
  case (Cons e es)
  then show ?case by (simp add: decode_loop_acc case_prod_unfold Let_def del: decode_loop.simps)
qed simp

lemma outcome_count:
  "length (fst (outcome schemas e)) + length (snd (outcome schemas e)) =
     (if matching_definition schemas e = None then 0 else 1)"
  by (auto simp: outcome_def decodeEvents_def matching_definition_def split: option.splits sum.splits)

text \<open>
  A batch is decoded event by event. What an event contributes depends on that event alone, so an
  event that does not decode changes nothing for its neighbours; and every event that matches a
  definition is reported exactly once, as decoded or as failed, never dropped.
\<close>

theorem decode_batch_is_pointwise:
  "decodeEvents schemas events =
     (concat (map (\<lambda>e. fst (decodeEvents schemas [e])) events),
      concat (map (\<lambda>e. snd (decodeEvents schemas [e])) events)) \<and>
   length (fst (decodeEvents schemas events)) + length (snd (decodeEvents schemas events)) =
     length (filter (\<lambda>e. matching_definition schemas e \<noteq> None) events)"
proof -
  have eq: "decodeEvents schemas events =
      (concat (map (fst \<circ> outcome schemas) events), concat (map (snd \<circ> outcome schemas) events))"
    by (simp add: decodeEvents_def decode_loop_pointwise)
  have "length (concat (map (fst \<circ> outcome schemas) events)) + length (concat (map (snd \<circ> outcome schemas) events)) =
      length (filter (\<lambda>e. matching_definition schemas e \<noteq> None) events)"
  proof (induction events)
    case (Cons e es)
    then show ?case using outcome_count [of schemas e] by (auto split: if_splits)
  qed simp
  with eq show ?thesis by (simp add: outcome_def comp_def)
qed

end
