(* ===== verification/Contract_Store.thy ===== *)
theory Contract_Store
  imports Custom_Decode Ledger_Queries
begin

text \<open>
  The contract tables of \<open>indexer/src/db.ts\<close>: events, custom schemas, custom events, storage entries
  and their history. They are written on the pool, statement by statement. The column checks are
  those of \<open>db/schema.sql\<close>; the insertion times of event rows, which no query reads, are left out.
\<close>

section \<open>Tables\<close>

record event_row =
  ew_event :: contract_event
  ew_value_json :: "jsval option"

record custom_row =
  cr_contract_id :: string
  cr_ledger :: int
  cr_created_at :: string
  cr_schema_version :: int
  cr_fields :: "(string \<times> field_value) list"

datatype storage_state = Active | Archived

record storage_row =
  sr_durability :: string
  sr_state :: storage_state
  sr_value :: "jsval option"
  sr_value_xdr :: string
  sr_live_until :: "int option"
  sr_last_modified :: int
  sr_indexed_at :: int

record history_row =
  hr_durability :: string
  hr_value :: "jsval option"
  hr_value_xdr :: string
  hr_live_until :: "int option"

text \<open>Keys: (id, network), (contract, network), (event, name, network), (contract, key, network) and
  (contract, key, last modified ledger, network).\<close>

record 'd contract_db =
  base :: "'d store"
  contract_events :: "(string \<times> string, event_row) table"
  contract_schemas :: "(string \<times> string, int \<times> jsval) table"
  custom_events :: "(string \<times> string \<times> string, custom_row) table"
  storage_entries :: "(string \<times> string \<times> string, storage_row) table"
  storage_history :: "(string \<times> string \<times> int \<times> string, history_row) table"

section \<open>Events\<close>

definition event_check :: "contract_event \<Rightarrow> bool" where
  "event_check e = (ev_id e \<noteq> [] \<and> ev_contractId e \<noteq> [] \<and> 0 < ev_ledger e \<and> ev_pagingToken e \<noteq> [])"

text \<open>\<open>undefined\<close> is written as null, and the replacer writes a \<open>bigint\<close> as text.\<close>

definition value_json :: "jsval \<Rightarrow> jsval option" where
  "value_json v = (if v = JUndefined then None else jsonify True v)"

definition insert_contract_event :: "string \<Rightarrow> contract_event \<Rightarrow> 'd contract_db statement" where
  "insert_contract_event network e db =
     (if event_check e
      then Inr (db\<lparr>contract_events := insert_do_nothing (ev_id e, network)
                  \<lparr>ew_event = e, ew_value_json = value_json (ev_value e)\<rparr> (contract_events db)\<rparr>)
      else Inl (CheckViolation ''contract_events''))"

definition highest_ledger :: "contract_event list \<Rightarrow> int" where
  "highest_ledger events = fold (\<lambda>e h. if h < ev_ledger e then ev_ledger e else h) events 0"

definition events_notification :: "string \<Rightarrow> contract_event list \<Rightarrow> indexed_notification" where
  "events_notification network events =
     \<lparr>n_kind = EventsKind, n_network = network, n_ledger = highest_ledger events,
      n_transactions = None, n_operations = None, n_events = Some (length events), n_effects = None\<rparr>"

definition event_statements :: "string \<Rightarrow> contract_event list \<Rightarrow> 'd contract_db statement list" where
  "event_statements network events =
     (if events = [] then []
      else map (insert_contract_event network) events
           @ [\<lambda>db. Inr (db\<lparr>base := notifyIndexed (events_notification network events) (base db)\<rparr>)])"

definition insertContractEvents ::
  "nat option \<Rightarrow> string \<Rightarrow> contract_event list \<Rightarrow> 'd contract_db \<Rightarrow> (db_error + unit) \<times> 'd contract_db" where
  "insertContractEvents crash network events = autocommit crash (event_statements network events)"

definition getLatestIndexedEventLedger :: "string \<Rightarrow> 'd contract_db \<Rightarrow> int" where
  "getLatestIndexedEventLedger network db =
     (case map (\<lambda>r. ev_ledger (ew_event (snd r))) (filter (\<lambda>r. snd (fst r) = network) (contract_events db)) of
        [] \<Rightarrow> 0 | l # ls \<Rightarrow> fold max ls l)"

section \<open>Custom schemas and custom events\<close>

text \<open>A stored definition that no longer validates is left out.\<close>

definition loadContractSchemas :: "string \<Rightarrow> 'd contract_db \<Rightarrow> string \<Rightarrow> contract_schema option" where
  "loadContractSchemas network db cid =
     (case map_of (contract_schemas db) (cid, network) of
        None \<Rightarrow> None
      | Some (_, doc) \<Rightarrow> (case parseContractSchema doc of Inl e \<Rightarrow> None | Inr s \<Rightarrow> Some s))"

definition upsertContractSchema :: "string \<Rightarrow> contract_schema \<Rightarrow> 'd contract_db \<Rightarrow> 'd contract_db" where
  "upsertContractSchema network s db =
     db\<lparr>contract_schemas := insert_do_update (cs_contractId s, network) (cs_version s, schema_json s)
          (\<lambda>_. (cs_version s, schema_json s)) (contract_schemas db)\<rparr>"

definition deleteContractSchema :: "string \<Rightarrow> string \<Rightarrow> 'd contract_db \<Rightarrow> 'd contract_db" where
  "deleteContractSchema network cid db =
     db\<lparr>contract_schemas := delete_where (\<lambda>k _. k = (cid, network)) (contract_schemas db)\<rparr>"

definition custom_check :: "decoded_event \<Rightarrow> bool" where
  "custom_check e = (de_eventId e \<noteq> [] \<and> de_contractId e \<noteq> [] \<and> de_eventName e \<noteq> [] \<and> 0 < de_ledger e)"

definition insert_custom_event :: "string \<Rightarrow> decoded_event \<Rightarrow> 'd contract_db statement" where
  "insert_custom_event network e db =
     (if custom_check e
      then Inr (db\<lparr>custom_events := insert_do_update (de_eventId e, de_eventName e, network)
                  \<lparr>cr_contract_id = de_contractId e, cr_ledger = de_ledger e, cr_created_at = de_createdAt e,
                   cr_schema_version = de_schemaVersion e, cr_fields = de_fields e\<rparr>
                  (\<lambda>r. r\<lparr>cr_schema_version := de_schemaVersion e, cr_fields := de_fields e\<rparr>)
                  (custom_events db)\<rparr>)
      else Inl (CheckViolation ''custom_events''))"

definition insertCustomEvents ::
  "nat option \<Rightarrow> string \<Rightarrow> decoded_event list \<Rightarrow> 'd contract_db \<Rightarrow> (db_error + unit) \<times> 'd contract_db" where
  "insertCustomEvents crash network events = autocommit crash (map (insert_custom_event network) events)"

section \<open>Storage entries\<close>

definition storage_value :: "jsval \<Rightarrow> jsval option" where
  "storage_value v = (if v = JNull then None else jsonify True v)"

definition storage_check :: "storage_entry \<Rightarrow> bool" where
  "storage_check e = (se_durability e \<in> {''persistent'', ''temporary''} \<and> 0 < se_lastModifiedLedgerSeq e)"

definition active_row :: "int \<Rightarrow> storage_entry \<Rightarrow> storage_row" where
  "active_row now e =
     \<lparr>sr_durability = se_durability e, sr_state = Active, sr_value = storage_value (se_value e),
      sr_value_xdr = se_valueXdr e, sr_live_until = se_liveUntilLedgerSeq e,
      sr_last_modified = se_lastModifiedLedgerSeq e, sr_indexed_at = now\<rparr>"

definition upsert_storage_entry :: "int \<Rightarrow> string \<Rightarrow> storage_entry \<Rightarrow> 'd contract_db statement" where
  "upsert_storage_entry now network e db =
     (if storage_check e
      then Inr (db\<lparr>storage_entries := insert_do_update (se_contractId e, se_key e, network)
                  (active_row now e) (\<lambda>_. active_row now e) (storage_entries db)\<rparr>)
      else Inl (CheckViolation ''contract_storage_entries''))"

definition upsertContractStorageEntries ::
  "nat option \<Rightarrow> int \<Rightarrow> string \<Rightarrow> storage_entry list \<Rightarrow> 'd contract_db \<Rightarrow> (db_error + unit) \<times> 'd contract_db" where
  "upsertContractStorageEntries crash now network es = autocommit crash (map (upsert_storage_entry now network) es)"

definition record_storage_history :: "string \<Rightarrow> storage_entry \<Rightarrow> 'd contract_db statement" where
  "record_storage_history network e db =
     (if storage_check e
      then Inr (db\<lparr>storage_history := insert_do_nothing
                  (se_contractId e, se_key e, se_lastModifiedLedgerSeq e, network)
                  \<lparr>hr_durability = se_durability e, hr_value = storage_value (se_value e),
                   hr_value_xdr = se_valueXdr e, hr_live_until = se_liveUntilLedgerSeq e\<rparr> (storage_history db)\<rparr>)
      else Inl (CheckViolation ''contract_storage_history''))"

definition recordContractStorageHistory ::
  "nat option \<Rightarrow> string \<Rightarrow> storage_entry list \<Rightarrow> 'd contract_db \<Rightarrow> (db_error + unit) \<times> 'd contract_db" where
  "recordContractStorageHistory crash network es = autocommit crash (map (record_storage_history network) es)"

text \<open>\<open>UPDATE ... WHERE network = $1 AND key = ANY($2) AND state = 'active'\<close>.\<close>

definition archive_rows :: "int \<Rightarrow> string \<Rightarrow> string list \<Rightarrow> 'd contract_db statement" where
  "archive_rows now network ks db =
     Inr (db\<lparr>storage_entries := update_where
            (\<lambda>(_, key, net) r. net = network \<and> key \<in> set ks \<and> sr_state r = Active)
            (\<lambda>r. r\<lparr>sr_state := Archived, sr_indexed_at := now\<rparr>) (storage_entries db)\<rparr>)"

definition markContractStorageEntriesArchived ::
  "nat option \<Rightarrow> int \<Rightarrow> string \<Rightarrow> string list \<Rightarrow> 'd contract_db \<Rightarrow> (db_error + unit) \<times> 'd contract_db" where
  "markContractStorageEntriesArchived crash now network ks =
     autocommit crash (if ks = [] then [] else [archive_rows now network ks])"

definition getTrackedContractStorageKeys :: "string \<Rightarrow> 'd contract_db \<Rightarrow> string list" where
  "getTrackedContractStorageKeys network db =
     uniq (map (\<lambda>((_, key, _), _). key) (filter (\<lambda>((_, _, net), _). net = network) (storage_entries db)))"

section \<open>Lookups after the statements\<close>

lemma set_tracked:
  "set (getTrackedContractStorageKeys network db) = {key. \<exists>cid. (cid, key, network) \<in> keys (storage_entries db)}"
  by (force simp: getTrackedContractStorageKeys_def keys_def)

text \<open>
  A schema that was stored is loaded back exactly as it was validated, and storing or deleting one
  contract's schema changes what is loaded for no other contract and no other network. Whatever is
  stored, a schema that is loaded has passed validation: its events and fields are within the limits,
  their names distinct, and no field shadows a column.
\<close>

theorem schemas_load_as_stored:
  assumes "schema_ok s" and "m \<noteq> n"
  shows "loadContractSchemas n (upsertContractSchema n s db) = (loadContractSchemas n db)(cs_contractId s \<mapsto> s) \<and>
    loadContractSchemas n (deleteContractSchema n (cs_contractId s) db) =
      (loadContractSchemas n db)(cs_contractId s := None) \<and>
    loadContractSchemas m (upsertContractSchema n s db) = loadContractSchemas m db \<and>
    loadContractSchemas m (deleteContractSchema n (cs_contractId s) db) = loadContractSchemas m db \<and>
    pred_option schema_ok (loadContractSchemas n db cid)"
proof (intro conjI)
  show "loadContractSchemas n (upsertContractSchema n s db) = (loadContractSchemas n db)(cs_contractId s \<mapsto> s)"
    by (auto simp: loadContractSchemas_def upsertContractSchema_def table_simps fun_eq_iff
        parseContractSchema_complete [OF assms(1)] split: option.splits)
  show "loadContractSchemas n (deleteContractSchema n (cs_contractId s) db) =
      (loadContractSchemas n db)(cs_contractId s := None)"
    by (auto simp: loadContractSchemas_def deleteContractSchema_def table_simps fun_eq_iff)
  show "pred_option schema_ok (loadContractSchemas n db cid)"
    using parseContractSchema_sound by (auto simp: loadContractSchemas_def split: option.splits sum.splits)
qed (use assms(2) in \<open>auto simp: loadContractSchemas_def upsertContractSchema_def deleteContractSchema_def
    table_simps fun_eq_iff\<close>)

definition empty_contract_db :: "'d \<Rightarrow> 'd contract_db" where
  "empty_contract_db d = \<lparr>base = empty_store d, contract_events = [], contract_schemas = [],
     custom_events = [], storage_entries = [], storage_history = []\<rparr>"

definition sample_schema :: contract_schema where
  "sample_schema = \<lparr>cs_contractId = CHR ''C'' # replicate 55 (CHR ''A''), cs_version = 1,
     cs_events = [sample_definition]\<rparr>"

theorem schemas_load_as_stored_witness:
  "loadContractSchemas ''testnet'' (upsertContractSchema ''testnet'' sample_schema (empty_contract_db ())) =
      (loadContractSchemas ''testnet'' (empty_contract_db ()))(cs_contractId sample_schema \<mapsto> sample_schema) \<and>
    loadContractSchemas ''testnet'' (deleteContractSchema ''testnet'' (cs_contractId sample_schema) (empty_contract_db ())) =
      (loadContractSchemas ''testnet'' (empty_contract_db ()))(cs_contractId sample_schema := None) \<and>
    loadContractSchemas ''mainnet'' (upsertContractSchema ''testnet'' sample_schema (empty_contract_db ())) =
      loadContractSchemas ''mainnet'' (empty_contract_db ()) \<and>
    loadContractSchemas ''mainnet'' (deleteContractSchema ''testnet'' (cs_contractId sample_schema) (empty_contract_db ())) =
      loadContractSchemas ''mainnet'' (empty_contract_db ()) \<and>
    pred_option schema_ok (loadContractSchemas ''testnet'' (empty_contract_db ()) (cs_contractId sample_schema))"
proof (rule schemas_load_as_stored)
  show "schema_ok sample_schema" by code_simp
qed simp

end
