(* ===== verification/Contract_Polling.thy ===== *)
theory Contract_Polling
  imports Contract_Store
begin

text \<open>
  The contract side of one network's loop in \<open>indexer/src/index.ts\<close>: registry discovery, event
  polling with its own cursor, custom decoding and storage polling. What may fail beside the node (a
  read, a statement, the cursor write) is an argument of each cycle.
\<close>

section \<open>State\<close>

record 'd poller =
  eventsCursor :: int
  discoveredContractIds :: "string list"
  cdb :: "'d contract_db"

record poll_config =
  pc_network :: string
  pc_staticContractIds :: "string list"
  pc_storageKeys :: "string list"
  pc_lag :: int
  pc_maxEvents :: nat

record faults =
  f_cursor_read :: bool
  f_events :: "nat option"
  f_schema_read :: bool
  f_custom :: "nat option"
  f_cursor_write :: bool

definition no_faults :: faults where
  "no_faults = \<lparr>f_cursor_read = False, f_events = None, f_schema_read = False, f_custom = None, f_cursor_write = False\<rparr>"

section \<open>Discovery\<close>

definition isContractAddress :: "string \<Rightarrow> bool" where
  "isContractAddress address = is_contract_id address"

text \<open>\<open>None\<close>: the network has no registry. A failed poll keeps the list it had.\<close>

definition pollRegistry :: "(nat \<Rightarrow> nat \<Rightarrow> string + string list) option \<Rightarrow> 'd poller \<Rightarrow> 'd poller" where
  "pollRegistry registry w =
     (case registry of
        None \<Rightarrow> w
      | Some simulate \<Rightarrow>
          (case getActiveContracts simulate of
             Inl e \<Rightarrow> w
           | Inr entries \<Rightarrow> w\<lparr>discoveredContractIds := filter isContractAddress entries\<rparr>))"

definition watched :: "poll_config \<Rightarrow> 'd poller \<Rightarrow> string list" where
  "watched cfg w = uniq (pc_staticContractIds cfg @ discoveredContractIds w)"

section \<open>Events\<close>

text \<open>The ledger to ask from: the loop's cursor, else the stored one, else the node's latest.\<close>

definition start_cursor :: "poll_config \<Rightarrow> faults \<Rightarrow> soroban_rpc \<Rightarrow> 'd poller \<Rightarrow> string + int" where
  "start_cursor cfg fl rpc w =
     (if eventsCursor w \<noteq> 0 then Inr (eventsCursor w)
      else if f_cursor_read fl then Inl ''cursor read failed''
      else (let dbCursor = (case getIndexerCursor (pc_network cfg) Events (base (cdb w)) of
                              Some c \<Rightarrow> c | None \<Rightarrow> getLatestIndexedEventLedger (pc_network cfg) (cdb w))
            in if 0 < dbCursor then Inr (dbCursor + 1) else getLatestLedgerSequence rpc))"

definition skip_to_retained :: "soroban_rpc \<Rightarrow> int \<Rightarrow> int" where
  "skip_to_retained rpc c =
     (case getRetentionInfo rpc of Some oldest \<Rightarrow> if c < oldest then oldest else c | None \<Rightarrow> c)"

definition indexCustomEvents :: "poll_config \<Rightarrow> faults \<Rightarrow> contract_event list \<Rightarrow> 'd contract_db \<Rightarrow> 'd contract_db" where
  "indexCustomEvents cfg fl events db =
     (if f_schema_read fl then db
      else (let (decoded, failures) = decodeEvents (loadContractSchemas (pc_network cfg) db) events
            in if decoded \<noteq> [] then snd (insertCustomEvents (f_custom fl) (pc_network cfg) decoded db) else db))"

text \<open>The rest of the cycle, once the node has answered.\<close>

definition store_events :: "poll_config \<Rightarrow> faults \<Rightarrow> events_result \<Rightarrow> 'd poller \<Rightarrow> 'd poller" where
  "store_events cfg fl r w =
     (let events = er_events r; n = pc_network cfg in
      case (if events \<noteq> [] then insertContractEvents (f_events fl) n events (cdb w) else (Inr (), cdb w)) of
        (Inl e, db) \<Rightarrow> w\<lparr>cdb := db\<rparr>
      | (Inr _, db) \<Rightarrow>
          (let db' = (if events \<noteq> [] then indexCustomEvents cfg fl events db else db);
               c = max (eventsCursor w) (er_latestLedger r - pc_lag cfg + 1)
           in if f_cursor_write fl then w\<lparr>eventsCursor := c, cdb := db'\<rparr>
              else w\<lparr>eventsCursor := c, cdb := db'\<lparr>base := setIndexerCursor n Events c (base db')\<rparr>\<rparr>))"

text \<open>The outer \<open>option\<close> is a cycle that never returns, \<open>rpc = None\<close> a network without a node.\<close>

definition pollContractEvents ::
  "poll_config \<Rightarrow> faults \<Rightarrow> soroban_rpc option \<Rightarrow> 'd poller \<Rightarrow> 'd poller option" where
  "pollContractEvents cfg fl rpcUrl w =
     (let contractIds = watched cfg w in
      case rpcUrl of
        None \<Rightarrow> Some w
      | Some rpc \<Rightarrow>
          (if contractIds = [] then Some w
           else (case start_cursor cfg fl rpc w of
                   Inl e \<Rightarrow> Some w
                 | Inr c \<Rightarrow>
                     (let w1 = w\<lparr>eventsCursor := skip_to_retained rpc c\<rparr> in
                      case getEvents rpc contractIds (eventsCursor w1) (pc_maxEvents cfg) of
                        None \<Rightarrow> None
                      | Some (Inl e) \<Rightarrow> Some w1
                      | Some (Inr r) \<Rightarrow> Some (store_events cfg fl r w1)))))"

section \<open>Storage\<close>

record storage_faults =
  sf_read :: bool
  sf_upsert :: "nat option"
  sf_history :: "nat option"
  sf_archive :: "nat option"

definition watched_keys :: "poll_config \<Rightarrow> 'd contract_db \<Rightarrow> string list" where
  "watched_keys cfg db = uniq (getTrackedContractStorageKeys (pc_network cfg) db @ pc_storageKeys cfg)"

text \<open>The writes run in order and the first error ends the cycle.\<close>

definition pollContractStorage ::
  "poll_config \<Rightarrow> storage_faults \<Rightarrow> int \<Rightarrow> soroban_rpc option \<Rightarrow> 'd contract_db \<Rightarrow> (string + unit) \<times> 'd contract_db" where
  "pollContractStorage cfg fl now rpcUrl db =
     (case rpcUrl of
        None \<Rightarrow> (Inr (), db)
      | Some rpc \<Rightarrow>
          (if sf_read fl then (Inl ''read failed'', db)
           else (let ks = watched_keys cfg db; n = pc_network cfg in
             if ks = [] then (Inr (), db)
             else (case getContractStorageEntries rpc ks of
                     Inl e \<Rightarrow> (Inl e, db)
                   | Inr (entries, _) \<Rightarrow>
                       (case upsertContractStorageEntries (sf_upsert fl) now n entries db of
                          (Inl e, db1) \<Rightarrow> (Inl ''upsert failed'', db1)
                        | (Inr _, db1) \<Rightarrow>
                            (case recordContractStorageHistory (sf_history fl) n entries db1 of
                               (Inl e, db2) \<Rightarrow> (Inl ''history failed'', db2)
                             | (Inr _, db2) \<Rightarrow>
                                 (case markContractStorageEntriesArchived (sf_archive fl) now n
                                         (filter (\<lambda>k. k \<notin> set (map se_key entries)) ks) db2 of
                                    (Inl e, db3) \<Rightarrow> (Inl ''archive failed'', db3)
                                  | (Inr _, db3) \<Rightarrow> (Inr (), db3))))))))"

section \<open>The node as documented\<close>

text \<open>
  The first page of \<open>getEvents\<close>: the oldest events of the named contracts from the start ledger on, up to
  the limit, with the node's latest ledger. Nothing is assumed of later pages.
\<close>

definition matching_log :: "rpc_event list \<Rightarrow> string list \<Rightarrow> int \<Rightarrow> rpc_event list" where
  "matching_log log ids start = filter (\<lambda>r. re_contractId r \<in> set ids \<and> start \<le> re_ledger r) log"

definition serves_log :: "soroban_rpc \<Rightarrow> rpc_event list \<Rightarrow> int \<Rightarrow> bool" where
  "serves_log rpc log tip \<longleftrightarrow> (\<forall>start ids limit. \<exists>c. rpc_getEvents rpc start ids limit None =
     Inr \<lparr>ep_events = Some (take limit (matching_log log ids start)), ep_latestLedger = Some tip, ep_cursor = c\<rparr>)"

text \<open>A page of transactions that names a cursor has something in it.\<close>

definition tx_pages_progress :: "soroban_rpc \<Rightarrow> bool" where
  "tx_pages_progress rpc \<longleftrightarrow> (\<forall>req page. rpc_getTransactions rpc req = Inr page \<longrightarrow>
     has_cursor (tp_cursor page) \<longrightarrow> or_empty (tp_transactions page) \<noteq> [])"

lemma tx_loop_returns:
  assumes "tx_pages_progress rpc"
  shows "\<exists>r. tx_loop rpc s e m cursor acc latest = Some r"
proof (induction "m - length acc" arbitrary: cursor acc latest rule: less_induct)
  case less
  show ?case
  proof (subst tx_loop.simps, auto simp: Let_def split: sum.splits, goal_cases)
    case (1 page)
    then have "or_empty (tp_transactions page) \<noteq> []"
      using assms by (auto simp: tx_pages_progress_def)
    with 1 show ?case
      by (intro less) (cases "or_empty (tp_transactions page)", auto)
  qed
qed

lemma event_transactions_returns:
  assumes "tx_pages_progress rpc"
  shows "\<exists>txs. event_transactions rpc records = Some txs"
proof -
  have ret: "\<exists>r. getTransactions_rpc rpc a b m = Some r" for a b m
    unfolding getTransactions_rpc_def by (rule tx_loop_returns [OF assms])
  show ?thesis
  proof (cases records)
    case (Cons r rs)
    let ?ls = "map re_ledger rs"
    obtain x where "getTransactions_rpc rpc (fold min ?ls (re_ledger r)) (fold max ?ls (re_ledger r) + 1)
        MAX_TRANSACTIONS = Some x"
      using ret by blast
    with Cons show ?thesis by (cases x) (auto simp: event_transactions_def split: prod.splits)
  qed (simp add: event_transactions_def)
qed

lemma chunk_complete:
  assumes "serves_log rpc log tip" "length (matching_log log ids start) < min EVENTS_PAGE_LIMIT m"
  shows "getEventsChunk rpc ids start m = Inr (matching_log log ids start, max start tip, False)"
proof -
  obtain c where "rpc_getEvents rpc start ids (min EVENTS_PAGE_LIMIT m) None =
     Inr \<lparr>ep_events = Some (take (min EVENTS_PAGE_LIMIT m) (matching_log log ids start)),
          ep_latestLedger = Some tip, ep_cursor = c\<rparr>"
    using assms(1) unfolding serves_log_def by blast
  with assms(2) show ?thesis
    unfolding getEventsChunk_def by (subst chunk_loop.simps) (simp add: has_cursor_def or_empty_def or_zero_def)
qed

lemma chunks_complete:
  assumes "serves_log rpc log tip"
    and "\<forall>ids \<in> set cs. length (matching_log log ids start) < EVENTS_PAGE_LIMIT"
    and "length acc + length (concat (map (\<lambda>ids. matching_log log ids start) cs)) < m"
  shows "\<exists>l. chunks_loop rpc start m cs acc latest =
      Inr (acc @ concat (map (\<lambda>ids. matching_log log ids start) cs), l, False) \<and> l \<ge> latest \<and> (cs \<noteq> [] \<longrightarrow> tip \<le> l)
        \<and> l \<le> max latest (max start tip)"
  using assms(2,3)
proof (induction cs arbitrary: acc latest)
  case (Cons ids cs)
  have chunk: "getEventsChunk rpc ids start (m - length acc) = Inr (matching_log log ids start, max start tip, False)"
    using Cons.prems by (intro chunk_complete [OF assms(1)]) simp
  obtain l where "chunks_loop rpc start m cs (acc @ matching_log log ids start) (max latest (max start tip)) =
      Inr ((acc @ matching_log log ids start) @ concat (map (\<lambda>ids. matching_log log ids start) cs), l, False)"
    "max latest (max start tip) \<le> l" "l \<le> max (max latest (max start tip)) (max start tip)"
    using Cons.IH [of "acc @ matching_log log ids start" "max latest (max start tip)"] Cons.prems by auto
  with chunk Cons.prems show ?case by (auto split: if_splits)
qed auto

end
