(* ===== verification/Contract_Properties.thy ===== *)
theory Contract_Properties
  imports Contract_Polling
begin

text \<open>
  What event and storage polling guarantee: a cycle within its budget stores every event of the range
  it advances over, one that hits the budget does not, and storage rows follow what the node returns.
\<close>

section \<open>Storing a batch\<close>

lemma uniq_from_distinct: "distinct xs \<Longrightarrow> set xs \<inter> set seen = {} \<Longrightarrow> uniq_from seen xs = xs"
  by (induction xs arbitrary: seen) auto

lemma uniq_distinct [simp]: "distinct xs \<Longrightarrow> uniq xs = xs"
  by (simp add: uniq_def uniq_from_distinct)

lemma insert_contract_event_Inr:
  "insert_contract_event n e db = Inr db' \<longleftrightarrow> event_check e \<and>
     db' = db\<lparr>contract_events := insert_do_nothing (ev_id e, n)
       \<lparr>ew_event = e, ew_value_json = value_json (ev_value e)\<rparr> (contract_events db)\<rparr>"
  by (auto simp: insert_contract_event_def)

lemma event_statement_cases:
  "s \<in> set (event_statements n events) \<Longrightarrow>
     (\<exists>e \<in> set events. s = insert_contract_event n e) \<or>
     s = (\<lambda>db. Inr (db\<lparr>base := notifyIndexed (events_notification n events) (base db)\<rparr>))"
  by (auto simp: event_statements_def split: if_splits)

lemma event_statements_keep:
  "s \<in> set (event_statements n events) \<Longrightarrow> s x = Inr y \<Longrightarrow>
     keys (contract_events x) \<subseteq> keys (contract_events y) \<and>
     keys (contract_events y) \<subseteq> keys (contract_events x) \<union> {(ev_id e, n) | e. e \<in> set events}"
  by (drule event_statement_cases) (auto simp: insert_contract_event_Inr)

lemma insertContractEvents_ok:
  assumes "list_all event_check events"
  shows "\<exists>db'. insertContractEvents None n events db = (Inr (), db') \<and>
    keys (contract_events db') = keys (contract_events db) \<union> {(ev_id e, n) | e. e \<in> set events}"
proof -
  let ?ss = "event_statements n events"
  have "\<exists>y. s x = Inr y \<and> True" if "s \<in> set ?ss" for s and x :: "'a contract_db"
    using event_statement_cases [OF that] assms by (auto simp: insert_contract_event_def list_all_iff)
  then obtain db' where run: "run_statements None ?ss db = Inr db'"
    using run_statements_total [of "\<lambda>_. True" db ?ss] by blast
  have "(ev_id e, n) \<in> keys (contract_events db')" if "e \<in> set events" for e
  proof (rule run_statements_establishes [OF run, where s = "insert_contract_event n e"])
    show "insert_contract_event n e \<in> set ?ss" using that by (auto simp: event_statements_def)
    show "(ev_id e, n) \<in> keys (contract_events y)" if "insert_contract_event n e x = Inr y"
      for x y :: "'a contract_db"
      using that by (auto simp: insert_contract_event_Inr)
    show "(ev_id e, n) \<in> keys (contract_events y)"
      if "s' \<in> set ?ss" "(ev_id e, n) \<in> keys (contract_events x)" "s' x = Inr y" for s' and x y :: "'a contract_db"
      using event_statements_keep [OF that(1,3)] that(2) by blast
  qed
  moreover have "keys (contract_events db) \<subseteq> keys (contract_events db') \<and>
      keys (contract_events db') \<subseteq> keys (contract_events db) \<union> {(ev_id e, n) | e. e \<in> set events}"
  proof (rule run_statements_inv [OF run])
    fix s and x y :: "'a contract_db"
    assume "s \<in> set ?ss" "keys (contract_events db) \<subseteq> keys (contract_events x) \<and>
      keys (contract_events x) \<subseteq> keys (contract_events db) \<union> {(ev_id e, n) | e. e \<in> set events}" "s x = Inr y"
    then show "keys (contract_events db) \<subseteq> keys (contract_events y) \<and>
      keys (contract_events y) \<subseteq> keys (contract_events db) \<union> {(ev_id e, n) | e. e \<in> set events}"
      using event_statements_keep [of s n events x y] by blast
  qed blast
  ultimately show ?thesis using autocommit_None [OF run] by (auto simp: insertContractEvents_def)
qed

lemma custom_events_keep:
  "contract_events (indexCustomEvents cfg fl events db) = contract_events db \<and>
   base (indexCustomEvents cfg fl events db) = base db"
proof -
  have "contract_events (snd (insertCustomEvents c n ds db)) = contract_events db \<and>
      base (snd (insertCustomEvents c n ds db)) = base db" for c n ds
    unfolding insertCustomEvents_def
    by (rule autocommit_inv) (auto simp: insert_custom_event_def split: if_splits)
  then show ?thesis by (simp add: indexCustomEvents_def case_prod_unfold Let_def)
qed

lemma store_events_ok:
  fixes w :: "'d poller"
  assumes "list_all event_check (er_events r)" and w'_def: "w' = store_events cfg no_faults r w"
  shows "keys (contract_events (cdb w')) =
      keys (contract_events (cdb w)) \<union> {(ev_id e, pc_network cfg) | e. e \<in> set (er_events r)}"
    and "eventsCursor w' = max (eventsCursor w) (er_latestLedger r - pc_lag cfg + 1)"
    and "getIndexerCursor (pc_network cfg) Events (base (cdb w')) = Some (eventsCursor w')"
proof -
  obtain db' where db': "insertContractEvents None (pc_network cfg) (er_events r) (cdb w) = (Inr (), db')"
    "keys (contract_events db') =
       keys (contract_events (cdb w)) \<union> {(ev_id e, pc_network cfg) | e. e \<in> set (er_events r)}"
    using insertContractEvents_ok [OF assms(1)] by blast
  show "keys (contract_events (cdb w')) =
      keys (contract_events (cdb w)) \<union> {(ev_id e, pc_network cfg) | e. e \<in> set (er_events r)}"
    "eventsCursor w' = max (eventsCursor w) (er_latestLedger r - pc_lag cfg + 1)"
    "getIndexerCursor (pc_network cfg) Events (base (cdb w')) = Some (eventsCursor w')"
    using db' by (auto simp: w'_def store_events_def no_faults_def Let_def custom_events_keep
        getIndexerCursor_def setIndexerCursor_def table_simps split: option.splits)
qed

section \<open>Fetching a range\<close>

text \<open>What the node serves can be stored: the topics serialise and the columns pass their checks.\<close>

definition storable :: "soroban_rpc \<Rightarrow> rpc_event \<Rightarrow> bool" where
  "storable rpc r =
     (list_all (\<lambda>t. jsonify False (decodeScValLegacy rpc t) \<noteq> None) (re_topic r)
      \<and> re_id r \<noteq> [] \<and> re_contractId r \<noteq> [] \<and> 0 < re_ledger r \<and> re_pagingToken r \<noteq> [])"

lemma map_event_ok:
  assumes "storable rpc r"
  shows "\<exists>e. map_event rpc txs r = Inr e \<and> ev_id e = re_id r \<and> event_check e"
proof -
  have "\<exists>ts. traverse (topic_json rpc) (re_topic r) = Inr ts"
    using assms by (intro traverse_total) (auto simp: storable_def list_all_iff topic_json_def)
  with assms show ?thesis by (auto simp: map_event_def storable_def event_check_def)
qed

lemma map_events_ok:
  assumes "list_all (storable rpc) rs"
  shows "\<exists>es. traverse (map_event rpc txs) rs = Inr es \<and> map ev_id es = map re_id rs \<and> list_all event_check es"
  using assms
proof (induction rs)
  case (Cons r rs)
  then show ?case using map_event_ok [of rpc r txs] by auto
qed simp

text \<open>A cycle whose range fits: every request is answered by one short page, and all of it is in the budget.\<close>

definition fits :: "rpc_event list \<Rightarrow> string list \<Rightarrow> int \<Rightarrow> nat \<Rightarrow> bool" where
  "fits log ids start m =
     (list_all (\<lambda>c. length (matching_log log c start) < EVENTS_PAGE_LIMIT) (chunks GET_EVENTS_MAX_CONTRACT_IDS ids)
      \<and> length (concat (map (\<lambda>c. matching_log log c start) (chunks GET_EVENTS_MAX_CONTRACT_IDS ids))) < m)"

lemma matching_chunks:
  "set (concat (map (\<lambda>c. matching_log log c start) cs)) = set (matching_log log (concat cs) start)"
  by (auto simp: matching_log_def)

lemma chunks_range:
  assumes "serves_log rpc log tip" "ids \<noteq> []" "fits log ids start m"
  defines "cs \<equiv> chunks GET_EVENTS_MAX_CONTRACT_IDS ids"
  shows "chunks_loop rpc start m cs [] start = Inr (concat (map (\<lambda>c. matching_log log c start) cs), max start tip, False)"
    and "set (concat (map (\<lambda>c. matching_log log c start) cs)) = set (matching_log log ids start)"
proof -
  have pos: "0 < GET_EVENTS_MAX_CONTRACT_IDS" by (simp add: GET_EVENTS_MAX_CONTRACT_IDS_def)
  then have "cs \<noteq> []" using assms(2) unfolding cs_def by (subst chunks.simps) simp
  moreover have "\<exists>l. chunks_loop rpc start m cs [] start = Inr ([] @ concat (map (\<lambda>c. matching_log log c start) cs), l, False)
      \<and> start \<le> l \<and> (cs \<noteq> [] \<longrightarrow> tip \<le> l) \<and> l \<le> max start (max start tip)"
    by (rule chunks_complete [OF assms(1)]) (use assms(3) in \<open>simp_all add: cs_def fits_def list_all_iff\<close>)
  ultimately show "chunks_loop rpc start m cs [] start =
      Inr (concat (map (\<lambda>c. matching_log log c start) cs), max start tip, False)"
    by (auto simp: max_def split: if_splits)
  show "set (concat (map (\<lambda>c. matching_log log c start) cs)) = set (matching_log log ids start)"
    using matching_chunks [of log start cs] chunks_concat [OF pos, of ids] by (simp add: cs_def)
qed

lemma getEvents_complete:
  assumes "serves_log rpc log tip" "tx_pages_progress rpc" "list_all (storable rpc) log"
    and "distinct ids" "ids \<noteq> []" "fits log ids start m"
  shows "\<exists>r. getEvents rpc ids start m = Some (Inr r) \<and> er_latestLedger r = max start tip \<and>
    \<not> er_truncated r \<and> list_all event_check (er_events r) \<and>
    ev_id ` set (er_events r) = re_id ` set (matching_log log ids start)"
proof -
  let ?cs = "chunks GET_EVENTS_MAX_CONTRACT_IDS ids"
  let ?rs = "concat (map (\<lambda>c. matching_log log c start) ?cs)"
  have loop: "chunks_loop rpc start m ?cs [] start = Inr (?rs, max start tip, False)"
    and set_rs: "set ?rs = set (matching_log log ids start)"
    using chunks_range [OF assms(1,5,6)] by auto
  then have ok: "list_all (storable rpc) ?rs" using assms(3) by (auto simp: list_all_iff matching_log_def)
  obtain txs where txs: "event_transactions rpc ?rs = Some txs"
    using event_transactions_returns [OF assms(2)] by blast
  obtain es where es: "traverse (map_event rpc txs) ?rs = Inr es" "map ev_id es = map re_id ?rs"
    "list_all event_check es"
    using map_events_ok [OF ok] by blast
  have "ev_id ` set es = re_id ` set (matching_log log ids start)"
    using es(2) set_rs by (metis list.set_map)
  with es txs loop assms(4,5) show ?thesis
    by (simp add: getEvents_def Let_def uniq_distinct)
qed

section \<open>A cycle within its budget\<close>

lemma watched_distinct [simp]: "distinct (watched cfg w)"
  by (simp add: watched_def)

lemma poll_step:
  assumes "watched cfg w \<noteq> []" "start_cursor cfg fl rpc w = Inr c"
    and "getEvents rpc (watched cfg w) (skip_to_retained rpc c) (pc_maxEvents cfg) = Some r"
  shows "pollContractEvents cfg fl (Some rpc) w =
    Some (case r of Inl e \<Rightarrow> w\<lparr>eventsCursor := skip_to_retained rpc c\<rparr>
          | Inr r \<Rightarrow> store_events cfg fl r (w\<lparr>eventsCursor := skip_to_retained rpc c\<rparr>))"
  using assms by (simp add: pollContractEvents_def Let_def split: sum.splits)


section \<open>A cycle that hits its budget\<close>

lemma chunk_truncated:
  assumes "serves_log rpc log tip" "0 < m" "m \<le> EVENTS_PAGE_LIMIT" "m \<le> length (matching_log log ids start)"
  shows "getEventsChunk rpc ids start m = Inr (take m (matching_log log ids start), max start tip, True)"
proof -
  obtain c where "rpc_getEvents rpc start ids m None =
     Inr \<lparr>ep_events = Some (take m (matching_log log ids start)), ep_latestLedger = Some tip, ep_cursor = c\<rparr>"
    using assms(1) unfolding serves_log_def by blast
  with assms(2-4) show ?thesis
    unfolding getEventsChunk_def
    by (subst chunk_loop.simps) (simp add: min.absorb2 has_cursor_def or_empty_def or_zero_def)
qed

lemma one_chunk: "ids \<noteq> [] \<Longrightarrow> length ids \<le> n \<Longrightarrow> chunks n ids = [ids]"
  by (subst chunks.simps) (cases ids, auto)

text \<open>
  When the budget cuts a cycle short the cursor still moves to the node's latest ledger less the
  lag. The events beyond the budget are not stored, and those of ledgers below the new cursor lie
  outside every range that is asked for later.
\<close>

theorem truncated_poll_skips_events:
  assumes "serves_log rpc log tip" "tx_pages_progress rpc" "list_all (storable rpc) log" "distinct (map re_id log)"
    and "watched cfg w \<noteq> []" "length (watched cfg w) \<le> 5"
    and "start_cursor cfg no_faults rpc w = Inr c" "start = skip_to_retained rpc c"
    and "0 < pc_maxEvents cfg" "pc_maxEvents cfg \<le> 200"
    and "r \<in> set (drop (pc_maxEvents cfg) (matching_log log (watched cfg w) start))"
    and "(re_id r, pc_network cfg) \<notin> keys (contract_events (cdb w))" "re_ledger r \<le> tip - pc_lag cfg"
  shows "\<exists>w'. pollContractEvents cfg no_faults (Some rpc) w = Some w' \<and>
    (re_id r, pc_network cfg) \<notin> keys (contract_events (cdb w')) \<and>
    re_ledger r < eventsCursor w' \<and>
    getIndexerCursor (pc_network cfg) Events (base (cdb w')) = Some (eventsCursor w')"
proof -
  let ?m = "pc_maxEvents cfg" and ?log = "matching_log log (watched cfg w) start"
  let ?w = "w\<lparr>eventsCursor := start\<rparr>"
  have len: "?m \<le> length ?log" using assms(11) by (cases "?m \<le> length ?log") auto
  have loop: "chunks_loop rpc start ?m (chunks GET_EVENTS_MAX_CONTRACT_IDS (watched cfg w)) [] start =
      Inr (take ?m ?log, max start tip, True)"
    using one_chunk [OF assms(5), of GET_EVENTS_MAX_CONTRACT_IDS] assms(6,9,10)
      chunk_truncated [OF assms(1,9) _ len]
    by (simp add: GET_EVENTS_MAX_CONTRACT_IDS_def EVENTS_PAGE_LIMIT_def)
  have ok: "list_all (storable rpc) (take ?m ?log)"
    using assms(3) by (auto simp: list_all_iff matching_log_def dest: in_set_takeD)
  obtain txs where txs: "event_transactions rpc (take ?m ?log) = Some txs"
    using event_transactions_returns [OF assms(2)] by blast
  obtain es where es: "traverse (map_event rpc txs) (take ?m ?log) = Inr es"
    "map ev_id es = map re_id (take ?m ?log)" "list_all event_check es"
    using map_events_ok [OF ok] by blast
  define res where "res = \<lparr>er_events = es, er_latestLedger = max start tip, er_truncated = True\<rparr>"
  have "getEvents rpc (watched cfg w) start ?m = Some (Inr res)"
    using loop txs es(1) assms(5) by (simp add: getEvents_def Let_def res_def)
  then have step: "pollContractEvents cfg no_faults (Some rpc) w = Some (store_events cfg no_faults res ?w)"
    using poll_step [OF assms(5,7)] by (simp add: assms(8))
  have "distinct (map re_id ?log)"
    using assms(4) by (simp add: matching_log_def distinct_map_filter)
  then have "re_id r \<notin> re_id ` set (take ?m ?log)"
    using assms(11) by (metis append_take_drop_id distinct_append disjoint_iff imageI list.set_map map_append)
  then have "re_id r \<notin> ev_id ` set es" using es(2) by (metis list.set_map)
  moreover note store_events_ok [of res "store_events cfg no_faults res ?w" cfg ?w]
  ultimately show ?thesis
    using step es(3) assms(12,13) by (auto simp: res_def)
qed

section \<open>An event that cannot be serialised\<close>

text \<open>
  One event whose topic decodes to a \<open>bigint\<close> (a 64- or 128-bit integer) fails the whole cycle:
  nothing of the batch is stored and the cursor stays where it was, so every later cycle over the same
  range fails the same way.
\<close>

theorem bigint_topic_blocks_polling:
  assumes "serves_log rpc log tip" "tx_pages_progress rpc"
    and "watched cfg w \<noteq> []" "start_cursor cfg fl rpc w = Inr c" "start = skip_to_retained rpc c"
    and "fits log (watched cfg w) start (pc_maxEvents cfg)"
    and "r \<in> set (matching_log log (watched cfg w) start)" "t \<in> set (re_topic r)" "sdk_scval rpc t = Some (JBig i)"
  shows "pollContractEvents cfg fl (Some rpc) w = Some (w\<lparr>eventsCursor := start\<rparr>)"
proof -
  let ?ids = "watched cfg w"
  let ?rs = "concat (map (\<lambda>c. matching_log log c start) (chunks GET_EVENTS_MAX_CONTRACT_IDS ?ids))"
  have loop: "chunks_loop rpc start (pc_maxEvents cfg) (chunks GET_EVENTS_MAX_CONTRACT_IDS ?ids) [] start =
      Inr (?rs, max start tip, False)" and set_rs: "set ?rs = set (matching_log log ?ids start)"
    using chunks_range [OF assms(1,3,6)] by auto
  obtain txs where txs: "event_transactions rpc ?rs = Some txs"
    using event_transactions_returns [OF assms(2)] by blast
  have "topic_json rpc t = Inl ''TypeError: Do not know how to serialize a BigInt''"
    using assms(9) by (simp add: topic_json_def decodeScValLegacy_def)
  from traverse_fails [where f = "topic_json rpc", OF assms(8) this] obtain e where "map_event rpc txs r = Inl e"
    by (auto simp: map_event_def)
  from traverse_fails [where f = "map_event rpc txs", OF _ this] obtain e where "traverse (map_event rpc txs) ?rs = Inl e"
    using assms(7) set_rs by blast
  then have "getEvents rpc ?ids start (pc_maxEvents cfg) = Some (Inl e)"
    using loop txs assms(3) by (simp add: getEvents_def Let_def)
  then show ?thesis using poll_step [OF assms(3,4)] by (simp add: assms(5))
qed

section \<open>Restart\<close>

text \<open>
  The stored events cursor names the next ledger to scan, as the running loop uses it, but a
  restarted loop reads it as the last one scanned and resumes one ledger later.
\<close>

theorem restart_skips_a_ledger:
  assumes "list_all event_check (er_events r)" "0 < eventsCursor w"
  shows "start_cursor cfg no_faults rpc (store_events cfg no_faults r w) =
      Inr (eventsCursor (store_events cfg no_faults r w)) \<and>
    start_cursor cfg no_faults rpc ((store_events cfg no_faults r w)\<lparr>eventsCursor := 0\<rparr>) =
      Inr (eventsCursor (store_events cfg no_faults r w) + 1)"
  using store_events_ok(2,3) [OF assms(1) refl, of cfg w] assms(2)
  by (auto simp: start_cursor_def no_faults_def Let_def)

section \<open>Examples\<close>

text \<open>A node with a given log, whose transaction history is unavailable.\<close>

definition sample_node :: "rpc_event list \<Rightarrow> int \<Rightarrow> soroban_rpc" where
  "sample_node log tip =
     \<lparr>rpc_getEvents = (\<lambda>start ids limit cur.
        Inr \<lparr>ep_events = Some (take limit (matching_log log ids start)), ep_latestLedger = Some tip, ep_cursor = None\<rparr>),
      rpc_getTransactions = (\<lambda>_. Inl ''unavailable''),
      rpc_getLedgerEntries = (\<lambda>_. Inr \<lparr>np_entries = None, np_latestLedger = Some tip\<rparr>),
      rpc_getLatestLedger = Inr tip, rpc_getNetwork = Inl ''unavailable'',
      sdk_scval = (\<lambda>t. if t = ''big'' then Some (JBig 1) else Some (JStr t)),
      sdk_ledger_key = (\<lambda>k. Inr (''contractData'', ''CA'', ''persistent'')),
      sdk_entry_data = (\<lambda>_. Inr None)\<rparr>"

definition sample_log_event :: "string \<Rightarrow> nat \<Rightarrow> rpc_event" where
  "sample_log_event topic i =
     \<lparr>re_type = ''contract'', re_ledger = 5, re_ledgerClosedAt = ''t'', re_contractId = ''CA'',
      re_id = nat_to_string i, re_pagingToken = ''p'', re_topic = [topic], re_value = ''v'',
      re_txHash = None, re_transactionIndex = None\<rparr>"

definition sample_poll_config :: poll_config where
  "sample_poll_config = \<lparr>pc_network = ''testnet'', pc_staticContractIds = [''CA''], pc_storageKeys = [],
     pc_lag = 3, pc_maxEvents = 100\<rparr>"

definition sample_poller :: "unit poller" where
  "sample_poller = \<lparr>eventsCursor = 4, discoveredContractIds = [], cdb = empty_contract_db ()\<rparr>"

lemma sample_serves [simp]: "serves_log (sample_node log tip) log tip" "tx_pages_progress (sample_node log tip)"
  by (simp_all add: serves_log_def sample_node_def tx_pages_progress_def)

lemma sample_storable [simp]: "topic \<noteq> ''big'' \<Longrightarrow> storable (sample_node log tip) (sample_log_event topic i)"
  by (simp add: storable_def sample_node_def sample_log_event_def decodeScValLegacy_def)

lemma sample_watched [simp]: "watched sample_poll_config sample_poller = [''CA'']"
  by (simp add: watched_def sample_poll_config_def sample_poller_def uniq_def)

lemma sample_start [simp]:
  "start_cursor sample_poll_config no_faults (sample_node log tip) sample_poller = Inr 4"
  "skip_to_retained (sample_node log tip) 4 = 4"
  by (simp_all add: start_cursor_def sample_poller_def skip_to_retained_def getRetentionInfo_def sample_node_def)

lemma sample_matching [simp]:
  "matching_log (map (sample_log_event topic) is) [''CA''] 4 = map (sample_log_event topic) is"
  by (induction "is") (simp_all add: matching_log_def sample_log_event_def)

lemma sample_matching_one [simp]: "matching_log [sample_log_event topic i] [''CA''] 4 = [sample_log_event topic i]"
  by (simp add: matching_log_def sample_log_event_def)

lemma sample_fits [simp]: "fits [sample_log_event topic i] [''CA''] 4 100"
  by (simp add: fits_def GET_EVENTS_MAX_CONTRACT_IDS_def one_chunk EVENTS_PAGE_LIMIT_def)

lemma sample_limits [simp]: "pc_maxEvents sample_poll_config = 100" "pc_lag sample_poll_config = 3"
  by (simp_all add: sample_poll_config_def)


theorem truncated_poll_skips_events_witness:
  "\<exists>w'. pollContractEvents sample_poll_config no_faults
      (Some (sample_node (map (sample_log_event ''x'') [0..<101]) 20)) sample_poller = Some w' \<and>
    (re_id (sample_log_event ''x'' 100), pc_network sample_poll_config) \<notin> keys (contract_events (cdb w')) \<and>
    re_ledger (sample_log_event ''x'' 100) < eventsCursor w' \<and>
    getIndexerCursor (pc_network sample_poll_config) Events (base (cdb w')) = Some (eventsCursor w')"
proof (rule truncated_poll_skips_events [where c = 4 and start = 4 and
      log = "map (sample_log_event ''x'') [0..<101]" and tip = 20])
  have "inj_on (\<lambda>i. re_id (sample_log_event ''x'' i)) (set [0..<101])"
    by (rule inj_on_inverseI [where g = nat_of_digits]) (simp add: sample_log_event_def)
  then show "distinct (map re_id (map (sample_log_event ''x'') [0..<101]))"
    by (simp add: distinct_map comp_def)
  show "list_all (storable (sample_node (map (sample_log_event ''x'') [0..<101]) 20)) (map (sample_log_event ''x'') [0..<101])"
    by (simp add: list_all_iff)
  show "sample_log_event ''x'' 100 \<in> set (drop (pc_maxEvents sample_poll_config)
      (matching_log (map (sample_log_event ''x'') [0..<101]) (watched sample_poll_config sample_poller) 4))"
    by (simp add: drop_map drop_upt)
  show "(re_id (sample_log_event ''x'' 100), pc_network sample_poll_config) \<notin> keys (contract_events (cdb sample_poller))"
    by (simp add: sample_poller_def empty_contract_db_def)
  show "re_ledger (sample_log_event ''x'' 100) \<le> 20 - pc_lag sample_poll_config"
    by (simp add: sample_log_event_def)
qed simp_all

theorem bigint_topic_blocks_polling_witness:
  "pollContractEvents sample_poll_config no_faults (Some (sample_node [sample_log_event ''big'' 1] 20)) sample_poller =
     Some (sample_poller\<lparr>eventsCursor := 4\<rparr>)"
  by (rule bigint_topic_blocks_polling [where c = 4 and r = "sample_log_event ''big'' 1" and t = "''big''" and i = 1
      and log = "[sample_log_event ''big'' 1]" and tip = 20])
    (simp_all, simp_all add: sample_log_event_def sample_node_def)

theorem restart_skips_a_ledger_witness:
  "start_cursor sample_poll_config no_faults (sample_node [] 20)
      (store_events sample_poll_config no_faults \<lparr>er_events = [], er_latestLedger = 20, er_truncated = False\<rparr> sample_poller) =
      Inr (eventsCursor (store_events sample_poll_config no_faults
        \<lparr>er_events = [], er_latestLedger = 20, er_truncated = False\<rparr> sample_poller)) \<and>
    start_cursor sample_poll_config no_faults (sample_node [] 20)
      ((store_events sample_poll_config no_faults
        \<lparr>er_events = [], er_latestLedger = 20, er_truncated = False\<rparr> sample_poller)\<lparr>eventsCursor := 0\<rparr>) =
      Inr (eventsCursor (store_events sample_poll_config no_faults
        \<lparr>er_events = [], er_latestLedger = 20, er_truncated = False\<rparr> sample_poller) + 1)"
  by (rule restart_skips_a_ledger) (simp_all add: sample_poller_def)

end
