(* ===== verification/Contract_Storage.thy ===== *)
theory Contract_Storage
  imports Contract_Polling
begin

text \<open>
  Storage polling implements a life cycle per storage key: never seen, live with the value last
  returned by the node, or archived with the value it had. The life cycle is the specification; the
  rows of \<open>contract_storage_entries\<close> are its implementation.
\<close>

section \<open>The life cycle\<close>

datatype lifecycle = NeverSeen | Live "jsval option" int | InArchive "jsval option" int

text \<open>An entry returned for the key makes it live; a live key that is not returned is archived.\<close>

fun lifecycle_step :: "storage_entry option \<Rightarrow> bool \<Rightarrow> lifecycle \<Rightarrow> lifecycle" where
  "lifecycle_step (Some e) _ _ = Live (storage_value (se_value e)) (se_lastModifiedLedgerSeq e)"
| "lifecycle_step None False (Live v l) = InArchive v l"
| "lifecycle_step None _ s = s"

definition lifecycle_of :: "storage_row option \<Rightarrow> lifecycle" where
  "lifecycle_of row =
     (case row of
        None \<Rightarrow> NeverSeen
      | Some r \<Rightarrow> (case sr_state r of Active \<Rightarrow> Live (sr_value r) (sr_last_modified r)
                   | Archived \<Rightarrow> InArchive (sr_value r) (sr_last_modified r)))"

text \<open>The last of the returned entries with this contract and key.\<close>

definition returned :: "storage_entry list \<Rightarrow> string \<Rightarrow> string \<Rightarrow> storage_entry option" where
  "returned entries cid k = List.find (\<lambda>e. se_contractId e = cid \<and> se_key e = k) (rev entries)"

section \<open>The writes\<close>

lemma find_snoc:
  "List.find P (xs @ [x]) = (case List.find P xs of Some y \<Rightarrow> Some y | None \<Rightarrow> if P x then Some x else None)"
  by (induction xs) auto

lemma returned_Cons:
  "returned (e # es) cid k =
     (case returned es cid k of Some x \<Rightarrow> Some x
      | None \<Rightarrow> if se_contractId e = cid \<and> se_key e = k then Some e else None)"
  by (simp add: returned_def find_snoc)

lemma upsert_lookup:
  "upsert_storage_entry now n e db = Inr db' \<Longrightarrow>
     map_of (storage_entries db') (cid, k, m) =
       (if se_contractId e = cid \<and> se_key e = k \<and> m = n then Some (active_row now e)
        else map_of (storage_entries db) (cid, k, m)) \<and>
     storage_history db' = storage_history db"
  by (auto simp: upsert_storage_entry_def table_simps split: if_splits option.splits)

lemma upserts_lookup:
  assumes "run_statements None (map (upsert_storage_entry now n) es) db = Inr db'"
  shows "map_of (storage_entries db') (cid, k, m) =
      (if m = n then (case returned es cid k of Some e \<Rightarrow> Some (active_row now e)
                      | None \<Rightarrow> map_of (storage_entries db) (cid, k, m))
       else map_of (storage_entries db) (cid, k, m)) \<and>
    storage_history db' = storage_history db"
  using assms
proof (induction es arbitrary: db)
  case Nil
  then show ?case by (simp add: returned_def)
next
  case (Cons e es)
  then obtain db1 where db1: "upsert_storage_entry now n e db = Inr db1"
    "run_statements None (map (upsert_storage_entry now n) es) db1 = Inr db'"
    by (auto split: sum.splits)
  from Cons.IH [OF db1(2)] upsert_lookup [OF db1(1), of cid k m] show ?case
    by (auto simp: returned_Cons split: option.splits)
qed

lemma history_appends:
  assumes "run_statements None (map (record_storage_history n) es) db = Inr db'"
  shows "storage_entries db' = storage_entries db \<and> (\<exists>new. storage_history db' = storage_history db @ new)"
  using assms
proof (induction es arbitrary: db)
  case (Cons e es)
  then obtain db1 where db1: "record_storage_history n e db = Inr db1"
    "run_statements None (map (record_storage_history n) es) db1 = Inr db'"
    by (auto split: sum.splits)
  from db1(1) have "storage_entries db1 = storage_entries db" "\<exists>new. storage_history db1 = storage_history db @ new"
    by (auto simp: record_storage_history_def insert_do_nothing_def split: if_splits)
  with Cons.IH [OF db1(2)] show ?case by auto
qed simp

lemma archive_lookup:
  assumes "run_statements None (if ks = [] then [] else [archive_rows now n ks]) db = Inr db'"
  shows "map_of (storage_entries db') (cid, k, m) =
      map_option (\<lambda>r. if m = n \<and> k \<in> set ks \<and> sr_state r = Active
                      then r\<lparr>sr_state := Archived, sr_indexed_at := now\<rparr> else r)
        (map_of (storage_entries db) (cid, k, m))"
    and "storage_history db' = storage_history db"
  using assms by (auto simp: archive_rows_def lookup_update_where option.map_ident split: if_splits)

section \<open>A completed cycle\<close>

lemma poll_storage_steps:
  assumes "pollContractStorage cfg fl now (Some rpc) db = (Inr (), db')" "watched_keys cfg db \<noteq> []"
    and "getContractStorageEntries rpc (watched_keys cfg db) = Inr (entries, l)"
  obtains db1 db2 where
    "run_statements None (map (upsert_storage_entry now (pc_network cfg)) entries) db = Inr db1"
    "run_statements None (map (record_storage_history (pc_network cfg)) entries) db1 = Inr db2"
    "run_statements None (let ks = filter (\<lambda>k. k \<notin> set (map se_key entries)) (watched_keys cfg db) in
       if ks = [] then [] else [archive_rows now (pc_network cfg) ks]) db2 = Inr db'"
proof -
  let ?n = "pc_network cfg" and ?ks = "filter (\<lambda>k. k \<notin> set (map se_key entries)) (watched_keys cfg db)"
  obtain r1 db1 where up: "upsertContractStorageEntries (sf_upsert fl) now ?n entries db = (r1, db1)"
    by (cases "upsertContractStorageEntries (sf_upsert fl) now ?n entries db")
  obtain r2 db2 where hist: "recordContractStorageHistory (sf_history fl) ?n entries db1 = (r2, db2)"
    by (cases "recordContractStorageHistory (sf_history fl) ?n entries db1")
  obtain r3 db3 where arch: "markContractStorageEntriesArchived (sf_archive fl) now ?n ?ks db2 = (r3, db3)"
    by (cases "markContractStorageEntriesArchived (sf_archive fl) now ?n ?ks db2")
  have "r1 = Inr ()" "r2 = Inr ()" "r3 = Inr ()" "db3 = db'"
    using assms up hist arch by (auto simp: pollContractStorage_def Let_def split: if_splits sum.splits)
  with up hist arch show ?thesis
    by (intro that [of db1 db2])
      (auto simp: upsertContractStorageEntries_def recordContractStorageHistory_def
        markContractStorageEntriesArchived_def Let_def dest!: autocommit_Inr)
qed

lemma tracked_watched:
  "map_of (storage_entries db) (cid, k, pc_network cfg) = Some r \<Longrightarrow> k \<in> set (watched_keys cfg db)"
  by (auto simp: watched_keys_def set_tracked in_keys_iff)

lemma returned_key: "returned entries cid k = Some e \<Longrightarrow> k \<in> set (map se_key entries)"
  by (auto simp: returned_def find_Some_iff rev_nth)


definition storage_node :: soroban_rpc where
  "storage_node =
     \<lparr>rpc_getEvents = (\<lambda>_ _ _ _. Inl ''unused''), rpc_getTransactions = (\<lambda>_. Inl ''unused''),
      rpc_getLedgerEntries = (\<lambda>ks. Inr \<lparr>np_entries = Some (map (\<lambda>k.
         \<lparr>le_key = k, le_xdr = ''x'', le_lastModifiedLedgerSeq = 9, le_liveUntilLedgerSeq = None\<rparr>)
         (filter (\<lambda>k. k = ''K2'') ks)), np_latestLedger = Some 9\<rparr>),
      rpc_getLatestLedger = Inr 9, rpc_getNetwork = Inr None, sdk_scval = (\<lambda>_. None),
      sdk_ledger_key = (\<lambda>_. Inr (''contractData'', ''CA'', ''persistent'')),
      sdk_entry_data = (\<lambda>_. Inr (Some (JBig 5)))\<rparr>"

definition storage_config :: poll_config where
  "storage_config = \<lparr>pc_network = ''testnet'', pc_staticContractIds = [], pc_storageKeys = [''K2''],
     pc_lag = 3, pc_maxEvents = 100\<rparr>"

definition storage_before :: "unit contract_db" where
  "storage_before = (empty_contract_db ())\<lparr>storage_entries :=
     [((''CA'', ''K1'', ''testnet''), \<lparr>sr_durability = ''persistent'', sr_state = Active, sr_value = Some (JInt 1),
        sr_value_xdr = ''x'', sr_live_until = None, sr_last_modified = 3, sr_indexed_at = 0\<rparr>)]\<rparr>"

definition storage_after :: "unit contract_db" where
  "storage_after = snd (pollContractStorage storage_config
     \<lparr>sf_read = False, sf_upsert = None, sf_history = None, sf_archive = None\<rparr> 7 (Some storage_node) storage_before)"

definition storage_returned :: "storage_entry list" where
  "storage_returned = [\<lparr>se_contractId = ''CA'', se_key = ''K2'', se_durability = ''persistent'', se_value = JBig 5,
     se_valueXdr = ''x'', se_liveUntilLedgerSeq = None, se_lastModifiedLedgerSeq = 9\<rparr>]"


end
