(* ===== verification/Live_Feed.thy ===== *)
theory Live_Feed
  imports Ledger_Store Js_Value "HOL-Library.Sublist"
begin

text \<open>
  \<open>graphql-server/src/pubsub.ts\<close> and \<open>notifications.ts\<close>: the supervised LISTEN connection and
  its fan-out to subscriptions. The asynchronous \<open>connect\<close> is cut at its \<open>await\<close>s, so that every other
  handler may run in between; a step relation interleaves them.
\<close>

section \<open>The wire format\<close>

record wire_notification =
  wn_kind :: indexed_kind
  wn_ledger :: int
  wn_network :: "string option"
  wn_transactions :: "int option"
  wn_operations :: "int option"
  wn_events :: "int option"
  wn_effects :: "int option"

definition INDEXED_CHANNEL :: string where "INDEXED_CHANNEL = ''lumina_indexed''"

definition numberOrUndefined :: "jsval \<Rightarrow> int option" where
  "numberOrUndefined v = (case v of JInt i \<Rightarrow> Some i | _ \<Rightarrow> None)"

definition stringOrUndefined :: "jsval \<Rightarrow> string option" where
  "stringOrUndefined v = (case v of JStr s \<Rightarrow> if trim s \<noteq> [] then Some s else None | _ \<Rightarrow> None)"

definition kind_text :: "indexed_kind \<Rightarrow> string" where
  "kind_text k = (case k of LedgerKind \<Rightarrow> ''ledger'' | EventsKind \<Rightarrow> ''events'')"

text \<open>
  The payload is given by the value its JSON text denotes, \<open>None\<close> when it is not JSON. Ledgers and
  counts are integers, as the indexer writes them. Reading a property of \<open>null\<close> throws, which the
  handler turns into \<open>null\<close> too; a primitive has none of the properties.
\<close>

definition parseNotification :: "jsval option \<Rightarrow> wire_notification option" where
  "parseNotification payload =
     (case payload of
        Some (JObj ps) \<Rightarrow>
          (let get = (\<lambda>k. case map_of ps k of Some v \<Rightarrow> v | None \<Rightarrow> JUndefined) in
           case (get ''ledger'', get ''kind'') of
             (JInt l, JStr k) \<Rightarrow>
               (if k = ''ledger'' \<or> k = ''events''
                then Some \<lparr>wn_kind = (if k = ''ledger'' then LedgerKind else EventsKind), wn_ledger = l,
                       wn_network = stringOrUndefined (get ''network''),
                       wn_transactions = numberOrUndefined (get ''transactions''),
                       wn_operations = numberOrUndefined (get ''operations''),
                       wn_events = numberOrUndefined (get ''events''),
                       wn_effects = numberOrUndefined (get ''effects'')\<rparr>
                else None)
           | _ \<Rightarrow> None)
      | _ \<Rightarrow> None)"

text \<open>\<open>serializeNotification\<close> of \<open>indexer/src/notify.ts\<close>: absent counts are left out.\<close>

definition notification_json :: "indexed_notification \<Rightarrow> jsval" where
  "notification_json n =
     (let count = (\<lambda>k v. case v of Some c \<Rightarrow> [(k, JInt (int c))] | None \<Rightarrow> []) in
      JObj ([(''kind'', JStr (kind_text (n_kind n))), (''network'', JStr (n_network n)), (''ledger'', JInt (n_ledger n))]
        @ count ''transactions'' (n_transactions n) @ count ''operations'' (n_operations n)
        @ count ''events'' (n_events n) @ count ''effects'' (n_effects n)))"

lemma notification_roundtrip:
  "trim (n_network n) \<noteq> [] \<Longrightarrow> parseNotification (Some (notification_json n)) =
     Some \<lparr>wn_kind = n_kind n, wn_ledger = n_ledger n, wn_network = Some (n_network n),
       wn_transactions = map_option int (n_transactions n), wn_operations = map_option int (n_operations n),
       wn_events = map_option int (n_events n), wn_effects = map_option int (n_effects n)\<rparr>"
  by (cases "n_kind n")
    (auto simp: notification_json_def parseNotification_def kind_text_def Let_def numberOrUndefined_def
      stringOrUndefined_def split: option.splits)

section \<open>Subscribers\<close>

text \<open>
  \<open>parked\<close>: the consumer waits in \<open>next()\<close>, that is \<open>resolve\<close> is set. \<open>received\<close> is what its promises
  have been resolved with; \<open>since\<close> is what was published while it was subscribed.
\<close>

record 'n subscriber =
  sq :: "'n list"
  parked :: bool
  sub_dropped :: nat
  received :: "'n list"
  since :: "'n list"

record notifier_options =
  maxSubscribers :: nat
  queueLimit :: nat
  reconnectDelayMs :: nat
  maxReconnectDelayMs :: nat

definition new_subscriber :: "'n subscriber" where
  "new_subscriber = \<lparr>sq = [], parked = False, sub_dropped = 0, received = [], since = []\<rparr>"

definition publish_to :: "nat \<Rightarrow> 'n \<Rightarrow> 'n subscriber \<Rightarrow> 'n subscriber" where
  "publish_to limit n s =
     (let s1 = s\<lparr>since := since s @ [n]\<rparr> in
      if parked s then s1\<lparr>parked := False, received := received s @ [n]\<rparr>
      else if limit < length (sq s @ [n]) then s1\<lparr>sq := tl (sq s @ [n]), sub_dropped := sub_dropped s + 1\<rparr>
      else s1\<lparr>sq := sq s @ [n]\<rparr>)"

text \<open>\<open>next()\<close> of an open subscription; a closed one is no longer in the table and answers \<open>done\<close>.\<close>

definition next_notification :: "'n subscriber \<Rightarrow> 'n subscriber" where
  "next_notification s =
     (case sq s of
        n # q \<Rightarrow> s\<lparr>sq := q, received := received s @ [n]\<rparr>
      | [] \<Rightarrow> s\<lparr>parked := True\<rparr>)"

section \<open>The notifier\<close>

text \<open>
  Where \<open>connect\<close> is suspended: waiting for the new client, closing it because of \<open>stop()\<close>, closing a
  predecessor, or closing it after a failure. The flag \<open>connecting\<close> is set in all four.
\<close>

datatype phase = Idle | Opening nat | Discarding nat | Replacing nat | Failing nat

text \<open>
  Clients are numbered by creation. \<open>open_clients\<close> are those whose \<open>end()\<close> was not called yet, \<open>ending\<close>
  those whose \<open>end\<close> event is still to come, \<open>timers\<close> the delays of the scheduled reconnects.
\<close>

record 'n notifier =
  client :: "nat option"
  phase :: phase
  stopped :: bool
  attempt :: nat
  next_client :: nat
  open_clients :: "nat set"
  ending :: "nat set"
  timers :: "nat list"
  subscribers :: "(nat, 'n subscriber) table"
  next_subscriber :: nat
  listeners :: "nat list"
  listener_calls :: "(nat \<times> 'n) list"

definition initial_notifier :: "'n notifier" where
  "initial_notifier = \<lparr>client = None, phase = Idle, stopped = False, attempt = 0, next_client = 0, open_clients = {},
     ending = {}, timers = [], subscribers = [], next_subscriber = 0, listeners = [], listener_calls = []\<rparr>"

text \<open>\<open>discard\<close>: \<open>client.end()\<close>, whose \<open>end\<close> event follows.\<close>

definition discard :: "nat \<Rightarrow> 'n notifier \<Rightarrow> 'n notifier" where
  "discard c s = s\<lparr>open_clients := open_clients s - {c},
     ending := (if c \<in> open_clients s then insert c (ending s) else ending s)\<rparr>"

definition scheduleReconnect :: "notifier_options \<Rightarrow> 'n notifier \<Rightarrow> 'n notifier" where
  "scheduleReconnect opt s =
     (if stopped s then s
      else s\<lparr>timers := timers s @ [min (reconnectDelayMs opt * 2 ^ attempt s) (maxReconnectDelayMs opt)],
             attempt := attempt s + 1\<rparr>)"

text \<open>\<open>connect\<close> up to its first \<open>await\<close>.\<close>

definition connect :: "'n notifier \<Rightarrow> 'n notifier" where
  "connect s =
     (if stopped s \<or> phase s \<noteq> Idle then s
      else s\<lparr>phase := Opening (next_client s), next_client := next_client s + 1,
             open_clients := insert (next_client s) (open_clients s)\<rparr>)"

definition start :: "'n notifier \<Rightarrow> 'n notifier" where
  "start s = connect (s\<lparr>stopped := False\<rparr>)"

text \<open>The rest of \<open>connect\<close> once \<open>LISTEN\<close> succeeded, up to the next \<open>await\<close> or the end.\<close>

definition adopt :: "nat \<Rightarrow> 'n notifier \<Rightarrow> 'n notifier" where
  "adopt c s = s\<lparr>client := Some c, attempt := 0, phase := Idle\<rparr>"

definition listening :: "nat \<Rightarrow> 'n notifier \<Rightarrow> 'n notifier" where
  "listening c s =
     (if stopped s then (discard c s)\<lparr>phase := Discarding c\<rparr>
      else (case client s of
              Some d \<Rightarrow> if d \<noteq> c then (discard d s)\<lparr>phase := Replacing c\<rparr> else adopt c s
            | None \<Rightarrow> adopt c s))"

definition connect_failed :: "nat \<Rightarrow> 'n notifier \<Rightarrow> 'n notifier" where
  "connect_failed c s = (discard c s)\<lparr>phase := Failing c\<rparr>"

text \<open>Resuming after the \<open>await\<close> on \<open>discard\<close>.\<close>

definition resume :: "notifier_options \<Rightarrow> 'n notifier \<Rightarrow> 'n notifier" where
  "resume opt s =
     (case phase s of
        Discarding c \<Rightarrow> s\<lparr>phase := Idle\<rparr>
      | Replacing c \<Rightarrow> adopt c s
      | Failing c \<Rightarrow> (scheduleReconnect opt (s\<lparr>client := None\<rparr>))\<lparr>phase := Idle\<rparr>
      | _ \<Rightarrow> s)"

definition handleDisconnect :: "notifier_options \<Rightarrow> nat \<Rightarrow> 'n notifier \<Rightarrow> 'n notifier" where
  "handleDisconnect opt c s =
     (if client s \<noteq> Some c then s
      else (let s1 = discard c (s\<lparr>client := None\<rparr>) in
            if stopped s1 then s1 else scheduleReconnect opt s1))"

definition publish :: "notifier_options \<Rightarrow> 'n \<Rightarrow> 'n notifier \<Rightarrow> 'n notifier" where
  "publish opt n s =
     s\<lparr>listener_calls := listener_calls s @ map (\<lambda>l. (l, n)) (listeners s),
       subscribers := map (\<lambda>(i, x). (i, publish_to (queueLimit opt) n x)) (subscribers s)\<rparr>"

text \<open>\<open>None\<close> is the \<open>SubscriberLimitError\<close>.\<close>

definition subscribe :: "notifier_options \<Rightarrow> 'n notifier \<Rightarrow> (nat \<times> 'n notifier) option" where
  "subscribe opt s =
     (if maxSubscribers opt \<le> length (subscribers s) then None
      else Some (next_subscriber s,
                 s\<lparr>subscribers := subscribers s @ [(next_subscriber s, new_subscriber)],
                   next_subscriber := next_subscriber s + 1\<rparr>))"

definition pull :: "nat \<Rightarrow> 'n notifier \<Rightarrow> 'n notifier" where
  "pull i s = s\<lparr>subscribers := update_where (\<lambda>k _. k = i) next_notification (subscribers s)\<rparr>"

definition unsubscribe :: "nat \<Rightarrow> 'n notifier \<Rightarrow> 'n notifier" where
  "unsubscribe i s = s\<lparr>subscribers := delete_where (\<lambda>k _. k = i) (subscribers s)\<rparr>"

definition onNotification :: "nat \<Rightarrow> 'n notifier \<Rightarrow> 'n notifier" where
  "onNotification l s = s\<lparr>listeners := (if l \<in> set (listeners s) then listeners s else listeners s @ [l])\<rparr>"

definition stop :: "'n notifier \<Rightarrow> 'n notifier" where
  "stop s =
     (let s1 = s\<lparr>stopped := True, subscribers := [], client := None\<rparr> in
      case client s of None \<Rightarrow> s1 | Some c \<Rightarrow> discard c s1)"

section \<open>Interleavings\<close>

text \<open>
  After \<open>start()\<close> every handler may run whenever the event loop is free: the promise of an opening
  client settles, a suspended \<open>connect\<close> resumes, a client reports \<open>error\<close> or its pending \<open>end\<close>, a
  timer fires, the server publishes, subscribes, reads or stops.
\<close>

inductive feed_step :: "notifier_options \<Rightarrow> 'n notifier \<Rightarrow> 'n notifier \<Rightarrow> bool" for opt where
  stops: "feed_step opt s (stop s)"
| listens: "phase s = Opening c \<Longrightarrow> feed_step opt s (listening c s)"
| fails: "phase s = Opening c \<Longrightarrow> feed_step opt s (connect_failed c s)"
| resumes: "feed_step opt s (resume opt s)"
| errors: "feed_step opt s (handleDisconnect opt c s)"
| ends: "c \<in> ending s \<Longrightarrow> feed_step opt s (handleDisconnect opt c (s\<lparr>ending := ending s - {c}\<rparr>))"
| fires: "timers s = ts @ d # us \<Longrightarrow> feed_step opt s (connect (s\<lparr>timers := ts @ us\<rparr>))"
| publishes: "feed_step opt s (publish opt n s)"
| subscribes: "subscribe opt s = Some (i, t) \<Longrightarrow> feed_step opt s t"
| pulls: "feed_step opt s (pull i s)"
| unsubscribes: "feed_step opt s (unsubscribe i s)"
| registers: "feed_step opt s (onNotification l s)"

lemmas handler_defs = stop_def listening_def connect_failed_def resume_def handleDisconnect_def connect_def
  discard_def adopt_def scheduleReconnect_def publish_def pull_def unsubscribe_def onNotification_def Let_def

section \<open>The connection\<close>

definition connection_ok :: "notifier_options \<Rightarrow> 'n notifier \<Rightarrow> bool" where
  "connection_ok opt s =
     ((case phase s of
         Idle \<Rightarrow> open_clients s = set_option (client s) \<and>
           (stopped s \<or> (client s = None \<longleftrightarrow> timers s \<noteq> [])) \<and> (client s \<noteq> None \<longrightarrow> timers s = [])
       | Opening c \<Rightarrow> client s = None \<and> open_clients s = {c} \<and> timers s = []
       | Discarding c \<Rightarrow> client s = None \<and> open_clients s = {} \<and> stopped s \<and> timers s = []
       | Replacing c \<Rightarrow> False
       | Failing c \<Rightarrow> client s = None \<and> open_clients s = {} \<and> timers s = [])
      \<and> (stopped s \<longrightarrow> client s = None) \<and> length (timers s) \<le> 1
      \<and> list_all (\<lambda>d. d \<le> maxReconnectDelayMs opt) (timers s))"

lemma step_connection:
  assumes "feed_step opt s t" "connection_ok opt s"
  shows "connection_ok opt t"
  using assms
proof (cases rule: feed_step.cases)
  case (subscribes i)
  with assms(2) show ?thesis by (auto simp: subscribe_def connection_ok_def split: if_splits phase.splits)
next
  case (fires ts d us)
  with assms(2) show ?thesis by (auto simp: connection_ok_def handler_defs split: phase.splits if_splits)
next
  case stops
  with assms(2) show ?thesis
    by (auto simp: connection_ok_def handler_defs split: phase.splits option.splits)
qed (use assms(2) in \<open>auto simp: connection_ok_def handler_defs split: phase.splits option.splits\<close>)

section \<open>The subscriptions\<close>

text \<open>
  The specification of a bounded live feed: what the consumer got is in order, what waits for it is
  the newest part of what was published, and exactly the counted ones in between are missing.
\<close>

definition subscriber_ok :: "nat \<Rightarrow> 'n subscriber \<Rightarrow> bool" where
  "subscriber_ok limit x \<longleftrightarrow> length (sq x) \<le> limit \<and> (parked x \<longrightarrow> sq x = []) \<and>
     (\<exists>old. since x = old @ sq x \<and> subseq (received x) old \<and> length old = length (received x) + sub_dropped x)"

lemma new_subscriber_ok [simp]: "subscriber_ok limit new_subscriber"
  by (simp add: subscriber_ok_def new_subscriber_def)

lemma subseq_snoc: "subseq xs ys \<Longrightarrow> subseq (xs @ [z]) (ys @ [z])"
  by (simp add: list_emb_append_mono)

lemma publish_to_ok:
  assumes "subscriber_ok limit x"
  shows "subscriber_ok limit (publish_to limit n x)"
proof -
  obtain old where old: "since x = old @ sq x" "subseq (received x) old"
    "length old = length (received x) + sub_dropped x"
    using assms by (auto simp: subscriber_ok_def)
  consider "parked x" | "\<not> parked x" "length (sq x) < limit" | "\<not> parked x" "limit \<le> length (sq x)" by linarith
  then show ?thesis
  proof cases
    case 1
    with assms old show ?thesis
      by (auto simp: subscriber_ok_def publish_to_def intro!: exI [of _ "old @ [n]"] subseq_snoc)
  next
    case 2
    with assms old show ?thesis
      by (auto simp: subscriber_ok_def publish_to_def intro!: exI [of _ old])
  next
    case 3
    obtain y q where yq: "sq x @ [n] = y # q" by (cases "sq x @ [n]") auto
    have "since x @ [n] = (old @ [y]) @ q" using old(1) yq by simp
    moreover have "length q = length (sq x)" using yq by (metis length_append_singleton length_Cons nat.inject)
    moreover have "subseq (received x) (old @ [y])"
      using list_emb_append_mono [OF old(2), of "[]" "[y]"] by simp
    ultimately show ?thesis using 3 assms old(3) yq
      by (auto simp: subscriber_ok_def publish_to_def Let_def intro!: exI [of _ "old @ [y]"])
  qed
qed

lemma next_ok: "subscriber_ok limit x \<Longrightarrow> subscriber_ok limit (next_notification x)"
  unfolding subscriber_ok_def next_notification_def
  by (auto split: list.splits intro!: exI [of _ "_ @ [_]"] subseq_snoc)

definition subscriptions_ok :: "notifier_options \<Rightarrow> 'n notifier \<Rightarrow> bool" where
  "subscriptions_ok opt s =
     (length (subscribers s) \<le> maxSubscribers opt \<and> list_all (subscriber_ok (queueLimit opt)) (map snd (subscribers s)))"

lemma step_subscriptions:
  assumes "feed_step opt s t" "subscriptions_ok opt s"
  shows "subscriptions_ok opt t"
  using assms
proof (cases rule: feed_step.cases)
  case (subscribes i)
  with assms(2) show ?thesis by (auto simp: subscribe_def subscriptions_ok_def split: if_splits)
next
  case (publishes n)
  with assms(2) show ?thesis
    by (fastforce simp: subscriptions_ok_def publish_def list_all_iff intro!: publish_to_ok)
next
  case (pulls i)
  with assms(2) show ?thesis
    by (fastforce simp: subscriptions_ok_def pull_def update_where_def list_all_iff intro: next_ok)
next
  case (unsubscribes i)
  with assms(2) show ?thesis
    by (auto simp: subscriptions_ok_def unsubscribe_def delete_where_def list_all_iff intro: order_trans [OF length_filter_le])
next
  case stops
  then show ?thesis by (auto simp: subscriptions_ok_def stop_def discard_def Let_def split: option.splits)
qed (use assms(2) in \<open>auto simp: subscriptions_ok_def handler_defs split: phase.splits option.splits if_splits\<close>)

interpretation feed: invariant_system "\<lambda>s. s = start initial_notifier" "feed_step opt"
  "\<lambda>s. connection_ok opt s \<and> subscriptions_ok opt s" for opt
proof
  show "connection_ok opt s \<and> subscriptions_ok opt s" if "s = start initial_notifier" for s :: "'a notifier"
    using that by (simp add: start_def connect_def initial_notifier_def connection_ok_def subscriptions_ok_def)
  show "connection_ok opt t \<and> subscriptions_ok opt t"
    if "connection_ok opt s \<and> subscriptions_ok opt s" "feed_step opt s t" for s t :: "'a notifier"
    using that step_connection step_subscriptions by blast
qed

text \<open>
  C36: after \<open>start()\<close>, under every interleaving of connection events, timers and calls, the notifier
  never has more than one open connection, never more than one reconnect pending, and unless it was
  stopped it is connected, connecting or has a reconnect scheduled, within the configured delay: it
  never goes quiet unnoticed.
\<close>

theorem feed_never_leaks_nor_stalls:
  assumes "(feed_step opt)\<^sup>*\<^sup>* (start initial_notifier) s"
  shows "(\<exists>c. open_clients s \<subseteq> {c}) \<and> length (timers s) \<le> 1 \<and>
    (stopped s \<or> client s \<noteq> None \<or> phase s \<noteq> Idle \<or> timers s \<noteq> []) \<and>
    list_all (\<lambda>d. d \<le> maxReconnectDelayMs opt) (timers s)"
proof -
  have "connection_ok opt s" using feed.inv_reachable [OF refl assms] by blast
  then show ?thesis
    by (cases "phase s"; cases "client s") (auto simp: connection_ok_def)
qed

text \<open>
  C37: every subscription sees a bounded live feed: at most \<open>queueLimit\<close> notifications wait, they are
  the newest published ones, what was received before them arrived in order, and \<open>dropped\<close> counts
  exactly the ones left out. There are never more than \<open>maxSubscribers\<close> subscriptions.
\<close>

theorem subscriptions_are_bounded_feeds:
  assumes "(feed_step opt)\<^sup>*\<^sup>* (start initial_notifier) s" "(i, x) \<in> set (subscribers s)"
  shows "length (subscribers s) \<le> maxSubscribers opt \<and> length (sq x) \<le> queueLimit opt \<and>
    sq x = drop (length (since x) - length (sq x)) (since x) \<and>
    subseq (received x @ sq x) (since x) \<and>
    length (since x) = length (received x) + sub_dropped x + length (sq x)"
proof -
  have ok: "subscriptions_ok opt s" using feed.inv_reachable [OF refl assms(1)] by blast
  then have "subscriber_ok (queueLimit opt) x"
    using assms(2) by (auto simp: subscriptions_ok_def list_all_iff)
  then show ?thesis using ok
    by (auto simp: subscriber_ok_def subscriptions_ok_def list_emb_append_mono)
qed

theorem feed_never_leaks_nor_stalls_witness:
  "(\<exists>c. open_clients (listening 0 (start initial_notifier) :: nat notifier) \<subseteq> {c}) \<and>
    length (timers (listening 0 (start initial_notifier) :: nat notifier)) \<le> 1 \<and>
    (stopped (listening 0 (start initial_notifier) :: nat notifier) \<or>
     client (listening 0 (start initial_notifier) :: nat notifier) \<noteq> None \<or>
     phase (listening 0 (start initial_notifier) :: nat notifier) \<noteq> Idle \<or>
     timers (listening 0 (start initial_notifier) :: nat notifier) \<noteq> []) \<and>
    list_all (\<lambda>d. d \<le> maxReconnectDelayMs
      \<lparr>maxSubscribers = 500, queueLimit = 64, reconnectDelayMs = 1000, maxReconnectDelayMs = 30000\<rparr>)
      (timers (listening 0 (start initial_notifier) :: nat notifier))"
  by (rule feed_never_leaks_nor_stalls, rule r_into_rtranclp, rule listens)
    (simp add: start_def connect_def initial_notifier_def)

definition small_options :: notifier_options where
  "small_options = \<lparr>maxSubscribers = 500, queueLimit = 2, reconnectDelayMs = 1000, maxReconnectDelayMs = 30000\<rparr>"

definition one_subscriber :: "nat notifier" where
  "one_subscriber = (start initial_notifier)\<lparr>subscribers := [(0, new_subscriber)], next_subscriber := 1\<rparr>"

definition after_three :: "nat notifier" where
  "after_three = publish small_options 3 (publish small_options 2 (publish small_options 1 one_subscriber))"

definition stalled_reader :: "nat subscriber" where
  "stalled_reader = \<lparr>sq = [2, 3], parked = False, sub_dropped = 1, received = [], since = [1, 2, 3]\<rparr>"

theorem subscriptions_are_bounded_feeds_witness:
  "length (subscribers after_three) \<le> maxSubscribers small_options \<and>
    length (sq stalled_reader) \<le> queueLimit small_options \<and>
    sq stalled_reader = drop (length (since stalled_reader) - length (sq stalled_reader)) (since stalled_reader) \<and>
    subseq (received stalled_reader @ sq stalled_reader) (since stalled_reader) \<and>
    length (since stalled_reader) =
      length (received stalled_reader) + sub_dropped stalled_reader + length (sq stalled_reader)"
proof (rule subscriptions_are_bounded_feeds [where i = 0])
  have "feed_step small_options (start initial_notifier) one_subscriber"
    by (rule subscribes [where i = 0])
      (simp add: subscribe_def one_subscriber_def start_def connect_def initial_notifier_def small_options_def)
  then show "(feed_step small_options)\<^sup>*\<^sup>* (start initial_notifier) after_three"
    unfolding after_three_def by (meson publishes r_into_rtranclp rtranclp.rtrancl_into_rtrancl)
  show "(0, stalled_reader) \<in> set (subscribers after_three)"
    by (simp add: after_three_def publish_def one_subscriber_def small_options_def publish_to_def
        new_subscriber_def stalled_reader_def)
qed

section \<open>Restarting with a reconnect pending\<close>

definition reconnect_now :: "'n notifier \<Rightarrow> 'n notifier" where
  "reconnect_now s = connect (s\<lparr>timers := tl (timers s)\<rparr>)"

text \<open>
  The connection dies, the notifier is stopped and started again while the reconnect is pending, and
  comes up as client 1; then the old timer fires and its client 2 fails to open.
\<close>

definition restarted :: "notifier_options \<Rightarrow> nat notifier" where
  "restarted opt =
     listening 1 (start (stop (handleDisconnect opt 0 (listening 0 (start initial_notifier)))))"

definition stale_timer :: "notifier_options \<Rightarrow> nat notifier" where
  "stale_timer opt = resume opt (connect_failed 2 (reconnect_now (restarted opt)))"

text \<open>
  The protection holds for one \<open>start()\<close>. After \<open>stop()\<close> and \<open>start()\<close> with a reconnect still
  scheduled, the stale timer opens a second connection, and when that one fails the first is forgotten
  but not closed: it stays open, its own loss is no longer noticed, and another connection is scheduled
  beside it.
\<close>

theorem restart_leaks_a_connection:
  "client (restarted opt) = Some 1 \<and> open_clients (restarted opt) = {1} \<and>
   open_clients (stale_timer opt) = {1} \<and> client (stale_timer opt) = None \<and> phase (stale_timer opt) = Idle \<and>
   handleDisconnect opt 1 (stale_timer opt) = stale_timer opt \<and> length (timers (stale_timer opt)) = 1"
  by (simp add: restarted_def stale_timer_def reconnect_now_def handler_defs start_def initial_notifier_def)

end
