(* ===== verification/Leader_Lock.thy ===== *)
theory Leader_Lock
  imports Lumina_Prelude
begin

text \<open>
  \<open>indexer/src/leaderLock.ts\<close>: the single-writer guard. Several processes share one database; the
  advisory lock belongs to a session and goes with it. A process learns of a lost session by an event
  that may come late. Sessions are numbered by creation.
\<close>

section \<open>State\<close>

record leader =
  connection :: "nat option"
  held :: bool
  told_lost :: bool

text \<open>
  The database side: live sessions, the owner of the lock and the number of the next session;
  \<open>handler_of\<close> is the process whose handlers were attached to a session.
\<close>

record cluster =
  procs :: "nat \<Rightarrow> leader"
  alive :: "nat set"
  owner :: "nat option"
  next_session :: nat
  handler_of :: "nat \<Rightarrow> nat option"

definition initial_leader :: leader where
  "initial_leader = \<lparr>connection = None, held = False, told_lost = False\<rparr>"

definition initial_cluster :: cluster where
  "initial_cluster = \<lparr>procs = (\<lambda>_. initial_leader), alive = {}, owner = None, next_session = 0, handler_of = (\<lambda>_. None)\<rparr>"

definition set_proc :: "nat \<Rightarrow> leader \<Rightarrow> cluster \<Rightarrow> cluster" where
  "set_proc p l s = s\<lparr>procs := (procs s)(p := l)\<rparr>"

section \<open>Operations\<close>

text \<open>The server ends a session: its lock is released with it.\<close>

definition end_session :: "nat \<Rightarrow> cluster \<Rightarrow> cluster" where
  "end_session c s = s\<lparr>alive := alive s - {c}, owner := (if owner s = Some c then None else owner s)\<rparr>"

text \<open>
  \<open>tryOnce\<close> on a fresh session: \<open>pg_try_advisory_lock\<close> succeeds when no session owns the lock; a
  session that does not get it is closed. \<open>ok\<close> is false when connecting or asking fails.
\<close>

definition tryOnce :: "bool \<Rightarrow> nat \<Rightarrow> cluster \<Rightarrow> bool \<times> cluster" where
  "tryOnce ok p s =
     (let c = next_session s;
          s1 = s\<lparr>next_session := c + 1, alive := insert c (alive s), handler_of := (handler_of s)(c := Some p)\<rparr> in
      if ok \<and> owner s1 = None
      then (True, set_proc p ((procs s p)\<lparr>connection := Some c, held := True\<rparr>) (s1\<lparr>owner := Some c\<rparr>))
      else (False, end_session c s1))"

text \<open>\<open>lost\<close>, the handler of a session's \<open>error\<close> and \<open>end\<close>; \<open>told_lost\<close> records the call of \<open>onLost\<close>.\<close>

definition lost :: "leader \<Rightarrow> leader" where
  "lost l = (if held l then l\<lparr>held := False, connection := None, told_lost := True\<rparr> else l)"

text \<open>
  \<open>release\<close>: the process forgets the connection and then asks for the unlock and closes it; until the
  server ends the session the lock stays taken.
\<close>

definition release :: "nat \<Rightarrow> cluster \<Rightarrow> cluster" where
  "release p s =
     (case connection (procs s p) of
        None \<Rightarrow> s
      | Some c \<Rightarrow> set_proc p ((procs s p)\<lparr>connection := None, held := False\<rparr>) s)"

text \<open>
  \<open>acquire\<close>: attempts until one succeeds or a stop is requested; \<open>stop\<close> and \<open>attempt\<close> give what the
  checks and the attempts answer.
\<close>

partial_function (option) acquire :: "(nat \<Rightarrow> bool) \<Rightarrow> (nat \<Rightarrow> bool) \<Rightarrow> nat \<Rightarrow> bool option" where
  "acquire stopRequested attempts k =
     (if stopRequested k then Some False
      else if attempts k then Some True
      else acquire stopRequested attempts (k + 1))"

text \<open>
  Processes try and release in any order; the server ends a session at any time, because it was
  closed, because the process died or because the network failed; the handlers attached to an ended
  session run at any later time, also more than once (\<open>error\<close> and \<open>end\<close>) and also after the process
  has moved on to another session.
\<close>

inductive lock_step :: "cluster \<Rightarrow> cluster \<Rightarrow> bool" where
  tries: "connection (procs s p) = None \<Longrightarrow> lock_step s (snd (tryOnce ok p s))"
| releases: "lock_step s (release p s)"
| dies: "c \<in> alive s \<Longrightarrow> lock_step s (end_session c s)"
| told: "c < next_session s \<Longrightarrow> c \<notin> alive s \<Longrightarrow> handler_of s c = Some p \<Longrightarrow>
    lock_step s (set_proc p (lost (procs s p)) s)"

section \<open>One writer\<close>

definition leader_ok :: "cluster \<Rightarrow> nat \<Rightarrow> leader \<Rightarrow> bool" where
  "leader_ok s p l =
     (case connection l of
        None \<Rightarrow> \<not> held l
      | Some c \<Rightarrow> held l \<and> c < next_session s \<and> handler_of s c = Some p \<and> (c \<in> alive s \<longrightarrow> owner s = Some c))"

definition sessions_ok :: "cluster \<Rightarrow> bool" where
  "sessions_ok s \<longleftrightarrow> set_option (owner s) \<subseteq> alive s \<and> (\<forall>c \<in> alive s. c < next_session s)"

definition lock_ok :: "cluster \<Rightarrow> bool" where
  "lock_ok s \<longleftrightarrow> sessions_ok s \<and> (\<forall>p. leader_ok s p (procs s p))"

lemma leader_ok_end: "leader_ok s p l \<Longrightarrow> leader_ok (end_session c s) p l"
  by (auto simp: leader_ok_def end_session_def split: option.splits)

lemma leader_ok_set_proc [simp]: "leader_ok (set_proc q l' s) p l = leader_ok s p l"
  by (cases "connection l") (simp_all add: leader_ok_def set_proc_def)

lemma lock_ok_end: "lock_ok s \<Longrightarrow> lock_ok (end_session c s)"
  using leader_ok_end [of s] by (auto simp: lock_ok_def sessions_ok_def end_session_def split: if_splits)

lemma lock_ok_set_proc: "lock_ok s \<Longrightarrow> leader_ok s p l \<Longrightarrow> lock_ok (set_proc p l s)"
  by (auto simp: lock_ok_def) (auto simp: set_proc_def sessions_ok_def)

text \<open>A fresh session, which no process uses yet.\<close>

definition open_session :: "nat \<Rightarrow> nat option \<Rightarrow> cluster \<Rightarrow> cluster" where
  "open_session p owner' s = s\<lparr>next_session := next_session s + 1, alive := insert (next_session s) (alive s),
     handler_of := (handler_of s)(next_session s := Some p), owner := owner'\<rparr>"

lemma open_session_ok:
  assumes "lock_ok s" "owner' = owner s \<or> owner s = None \<and> owner' = Some (next_session s)"
  shows "lock_ok (open_session p owner' s)"
proof -
  have "leader_ok (open_session p owner' s) q (procs s q)" for q
  proof -
    have "leader_ok s q (procs s q)" "sessions_ok s" using assms(1) by (auto simp: lock_ok_def)
    with assms(2) show ?thesis
      by (cases "connection (procs s q)") (auto simp: sessions_ok_def leader_ok_def open_session_def)
  qed
  moreover have "sessions_ok (open_session p owner' s)"
    using assms by (auto simp: lock_ok_def sessions_ok_def open_session_def)
  ultimately show ?thesis by (simp add: lock_ok_def open_session_def)
qed

lemma tryOnce_cases:
  "snd (tryOnce ok p s) =
     (if ok \<and> owner s = None
      then set_proc p ((procs s p)\<lparr>connection := Some (next_session s), held := True\<rparr>)
             (open_session p (Some (next_session s)) s)
      else end_session (next_session s) (open_session p (owner s) s))"
  by (simp add: tryOnce_def open_session_def Let_def set_proc_def)

lemma lock_step_ok:
  assumes "lock_step s t" "lock_ok s"
  shows "lock_ok t"
  using assms(1)
proof (cases rule: lock_step.cases)
  case (tries p ok)
  have "leader_ok (open_session p (Some (next_session s)) s) p
      ((procs s p)\<lparr>connection := Some (next_session s), held := True\<rparr>)"
    by (simp add: leader_ok_def open_session_def)
  then show ?thesis using assms(2) unfolding tries(1) tryOnce_cases
    by (auto intro!: lock_ok_set_proc lock_ok_end open_session_ok)
next
  case (releases p)
  with assms(2) show ?thesis
    by (auto simp: release_def leader_ok_def intro!: lock_ok_set_proc split: option.splits)
next
  case (dies c)
  with assms(2) show ?thesis by (simp add: lock_ok_end)
next
  case (told c p)
  have "leader_ok s p (lost (procs s p))"
    using assms(2) by (auto simp: lock_ok_def lost_def leader_ok_def)
  with told(1) assms(2) show ?thesis by (simp add: lock_ok_set_proc)
qed

interpretation lock: invariant_system "\<lambda>s. s = initial_cluster" lock_step lock_ok
proof
  show "lock_ok s" if "s = initial_cluster" for s
    using that by (simp add: lock_ok_def sessions_ok_def leader_ok_def initial_cluster_def initial_leader_def)
qed (rule lock_step_ok)

text \<open>
  C38: however attempts, releases, lost sessions and late loss events interleave, two processes that
  both believe they lead are one process, or one of them is on a session the server has already ended,
  with its loss handler attached: with a live session only the owner of the lock leads.
\<close>

theorem at_most_one_live_leader:
  assumes "lock_step\<^sup>*\<^sup>* initial_cluster s" "held (procs s p)" "held (procs s q)"
  shows "p = q \<or>
    (\<exists>c. connection (procs s p) = Some c \<and> c \<notin> alive s \<and> owner s \<noteq> Some c \<and> handler_of s c = Some p) \<or>
    (\<exists>d. connection (procs s q) = Some d \<and> d \<notin> alive s \<and> owner s \<noteq> Some d \<and> handler_of s d = Some q)"
proof -
  have ok: "lock_ok s" by (rule lock.inv_reachable [OF refl assms(1)])
  then have lead: "leader_ok s p (procs s p)" "leader_ok s q (procs s q)" and sess: "sessions_ok s"
    by (auto simp: lock_ok_def)
  obtain c where c: "connection (procs s p) = Some c" "handler_of s c = Some p" "c \<in> alive s \<longrightarrow> owner s = Some c"
    using lead(1) assms(2) by (auto simp: leader_ok_def split: option.splits)
  obtain d where d: "connection (procs s q) = Some d" "handler_of s d = Some q" "d \<in> alive s \<longrightarrow> owner s = Some d"
    using lead(2) assms(3) by (auto simp: leader_ok_def split: option.splits)
  have "owner s \<noteq> Some x" if "x \<notin> alive s" for x using sess that by (auto simp: sessions_ok_def)
  then show ?thesis using c d by (cases "c \<in> alive s"; cases "d \<in> alive s") auto
qed

text \<open>A standby takes over with the first attempt that finds the lock free, unless it is stopped before.\<close>

lemma acquire_returns:
  assumes "attempts (k + n) \<or> stopRequested (k + n)" "\<forall>j < n. \<not> attempts (k + j) \<and> \<not> stopRequested (k + j)"
  shows "acquire stopRequested attempts k = Some (\<not> stopRequested (k + n))"
  using assms
proof (induction n arbitrary: k)
  case 0
  then show ?case by (subst acquire.simps) auto
next
  case (Suc n)
  have "acquire stopRequested attempts (k + 1) = Some (\<not> stopRequested (k + 1 + n))"
    using Suc.prems by (intro Suc.IH) auto
  moreover have "\<not> attempts k \<and> \<not> stopRequested k" using Suc.prems(2) by (metis add_0_right zero_less_Suc)
  ultimately show ?case by (subst acquire.simps) simp
qed

text \<open>The first leader's session dies unnoticed and the second takes over.\<close>

definition takeover :: cluster where
  "takeover = snd (tryOnce True 1 (end_session 0 (snd (tryOnce True 0 initial_cluster))))"

theorem at_most_one_live_leader_witness:
  "0 = (1 :: nat) \<or>
    (\<exists>c. connection (procs takeover 0) = Some c \<and> c \<notin> alive takeover \<and> owner takeover \<noteq> Some c \<and>
      handler_of takeover c = Some 0) \<or>
    (\<exists>d. connection (procs takeover 1) = Some d \<and> d \<notin> alive takeover \<and> owner takeover \<noteq> Some d \<and>
      handler_of takeover d = Some 1)"
proof (rule at_most_one_live_leader)
  let ?s1 = "snd (tryOnce True 0 initial_cluster)"
  have "lock_step initial_cluster ?s1"
    by (rule tries) (simp add: initial_cluster_def initial_leader_def)
  moreover have "lock_step ?s1 (end_session 0 ?s1)"
    by (rule dies) (simp add: tryOnce_def initial_cluster_def set_proc_def)
  moreover have "lock_step (end_session 0 ?s1) takeover"
    unfolding takeover_def
    by (rule tries) (simp add: tryOnce_def initial_cluster_def initial_leader_def set_proc_def end_session_def)
  ultimately show "lock_step\<^sup>*\<^sup>* initial_cluster takeover" by (meson r_into_rtranclp rtranclp.rtrancl_into_rtrancl)
  show "held (procs takeover 0)" "held (procs takeover 1)"
    by (simp_all add: takeover_def tryOnce_def initial_cluster_def set_proc_def end_session_def)
qed

end
