(* ===== verification/Horizon_Client.thy ===== *)
theory Horizon_Client
  imports Js_Value Lumina_Prelude
begin

text \<open>
  \<open>shared/src/horizon.ts\<close> and \<open>shared/src/validate.ts\<close>: the one Horizon client, with its failover over
  several endpoints, its retries, its three failure modes and the validation of what comes back. The
  network is an argument that answers each request by its number and URL; pacing, timers and metrics are
  left out, pauses are recorded. The theorems say what an answer of the client means: which answers of
  Horizon it rests on, that one healthy endpoint is enough, and how many requests it can cost.
\<close>

section \<open>Validation\<close>

datatype shape_kind = KString | KNumber | KBoolean | KObject | KArray

text \<open>A rule is a kind and whether the field may be absent.\<close>

type_synonym record_spec = "(string \<times> shape_kind \<times> bool) list"

datatype shape_problem = MissingField string | WrongKind string

fun matches :: "shape_kind \<Rightarrow> jsval \<Rightarrow> bool" where
  "matches KArray v = (case v of JArr _ \<Rightarrow> True | _ \<Rightarrow> False)"
| "matches KObject v = (case v of JObj _ \<Rightarrow> True | JBytes _ \<Rightarrow> True | _ \<Rightarrow> False)"
| "matches KNumber v = (case v of JInt _ \<Rightarrow> True | JNum _ fin _ \<Rightarrow> fin | _ \<Rightarrow> False)"
| "matches KString v = (case v of JStr _ \<Rightarrow> True | _ \<Rightarrow> False)"
| "matches KBoolean v = (case v of JBool _ \<Rightarrow> True | _ \<Rightarrow> False)"

definition check_field :: "jsval \<Rightarrow> string \<Rightarrow> string \<times> shape_kind \<times> bool \<Rightarrow> shape_problem + unit" where
  "check_field record path = (\<lambda>(field, kind, opt).
     let v = get_member record field; p = path @ ''.'' @ field in
     if v = JUndefined \<or> v = JNull then (if opt then Inr () else Inl (MissingField p))
     else if matches kind v then Inr () else Inl (WrongKind p))"

definition checkRecord :: "jsval \<Rightarrow> record_spec \<Rightarrow> string \<Rightarrow> shape_problem + unit" where
  "checkRecord value spec path =
     (if \<not> matches KObject value then Inl (WrongKind path)
      else and_then (traverse (check_field value path) spec) (\<lambda>_. Inr ()))"

fun check_records :: "record_spec \<Rightarrow> nat \<Rightarrow> jsval list \<Rightarrow> shape_problem + unit" where
  "check_records spec i [] = Inr ()"
| "check_records spec i (v # vs) =
     and_then (checkRecord v spec (''records['' @ nat_to_string i @ '']'')) (\<lambda>_. check_records spec (i + 1) vs)"

definition page_records :: "jsval \<Rightarrow> jsval list option" where
  "page_records page =
     (case get_member (get_member page ''_embedded'') ''records'' of JArr vs \<Rightarrow> Some vs | _ \<Rightarrow> None)"

definition checkPage :: "jsval \<Rightarrow> record_spec \<Rightarrow> shape_problem + unit" where
  "checkPage value spec =
     and_then (checkRecord value [(''_embedded'', KObject, False)] ''response'') (\<lambda>_.
     case page_records value of
       None \<Rightarrow> Inl (WrongKind ''response._embedded.records'')
     | Some vs \<Rightarrow> check_records spec 0 vs)"

definition LEDGER_SPEC :: record_spec where
  "LEDGER_SPEC = [(''sequence'', KNumber, False), (''closed_at'', KString, False),
     (''successful_transaction_count'', KNumber, False), (''failed_transaction_count'', KNumber, False),
     (''operation_count'', KNumber, False), (''base_fee_in_stroops'', KNumber, False),
     (''base_reserve_in_stroops'', KNumber, False)]"

definition TRANSACTION_SPEC :: record_spec where
  "TRANSACTION_SPEC = [(''hash'', KString, False), (''ledger'', KNumber, False), (''created_at'', KString, False),
     (''source_account'', KString, False), (''fee_charged'', KString, False), (''operation_count'', KNumber, False),
     (''successful'', KBoolean, False), (''memo_type'', KString, False), (''memo'', KString, True),
     (''source_account_sequence'', KString, True)]"

definition OPERATION_SPEC :: record_spec where
  "OPERATION_SPEC = [(''id'', KString, False), (''type'', KString, False), (''transaction_hash'', KString, False),
     (''created_at'', KString, False), (''source_account'', KString, False)]"

definition ACCOUNT_SPEC :: record_spec where
  "ACCOUNT_SPEC = [(''account_id'', KString, False), (''sequence'', KString, False), (''subentry_count'', KNumber, False),
     (''last_modified_ledger'', KNumber, False), (''num_sponsored'', KNumber, False), (''num_sponsoring'', KNumber, False),
     (''balances'', KArray, False), (''flags'', KObject, False), (''thresholds'', KObject, False)]"

definition TRADE_SPEC :: record_spec where
  "TRADE_SPEC = [(''id'', KString, False), (''paging_token'', KString, False), (''ledger_close_time'', KString, False),
     (''base_account'', KString, False), (''base_amount'', KString, False), (''base_asset_type'', KString, False),
     (''counter_amount'', KString, False), (''counter_asset_type'', KString, False)]"

definition EFFECT_SPEC :: record_spec where
  "EFFECT_SPEC = [(''id'', KString, False), (''paging_token'', KString, False), (''operation_id'', KString, False),
     (''type'', KString, False), (''type_i'', KNumber, False), (''created_at'', KString, False),
     (''account'', KString, False), (''details'', KObject, False)]"

section \<open>Requests\<close>

text \<open>
  An answer: the status, the whole seconds of a \<open>Retry-After\<close> that reads as a number, and the decoded
  body (\<open>Inl\<close> when it is not JSON). \<open>NoConnection\<close> covers the aborted request as well.
\<close>

datatype answer = NoConnection | Answer nat "nat option" "string + jsval"

datatype request_mode = ThrowMode | NullMode | NullOn404

datatype horizon_error =
    NoEndpoint | HorizonUnavailable "string list" | RequestFailed nat | HorizonResponseError shape_problem
  | NotJson string | NotAPage

datatype HorizonEndpoint = CommaSeparated string | EndpointList "string list"

record horizon_env =
  hz_fetch :: "nat \<Rightarrow> string \<Rightarrow> answer"
  hz_clock :: "nat \<Rightarrow> int"
  hz_baseUrl :: "HorizonEndpoint option"
  hz_maxRetries :: nat
  hz_baseBackoffMs :: nat
  hz_validate :: bool

record horizon_state =
  hz_requests :: nat
  demotedUntil :: "string \<Rightarrow> int option"
  pauses :: "nat list"

definition demotionMs :: int where "demotionMs = 30000"

definition max_retries :: "horizon_env \<Rightarrow> nat" where
  "max_retries env = max 1 (hz_maxRetries env)"

definition backoffMs :: "horizon_env \<Rightarrow> nat \<Rightarrow> nat" where
  "backoffMs env attempt = hz_baseBackoffMs env * 2 ^ (attempt - 1)"

definition configured :: "horizon_env \<Rightarrow> HorizonEndpoint option \<Rightarrow> string list" where
  "configured env baseUrl =
     (let values = (case (case baseUrl of Some b \<Rightarrow> Some b | None \<Rightarrow> hz_baseUrl env) of
                      None \<Rightarrow> [] | Some (CommaSeparated t) \<Rightarrow> split_on (CHR '','') t | Some (EndpointList vs) \<Rightarrow> vs)
      in filter (\<lambda>v. v \<noteq> []) (map trim values))"

fun index_of :: "'a list \<Rightarrow> 'a \<Rightarrow> nat" where
  "index_of [] x = 0"
| "index_of (y # ys) x = (if x = y then 0 else index_of ys x + 1)"

definition is_demoted :: "horizon_env \<Rightarrow> horizon_state \<Rightarrow> string \<Rightarrow> bool" where
  "is_demoted env st e =
     (hz_clock env (hz_requests st) < (case demotedUntil st e of Some t \<Rightarrow> t | None \<Rightarrow> 0))"

text \<open>The endpoints in configured order, the demoted ones last; none is the source's exception.\<close>

definition endpoints :: "horizon_env \<Rightarrow> HorizonEndpoint option \<Rightarrow> horizon_state \<Rightarrow> string list" where
  "endpoints env baseUrl st =
     (let result = configured env baseUrl in
      sort_key (\<lambda>e. (if is_demoted env st e then length result else 0) + index_of result e) result)"

definition url :: "string \<Rightarrow> string \<Rightarrow> string" where
  "url path endpoint = rev (dropWhile (\<lambda>c. c = CHR ''/'') (rev endpoint)) @ path"

text \<open>
  \<open>parsed.pathname + parsed.search\<close> of an absolute URL, and the target itself when it does not parse.
  Percent-encoding and dot segments, which \<open>URL\<close> normalises, do not occur in the client's own targets.
\<close>

definition url_path :: "string \<Rightarrow> string" where
  "url_path target =
     (let scheme = takeWhile (\<lambda>c. c \<noteq> CHR '':'') target;
          rest = drop (length scheme) target in
      if scheme \<noteq> [] \<and> is_alpha (hd scheme)
         \<and> list_all (\<lambda>c. is_alpha c \<or> is_digit c \<or> c \<in> {CHR ''+'', CHR ''-'', CHR ''.''}) scheme
         \<and> take 3 rest = ''://'' \<and> 3 < length rest
      then (let p = takeWhile (\<lambda>c. c \<noteq> CHR ''#'') (dropWhile (\<lambda>c. c \<notin> {CHR ''/'', CHR ''?'', CHR ''#''}) (drop 3 rest))
            in if p \<noteq> [] \<and> hd p = CHR ''/'' then p else CHR ''/'' # p)
      else target)"

definition demote :: "horizon_env \<Rightarrow> string \<Rightarrow> horizon_state \<Rightarrow> horizon_state" where
  "demote env e st = st\<lparr>demotedUntil := (demotedUntil st)(e \<mapsto> hz_clock env (hz_requests st) + demotionMs)\<rparr>"

definition is_success :: "nat \<Rightarrow> bool" where
  "is_success status = (200 \<le> status \<and> status < 300)"

type_synonym body_check = "jsval \<Rightarrow> shape_problem + unit"

definition check_body :: "horizon_env \<Rightarrow> body_check option \<Rightarrow> jsval \<Rightarrow> horizon_error + jsval" where
  "check_body env check body =
     (case check of
        None \<Rightarrow> Inr body
      | Some c \<Rightarrow> (if hz_validate env
                  then (case c body of Inl p \<Rightarrow> Inl (HorizonResponseError p) | Inr _ \<Rightarrow> Inr body)
                  else Inr body))"

definition retry_delay :: "horizon_env \<Rightarrow> nat option \<Rightarrow> nat \<Rightarrow> nat" where
  "retry_delay env ra attempt =
     (case ra of Some s \<Rightarrow> if 0 < s then s * 1000 else backoffMs env attempt | None \<Rightarrow> backoffMs env attempt)"

text \<open>What the client makes of one answer: the end of the call, a pause, or a failed endpoint.\<close>

datatype verdict = Finish "horizon_error + jsval option" bool | Pause nat | Failed

definition judge ::
  "horizon_env \<Rightarrow> request_mode \<Rightarrow> body_check option \<Rightarrow> nat \<Rightarrow> answer \<Rightarrow> verdict" where
  "judge env mode check attempt ans =
     (case ans of
        NoConnection \<Rightarrow> Failed
      | Answer status ra body \<Rightarrow>
          if is_success status
          then (case body of
                  Inl m \<Rightarrow> Finish (Inl (NotJson m)) False
                | Inr v \<Rightarrow> (case check_body env check v of
                             Inl err \<Rightarrow> Finish (Inl err) False
                           | Inr w \<Rightarrow> Finish (Inr (Some w)) True))
          else if status = 404 \<and> mode \<noteq> ThrowMode then Finish (Inr None) False
          else if status = 429 \<and> attempt < max_retries env then Pause (retry_delay env ra attempt)
          else if mode \<noteq> NullMode
          then (if status < 500 \<or> status = 429 then Finish (Inl (RequestFailed status)) False else Failed)
          else Finish (Inr None) False)"

text \<open>One attempt over the endpoints: a result, or the number of endpoints that failed.\<close>

fun endpoint_loop ::
  "horizon_env \<Rightarrow> request_mode \<Rightarrow> body_check option \<Rightarrow> nat \<Rightarrow> string \<Rightarrow> string list \<Rightarrow> nat
     \<Rightarrow> horizon_state \<Rightarrow> ((horizon_error + jsval option) option \<times> nat) \<times> horizon_state" where
  "endpoint_loop env mode check attempt target [] failures st = ((None, failures), st)"
| "endpoint_loop env mode check attempt target (e # es) failures st =
     (let st1 = st\<lparr>hz_requests := hz_requests st + 1\<rparr> in
      case judge env mode check attempt (hz_fetch env (hz_requests st) (url (url_path target) e)) of
        Failed \<Rightarrow> endpoint_loop env mode check attempt target es (failures + 1) (demote env e st1)
      | Pause ms \<Rightarrow> endpoint_loop env mode check attempt target es failures (st1\<lparr>pauses := pauses st1 @ [ms]\<rparr>)
      | Finish r ok \<Rightarrow> ((Some r, failures),
                       if ok then st1\<lparr>demotedUntil := (demotedUntil st1)(e := None)\<rparr> else st1))"

text \<open>The attempts; \<open>n\<close> are left. The last line of the source, marked unreachable there, is the first equation.\<close>

fun attempt_loop ::
  "horizon_env \<Rightarrow> request_mode \<Rightarrow> body_check option \<Rightarrow> string \<Rightarrow> string list \<Rightarrow> nat
     \<Rightarrow> horizon_state \<Rightarrow> (horizon_error + jsval option) \<times> horizon_state" where
  "attempt_loop env mode check target eps 0 st = (Inr None, st)"
| "attempt_loop env mode check target eps (Suc n) st =
     (let attempt = max_retries env - n in
      case endpoint_loop env mode check attempt target eps 0 st of
        ((Some r, _), st1) \<Rightarrow> (r, st1)
      | ((None, failures), st1) \<Rightarrow>
          if failures = length eps
          then (if attempt < max_retries env
                then attempt_loop env mode check target eps n (st1\<lparr>pauses := pauses st1 @ [backoffMs env attempt]\<rparr>)
                else if mode \<noteq> NullMode then (Inl (HorizonUnavailable eps), st1) else (Inr None, st1))
          else attempt_loop env mode check target eps n st1)"

definition request ::
  "horizon_env \<Rightarrow> string \<Rightarrow> request_mode \<Rightarrow> body_check option \<Rightarrow> HorizonEndpoint option
     \<Rightarrow> horizon_state \<Rightarrow> (horizon_error + jsval option) \<times> horizon_state" where
  "request env target mode check baseUrl st =
     (let eps = endpoints env baseUrl st in
      if eps = [] then (Inl NoEndpoint, st)
      else attempt_loop env mode check target eps (max_retries env) st)"

text \<open>The public calls build their target on the first endpoint.\<close>

definition request_path ::
  "horizon_env \<Rightarrow> string \<Rightarrow> request_mode \<Rightarrow> body_check option \<Rightarrow> HorizonEndpoint option
     \<Rightarrow> horizon_state \<Rightarrow> (horizon_error + jsval option) \<times> horizon_state" where
  "request_path env path mode check baseUrl st =
     (case endpoints env baseUrl st of
        [] \<Rightarrow> (Inl NoEndpoint, st)
      | e # _ \<Rightarrow> request env (url path e) mode check baseUrl st)"

section \<open>Pages\<close>

definition HORIZON_PAGE_LIMIT :: nat where "HORIZON_PAGE_LIMIT = 200"

text \<open>\<open>page._links.next?.href\<close>; without \<open>_links\<close> the source raises a \<open>TypeError\<close>.\<close>

definition next_href :: "jsval \<Rightarrow> horizon_error + string option" where
  "next_href page =
     (let links = get_member page ''_links'' in
      if links = JUndefined \<or> links = JNull then Inl NotAPage
      else (case get_member (get_member links ''next'') ''href'' of
              JStr s \<Rightarrow> Inr (if s = [] then None else Some s) | _ \<Rightarrow> Inr None))"

definition page_step :: "jsval option \<Rightarrow> horizon_error + jsval list \<times> string option" where
  "page_step body =
     (case body of
        None \<Rightarrow> Inl NotAPage
      | Some page \<Rightarrow>
          (case page_records page of
             None \<Rightarrow> Inl NotAPage
           | Some vs \<Rightarrow> (if length vs = HORIZON_PAGE_LIMIT
                         then and_then (next_href page) (\<lambda>next. Inr (vs, next)) else Inr (vs, None))))"

text \<open>A server that links full pages in a circle would keep this loop going.\<close>

partial_function (option) pages_loop ::
  "horizon_env \<Rightarrow> record_spec \<Rightarrow> HorizonEndpoint option \<Rightarrow> string \<Rightarrow> jsval list \<Rightarrow> horizon_state
     \<Rightarrow> ((horizon_error + jsval list) \<times> horizon_state) option" where
  "pages_loop env spec baseUrl target records st =
     (case request env target ThrowMode (Some (\<lambda>b. checkPage b spec)) baseUrl st of
        (Inl e, st1) \<Rightarrow> Some (Inl e, st1)
      | (Inr body, st1) \<Rightarrow>
          (case page_step body of
             Inl e \<Rightarrow> Some (Inl e, st1)
           | Inr (vs, None) \<Rightarrow> Some (Inr (records @ vs), st1)
           | Inr (vs, Some t) \<Rightarrow> pages_loop env spec baseUrl t (records @ vs) st1))"

definition fetchAllPages ::
  "horizon_env \<Rightarrow> string \<Rightarrow> record_spec \<Rightarrow> HorizonEndpoint option \<Rightarrow> horizon_state
     \<Rightarrow> ((horizon_error + jsval list) \<times> horizon_state) option" where
  "fetchAllPages env path spec baseUrl st =
     (case endpoints env baseUrl st of
        [] \<Rightarrow> Some (Inl NoEndpoint, st)
      | e # _ \<Rightarrow> pages_loop env spec baseUrl (url path e) [] st)"

section \<open>The calls\<close>

definition or_value :: "jsval \<Rightarrow> jsval \<Rightarrow> jsval" where
  "or_value v d = (if v = JUndefined \<or> v = JNull then d else v)"

text \<open>\<open>page._embedded.records[0]?.sequence ?? 0\<close>.\<close>

definition getLatestLedgerSequence_hz ::
  "horizon_env \<Rightarrow> HorizonEndpoint option \<Rightarrow> horizon_state \<Rightarrow> (horizon_error + jsval) \<times> horizon_state" where
  "getLatestLedgerSequence_hz env baseUrl st =
     (case request_path env ''/ledgers?order=desc&limit=1'' ThrowMode (Some (\<lambda>b. checkPage b LEDGER_SPEC)) baseUrl st of
        (Inl e, st1) \<Rightarrow> (Inl e, st1)
      | (Inr None, st1) \<Rightarrow> (Inl NotAPage, st1)
      | (Inr (Some page), st1) \<Rightarrow>
          ((case page_records page of
              None \<Rightarrow> Inl NotAPage
            | Some [] \<Rightarrow> Inr (JInt 0)
            | Some (v # _) \<Rightarrow> Inr (or_value (get_member v ''sequence'') (JInt 0))), st1))"

definition getLedger_hz ::
  "horizon_env \<Rightarrow> nat \<Rightarrow> HorizonEndpoint option \<Rightarrow> horizon_state \<Rightarrow> (horizon_error + jsval option) \<times> horizon_state" where
  "getLedger_hz env sequence =
     request_path env (''/ledgers/'' @ nat_to_string sequence) ThrowMode
       (Some (\<lambda>b. checkRecord b LEDGER_SPEC ''response''))"

definition ledger_resource :: "nat \<Rightarrow> string \<Rightarrow> string" where
  "ledger_resource sequence resource =
     ''/ledgers/'' @ nat_to_string sequence @ ''/'' @ resource @ ''?order=asc&limit='' @ nat_to_string HORIZON_PAGE_LIMIT"

definition getLedgerTransactions_hz where
  "getLedgerTransactions_hz env sequence = fetchAllPages env (ledger_resource sequence ''transactions'') TRANSACTION_SPEC"

definition getLedgerOperations_hz where
  "getLedgerOperations_hz env sequence = fetchAllPages env (ledger_resource sequence ''operations'') OPERATION_SPEC"

definition getLedgerEffects_hz where
  "getLedgerEffects_hz env sequence = fetchAllPages env (ledger_resource sequence ''effects'') EFFECT_SPEC"

definition getAccount_hz ::
  "horizon_env \<Rightarrow> string \<Rightarrow> HorizonEndpoint option \<Rightarrow> horizon_state \<Rightarrow> (horizon_error + jsval option) \<times> horizon_state" where
  "getAccount_hz env address =
     request_path env (''/accounts/'' @ address) NullMode (Some (\<lambda>b. checkRecord b ACCOUNT_SPEC ''response''))"

definition getAccountOrThrow ::
  "horizon_env \<Rightarrow> string \<Rightarrow> HorizonEndpoint option \<Rightarrow> horizon_state \<Rightarrow> (horizon_error + jsval option) \<times> horizon_state" where
  "getAccountOrThrow env address =
     request_path env (''/accounts/'' @ address) NullOn404 (Some (\<lambda>b. checkRecord b ACCOUNT_SPEC ''response''))"

text \<open>\<open>page?._embedded?.records ?? []\<close> of the calls that must not fail.\<close>

definition records_or_empty ::
  "(horizon_error + jsval option) \<times> horizon_state \<Rightarrow> (horizon_error + jsval) \<times> horizon_state" where
  "records_or_empty r =
     (case r of
        (Inl e, st) \<Rightarrow> (Inl e, st)
      | (Inr None, st) \<Rightarrow> (Inr (JArr []), st)
      | (Inr (Some page), st) \<Rightarrow>
          (Inr (or_value (get_member (get_member page ''_embedded'') ''records'') (JArr [])), st))"

definition getRecentTransactions where
  "getRecentTransactions env limit baseUrl st =
     records_or_empty (request_path env (''/transactions?order=desc&limit='' @ nat_to_string limit) NullMode None baseUrl st)"

definition getAccountTransactions where
  "getAccountTransactions env address limit baseUrl st =
     records_or_empty (request_path env
       (''/accounts/'' @ address @ ''/transactions?order=desc&limit='' @ nat_to_string limit) NullMode None baseUrl st)"

definition getLatestLedger_hz where
  "getLatestLedger_hz env baseUrl st =
     (case request_path env ''/ledgers?order=desc&limit=1'' NullMode None baseUrl st of
        (Inl e, st1) \<Rightarrow> (Inl e, st1)
      | (Inr r, st1) \<Rightarrow>
          (Inr (case r of
                  Some page \<Rightarrow> (case page_records page of Some (v # _) \<Rightarrow> or_value v JNull | _ \<Rightarrow> JNull)
                | None \<Rightarrow> JNull), st1))"

text \<open>\<open>URLSearchParams\<close>: the form encoding of the names and values that were set.\<close>

definition hex_char :: "nat \<Rightarrow> char" where
  "hex_char n = (''0123456789ABCDEF'' ! n)"

definition form_char :: "char \<Rightarrow> string" where
  "form_char c =
     (if is_alpha c \<or> is_digit c \<or> c \<in> {CHR ''*'', CHR ''-'', CHR ''.'', CHR ''_''} then [c]
      else if c = CHR '' '' then ''+''
      else [CHR ''%'', hex_char (of_char c div 16), hex_char (of_char c mod 16)])"

definition form_encode :: "string \<Rightarrow> string" where
  "form_encode s = concat (map form_char s)"

definition search_params :: "(string \<times> string) list \<Rightarrow> string" where
  "search_params ps = join_with ''&'' (map (\<lambda>(k, v). form_encode k @ ''='' @ form_encode v) ps)"

text \<open>The filter's fields in the order they are set; an absent, empty or zero field is the empty text.\<close>

definition trade_fields :: "string list" where
  "trade_fields = [''cursor'', ''order'', ''limit'', ''base_asset_type'', ''base_asset_code'', ''base_asset_issuer'',
     ''counter_asset_type'', ''counter_asset_code'', ''counter_asset_issuer'', ''offer_id'']"

definition getTrades where
  "getTrades env params baseUrl st =
     (let qs = search_params (filter (\<lambda>(_, v). v \<noteq> []) (map (\<lambda>f. (f, params f)) trade_fields)) in
      records_or_empty (request_path env (''/trades'' @ (if qs \<noteq> [] then ''?'' @ qs else [])) NullMode
        (Some (\<lambda>b. checkPage b TRADE_SPEC)) baseUrl st))"

text \<open>A client with two endpoints, for the examples.\<close>

definition two_endpoints :: "(nat \<Rightarrow> string \<Rightarrow> answer) \<Rightarrow> horizon_env" where
  "two_endpoints fetch =
     \<lparr>hz_fetch = fetch, hz_clock = (\<lambda>_. 0), hz_baseUrl = Some (EndpointList [''h://a'', ''h://b'']),
      hz_maxRetries = 1, hz_baseBackoffMs = 1, hz_validate = True\<rparr>"

definition fresh_client :: horizon_state where
  "fresh_client = \<lparr>hz_requests = 0, demotedUntil = (\<lambda>_. None), pauses = []\<rparr>"

lemma two_endpoints_simps [simp]:
  "configured (two_endpoints fetch) None = [''h://a'', ''h://b'']"
  "endpoints (two_endpoints fetch) None fresh_client = [''h://a'', ''h://b'']"
  "max_retries (two_endpoints fetch) = 1"
  "hz_fetch (two_endpoints fetch) = fetch" "hz_validate (two_endpoints fetch)"
  by (simp_all add: configured_def endpoints_def two_endpoints_def fresh_client_def is_demoted_def max_retries_def
      trim_def trim_start_def is_space_def char_code_def)

section \<open>What a result rests on\<close>

text \<open>Between two states the client asked one of the endpoints and got this answer.\<close>

definition asked ::
  "horizon_env \<Rightarrow> string list \<Rightarrow> string \<Rightarrow> horizon_state \<Rightarrow> horizon_state \<Rightarrow> answer \<Rightarrow> bool" where
  "asked env eps target st st' ans \<longleftrightarrow>
     (\<exists>k \<in> {hz_requests st..<hz_requests st'}. \<exists>e \<in> set eps. hz_fetch env k (url (url_path target) e) = ans)"

text \<open>The meaning of every outcome, by the answers it was built from.\<close>

definition justified ::
  "horizon_env \<Rightarrow> request_mode \<Rightarrow> body_check option \<Rightarrow> (answer \<Rightarrow> bool) \<Rightarrow> horizon_error + jsval option \<Rightarrow> bool" where
  "justified env mode check seen r =
     (case r of
        Inr (Some w) \<Rightarrow> (\<exists>status ra. is_success status \<and> seen (Answer status ra (Inr w))) \<and> check_body env check w = Inr w
      | Inr None \<Rightarrow> mode = NullMode \<or> mode = NullOn404 \<and> (\<exists>ra body. seen (Answer 404 ra body))
      | Inl (RequestFailed status) \<Rightarrow> mode \<noteq> NullMode \<and> \<not> is_success status \<and> status < 500 \<and> (\<exists>ra body. seen (Answer status ra body))
      | Inl (NotJson m) \<Rightarrow> (\<exists>status ra. is_success status \<and> seen (Answer status ra (Inl m)))
      | Inl (HorizonResponseError p) \<Rightarrow>
          (\<exists>status ra w. is_success status \<and> seen (Answer status ra (Inr w)) \<and> check_body env check w = Inl (HorizonResponseError p))
      | Inl (HorizonUnavailable _) \<Rightarrow> mode \<noteq> NullMode
      | Inl _ \<Rightarrow> False)"

lemma check_body_cases:
  obtains "check_body env check v = Inr v"
  | p where "check_body env check v = Inl (HorizonResponseError p)"
proof -
  have "check_body env check v = Inr v \<or> (\<exists>p. check_body env check v = Inl (HorizonResponseError p))"
    by (auto simp: check_body_def split: option.splits sum.splits)
  then show ?thesis using that by blast
qed

lemma justified_mono:
  assumes "justified env mode check seen r" and "\<And>ans. seen ans \<Longrightarrow> seen' ans"
  shows "justified env mode check seen' r"
proof (cases r)
  case (Inl e)
  then show ?thesis using assms by (cases e) (auto simp: justified_def)
next
  case (Inr b)
  then show ?thesis using assms by (cases b) (auto simp: justified_def)
qed

lemma judge_finish:
  assumes "judge env mode check attempt ans = Finish r ok"
  shows "justified env mode check (\<lambda>a. a = ans) r"
proof (cases ans)
  case NoConnection
  then show ?thesis using assms by (simp add: judge_def)
next
  case (Answer status ra body)
  show ?thesis
  proof (cases "is_success status")
    case True
    show ?thesis
    proof (cases body)
      case (Inl m)
      then show ?thesis using assms Answer True by (auto simp: judge_def justified_def)
    next
      case (Inr v)
      show ?thesis using assms Answer True Inr
        by (rule_tac env = env and check = check and v = v in check_body_cases) (auto simp: judge_def justified_def)
    qed
  next
    case False
    then show ?thesis using assms Answer
      by (cases mode) (auto simp: judge_def justified_def split: if_splits)
  qed
qed

text \<open>On the last attempt nothing is paused: each endpoint ends the call or counts as failed.\<close>

lemma judge_last_no_pause: "max_retries env \<le> attempt \<Longrightarrow> judge env mode check attempt ans \<noteq> Pause ms"
  by (auto simp: judge_def split: answer.splits sum.splits if_splits)

lemma demote_requests [simp]: "hz_requests (demote env e st) = hz_requests st"
  by (simp add: demote_def)

lemma endpoint_loop_requests:
  assumes "endpoint_loop env mode check attempt target es failures st = (r, st')"
  shows "hz_requests st \<le> hz_requests st' \<and> hz_requests st' \<le> hz_requests st + length es"
  using assms
proof (induction es arbitrary: failures st)
  case (Cons e es)
  show ?case
  proof (cases "judge env mode check attempt (hz_fetch env (hz_requests st) (url (url_path target) e))")
    case (Finish r ok)
    then show ?thesis using Cons.prems by (auto simp: Let_def split: if_splits)
  next
    case (Pause ms)
    then show ?thesis using Cons.prems Cons.IH by (fastforce simp: Let_def)
  next
    case Failed
    then show ?thesis using Cons.prems Cons.IH by (fastforce simp: Let_def)
  qed
qed simp

lemma asked_here:
  "hz_requests st < hz_requests st' \<Longrightarrow>
     asked env (e # es) target st st' (hz_fetch env (hz_requests st) (url (url_path target) e))"
  by (force simp: asked_def)

lemma asked_later:
  "asked env es target st1 st' ans \<Longrightarrow> hz_requests st \<le> hz_requests st1 \<Longrightarrow> asked env (e # es) target st st' ans"
  by (fastforce simp: asked_def)

lemma endpoint_loop_finish:
  assumes "endpoint_loop env mode check attempt target es failures st = ((Some r, n), st')"
  shows "justified env mode check (asked env es target st st') r"
  using assms
proof (induction es arbitrary: failures st)
  case (Cons e es)
  let ?ans = "hz_fetch env (hz_requests st) (url (url_path target) e)"
  have later: "justified env mode check (asked env (e # es) target st st') r"
    if "endpoint_loop env mode check attempt target es k s = ((Some r, n), st')" "hz_requests s = hz_requests st + 1" for k s
    using Cons.IH [OF that(1)] by (rule justified_mono) (rule asked_later, assumption, simp add: that(2))
  show ?case
  proof (cases "judge env mode check attempt ?ans")
    case (Finish r' ok)
    then have "r' = r" "hz_requests st < hz_requests st'" using Cons.prems by (auto simp: Let_def split: if_splits)
    with judge_finish [OF Finish] show ?thesis
      by (auto intro!: justified_mono [where seen = "\<lambda>a. a = ?ans"] asked_here)
  next
    case (Pause ms)
    then show ?thesis using Cons.prems by (intro later) (auto simp: Let_def)
  next
    case Failed
    then show ?thesis using Cons.prems by (intro later) (auto simp: Let_def)
  qed
qed simp

lemma endpoint_loop_last:
  assumes "endpoint_loop env mode check attempt target es failures st = ((None, n), st')"
    and "max_retries env \<le> attempt"
  shows "n = failures + length es"
  using assms(1)
proof (induction es arbitrary: failures st)
  case (Cons e es)
  show ?case using Cons.prems Cons.IH judge_last_no_pause [OF assms(2)]
    by (fastforce simp: Let_def split: verdict.splits)
qed simp

lemma attempt_loop_justified:
  assumes "attempt_loop env mode check target eps n st = (r, st')" and "0 < n" and "n \<le> max_retries env"
  shows "justified env mode check (asked env eps target st st') r \<and> hz_requests st \<le> hz_requests st'
    \<and> hz_requests st' \<le> hz_requests st + n * length eps"
  using assms
proof (induction n arbitrary: st)
  case (Suc n)
  let ?attempt = "max_retries env - n"
  obtain q failures st1 where loop: "endpoint_loop env mode check ?attempt target eps 0 st = ((q, failures), st1)"
    by (metis prod.exhaust)
  note bounds = endpoint_loop_requests [OF loop]
  have again: ?case if "attempt_loop env mode check target eps n s = (r, st')" "hz_requests s = hz_requests st1" "0 < n" for s
  proof -
    have IH: "justified env mode check (asked env eps target s st') r \<and> hz_requests s \<le> hz_requests st'
        \<and> hz_requests st' \<le> hz_requests s + n * length eps"
      using Suc.IH [OF that(1) that(3)] Suc.prems(3) by simp
    have "asked env eps target st st' ans" if "asked env eps target s st' ans" for ans
      using that bounds \<open>hz_requests s = hz_requests st1\<close> unfolding asked_def by force
    then have "justified env mode check (asked env eps target st st') r"
      using IH justified_mono by blast
    then show ?thesis using IH bounds that(2) by simp
  qed
  show ?case
  proof (cases q)
    case (Some r')
    then have "r' = r" "st1 = st'" using Suc.prems(1) loop by (simp_all add: Let_def)
    then show ?thesis using endpoint_loop_finish loop Some bounds by fastforce
  next
    case None
    show ?thesis
    proof (cases "n = 0")
      case True
      then have "failures = length eps" using endpoint_loop_last loop None by fastforce
      then show ?thesis using Suc.prems(1) loop None True bounds by (auto simp: Let_def justified_def split: if_splits)
    next
      case False
      then have "?attempt < max_retries env" using Suc.prems(3) by simp
      then obtain s where "attempt_loop env mode check target eps n s = (r, st')" "hz_requests s = hz_requests st1"
        using Suc.prems(1) loop None by (cases "failures = length eps") (auto simp: Let_def)
      then show ?thesis using again False by blast
    qed
  qed
qed simp

lemma endpoints_configured [simp]: "set (endpoints env baseUrl st) = set (configured env baseUrl)"
  and length_endpoints [simp]: "length (endpoints env baseUrl st) = length (configured env baseUrl)"
  and endpoints_Nil [simp]: "endpoints env baseUrl st = [] \<longleftrightarrow> configured env baseUrl = []"
  by (simp_all add: endpoints_def Let_def flip: length_0_conv)

text \<open>
  A call on a configured client asks at most retries times endpoints requests, and its result is
  what Horizon said: a body only from a 2xx answer that passed the check, \<open>null\<close> in the throwing mode
  never and in the middle mode only after a 404, an exception in the null mode only for a body that is
  not JSON or fails the check. So the line the source marks unreachable is.
\<close>

theorem request_outcome_is_justified:
  assumes "request env target mode check baseUrl st = (r, st')" and "configured env baseUrl \<noteq> []"
  shows "justified env mode check (asked env (configured env baseUrl) target st st') r
    \<and> hz_requests st' \<le> hz_requests st + max_retries env * length (configured env baseUrl)"
proof -
  have loop: "attempt_loop env mode check target (endpoints env baseUrl st) (max_retries env) st = (r, st')"
    using assms by (simp add: request_def Let_def)
  have "asked env (endpoints env baseUrl st) target st st' = asked env (configured env baseUrl) target st st'"
    by (rule ext) (simp add: asked_def)
  then show ?thesis using attempt_loop_justified [OF loop] by (simp add: max_retries_def)
qed

lemma request_path_cases:
  assumes "request_path env path mode check baseUrl st = (r, st')"
  obtains "r = Inl NoEndpoint" "st' = st"
  | e where "e \<in> set (configured env baseUrl)"
      "justified env mode check (asked env (configured env baseUrl) (url path e) st st') r"
      "hz_requests st \<le> hz_requests st'"
proof (cases "endpoints env baseUrl st")
  case Nil
  then show ?thesis using assms that(1) by (auto simp: request_path_def simp del: endpoints_Nil)
next
  case (Cons e es)
  let ?eps = "endpoints env baseUrl st"
  have e: "e \<in> set (configured env baseUrl)" using Cons by (metis endpoints_configured list.set_intros(1))
  have loop: "attempt_loop env mode check (url path e) ?eps (max_retries env) st = (r, st')"
    using assms Cons by (simp add: request_path_def request_def Let_def)
  have "asked env ?eps (url path e) st st' = asked env (configured env baseUrl) (url path e) st st'"
    by (rule ext) (simp add: asked_def)
  then show ?thesis using attempt_loop_justified [OF loop] that(2) [OF e] by (simp add: max_retries_def)
qed

theorem request_outcome_is_justified_witness:
  "justified (two_endpoints (\<lambda>_ _. Answer 404 None (Inr JNull))) NullOn404 None
     (asked (two_endpoints (\<lambda>_ _. Answer 404 None (Inr JNull))) [''h://a'', ''h://b''] ''/x'' fresh_client
        (fresh_client\<lparr>hz_requests := 1\<rparr>)) (Inr None)"
  using request_outcome_is_justified [of "two_endpoints (\<lambda>_ _. Answer 404 None (Inr JNull))" "''/x''" NullOn404 None
      None fresh_client "Inr None" "fresh_client\<lparr>hz_requests := 1\<rparr>"]
  by (simp add: request_def judge_def is_success_def fresh_client_def [THEN arg_cong [where f = hz_requests]])

section \<open>Failover\<close>

definition unhealthy :: "answer \<Rightarrow> bool" where
  "unhealthy ans = (case ans of NoConnection \<Rightarrow> True | Answer status _ _ \<Rightarrow> 500 \<le> status)"

lemma judge_unhealthy: "unhealthy ans \<Longrightarrow> mode \<noteq> NullMode \<Longrightarrow> judge env mode check attempt ans = Failed"
  by (auto simp: unhealthy_def judge_def is_success_def split: answer.splits)

lemma judge_healthy:
  "is_success status \<Longrightarrow> check_body env check w = Inr w \<Longrightarrow>
     judge env mode check attempt (Answer status ra (Inr w)) = Finish (Inr (Some w)) True"
  by (simp add: judge_def)

lemma endpoint_loop_failover:
  assumes "e \<in> set es" and "mode \<noteq> NullMode" and "is_success status" and "check_body env check w = Inr w"
    and "\<And>e' k. e' \<in> set es \<Longrightarrow> hz_fetch env k (url (url_path target) e') = Answer status ra (Inr w)
           \<or> e' \<noteq> e \<and> unhealthy (hz_fetch env k (url (url_path target) e'))"
  shows "\<exists>n st'. endpoint_loop env mode check attempt target es failures st = ((Some (Inr (Some w)), n), st')"
  using assms(1,5)
proof (induction es arbitrary: failures st)
  case (Cons e' es)
  let ?ans = "hz_fetch env (hz_requests st) (url (url_path target) e')"
  consider "?ans = Answer status ra (Inr w)" | "e' \<noteq> e" "unhealthy ?ans" using Cons.prems(2) by auto
  then show ?case
  proof cases
    case 1
    then show ?thesis by (simp add: judge_healthy assms Let_def)
  next
    case 2
    then show ?thesis using Cons.prems Cons.IH by (simp add: judge_unhealthy assms Let_def)
  qed
qed simp

text \<open>One endpoint answers with \<open>w\<close>; the others answer the same or are down.\<close>

definition available ::
  "horizon_env \<Rightarrow> HorizonEndpoint option \<Rightarrow> string \<Rightarrow> jsval \<Rightarrow> bool" where
  "available env baseUrl target w \<longleftrightarrow>
     (\<exists>e \<in> set (configured env baseUrl). \<exists>status ra. is_success status \<and>
        (\<forall>e' \<in> set (configured env baseUrl). \<forall>k.
           hz_fetch env k (url (url_path target) e') = Answer status ra (Inr w)
           \<or> e' \<noteq> e \<and> unhealthy (hz_fetch env k (url (url_path target) e'))))"

lemma request_available:
  assumes "available env baseUrl target w" and "mode \<noteq> NullMode" and "check_body env check w = Inr w"
  shows "\<exists>st'. request env target mode check baseUrl st = (Inr (Some w), st')
    \<and> hz_requests st' \<le> hz_requests st + length (configured env baseUrl)"
proof -
  obtain e status ra where e: "e \<in> set (configured env baseUrl)" and ok: "is_success status"
    and all: "\<forall>e' \<in> set (configured env baseUrl). \<forall>k.
           hz_fetch env k (url (url_path target) e') = Answer status ra (Inr w)
           \<or> e' \<noteq> e \<and> unhealthy (hz_fetch env k (url (url_path target) e'))"
    using assms(1) by (auto simp: available_def)
  obtain k where k: "max_retries env = Suc k" by (cases "max_retries env") (auto simp: max_retries_def)
  obtain n st' where loop: "endpoint_loop env mode check (max_retries env - k) target (endpoints env baseUrl st) 0 st
      = ((Some (Inr (Some w)), n), st')"
    using endpoint_loop_failover [of e "endpoints env baseUrl st" mode status env check w target ra
        "max_retries env - k" 0 st, OF _ assms(2) ok assms(3)] e all by (metis endpoints_configured)
  have "endpoints env baseUrl st \<noteq> []" using e by auto
  then have "request env target mode check baseUrl st = (Inr (Some w), st')"
    using loop by (simp add: request_def k Let_def)
  moreover have "hz_requests st' \<le> hz_requests st + length (configured env baseUrl)"
    using endpoint_loop_requests [OF loop] by simp
  ultimately show ?thesis by blast
qed

text \<open>
  With several endpoints configured, one that answers is enough: while all the others refuse the
  connection or answer 5xx, a throwing call still returns the body, after at most one request to each.
\<close>

theorem one_healthy_endpoint_is_enough:
  assumes "e \<in> set (configured env baseUrl)" and "mode \<noteq> NullMode"
    and "is_success status" and "check_body env check w = Inr w"
    and "\<forall>e' \<in> set (configured env baseUrl). \<forall>k.
           hz_fetch env k (url (url_path target) e') = Answer status ra (Inr w)
           \<or> e' \<noteq> e \<and> unhealthy (hz_fetch env k (url (url_path target) e'))"
  shows "\<exists>st'. request env target mode check baseUrl st = (Inr (Some w), st')
    \<and> hz_requests st' \<le> hz_requests st + length (configured env baseUrl)"
  using assms by (intro request_available) (auto simp: available_def)

theorem one_healthy_endpoint_is_enough_witness:
  "\<exists>st'. request (two_endpoints (\<lambda>_ u. if u = ''h://b/x'' then Answer 200 None (Inr (JInt 7)) else NoConnection))
     ''/x'' ThrowMode None None fresh_client = (Inr (Some (JInt 7)), st') \<and> hz_requests st' \<le> 2"
  using one_healthy_endpoint_is_enough [of "''h://b''"
      "two_endpoints (\<lambda>_ u. if u = ''h://b/x'' then Answer 200 None (Inr (JInt 7)) else NoConnection)" None
      ThrowMode 200 None "JInt 7" "''/x''" None fresh_client]
  by (simp add: is_success_def check_body_def unhealthy_def url_def url_path_def fresh_client_def numeral_2_eq_2)

section \<open>Paging through a ledger\<close>

text \<open>
  The resource as Horizon serves it: pages of the full size, each linked to the next, and a last one
  that is short or has no link.
\<close>

definition records_of :: "jsval \<Rightarrow> jsval list" where
  "records_of page = (case page_records page of Some vs \<Rightarrow> vs | None \<Rightarrow> [])"

fun serves ::
  "horizon_env \<Rightarrow> HorizonEndpoint option \<Rightarrow> record_spec \<Rightarrow> string \<Rightarrow> jsval list \<Rightarrow> bool" where
  "serves env baseUrl spec target [] = False"
| "serves env baseUrl spec target [p] \<longleftrightarrow>
     available env baseUrl target p \<and> checkPage p spec = Inr ()
     \<and> (length (records_of p) \<noteq> HORIZON_PAGE_LIMIT \<or> next_href p = Inr None)"
| "serves env baseUrl spec target (p # q # ps) \<longleftrightarrow>
     available env baseUrl target p \<and> checkPage p spec = Inr () \<and> length (records_of p) = HORIZON_PAGE_LIMIT
     \<and> (\<exists>t. next_href p = Inr (Some t) \<and> serves env baseUrl spec t (q # ps))"

lemma checked_page_records: "checkPage p spec = Inr () \<Longrightarrow> page_records p = Some (records_of p)"
  by (auto simp: checkPage_def records_of_def and_then_def split: option.splits sum.splits)

lemma pages_loop_step:
  assumes "available env baseUrl target p" and "checkPage p spec = Inr ()"
  obtains st' where "request env target ThrowMode (Some (\<lambda>b. checkPage b spec)) baseUrl st = (Inr (Some p), st')"
proof -
  have "check_body env (Some (\<lambda>b. checkPage b spec)) p = Inr p" using assms(2) by (simp add: check_body_def)
  then show ?thesis using request_available [OF assms(1), of ThrowMode _ st] that by blast
qed

lemma pages_loop_complete:
  "serves env baseUrl spec target pages \<Longrightarrow>
     \<exists>st'. pages_loop env spec baseUrl target acc st = Some (Inr (acc @ concat (map records_of pages)), st')"
proof (induction env baseUrl spec target pages arbitrary: acc st rule: serves.induct)
  case (2 env baseUrl spec target p)
  then obtain st1 where "request env target ThrowMode (Some (\<lambda>b. checkPage b spec)) baseUrl st = (Inr (Some p), st1)"
    using pages_loop_step by (metis serves.simps(2))
  then show ?case using 2 checked_page_records [of p spec]
    by (subst pages_loop.simps) (auto simp: page_step_def)
next
  case (3 env baseUrl spec target p q ps)
  then obtain t st1 where t: "next_href p = Inr (Some t)" "serves env baseUrl spec t (q # ps)"
    and req: "request env target ThrowMode (Some (\<lambda>b. checkPage b spec)) baseUrl st = (Inr (Some p), st1)"
    using pages_loop_step by (metis serves.simps(3))
  have "page_step (Some p) = Inr (records_of p, Some t)"
    using 3 t checked_page_records [of p spec] by (auto simp: page_step_def)
  then show ?case using req "3.IH" [OF t(2), of "acc @ records_of p" st1] by (subst pages_loop.simps) simp
qed simp

text \<open>
  C34: the walk over a ledger's transactions ends and returns every record of every page, in order and
  once each, as long as for each page one endpoint answers while the others are down.
\<close>

theorem ledger_transactions_complete:
  assumes "endpoints env baseUrl st = e # es"
    and "serves env baseUrl TRANSACTION_SPEC (url (ledger_resource sequence ''transactions'') e) pages"
  shows "\<exists>st'. getLedgerTransactions_hz env sequence baseUrl st = Some (Inr (concat (map records_of pages)), st')"
  using pages_loop_complete [OF assms(2), of "[]" st] assms(1)
  by (simp add: getLedgerTransactions_hz_def fetchAllPages_def)

definition empty_page :: jsval where
  "empty_page = JObj [(''_embedded'', JObj [(''records'', JArr [])])]"

lemma empty_page_simps [simp]: "checkPage empty_page TRANSACTION_SPEC = Inr ()" "records_of empty_page = []"
  by code_simp+

theorem ledger_transactions_complete_witness:
  "\<exists>st'. getLedgerTransactions_hz (two_endpoints (\<lambda>_ u. if hd (drop 4 u) = CHR ''b'' then Answer 200 None (Inr empty_page)
       else Answer 503 None (Inl ''down''))) 7 None fresh_client = Some (Inr [], st')"
  using ledger_transactions_complete [of "two_endpoints (\<lambda>_ u. if hd (drop 4 u) = CHR ''b''
       then Answer 200 None (Inr empty_page) else Answer 503 None (Inl ''down''))"
      None fresh_client "''h://a''" "[''h://b'']" 7 "[empty_page]"]
  by (simp add: available_def is_success_def unhealthy_def url_def HORIZON_PAGE_LIMIT_def)

end
