(* ===== verification/Account_Refresh.thy ===== *)
theory Account_Refresh
  imports Horizon_Client Ledger_Integrity
begin

text \<open>
  \<open>indexer/src/accountRefresh.ts\<close>: one batch of the account refresh queue, composed of the queue's reads
  and writes and of the Horizon client. The indexer enqueues refreshes while a batch runs: what it does
  between the batch's read and its writes is an argument. The fetches of a group of ten, which the
  source starts together, run one after the other here.
\<close>

section \<open>The batch\<close>

record refresh_result =
  rr_requested :: nat
  rr_skipped :: nat
  rr_failures :: "string list"
  rr_hasMore :: bool

definition is_fresh :: "refresh_request \<Rightarrow> bool" where
  "is_fresh q = (case rq_lastModifiedLedger q of Some m \<Rightarrow> rq_lastRequestedLedger q \<le> m | None \<Rightarrow> False)"

text \<open>The settled results of the fetches, in the order of the requests.\<close>

fun settle ::
  "(string \<Rightarrow> 's \<Rightarrow> ('e + 'a) \<times> 's) \<Rightarrow> refresh_request list \<Rightarrow> 's \<Rightarrow> (refresh_request \<times> ('e + 'a)) list \<times> 's" where
  "settle fetch [] s = ([], s)"
| "settle fetch (q # qs) s =
     (let (r, s1) = fetch (rq_address q) s; (rs, s2) = settle fetch qs s1 in ((q, r) # rs, s2))"

definition fulfilled :: "(refresh_request \<times> ('e + 'a)) list \<Rightarrow> (refresh_request \<times> 'a) list" where
  "fulfilled results = concat (map (\<lambda>(q, r). case r of Inr a \<Rightarrow> [(q, a)] | Inl _ \<Rightarrow> []) results)"

definition rejected :: "(refresh_request \<times> ('e + 'a)) list \<Rightarrow> refresh_request list" where
  "rejected results = concat (map (\<lambda>(q, r). case r of Inr _ \<Rightarrow> [] | Inl _ \<Rightarrow> [q]) results)"

definition refreshAccountQueueBatch ::
  "(string \<Rightarrow> 's \<Rightarrow> ('e + horizon_account option) \<times> 's) \<Rightarrow> ('d store \<Rightarrow> 'd store) \<Rightarrow> nat option \<Rightarrow> int \<Rightarrow> int
     \<Rightarrow> string \<Rightarrow> nat \<Rightarrow> 'd store \<Rightarrow> 's \<Rightarrow> ((db_error + refresh_result) \<times> 'd store) \<times> 's" where
  "refreshAccountQueueBatch fetch meanwhile crash now later network batchSize db s =
     (let requests = getPendingAccountRefreshes now network batchSize db in
      if requests = []
      then ((Inr \<lparr>rr_requested = 0, rr_skipped = 0, rr_failures = [], rr_hasMore = False\<rparr>, meanwhile db), s)
      else
        let skipped = filter is_fresh requests;
            toFetch = filter (\<lambda>q. \<not> is_fresh q) requests;
            (results, s1) = settle fetch toFetch s;
            deferred = rejected results in
        case completeAccountRefreshes crash network (map (\<lambda>q. (q, None)) skipped @ fulfilled results) (meanwhile db) of
          (Inl e, db1) \<Rightarrow> ((Inl e, db1), s1)
        | (Inr _, db1) \<Rightarrow>
            ((Inr \<lparr>rr_requested = length toFetch, rr_skipped = length skipped,
                   rr_failures = map rq_address deferred,
                   rr_hasMore = (length requests = batchSize \<and> deferred = [])\<rparr>,
              deferAccountRefreshes later network deferred db1), s1))"

section \<open>The fetch of the indexer\<close>

text \<open>
  The account Horizon returned, as the columns take it. The counts pass validation as numbers; one that
  is not whole is refused by its integer column, like the negative count it is read as here.
\<close>

definition whole :: "jsval \<Rightarrow> int" where
  "whole v = (case v of JInt i \<Rightarrow> i | _ \<Rightarrow> - 1)"

definition text_of :: "jsval \<Rightarrow> string" where
  "text_of v = (case v of JStr s \<Rightarrow> s | _ \<Rightarrow> [])"

definition account_of :: "jsval \<Rightarrow> horizon_account" where
  "account_of v =
     \<lparr>a_account_id = text_of (get_member v ''account_id''), a_sequence = text_of (get_member v ''sequence''),
      a_subentry_count = whole (get_member v ''subentry_count''),
      a_last_modified_ledger = whole (get_member v ''last_modified_ledger''),
      a_num_sponsored = whole (get_member v ''num_sponsored''),
      a_num_sponsoring = whole (get_member v ''num_sponsoring''),
      a_state = json_text (JArr [get_member v ''balances'', get_member v ''flags'', get_member v ''thresholds''])\<rparr>"

definition fetch_account ::
  "horizon_env \<Rightarrow> HorizonEndpoint option \<Rightarrow> string \<Rightarrow> horizon_state
     \<Rightarrow> (horizon_error + horizon_account option) \<times> horizon_state" where
  "fetch_account env horizonUrl address st =
     (case getAccountOrThrow env address horizonUrl st of
        (Inl e, st1) \<Rightarrow> (Inl e, st1) | (Inr r, st1) \<Rightarrow> (Inr (map_option account_of r), st1))"

section \<open>What leaves the queue\<close>

text \<open>
  The queue's side of it: a completion takes a row only for a request that was read at the ledger the
  row still asks for, and a deferral takes none.
\<close>

lemma completion_keeps:
  assumes "(k, r) \<in> set (refresh_queue db)"
    and "\<And>q acc. (q, acc) \<in> set cs \<Longrightarrow> k = (n, rq_address q) \<Longrightarrow> last_requested_ledger r \<noteq> rq_lastRequestedLedger q"
  shows "(k, r) \<in> set (refresh_queue (snd (completeAccountRefreshes crash n cs db)))"
proof (cases "cs = []")
  case False
  have "(k, r) \<in> set (refresh_queue y)"
    if "s \<in> set (concat (map (\<lambda>(_, acc). case acc of
             Some a \<Rightarrow> [upsertAccount n a, insertAccountStateHistory n a] | None \<Rightarrow> []) cs)
         @ [dequeue_refreshes n (map fst cs)])" "(k, r) \<in> set (refresh_queue x)" "s x = Inr y" for s x y
    using that(1)
  proof (cases rule: refresh_statements_cases)
    case deq
    then show ?thesis using that assms(2)
      by (cases k) (fastforce simp: dequeue_refreshes_def delete_where_def)
  qed (use that in \<open>auto simp: upsertAccount_def insertAccountStateHistory_def split: if_splits\<close>)
  then show ?thesis unfolding completeAccountRefreshes_def using False assms(1)
    by (simp del: set_append set_concat) (rule transaction_inv, assumption, blast)
qed (simp add: completeAccountRefreshes_def assms)

lemma deferral_keeps: "keys (refresh_queue (deferAccountRefreshes now n qs db)) = keys (refresh_queue db)"
  by (simp add: deferAccountRefreshes_def update_where_def keys_def image_image case_prod_unfold)

text \<open>
  The client's contract as the batch relies on it: a fulfilled fetch between two of its states comes
  with evidence, and states only grow.
\<close>

locale account_source =
  fixes fetch :: "string \<Rightarrow> 's \<Rightarrow> ('e + horizon_account option) \<times> 's"
    and reaches :: "'s \<Rightarrow> 's \<Rightarrow> bool"
    and evidence :: "string \<Rightarrow> 's \<Rightarrow> 's \<Rightarrow> horizon_account option \<Rightarrow> bool"
  assumes reach_refl: "reaches s s"
    and reach_trans: "reaches s t \<Longrightarrow> reaches t u \<Longrightarrow> reaches s u"
    and fetch_reaches: "fetch a s = (r, s') \<Longrightarrow> reaches s s'"
    and fetch_evidence: "fetch a s = (Inr acc, s') \<Longrightarrow> evidence a s s' acc"
    and evidence_mono: "evidence a s t acc \<Longrightarrow> reaches s0 s \<Longrightarrow> reaches t t1 \<Longrightarrow> evidence a s0 t1 acc"
begin

lemma settle_reaches: "settle fetch qs s = (rs, s') \<Longrightarrow> reaches s s'"
proof (induction qs arbitrary: s rs)
  case Nil
  then show ?case by (simp add: reach_refl)
next
  case (Cons q qs)
  then show ?case
    by (auto simp: Let_def split: prod.splits intro: reach_trans [OF fetch_reaches])
qed

lemma settle_evidence:
  "settle fetch qs s = (rs, s') \<Longrightarrow> (q, Inr acc) \<in> set rs \<Longrightarrow> q \<in> set qs \<and> evidence (rq_address q) s s' acc"
proof (induction qs arbitrary: s rs)
  case (Cons p qs)
  obtain r s1 where f: "fetch (rq_address p) s = (r, s1)" by fastforce
  obtain rs1 s2 where g: "settle fetch qs s1 = (rs1, s2)" by fastforce
  have eqs: "rs = (p, r) # rs1" "s2 = s'" using Cons.prems(1) f g by simp_all
  consider "q = p" "r = Inr acc" | "(q, Inr acc) \<in> set rs1" using Cons.prems(2) eqs by auto
  then show ?case
  proof cases
    case 1
    then show ?thesis
      using fetch_evidence f settle_reaches [OF g] evidence_mono reach_refl eqs by fastforce
  next
    case 2
    then show ?thesis
      using Cons.IH [OF g [unfolded eqs]] evidence_mono fetch_reaches [OF f] reach_refl by fastforce
  qed
qed simp

lemma batch_drops_settled:
  assumes "refreshAccountQueueBatch fetch meanwhile crash now later n limit db s = ((res, db'), s')"
    and "(n, a) \<notin> keys (refresh_queue db')" and "map_of (refresh_queue (meanwhile db)) (n, a) = Some r"
  shows "\<exists>q \<in> set (getPendingAccountRefreshes now n limit db). rq_address q = a
    \<and> rq_lastRequestedLedger q = last_requested_ledger r \<and> (is_fresh q \<or> (\<exists>acc. evidence a s s' acc))"
proof -
  let ?pending = "getPendingAccountRefreshes now n limit db"
  have row: "((n, a), r) \<in> set (refresh_queue (meanwhile db))" using assms(3) by (rule map_of_SomeD)
  then have gone: "((n, a), r) \<notin> set (refresh_queue db')" using assms(2) by (force simp: keys_def)
  obtain results s1 where st: "settle fetch (filter (\<lambda>q. \<not> is_fresh q) ?pending) s = (results, s1)" by fastforce
  let ?cs = "map (\<lambda>q. (q, None)) (filter is_fresh ?pending) @ fulfilled results"
  obtain d db1 where c: "completeAccountRefreshes crash n ?cs (meanwhile db) = (d, db1)" by fastforce
  have ne: "?pending \<noteq> []" using assms(1) row gone by (auto simp: refreshAccountQueueBatch_def)
  have s1: "s1 = s'" using assms(1) ne st c by (cases d) (auto simp: refreshAccountQueueBatch_def Let_def)
  have "keys (refresh_queue db') = keys (refresh_queue db1)"
    using assms(1) ne st c by (cases d) (auto simp: refreshAccountQueueBatch_def Let_def deferral_keeps)
  then have "((n, a), r) \<notin> set (refresh_queue (snd (completeAccountRefreshes crash n ?cs (meanwhile db))))"
    using assms(2) c by (force simp: keys_def)
  then have "\<not> (\<forall>(q, acc) \<in> set ?cs. a = rq_address q \<longrightarrow> last_requested_ledger r \<noteq> rq_lastRequestedLedger q)"
    using completion_keeps [OF row, where cs = ?cs and n = n and crash = crash] by fastforce
  then obtain q acc where q: "(q, acc) \<in> set ?cs" "a = rq_address q"
    "last_requested_ledger r = rq_lastRequestedLedger q"
    by (auto simp del: set_append set_map)
  have "q \<in> set ?pending \<and> (is_fresh q \<or> (\<exists>acc. evidence a s s' acc))"
  proof (cases "is_fresh q \<and> q \<in> set ?pending")
    case False
    then have "(q, Inr acc) \<in> set results" using q(1) by (auto simp: fulfilled_def split: sum.splits)
    then show ?thesis using settle_evidence [OF st] s1 q(2) by auto
  qed simp
  then show ?thesis using q by auto
qed

end

section \<open>The Horizon client is such a source\<close>

definition account_evidence ::
  "horizon_env \<Rightarrow> HorizonEndpoint option \<Rightarrow> string \<Rightarrow> horizon_state \<Rightarrow> horizon_state \<Rightarrow> horizon_account option \<Rightarrow> bool" where
  "account_evidence env horizonUrl address st st' acc \<longleftrightarrow>
     (\<exists>e \<in> set (configured env horizonUrl).
        case acc of
          None \<Rightarrow> \<exists>ra body. asked env (configured env horizonUrl) (url (''/accounts/'' @ address) e) st st' (Answer 404 ra body)
        | Some a \<Rightarrow> \<exists>status ra w. is_success status \<and> a = account_of w
            \<and> asked env (configured env horizonUrl) (url (''/accounts/'' @ address) e) st st' (Answer status ra (Inr w))
            \<and> check_body env (Some (\<lambda>b. checkRecord b ACCOUNT_SPEC ''response'')) w = Inr w)"

lemma asked_mono:
  "asked env eps target s t ans \<Longrightarrow> hz_requests s0 \<le> hz_requests s \<Longrightarrow> hz_requests t \<le> hz_requests t1
     \<Longrightarrow> asked env eps target s0 t1 ans"
  by (fastforce simp: asked_def)

lemma fetch_account_monotone:
  assumes "fetch_account env horizonUrl a s = (r, s')"
  shows "hz_requests s \<le> hz_requests s'"
proof -
  obtain r' where "request_path env (''/accounts/'' @ a) NullOn404
      (Some (\<lambda>b. checkRecord b ACCOUNT_SPEC ''response'')) horizonUrl s = (r', s')"
    using assms by (auto simp: fetch_account_def getAccountOrThrow_def split: prod.splits sum.splits)
  then show ?thesis by (rule request_path_cases) simp_all
qed

lemma fetch_account_evidence:
  assumes "fetch_account env horizonUrl a s = (Inr acc, s')"
  shows "account_evidence env horizonUrl a s s' acc"
proof -
  obtain b where b: "acc = map_option account_of b" "request_path env (''/accounts/'' @ a) NullOn404
      (Some (\<lambda>b. checkRecord b ACCOUNT_SPEC ''response'')) horizonUrl s = (Inr b, s')"
    using assms by (auto simp: fetch_account_def getAccountOrThrow_def split: prod.splits sum.splits)
  from b(2) show ?thesis
  proof (cases rule: request_path_cases)
    case (2 e)
    then show ?thesis using b(1) by (cases b) (auto simp: account_evidence_def justified_def)
  qed simp
qed

interpretation hz: account_source
  "fetch_account env horizonUrl" "\<lambda>s t. hz_requests s \<le> hz_requests t" "account_evidence env horizonUrl"
  for env horizonUrl
proof
  fix a acc and s t s0 t1 :: horizon_state
  assume "account_evidence env horizonUrl a s t acc" "hz_requests s0 \<le> hz_requests s" "hz_requests t \<le> hz_requests t1"
  then have "asked env eps target s0 t1 ans" if "asked env eps target s t ans" for eps target ans
    using that asked_mono by blast
  with \<open>account_evidence env horizonUrl a s t acc\<close> show "account_evidence env horizonUrl a s0 t1 acc"
    unfolding account_evidence_def by (cases acc) (simp_all, blast+)
qed (simp_all add: fetch_account_monotone fetch_account_evidence)

text \<open>
  C17: an outage never drops a refresh. A row leaves the queue in a batch only if the account was asked
  for at the very ledger the row still carries, and the stored account was already that fresh, or
  Horizon answered this batch with a 404 for the account, or with a 2xx body that has the account's
  fields. Refused connections, 429s, 5xx answers, malformed bodies and requests renewed while the batch
  ran all leave the row in place.
\<close>

theorem outage_never_drops_a_refresh:
  assumes "refreshAccountQueueBatch (fetch_account env horizonUrl) meanwhile crash now later n limit db st = ((res, db'), st')"
    and "map_of (refresh_queue (meanwhile db)) (n, a) = Some r" and "(n, a) \<notin> keys (refresh_queue db')"
  shows "\<exists>q \<in> set (getPendingAccountRefreshes now n limit db). rq_address q = a
    \<and> rq_lastRequestedLedger q = last_requested_ledger r
    \<and> (is_fresh q \<or> (\<exists>acc. account_evidence env horizonUrl a st st' acc))"
  using assms hz.batch_drops_settled by blast

definition one_refresh :: "unit store" where
  "one_refresh = (empty_store ())\<lparr>refresh_queue := [((''net'', ''GA''), \<lparr>last_requested_ledger = 9, queued_at = 0\<rparr>)]\<rparr>"

theorem outage_never_drops_a_refresh_witness:
  "(\<exists>q \<in> set (getPendingAccountRefreshes 1 ''net'' 5 one_refresh). rq_address q = ''GA'' \<and> rq_lastRequestedLedger q = 9
     \<and> (is_fresh q \<or> (\<exists>acc. account_evidence (two_endpoints (\<lambda>_ _. Answer 404 None (Inr JNull))) None ''GA'' fresh_client
          (fresh_client\<lparr>hz_requests := 1\<rparr>) acc)))"
  using outage_never_drops_a_refresh [of "two_endpoints (\<lambda>_ _. Answer 404 None (Inr JNull))" None id None 1 2 "''net''" 5
      one_refresh fresh_client "Inr \<lparr>rr_requested = 1, rr_skipped = 0, rr_failures = [], rr_hasMore = False\<rparr>"
      "empty_store ()" "fresh_client\<lparr>hz_requests := 1\<rparr>" "''GA''" "\<lparr>last_requested_ledger = 9, queued_at = 0\<rparr>"]
  by (simp add: refreshAccountQueueBatch_def getPendingAccountRefreshes_def one_refresh_def empty_store_def is_fresh_def
      fetch_account_def getAccountOrThrow_def request_path_def request_def judge_def is_success_def fulfilled_def rejected_def
      completeAccountRefreshes_def transaction_def dequeue_refreshes_def delete_where_def deferAccountRefreshes_def
      fresh_client_def [THEN arg_cong [where f = hz_requests]])

end
