(* ===== verification/Query_Limits.thy ===== *)
theory Query_Limits
  imports Js_Value
begin

text \<open>
  \<open>graphql-server/src/security.ts\<close>: the depth and cost analysis that runs on every operation before its
  resolvers. The schema, the parsed document and the coerced \<open>limit\<close> argument of a field come from
  the \<open>graphql\<close> package and are arguments here. The main theorem relates the static cost to the
  resolver calls an execution makes.
\<close>

section \<open>Configuration\<close>

definition parseNonNegativeInt :: "string option \<Rightarrow> nat \<Rightarrow> nat" where
  "parseNonNegativeInt raw fallback =
     (case raw of
        None \<Rightarrow> fallback
      | Some t \<Rightarrow> (if trim t = [] then fallback
                   else (case integer_of_text t of Some n \<Rightarrow> if 0 \<le> n then nat n else fallback | None \<Rightarrow> fallback)))"

definition truthy_words :: "string list" where "truthy_words = [''1'', ''true'', ''yes'', ''on'']"
definition falsy_words :: "string list" where "falsy_words = [''0'', ''false'', ''no'', ''off'']"

definition parseBool :: "string option \<Rightarrow> bool option" where
  "parseBool raw =
     (case raw of
        None \<Rightarrow> None
      | Some t \<Rightarrow> (let v = lower_case (trim t) in
                   if v = [] then None
                   else if v \<in> set truthy_words then Some True
                   else if v \<in> set falsy_words then Some False else None))"

datatype origins = AnyOrigin | Origins "string list"

record security_config =
  sc_maxDepth :: nat
  sc_maxComplexity :: nat
  sc_introspection :: bool
  sc_allowedOrigins :: origins
  sc_statementTimeoutMs :: nat
  sc_requestTimeoutMs :: nat

definition loadSecurityConfig :: "(string \<Rightarrow> string option) \<Rightarrow> security_config" where
  "loadSecurityConfig env =
     (let production = (env ''NODE_ENV'' = Some ''production'');
          os = filter (\<lambda>v. v \<noteq> []) (map trim (split_on (CHR '','') (case env ''ALLOWED_ORIGINS'' of Some t \<Rightarrow> t | None \<Rightarrow> [])))
      in \<lparr>sc_maxDepth = parseNonNegativeInt (env ''GRAPHQL_MAX_DEPTH'') 10,
          sc_maxComplexity = parseNonNegativeInt (env ''GRAPHQL_MAX_COMPLEXITY'') 1000,
          sc_introspection = (case parseBool (env ''GRAPHQL_INTROSPECTION'') of Some b \<Rightarrow> b | None \<Rightarrow> \<not> production),
          sc_allowedOrigins = (if os = [] \<or> ''*'' \<in> set os then AnyOrigin else Origins os),
          sc_statementTimeoutMs = parseNonNegativeInt (env ''DB_STATEMENT_TIMEOUT_MS'') 15000,
          sc_requestTimeoutMs = parseNonNegativeInt (env ''REQUEST_TIMEOUT_MS'') 30000\<rparr>)"

text \<open>The \<open>origin\<close> option of CORS: \<open>None\<close> reflects any origin.\<close>

definition corsOptions :: "security_config \<Rightarrow> string list option" where
  "corsOptions config = (case sc_allowedOrigins config of AnyOrigin \<Rightarrow> None | Origins os \<Rightarrow> Some os)"

definition poolTimeoutOptions :: "security_config \<Rightarrow> (nat \<times> nat) option" where
  "poolTimeoutOptions config =
     (if sc_statementTimeoutMs config \<le> 0 then None
      else Some (sc_statementTimeoutMs config, sc_statementTimeoutMs config + 1000))"

section \<open>Documents and schemas\<close>

datatype 'a selection =
    Field string 'a "'a selection list option"
  | InlineFragment "string option" "'a selection list"
  | FragmentSpread string

record field_def =
  fd_type :: string
  fd_list :: bool
  fd_args :: "string list"

text \<open>A composite type with its fields; a union has none of its own.\<close>

type_synonym fields = "string \<Rightarrow> field_def option"

datatype operation_kind = Query | Mutation | Subscription

record 'a gql =
  composite :: "string \<Rightarrow> fields option"
  root_type :: "operation_kind \<Rightarrow> fields option"
  limit_argument :: "field_def \<Rightarrow> 'a \<Rightarrow> int option"
  fragments :: "(string \<times> string \<times> 'a selection list) list"

text \<open>A later definition of a name replaces an earlier one.\<close>

definition fragment_of :: "'a gql \<Rightarrow> string \<Rightarrow> (string \<times> 'a selection list) option" where
  "fragment_of G = map_of (rev (fragments G))"

section \<open>The analysis\<close>

definition multiplier :: "'a gql \<Rightarrow> field_def \<Rightarrow> 'a \<Rightarrow> nat" where
  "multiplier G fd args =
     (if ''limit'' \<in> set (fd_args fd) \<or> fd_list fd
      then (case limit_argument G fd args of Some l \<Rightarrow> if 0 < l then nat l else 1 | None \<Rightarrow> 1)
      else 1)"

definition is_meta :: "string \<Rightarrow> bool" where
  "is_meta name = (take 2 name = ''__'')"

definition narrowed :: "'a gql \<Rightarrow> fields \<Rightarrow> string option \<Rightarrow> fields" where
  "narrowed G parent tc =
     (case tc of None \<Rightarrow> parent | Some t \<Rightarrow> (case composite G t of Some fs \<Rightarrow> fs | None \<Rightarrow> parent))"

text \<open>Each spread takes a fragment out of play, so even a cyclic document is analysed in finite time.\<close>

definition unspread :: "'a gql \<Rightarrow> string list \<Rightarrow> nat" where
  "unspread G spreading = card (set (map fst (fragments G)) - set spreading)"

lemma unspread_decreases:
  "fragment_of G name = Some v \<Longrightarrow> name \<notin> set spreading \<Longrightarrow> unspread G (name # spreading) < unspread G spreading"
proof -
  assume "fragment_of G name = Some v" and out: "name \<notin> set spreading"
  then have "name \<in> set (map fst (fragments G))" unfolding fragment_of_def by (force dest!: map_of_SomeD)
  with out show ?thesis unfolding unspread_def by (intro psubset_card_mono) auto
qed

text \<open>
  \<open>spreading\<close> are the fragments being expanded: the source's set is back at its old value whenever a
  call returns, so it is passed down here. The result is the depth and the cost.
\<close>

function (sequential) walk :: "'a gql \<Rightarrow> fields \<Rightarrow> nat \<Rightarrow> string list \<Rightarrow> 'a selection list \<Rightarrow> nat \<times> nat" where
  "walk G parent depth spreading [] = (depth, 0)"
| "walk G parent depth spreading (Field name args sub # sels) =
     (let (d2, c2) = walk G parent depth spreading sels in
      if is_meta name then (d2, c2)
      else (case parent name of
              None \<Rightarrow> (d2, c2)
            | Some fd \<Rightarrow>
                let (d1, c1) = (case sub of
                      None \<Rightarrow> (depth + 1, 0)
                    | Some ss \<Rightarrow> (case composite G (fd_type fd) of
                          None \<Rightarrow> (depth + 1, 0) | Some fs \<Rightarrow> walk G fs (depth + 1) spreading ss))
                in (max d1 d2, 1 + multiplier G fd args * c1 + c2)))"
| "walk G parent depth spreading (InlineFragment tc ss # sels) =
     (let (d1, c1) = walk G (narrowed G parent tc) depth spreading ss;
          (d2, c2) = walk G parent depth spreading sels in (max d1 d2, c1 + c2))"
| "walk G parent depth spreading (FragmentSpread name # sels) =
     (let (d2, c2) = walk G parent depth spreading sels in
      case fragment_of G name of
        None \<Rightarrow> (d2, c2)
      | Some (tc, ss) \<Rightarrow>
          if name \<in> set spreading then (d2, c2)
          else (let (d1, c1) = walk G (narrowed G parent (Some tc)) depth (name # spreading) ss
                in (max d1 d2, c1 + c2)))"
  by pat_completeness auto

termination
  by (relation "measures [\<lambda>(G, _, _, sp, _). unspread G sp, \<lambda>(_, _, _, _, sels). size_list (size_selection (\<lambda>_. 0)) sels]")
    (auto simp: unspread_decreases)

definition analyzeOperation ::
  "'a gql \<Rightarrow> operation_kind \<Rightarrow> 'a selection list \<Rightarrow> nat \<times> nat" where
  "analyzeOperation G operation selectionSet =
     (case root_type G operation of None \<Rightarrow> (0, 0) | Some root \<Rightarrow> walk G root 0 [] selectionSet)"

record query_limits =
  maxDepth :: nat
  maxComplexity :: nat

datatype limit_error = QueryTooDeep nat | QueryTooComplex nat

definition assertWithinLimits ::
  "'a gql \<Rightarrow> operation_kind \<Rightarrow> 'a selection list \<Rightarrow> query_limits \<Rightarrow> limit_error + unit" where
  "assertWithinLimits G operation selectionSet config =
     (let (depth, complexity) = analyzeOperation G operation selectionSet in
      if 0 < maxDepth config \<and> maxDepth config < depth then Inl (QueryTooDeep depth)
      else if 0 < maxComplexity config \<and> maxComplexity config < complexity then Inl (QueryTooComplex complexity)
      else Inr ())"

section \<open>Executions\<close>

text \<open>
  What GraphQL execution does with a selection set: a field's resolver is called once per object and
  its sub-selection runs on every object it returned; fragments run where their type condition holds.
  \<open>resolve\<close> is the data, \<open>applies\<close> the type test. \<open>n\<close> counts the calls of the schema's own resolvers.
\<close>

inductive runs ::
  "'a gql \<Rightarrow> (field_def \<Rightarrow> 'a \<Rightarrow> 'o \<Rightarrow> 'o list) \<Rightarrow> (string \<Rightarrow> 'o \<Rightarrow> bool) \<Rightarrow> fields \<Rightarrow> 'o \<Rightarrow> 'a selection list \<Rightarrow> nat \<Rightarrow> bool"
  and runs_all ::
  "'a gql \<Rightarrow> (field_def \<Rightarrow> 'a \<Rightarrow> 'o \<Rightarrow> 'o list) \<Rightarrow> (string \<Rightarrow> 'o \<Rightarrow> bool) \<Rightarrow> fields \<Rightarrow> 'o list \<Rightarrow> 'a selection list \<Rightarrow> nat \<Rightarrow> bool"
  for G resolve applies where
  no_selection: "runs G resolve applies parent obj [] 0"
| meta: "is_meta name \<Longrightarrow> runs G resolve applies parent obj sels n \<Longrightarrow>
    runs G resolve applies parent obj (Field name args sub # sels) n"
| leaf: "\<not> is_meta name \<Longrightarrow> parent name = Some fd \<Longrightarrow> sub = None \<or> composite G (fd_type fd) = None \<Longrightarrow>
    runs G resolve applies parent obj sels n \<Longrightarrow> runs G resolve applies parent obj (Field name args sub # sels) (1 + n)"
| nested: "\<not> is_meta name \<Longrightarrow> parent name = Some fd \<Longrightarrow> composite G (fd_type fd) = Some fs \<Longrightarrow>
    runs_all G resolve applies fs (resolve fd args obj) ss k \<Longrightarrow> runs G resolve applies parent obj sels n \<Longrightarrow>
    runs G resolve applies parent obj (Field name args (Some ss) # sels) (1 + k + n)"
| inline_out: "\<not> applies t obj \<Longrightarrow> runs G resolve applies parent obj sels n \<Longrightarrow>
    runs G resolve applies parent obj (InlineFragment (Some t) ss # sels) n"
| inline_in: "runs G resolve applies (narrowed G parent tc) obj ss k \<Longrightarrow> runs G resolve applies parent obj sels n \<Longrightarrow>
    runs G resolve applies parent obj (InlineFragment tc ss # sels) (k + n)"
| spread_out: "fragment_of G name = Some (t, ss) \<Longrightarrow> \<not> applies t obj \<Longrightarrow> runs G resolve applies parent obj sels n \<Longrightarrow>
    runs G resolve applies parent obj (FragmentSpread name # sels) n"
| spread_in: "fragment_of G name = Some (t, ss) \<Longrightarrow> runs G resolve applies (narrowed G parent (Some t)) obj ss k \<Longrightarrow>
    runs G resolve applies parent obj sels n \<Longrightarrow> runs G resolve applies parent obj (FragmentSpread name # sels) (k + n)"
| no_objects: "runs_all G resolve applies fs [] ss 0"
| objects: "runs G resolve applies fs obj ss k \<Longrightarrow> runs_all G resolve applies fs objs ss n \<Longrightarrow>
    runs_all G resolve applies fs (obj # objs) ss (k + n)"

text \<open>The fragments a selection set spreads, without entering them; validation refuses cycles among them.\<close>

fun spreads :: "'a selection list \<Rightarrow> string set" where
  "spreads [] = {}"
| "spreads (Field name args None # sels) = spreads sels"
| "spreads (Field name args (Some ss) # sels) = spreads ss \<union> spreads sels"
| "spreads (InlineFragment tc ss # sels) = spreads ss \<union> spreads sels"
| "spreads (FragmentSpread name # sels) = insert name (spreads sels)"

definition acyclic_by :: "(string \<Rightarrow> nat) \<Rightarrow> 'a gql \<Rightarrow> bool" where
  "acyclic_by rank G \<longleftrightarrow> (\<forall>f t ss. fragment_of G f = Some (t, ss) \<longrightarrow> (\<forall>g \<in> spreads ss. rank g < rank f))"

text \<open>
  How many records an object stands for: a page of at most \<open>limit\<close> records weighs that many, and its
  records weigh one each. Lists are within their limits if no resolver returns more weight than its
  object has, times the multiplier of the field.
\<close>

definition within_limits :: "'a gql \<Rightarrow> (field_def \<Rightarrow> 'a \<Rightarrow> 'o \<Rightarrow> 'o list) \<Rightarrow> ('o \<Rightarrow> nat) \<Rightarrow> bool" where
  "within_limits G resolve weight \<longleftrightarrow>
     (\<forall>obj. 1 \<le> weight obj) \<and>
     (\<forall>fd args obj. sum_list (map weight (resolve fd args obj)) \<le> weight obj * multiplier G fd args)"

definition above :: "(string \<Rightarrow> nat) \<Rightarrow> string list \<Rightarrow> string set \<Rightarrow> bool" where
  "above rank spreading fs \<longleftrightarrow> (\<forall>f \<in> fs. \<forall>g \<in> set spreading. rank f < rank g)"

lemma above_simps [simp]:
  "above rank sp (A \<union> B) \<longleftrightarrow> above rank sp A \<and> above rank sp B"
  "above rank sp (insert f A) \<longleftrightarrow> (\<forall>g \<in> set sp. rank f < rank g) \<and> above rank sp A"
  by (auto simp: above_def)

lemma above_body:
  assumes "acyclic_by rank G" and "fragment_of G f = Some (t, ss)" and "\<forall>g \<in> set sp. rank f < rank g"
  shows "above rank (f # sp) (spreads ss)" and "f \<notin> set sp"
  using assms by (fastforce simp: above_def acyclic_by_def)+

lemma cost_bounds_runs:
  assumes acyclic: "acyclic_by rank G" and limits: "within_limits G resolve weight"
  shows "runs G resolve applies parent obj sels n \<Longrightarrow>
      above rank sp (spreads sels) \<Longrightarrow> n \<le> weight obj * snd (walk G parent depth sp sels)"
    and "runs_all G resolve applies fs objs ss m \<Longrightarrow>
      above rank sp (spreads ss) \<Longrightarrow> m \<le> sum_list (map weight objs) * snd (walk G fs depth sp ss)"
proof (induction arbitrary: sp depth and sp depth rule: runs_runs_all.inducts)
  case (meta name parent obj sels n args sub)
  then show ?case by (cases sub) (auto simp: Let_def case_prod_unfold)
next
  case (leaf name parent fd sub obj sels n args)
  have "n \<le> weight obj * snd (walk G parent depth sp sels)" using leaf by (cases sub) auto
  moreover have "1 \<le> weight obj" using limits by (simp add: within_limits_def)
  moreover have "snd (walk G parent depth sp (Field name args sub # sels)) = 1 + snd (walk G parent depth sp sels)"
    using leaf(1-3) by (cases sub) (auto simp: Let_def case_prod_unfold)
  ultimately show ?case by (simp add: add_mult_distrib2)
next
  case (nested name parent fd fs args obj ss k sels n)
  let ?c1 = "snd (walk G fs (depth + 1) sp ss)" and ?w = "sum_list (map weight (resolve fd args obj))"
  have "k \<le> ?w * ?c1" using nested by simp
  also have "\<dots> \<le> (weight obj * multiplier G fd args) * ?c1"
    using limits by (simp add: within_limits_def)
  finally have "k \<le> weight obj * (multiplier G fd args * ?c1)" by (simp add: mult.assoc)
  moreover have "n \<le> weight obj * snd (walk G parent depth sp sels)" using nested by simp
  moreover have "1 \<le> weight obj" using limits by (simp add: within_limits_def)
  ultimately show ?case using nested(1-3)
    by (simp add: Let_def case_prod_unfold add_mult_distrib2)
next
  case (inline_out t obj parent sels n ss)
  then show ?case by (fastforce simp: Let_def case_prod_unfold add_mult_distrib2 intro: trans_le_add2)
next
  case (inline_in parent tc obj ss k sels n)
  then show ?case by (simp add: Let_def case_prod_unfold add_mult_distrib2 add_mono)
next
  case (spread_out name t ss obj parent sels n)
  then show ?case by (auto simp: Let_def case_prod_unfold add_mult_distrib2 intro: trans_le_add2)
next
  case (spread_in name t ss parent obj k sels n)
  have guard: "\<forall>g \<in> set sp. rank name < rank g" using spread_in.prems by simp
  note body = above_body [OF acyclic spread_in(1) guard]
  show ?case using spread_in(3) [OF body(1)] spread_in(5) spread_in.prems spread_in(1) body(2)
    by (simp add: Let_def case_prod_unfold add_mult_distrib2 add_mono)
next
  case (objects fs obj ss k objs n)
  then show ?case by (simp add: add_mult_distrib add_mono)
qed simp_all

text \<open>
  C32: the cost of an accepted operation bounds its work. Whatever the data, as long as every list is
  within its limit, executing an operation that passes \<open>assertWithinLimits\<close> calls at most
  \<open>maxComplexity\<close> resolvers.
\<close>

theorem accepted_query_work_is_bounded:
  assumes "assertWithinLimits G operation selectionSet config = Inr ()" and "0 < maxComplexity config"
    and "root_type G operation = Some root" and "runs G resolve applies root obj selectionSet n"
    and "acyclic_by rank G" and "within_limits G resolve weight" and "weight obj = 1"
  shows "n \<le> maxComplexity config"
proof -
  have "n \<le> snd (walk G root 0 [] selectionSet)"
    using cost_bounds_runs(1) [OF assms(5,6,4), of "[]" 0] assms(7) by (simp add: above_def)
  then show ?thesis using assms(1-3)
    by (auto simp: assertWithinLimits_def analyzeOperation_def split: if_splits prod.splits)
qed

text \<open>A one-type schema for examples: \<open>page(limit)\<close> returns a page of \<open>items\<close>.\<close>

definition example_fields :: fields where
  "example_fields = [''page'' \<mapsto> \<lparr>fd_type = ''T'', fd_list = False, fd_args = [''limit'']\<rparr>,
     ''items'' \<mapsto> \<lparr>fd_type = ''T'', fd_list = True, fd_args = []\<rparr>, ''id'' \<mapsto> \<lparr>fd_type = ''ID'', fd_list = False, fd_args = []\<rparr>]"

definition example_gql :: "int option gql" where
  "example_gql =
     \<lparr>composite = (\<lambda>t. if t = ''T'' then Some example_fields else None), root_type = (\<lambda>_. Some example_fields),
      limit_argument = (\<lambda>fd args. args),
      fragments = [(''F'', ''T'', [Field ''id'' None None])]\<rparr>"

definition example_query :: "int option selection list" where
  "example_query = [Field ''page'' (Some 2) (Some [Field ''items'' None (Some [FragmentSpread ''F''])])]"

text \<open>The object \<open>n\<close> weighs \<open>n + 1\<close>.\<close>

definition example_resolve :: "field_def \<Rightarrow> int option \<Rightarrow> nat \<Rightarrow> nat list" where
  "example_resolve fd args obj =
     (let w = Suc obj * multiplier example_gql fd args in if fd_list fd then replicate w 0 else [w - 1])"

lemma multiplier_pos: "0 < multiplier G fd args"
  by (simp add: multiplier_def split: option.splits)

lemma example_within_limits: "within_limits example_gql example_resolve Suc"
  using multiplier_pos [of example_gql]
  by (auto simp: within_limits_def example_resolve_def Let_def sum_list_replicate Suc_le_eq)

lemma example_simps [simp]:
  "example_fields ''page'' = Some \<lparr>fd_type = ''T'', fd_list = False, fd_args = [''limit'']\<rparr>"
  "example_fields ''items'' = Some \<lparr>fd_type = ''T'', fd_list = True, fd_args = []\<rparr>"
  "example_fields ''id'' = Some \<lparr>fd_type = ''ID'', fd_list = False, fd_args = []\<rparr>"
  "composite example_gql ''T'' = Some example_fields" "composite example_gql ''ID'' = None"
  "root_type example_gql k = Some example_fields" "limit_argument example_gql fd args = args"
  "fragment_of example_gql ''F'' = Some (''T'', [Field ''id'' None None])"
  by (simp_all add: example_fields_def example_gql_def fragment_of_def)

lemma example_runs: "runs example_gql example_resolve (\<lambda>_ _. True) example_fields 0 example_query 4"
proof -
  let ?runs = "runs example_gql example_resolve (\<lambda>_ _. True)"
  let ?all = "runs_all example_gql example_resolve (\<lambda>_ _. True) example_fields"
  have "?runs example_fields obj [Field ''id'' None None] (1 + 0)" for obj
    by (rule leaf [where fd = "\<lparr>fd_type = ''ID'', fd_list = False, fd_args = []\<rparr>"]) (simp_all add: is_meta_def no_selection)
  then have F: "?runs example_fields obj [FragmentSpread ''F''] ((1 + 0) + 0)" for obj
    by (intro spread_in [where t = "''T''" and ss = "[Field ''id'' None None]"] no_selection) (simp_all add: narrowed_def no_selection)
  let ?items = "[Field ''items'' None (Some [FragmentSpread ''F''])] :: int option selection list"
  have "?all [0, 0] [FragmentSpread ''F''] (((1 + 0) + 0) + (((1 + 0) + 0) + 0))"
    by (intro objects F no_objects)
  then have "?runs example_fields 1 ?items (1 + (((1 + 0) + 0) + (((1 + 0) + 0) + 0)) + 0)"
    by (intro nested no_selection) (auto simp: is_meta_def example_resolve_def multiplier_def numeral_2_eq_2)
  then have "?all [1] ?items ((1 + (((1 + 0) + 0) + (((1 + 0) + 0) + 0)) + 0) + 0)"
    by (intro objects no_objects)
  then have "?runs example_fields 0 example_query (1 + ((1 + (((1 + 0) + 0) + (((1 + 0) + 0) + 0)) + 0) + 0) + 0)"
    unfolding example_query_def
    by (intro nested no_selection) (auto simp: is_meta_def example_resolve_def multiplier_def)
  then show ?thesis by (simp add: eval_nat_numeral)
qed

lemma example_acyclic: "acyclic_by (\<lambda>_. 0) example_gql"
  by (auto simp: acyclic_by_def fragment_of_def example_gql_def split: if_splits)

lemma example_accepted: "assertWithinLimits example_gql Query example_query \<lparr>maxDepth = 3, maxComplexity = 5\<rparr> = Inr ()"
  by code_simp

theorem accepted_query_work_is_bounded_witness:
  "runs example_gql example_resolve (\<lambda>_ _. True) example_fields 0 example_query 4 \<and> (4 :: nat) \<le> 5"
  using accepted_query_work_is_bounded [OF example_accepted _ _ example_runs example_acyclic example_within_limits]
    example_runs by simp

section \<open>Fragments that double\<close>

text \<open>
  A valid document whose fragment number \<open>k + 1\<close> spreads number \<open>k\<close> twice. The walk enters a fragment
  again at every spread.
\<close>

definition doubling_name :: "nat \<Rightarrow> string" where
  "doubling_name k = replicate (Suc k) (CHR ''f'')"

definition doubling_body :: "nat \<Rightarrow> int option selection list" where
  "doubling_body k = (case k of 0 \<Rightarrow> [Field ''id'' None None]
     | Suc j \<Rightarrow> [FragmentSpread (doubling_name j), FragmentSpread (doubling_name j)])"

definition doubling_gql :: "nat \<Rightarrow> int option gql" where
  "doubling_gql n = example_gql\<lparr>fragments := map (\<lambda>k. (doubling_name k, ''T'', doubling_body k)) [0..<Suc n]\<rparr>"

lemma doubling_name_inj [simp]: "doubling_name j = doubling_name k \<longleftrightarrow> j = k"
  by (auto simp: doubling_name_def dest: arg_cong [where f = length])

lemma doubling_fragment: "k \<le> n \<Longrightarrow> fragment_of (doubling_gql n) (doubling_name k) = Some (''T'', doubling_body k)"
  unfolding fragment_of_def
  by (rule map_of_is_SomeI)
    (auto simp: doubling_gql_def distinct_map inj_on_def rev_map comp_def less_Suc_eq_le simp del: upt_Suc)

lemma doubling_simps [simp]:
  "narrowed (doubling_gql n) parent (Some ''T'') = example_fields"
  "composite (doubling_gql n) ''ID'' = None" "root_type (doubling_gql n) k = Some example_fields"
  by (simp_all add: doubling_gql_def narrowed_def)

lemma doubling_walk:
  "k \<le> n \<Longrightarrow> \<forall>j \<le> k. doubling_name j \<notin> set sp \<Longrightarrow>
     walk (doubling_gql n) parent depth sp [FragmentSpread (doubling_name k)] = (depth + 1, 2 ^ k)"
proof (induction k arbitrary: parent sp)
  case 0
  then show ?case using doubling_fragment [of 0 n] by (simp add: doubling_body_def is_meta_def)
next
  case (Suc k)
  have inner: "walk (doubling_gql n) example_fields depth (doubling_name (Suc k) # sp) [FragmentSpread (doubling_name k)]
      = (depth + 1, 2 ^ k)"
    using Suc by simp
  then have "walk (doubling_gql n) example_fields depth (doubling_name (Suc k) # sp)
      [FragmentSpread (doubling_name k), FragmentSpread (doubling_name k)] = (depth + 1, 2 ^ k + 2 ^ k)"
    using doubling_fragment [of k n] Suc.prems by (auto simp: Let_def case_prod_unfold)
  then show ?case using doubling_fragment [of "Suc k" n] Suc.prems by (simp add: doubling_body_def)
qed

text \<open>
  The analysis has no memory of fragments it has measured. On an operation over \<open>n + 1\<close> acyclic
  fragments of at most two selections each it adds up \<open>2 ^ n\<close> leaves one at a time.
\<close>

theorem doubling_fragments_cost:
  "analyzeOperation (doubling_gql n) Query [FragmentSpread (doubling_name n)] = (1, 2 ^ n)
   \<and> length (fragments (doubling_gql n)) = n + 1 \<and> acyclic_by length (doubling_gql n)
   \<and> list_all (\<lambda>(_, _, ss). length ss \<le> 2) (fragments (doubling_gql n))"
proof (intro conjI)
  have "\<exists>k. f = doubling_name k \<and> ss = doubling_body k" if "fragment_of (doubling_gql n) f = Some (t, ss)" for f t ss
    using map_of_SomeD [OF that [unfolded fragment_of_def]] by (auto simp: doubling_gql_def)
  moreover have "length g < length (doubling_name k)" if "g \<in> spreads (doubling_body k)" for g k
    using that by (auto simp: doubling_body_def doubling_name_def split: nat.splits)
  ultimately show "acyclic_by length (doubling_gql n)" unfolding acyclic_by_def by blast
  show "list_all (\<lambda>(_, _, ss). length ss \<le> 2) (fragments (doubling_gql n))"
    by (auto simp: doubling_gql_def doubling_body_def list_all_iff split: nat.splits)
  show "analyzeOperation (doubling_gql n) Query [FragmentSpread (doubling_name n)] = (1, 2 ^ n)"
    using doubling_walk [of n n "[]" example_fields 0] by (simp add: analyzeOperation_def del: walk.simps)
qed (simp add: doubling_gql_def)

end
