(* ===== verification/Api_Access.thy ===== *)
theory Api_Access
  imports Complex_Main Js_Value
begin

text \<open>
  \<open>graphql-server/src/keys.ts\<close>, \<open>auth.ts\<close> and \<open>rateLimit.ts\<close>: the table of API keys and its
  administration, the resolution of a presented key to a caller, and the token bucket per key. The
  digest is an argument, as are the clock and the random token of a new key. Amounts of tokens are exact.
\<close>

section \<open>The table of keys\<close>

record api_key =
  k_id :: nat
  keyHash :: string
  keyPrefix :: string
  k_label :: string
  rateLimit :: int
  createdAt :: int
  revokedAt :: "int option"
  updatedAt :: int
  export_enabled :: bool

record key_table =
  api_keys :: "api_key list"
  next_id :: nat

datatype key_error = EmptyLabel | BadLimit int | KeyNotFound | UniqueViolation | OutOfRange

datatype key_identifier = IdNumber nat | IdText string

definition generateApiKey :: "string \<Rightarrow> string" where
  "generateApiKey token = ''lum_'' @ token"

definition hashApiKey :: "(string \<Rightarrow> string) \<Rightarrow> string \<Rightarrow> string" where
  "hashApiKey sha key = sha (trim key)"

definition deriveKeyPrefix :: "string \<Rightarrow> string" where
  "deriveKeyPrefix plaintextKey = take 12 plaintextKey @ ''...''"

definition createApiKey ::
  "(string \<Rightarrow> string) \<Rightarrow> string \<Rightarrow> int \<Rightarrow> string \<Rightarrow> int \<Rightarrow> key_table \<Rightarrow> (key_error + api_key \<times> string) \<times> key_table" where
  "createApiKey sha token now label limit db =
     (let trimmedLabel = trim label in
      if trimmedLabel = [] then (Inl EmptyLabel, db)
      else if limit \<le> 0 then (Inl (BadLimit limit), db)
      else if 2 ^ 31 \<le> limit then (Inl OutOfRange, db)
      else
        let plaintextKey = generateApiKey token;
            row = \<lparr>k_id = next_id db, keyHash = hashApiKey sha plaintextKey, keyPrefix = deriveKeyPrefix plaintextKey,
                   k_label = trimmedLabel, rateLimit = limit, createdAt = now, revokedAt = None, updatedAt = now,
                   export_enabled = False\<rparr> in
        if keyHash row \<in> set (map keyHash (api_keys db))
        then (Inl UniqueViolation, db\<lparr>next_id := next_id db + 1\<rparr>)
        else (Inr (row, plaintextKey), db\<lparr>api_keys := api_keys db @ [row], next_id := next_id db + 1\<rparr>))"

text \<open>\<open>ORDER BY created_at DESC, id DESC\<close>.\<close>

definition listApiKeys :: "key_table \<Rightarrow> api_key list" where
  "listApiKeys db = rev (sort_key createdAt (sort_key k_id (api_keys db)))"

text \<open>The \<open>WHERE\<close> clause an identifier selects; a numeral beyond the integer column is an error.\<close>

definition is_numeric :: "key_identifier \<Rightarrow> bool" where
  "is_numeric i = (case i of IdNumber _ \<Rightarrow> True | IdText t \<Rightarrow> trim t \<noteq> [] \<and> list_all is_digit (trim t))"

definition id_value :: "key_identifier \<Rightarrow> nat" where
  "id_value i = (case i of IdNumber n \<Rightarrow> n | IdText t \<Rightarrow> nat_of_digits (trim t))"

definition selects :: "key_identifier \<Rightarrow> key_error + (api_key \<Rightarrow> bool)" where
  "selects i =
     (if is_numeric i
      then (if 2 ^ 31 \<le> int (id_value i) then Inl OutOfRange else Inr (\<lambda>r. k_id r = id_value i))
      else Inr (\<lambda>r. (case i of IdText t \<Rightarrow> keyHash r = t | IdNumber _ \<Rightarrow> False)))"

definition getApiKey :: "key_identifier \<Rightarrow> key_table \<Rightarrow> key_error + api_key option" where
  "getApiKey i db = and_then (selects i) (\<lambda>P. Inr (find P (api_keys db)))"

definition findApiKeyByHash :: "string \<Rightarrow> key_table \<Rightarrow> api_key option" where
  "findApiKeyByHash h db = find (\<lambda>r. keyHash r = h) (api_keys db)"

text \<open>\<open>UPDATE ... WHERE ... RETURNING\<close>, an error when no row matched.\<close>

definition update_keys ::
  "key_identifier \<Rightarrow> (api_key \<Rightarrow> api_key) \<Rightarrow> key_table \<Rightarrow> (key_error + api_key) \<times> key_table" where
  "update_keys i f db =
     (case selects i of
        Inl e \<Rightarrow> (Inl e, db)
      | Inr P \<Rightarrow>
          (case find P (api_keys db) of
             None \<Rightarrow> (Inl KeyNotFound, db)
           | Some r \<Rightarrow> (Inr (f r), db\<lparr>api_keys := map (\<lambda>r. if P r then f r else r) (api_keys db)\<rparr>)))"

definition revokeApiKey :: "int \<Rightarrow> key_identifier \<Rightarrow> key_table \<Rightarrow> (key_error + api_key) \<times> key_table" where
  "revokeApiKey now i = update_keys i (\<lambda>r. r\<lparr>revokedAt := Some now, updatedAt := now\<rparr>)"

definition setApiKeyLimit :: "int \<Rightarrow> key_identifier \<Rightarrow> int \<Rightarrow> key_table \<Rightarrow> (key_error + api_key) \<times> key_table" where
  "setApiKeyLimit now i newLimit db =
     (if newLimit \<le> 0 then (Inl (BadLimit newLimit), db)
      else if 2 ^ 31 \<le> newLimit then (Inl OutOfRange, db)
      else update_keys i (\<lambda>r. r\<lparr>rateLimit := newLimit, updatedAt := now\<rparr>) db)"

definition setApiKeyExportPermission :: "int \<Rightarrow> key_identifier \<Rightarrow> bool \<Rightarrow> key_table \<Rightarrow> (key_error + api_key) \<times> key_table" where
  "setApiKeyExportPermission now i enabled = update_keys i (\<lambda>r. r\<lparr>export_enabled := enabled, updatedAt := now\<rparr>)"

section \<open>Callers\<close>

record api_caller =
  c_keyId :: "nat option"
  c_label :: string
  c_rateLimit :: "int option"

definition ANONYMOUS_CALLER :: api_caller where
  "ANONYMOUS_CALLER = \<lparr>c_keyId = None, c_label = ''anonymous'', c_rateLimit = None\<rparr>"

datatype auth_failure = Missing | Invalid | Revoked | HashMismatch

definition parseAllowAnonymous :: "string option \<Rightarrow> bool" where
  "parseAllowAnonymous raw =
     (case raw of None \<Rightarrow> True
      | Some t \<Rightarrow> (let v = lower_case (trim t) in v = [] \<or> v \<in> set [''1'', ''true'', ''yes'', ''on'']))"

definition digestsMatch :: "string \<Rightarrow> string \<Rightarrow> bool" where
  "digestsMatch l r = (length l = length r \<and> list_all2 (=) l r)"

definition resolveCaller ::
  "(string \<Rightarrow> string) \<Rightarrow> bool \<Rightarrow> string option \<Rightarrow> key_table \<Rightarrow> auth_failure + api_caller" where
  "resolveCaller sha allowAnonymous presentedKey db =
     (let key = (case presentedKey of Some k \<Rightarrow> trim k | None \<Rightarrow> []) in
      if key = [] then (if allowAnonymous then Inr ANONYMOUS_CALLER else Inl Missing)
      else
        let digest = hashApiKey sha key in
        case findApiKeyByHash digest db of
          None \<Rightarrow> Inl Invalid
        | Some r \<Rightarrow>
            if \<not> digestsMatch (keyHash r) digest then Inl HashMismatch
            else if revokedAt r \<noteq> None then Inl Revoked
            else Inr \<lparr>c_keyId = Some (k_id r), c_label = k_label r, c_rateLimit = Some (rateLimit r)\<rparr>)"

text \<open>
  The middleware: the request goes on with its caller, or is answered. A failed lookup (\<open>up\<close> false) is
  handed to the next error handler.
\<close>

datatype auth_response = NextWith api_caller | NextError | Answered nat string

definition failure_message :: "string \<Rightarrow> auth_failure \<Rightarrow> string" where
  "failure_message header reason =
     (if reason = Missing then ''An API key is required. Send one in the `'' @ header @ ''` header.''
      else ''Invalid or revoked API key.'')"

definition apiKeyAuthMiddleware ::
  "(string \<Rightarrow> string) \<Rightarrow> bool \<Rightarrow> string \<Rightarrow> bool \<Rightarrow> string option \<Rightarrow> key_table \<Rightarrow> auth_response" where
  "apiKeyAuthMiddleware sha allowAnonymous header up presentedKey db =
     (if \<not> up \<and> (case presentedKey of Some k \<Rightarrow> trim k \<noteq> [] | None \<Rightarrow> False) then NextError
      else (case resolveCaller sha allowAnonymous presentedKey db of
              Inr c \<Rightarrow> NextWith c | Inl reason \<Rightarrow> Answered 401 (failure_message header reason)))"

section \<open>Token buckets\<close>

record token_bucket =
  tokens :: rat
  lastRefill :: int

type_synonym buckets = "string \<Rightarrow> token_bucket option"

definition bucket_key :: "api_caller \<Rightarrow> string" where
  "bucket_key c = (case c_keyId c of Some n \<Rightarrow> nat_to_string n | None \<Rightarrow> ''anonymous'')"

definition refilled :: "int \<Rightarrow> int \<Rightarrow> token_bucket option \<Rightarrow> token_bucket" where
  "refilled limit now b =
     (let b = (case b of Some b \<Rightarrow> b | None \<Rightarrow> \<lparr>tokens = of_int limit, lastRefill = now\<rparr>);
          elapsed = of_int (now - lastRefill b) / 1000; refillRate = of_int limit / 60
      in \<lparr>tokens = min (of_int limit) (tokens b + elapsed * refillRate), lastRefill = now\<rparr>)"

definition checkRateLimit :: "api_caller \<Rightarrow> int \<Rightarrow> buckets \<Rightarrow> bool \<times> buckets" where
  "checkRateLimit c now bs =
     (case c_rateLimit c of
        None \<Rightarrow> (True, bs)
      | Some limit \<Rightarrow>
          (let b = refilled limit now (bs (bucket_key c)) in
           if tokens b < 1 then (False, bs(bucket_key c \<mapsto> b))
           else (True, bs(bucket_key c \<mapsto> b\<lparr>tokens := tokens b - 1\<rparr>))))"

definition retryAfter :: "api_caller \<Rightarrow> buckets \<Rightarrow> int" where
  "retryAfter c bs =
     (case c_rateLimit c of
        None \<Rightarrow> 0
      | Some limit \<Rightarrow>
          (case bs (bucket_key c) of
             None \<Rightarrow> 0
           | Some b \<Rightarrow> (let tokensNeeded = 1 - tokens b in
                        if tokensNeeded \<le> 0 then 0 else \<lceil>tokensNeeded / (of_int limit / 60)\<rceil>)))"

section \<open>Usage\<close>

record usage_row =
  u_key :: nat
  u_operation :: string
  u_ms :: int
  u_at :: int

text \<open>A failed insert is logged and dropped; anonymous requests are not tracked.\<close>

definition recordUsage :: "bool \<Rightarrow> int \<Rightarrow> api_caller \<Rightarrow> string option \<Rightarrow> int \<Rightarrow> usage_row list \<Rightarrow> usage_row list" where
  "recordUsage up now c operationName ms usage =
     (case c_keyId c of
        None \<Rightarrow> usage
      | Some k \<Rightarrow> (if up then usage @ [\<lparr>u_key = k, u_operation = (case operationName of
             Some n \<Rightarrow> if n = [] then ''unknown'' else n | None \<Rightarrow> ''unknown''), u_ms = ms, u_at = now\<rparr>] else usage))"

definition getUsageStats :: "int \<Rightarrow> nat \<Rightarrow> int \<Rightarrow> usage_row list \<Rightarrow> nat \<times> rat" where
  "getUsageStats now key hours usage =
     (let rows = filter (\<lambda>u. u_key u = key \<and> now - hours * 3600000 < u_at u) usage in
      (length rows, if rows = [] then 0 else of_int (sum_list (map u_ms rows)) / of_nat (length rows)))"

section \<open>Keys stay what they were issued as\<close>

datatype key_op =
    Create string int string int
  | Revoke int key_identifier
  | SetLimit int key_identifier int
  | SetExport int key_identifier bool

fun apply_key_op :: "(string \<Rightarrow> string) \<Rightarrow> key_op \<Rightarrow> key_table \<Rightarrow> key_table" where
  "apply_key_op sha (Create token now label limit) db = snd (createApiKey sha token now label limit db)"
| "apply_key_op sha (Revoke now i) db = snd (revokeApiKey now i db)"
| "apply_key_op sha (SetLimit now i l) db = snd (setApiKeyLimit now i l db)"
| "apply_key_op sha (SetExport now i b) db = snd (setApiKeyExportPermission now i b db)"

definition apply_key_ops :: "(string \<Rightarrow> string) \<Rightarrow> key_op list \<Rightarrow> key_table \<Rightarrow> key_table" where
  "apply_key_ops sha ops db = fold (apply_key_op sha) ops db"

text \<open>Digests and ids are unique, ids come from the sequence, limits are positive.\<close>

definition keys_ok :: "key_table \<Rightarrow> bool" where
  "keys_ok db \<longleftrightarrow> distinct (map keyHash (api_keys db)) \<and> distinct (map k_id (api_keys db))
     \<and> list_all (\<lambda>r. k_id r < next_id db \<and> 0 < rateLimit r \<and> k_label r \<noteq> []) (api_keys db)"

text \<open>What an update may do to a row.\<close>

definition tame :: "(api_key \<Rightarrow> api_key) \<Rightarrow> bool" where
  "tame f \<longleftrightarrow> (\<forall>r. k_id (f r) = k_id r \<and> keyHash (f r) = keyHash r \<and> k_label (f r) = k_label r
     \<and> (0 < rateLimit r \<longrightarrow> 0 < rateLimit (f r)) \<and> (revokedAt r \<noteq> None \<longrightarrow> revokedAt (f r) \<noteq> None))"

definition revoked_hash :: "string \<Rightarrow> key_table \<Rightarrow> bool" where
  "revoked_hash h db \<longleftrightarrow> (\<exists>r \<in> set (api_keys db). keyHash r = h \<and> revokedAt r \<noteq> None)"

lemma update_keys_cases:
  obtains e where "update_keys i f db = (Inl e, db)"
  | P r where "update_keys i f db = (Inr (f r), db\<lparr>api_keys := map (\<lambda>r. if P r then f r else r) (api_keys db)\<rparr>)"
      "selects i = Inr P" "r \<in> set (api_keys db)" "P r"
proof (cases "selects i")
  case (Inr P)
  then show ?thesis using that
    by (cases "find P (api_keys db)") (auto simp: update_keys_def find_Some_iff dest: nth_mem)
qed (use that in \<open>simp add: update_keys_def\<close>)

lemma update_keys_tame:
  assumes "tame f"
  shows "keys_ok db \<Longrightarrow> keys_ok (snd (update_keys i f db))"
    and "revoked_hash h db \<Longrightarrow> revoked_hash h (snd (update_keys i f db))"
proof -
  have m: "map keyHash (map (\<lambda>r. if P r then f r else r) rs) = map keyHash rs"
    "map k_id (map (\<lambda>r. if P r then f r else r) rs) = map k_id rs" for P rs
    using assms by (simp_all add: tame_def)
  show "keys_ok (snd (update_keys i f db))" if "keys_ok db"
  proof (cases rule: update_keys_cases [of i f db])
    case (2 P r)
    then show ?thesis using that assms by (auto simp: keys_ok_def m list_all_iff tame_def simp del: map_map)
  qed (use that in simp)
  show "revoked_hash h (snd (update_keys i f db))" if "revoked_hash h db"
  proof (cases rule: update_keys_cases [of i f db])
    case (2 P r)
    obtain q where q: "q \<in> set (api_keys db)" "keyHash q = h" "revokedAt q \<noteq> None"
      using \<open>revoked_hash h db\<close> by (auto simp: revoked_hash_def)
    have "(if P q then f q else q) \<in> set (api_keys (snd (update_keys i f db)))" using 2(1) q(1) by auto
    then show ?thesis using q assms unfolding revoked_hash_def tame_def by (metis (mono_tags, lifting))
  qed (use that in simp)
qed

lemma tame_updates [simp]:
  "tame (\<lambda>r. r\<lparr>revokedAt := Some now, updatedAt := now\<rparr>)"
  "0 < l \<Longrightarrow> tame (\<lambda>r. r\<lparr>rateLimit := l, updatedAt := now\<rparr>)"
  "tame (\<lambda>r. r\<lparr>export_enabled := b, updatedAt := now\<rparr>)"
  by (simp_all add: tame_def)

lemma create_ok: "keys_ok db \<Longrightarrow> keys_ok (snd (createApiKey sha token now label limit db))"
  by (auto simp: createApiKey_def keys_ok_def Let_def list_all_iff less_Suc_eq)

lemma create_revoked: "revoked_hash h db \<Longrightarrow> revoked_hash h (snd (createApiKey sha token now label limit db))"
  by (auto simp: createApiKey_def revoked_hash_def Let_def)

lemma apply_key_op_keeps:
  "keys_ok db \<Longrightarrow> keys_ok (apply_key_op sha a db)" "revoked_hash h db \<Longrightarrow> revoked_hash h (apply_key_op sha a db)"
  by (cases a; simp add: create_ok create_revoked revokeApiKey_def setApiKeyLimit_def setApiKeyExportPermission_def
      update_keys_tame)+

interpretation keys: invariant_system "\<lambda>db. keys_ok db \<and> revoked_hash h db" "\<lambda>s t. \<exists>a. t = apply_key_op sha a s"
  "\<lambda>db. keys_ok db \<and> revoked_hash h db" for sha h
  by unfold_locales (auto simp: apply_key_op_keeps)

lemma apply_key_ops_star: "(\<lambda>s t. \<exists>a. t = apply_key_op sha a s)\<^sup>*\<^sup>* db (apply_key_ops sha ops db)"
  unfolding apply_key_ops_def
  by (induction ops arbitrary: db) (auto intro: converse_rtranclp_into_rtranclp)

lemma find_hash:
  assumes "distinct (map keyHash rs)" and "r \<in> set rs" and "keyHash r = h"
  shows "find (\<lambda>r. keyHash r = h) rs = Some r"
  using assms by (induction rs) auto

lemma digestsMatch_eq: "digestsMatch l r \<longleftrightarrow> l = r"
  by (auto simp: digestsMatch_def list_all2_eq [symmetric])

lemma find_revoked:
  assumes "keys_ok db" and "revoked_hash h db"
  obtains r where "findApiKeyByHash h db = Some r" and "keyHash r = h" and "revokedAt r \<noteq> None"
  using assms find_hash that unfolding keys_ok_def revoked_hash_def findApiKeyByHash_def by blast

text \<open>
  C30: revocation is final. Once a key was revoked, by id or by digest, no later administration of the
  table makes it usable again, and the client gets the very answer an unknown key gets.
\<close>

theorem revocation_is_final:
  assumes "keys_ok db" and "revokeApiKey now i db = (Inr r, db1)"
    and "trim key \<noteq> []" and "hashApiKey sha (trim key) = keyHash r"
  shows "apiKeyAuthMiddleware sha allowAnonymous header True (Some key) (apply_key_ops sha ops db1)
      = Answered 401 (failure_message header Invalid)"
proof -
  have "revoked_hash (keyHash r) db1"
  proof (cases rule: update_keys_cases [of i "\<lambda>r. r\<lparr>revokedAt := Some now, updatedAt := now\<rparr>" db])
    case (2 P q)
    then show ?thesis using assms(2) by (auto simp: revokeApiKey_def revoked_hash_def)
  qed (use assms(2) in \<open>simp add: revokeApiKey_def\<close>)
  moreover have "keys_ok db1"
    using update_keys_tame(1) [OF tame_updates(1), of db i now] assms(1,2) by (simp add: revokeApiKey_def)
  ultimately have "keys_ok (apply_key_ops sha ops db1) \<and> revoked_hash (keyHash r) (apply_key_ops sha ops db1)"
    using keys.inv_star [OF apply_key_ops_star] by blast
  then obtain q where "findApiKeyByHash (keyHash r) (apply_key_ops sha ops db1) = Some q" "keyHash q = keyHash r"
    "revokedAt q \<noteq> None"
    using find_revoked by blast
  then have "resolveCaller sha allowAnonymous (Some key) (apply_key_ops sha ops db1) = Inl Revoked"
    using assms(3,4) by (simp add: resolveCaller_def Let_def digestsMatch_eq)
  then show ?thesis by (simp add: apiKeyAuthMiddleware_def failure_message_def)
qed

lemma trim_no_space: "list_all (\<lambda>c. \<not> is_space c) s \<Longrightarrow> trim s = s"
proof -
  have "dropWhile is_space t = t" if "list_all (\<lambda>c. \<not> is_space c) t" for t
    using that by (cases t) auto
  then show "list_all (\<lambda>c. \<not> is_space c) s \<Longrightarrow> trim s = s"
    by (simp add: trim_def trim_start_def list_all_rev)
qed

text \<open>
  The key handed out is the key that works: right after its creation it resolves to a caller with
  the id, label and limit it was created with, whatever else the table holds.
\<close>

theorem created_key_resolves:
  assumes "keys_ok db" and "createApiKey sha token now label limit db = (Inr (row, plaintextKey), db')"
    and "list_all (\<lambda>c. \<not> is_space c) token"
  shows "resolveCaller sha allowAnonymous (Some plaintextKey) db'
      = Inr \<lparr>c_keyId = Some (next_id db), c_label = trim label, c_rateLimit = Some limit\<rparr>"
proof -
  have key: "plaintextKey = ''lum_'' @ token" "keyHash row = sha (trim plaintextKey)" "row \<in> set (api_keys db')"
    and row: "k_id row = next_id db" "k_label row = trim label" "rateLimit row = limit" "revokedAt row = None"
    using assms(2) by (auto simp: createApiKey_def generateApiKey_def hashApiKey_def Let_def split: if_splits)
  have trim: "trim plaintextKey = plaintextKey"
    using assms(3) key(1) by (intro trim_no_space) (simp add: is_space_def char_code_def)
  have "keys_ok db'" using create_ok [OF assms(1), of sha token now label limit] assms(2) by simp
  then have "findApiKeyByHash (sha plaintextKey) db' = Some row"
    using find_hash [OF _ key(3)] key(2) trim by (simp add: keys_ok_def findApiKeyByHash_def)
  then show ?thesis using key(1,2) row trim by (simp add: resolveCaller_def hashApiKey_def digestsMatch_eq Let_def)
qed

section \<open>The bucket bounds the requests\<close>

text \<open>Requests in time order, each with the decision.\<close>

fun decisions :: "(api_caller \<times> int) list \<Rightarrow> buckets \<Rightarrow> (api_caller \<times> int \<times> bool) list" where
  "decisions [] bs = []"
| "decisions ((c, now) # rs) bs = (let (ok, bs') = checkRateLimit c now bs in (c, now, ok) # decisions rs bs')"

definition allowed :: "string \<Rightarrow> (api_caller \<times> int \<times> bool) list \<Rightarrow> nat" where
  "allowed k ds = length (filter (\<lambda>(c, _, ok). ok \<and> bucket_key c = k) ds)"

lemma allowed_simps [simp]:
  "allowed k [] = 0" "allowed k ((c, now, ok) # ds) = (if ok \<and> bucket_key c = k then 1 else 0) + allowed k ds"
  by (simp_all add: allowed_def)

text \<open>What the bucket can still pay for at a given time.\<close>

definition credit :: "int \<Rightarrow> int \<Rightarrow> token_bucket option \<Rightarrow> rat" where
  "credit limit now b = tokens (refilled limit now b)"

text \<open>The tokens that flow in over a time.\<close>

definition refill :: "int \<Rightarrow> int \<Rightarrow> rat" where
  "refill limit ms = of_int ms * of_int limit / 60000"

lemma refill_split: "refill limit (c - a) = refill limit (b - a) + refill limit (c - b)"
  by (simp add: refill_def field_simps)

lemma refill_nonneg: "0 < limit \<Longrightarrow> 0 \<le> ms \<Longrightarrow> 0 \<le> refill limit ms"
  by (simp add: refill_def)

lemma credit_simps:
  "credit limit now None = of_int limit"
  "credit limit now (Some b) = min (of_int limit) (tokens b + refill limit (now - lastRefill b))"
  by (simp_all add: credit_def refilled_def refill_def Let_def)

definition sane :: "int \<Rightarrow> int \<Rightarrow> token_bucket option \<Rightarrow> bool" where
  "sane limit now b \<longleftrightarrow> (case b of None \<Rightarrow> True | Some b \<Rightarrow> 0 \<le> tokens b \<and> lastRefill b \<le> now)"

lemma credit_nonneg: "0 < limit \<Longrightarrow> sane limit now b \<Longrightarrow> 0 \<le> credit limit now b"
  by (cases b) (auto simp: credit_simps sane_def refill_nonneg)

lemma credit_grows:
  assumes "0 < limit" and "now \<le> later"
  shows "credit limit later b \<le> credit limit now b + refill limit (later - now)"
proof (cases b)
  case (Some c)
  then show ?thesis
    using refill_nonneg [OF assms(1), of "later - now"] refill_split [of limit later "lastRefill c" now] assms(2)
    by (simp add: credit_simps)
qed (use assms refill_nonneg in \<open>simp add: credit_simps\<close>)

lemma checkRateLimit_credit:
  assumes "c_rateLimit c = Some limit" and "0 < limit" and "sane limit now (bs (bucket_key c))"
    and "checkRateLimit c now bs = (ok, bs')"
  shows "ok \<longleftrightarrow> 1 \<le> credit limit now (bs (bucket_key c))"
    and "sane limit now (bs' (bucket_key c))"
    and "credit limit now (bs' (bucket_key c)) = credit limit now (bs (bucket_key c)) - (if ok then 1 else 0)"
proof -
  let ?b = "refilled limit now (bs (bucket_key c))"
  have t: "tokens ?b = credit limit now (bs (bucket_key c))" "lastRefill ?b = now" "tokens ?b \<le> of_int limit"
    by (simp_all add: credit_def refilled_def Let_def)
  have n: "0 \<le> tokens ?b" using credit_nonneg [OF assms(2,3)] t(1) by simp
  have c: "credit limit now (Some b) = min (of_int limit) (tokens b)" if "lastRefill b = now" for b
    using that by (simp add: credit_simps refill_def)
  show "ok \<longleftrightarrow> 1 \<le> credit limit now (bs (bucket_key c))"
    using assms(1,4) t(1) by (auto simp: checkRateLimit_def Let_def split: if_splits)
  show "sane limit now (bs' (bucket_key c))"
    using assms(1,4) t n by (auto simp: checkRateLimit_def Let_def sane_def split: if_splits)
  show "credit limit now (bs' (bucket_key c)) = credit limit now (bs (bucket_key c)) - (if ok then 1 else 0)"
    using assms(1,4) t by (auto simp: checkRateLimit_def Let_def c split: if_splits)
qed

lemma checkRateLimit_other: "checkRateLimit c now bs = (ok, bs') \<Longrightarrow> bucket_key c \<noteq> k \<Longrightarrow> bs' k = bs k"
  by (auto simp: checkRateLimit_def Let_def split: option.splits if_splits)

lemma allowed_le_credit:
  assumes "0 < limit" and "list_all (\<lambda>(c, now). bucket_key c = k \<longrightarrow> c_rateLimit c = Some limit) rs"
    and "sorted (t # map snd rs)" and "list_all (\<lambda>(c, now). now \<le> T) rs" and "t \<le> T" and "sane limit t (bs k)"
  shows "of_nat (allowed k (decisions rs bs)) \<le> credit limit t (bs k) + refill limit (T - t)"
  using assms(2-6)
proof (induction rs arbitrary: t bs)
  case Nil
  then show ?case using credit_nonneg [OF assms(1) Nil(5)] refill_nonneg [OF assms(1), of "T - t"] by simp
next
  case (Cons r rs)
  obtain c now where r: "r = (c, now)" by (cases r)
  obtain ok bs' where ck: "checkRateLimit c now bs = (ok, bs')" by fastforce
  have now: "t \<le> now" "now \<le> T" using Cons.prems r by auto
  have sane: "sane limit now (bs k)" using Cons.prems(5) now(1) by (auto simp: sane_def split: option.splits)
  let ?use = "if ok \<and> bucket_key c = k then 1 else 0 :: rat"
  have step: "sane limit now (bs' k) \<and> credit limit now (bs' k) = credit limit now (bs k) - ?use"
  proof (cases "bucket_key c = k")
    case True
    then show ?thesis using checkRateLimit_credit [OF _ assms(1) _ ck] Cons.prems(1) r sane by auto
  next
    case False
    then show ?thesis using checkRateLimit_other [OF ck] sane by simp
  qed
  have "of_nat (allowed k (decisions rs bs')) \<le> credit limit now (bs' k) + refill limit (T - now)"
    using Cons.IH [of now bs'] Cons.prems r now step by simp
  then show ?case
    using credit_grows [OF assms(1) now(1), of "bs k"] refill_split [of limit T t now] step r ck by (auto simp: Let_def)
qed

text \<open>
  However requests arrive, between two moments a key gets at most one full bucket plus the refill
  of the time between: the limit, and a sixtieth of it per second. Other callers' requests in between
  make no difference.
\<close>

theorem rate_limit_bounds_requests:
  assumes "0 < limit" and "list_all (\<lambda>(c, now). bucket_key c = k \<longrightarrow> c_rateLimit c = Some limit) rs"
    and "sorted (map snd rs)" and "list_all (\<lambda>(c, now). from \<le> now \<and> now \<le> till) rs" and "from \<le> till"
  shows "of_nat (allowed k (decisions rs Map.empty)) \<le> of_int limit + of_int (till - from) / 1000 * (of_int limit / 60 :: rat)"
proof -
  have "sorted (from # map snd rs)" "list_all (\<lambda>(c, now). now \<le> till) rs" "sane limit from (Map.empty k)"
    using assms(3,4) by (auto simp: list_all_iff sane_def)
  from allowed_le_credit [OF assms(1,2) this(1,2) assms(5) this(3)]
  show ?thesis by (simp add: credit_simps refill_def)
qed

text \<open>
  A refused caller that waits for the announced number of seconds is served, unless it was served
  in between.
\<close>

theorem retry_after_suffices:
  assumes "checkRateLimit c now bs = (False, bs')" and "c_rateLimit c = Some limit" and "0 < limit"
  shows "fst (checkRateLimit c (now + 1000 * retryAfter c bs') bs')"
proof -
  let ?s = "retryAfter c bs'"
  obtain b where b: "bs' (bucket_key c) = Some b" "tokens b < 1" "lastRefill b = now"
    using assms by (auto simp: checkRateLimit_def Let_def refilled_def split: if_splits)
  have "?s = \<lceil>(1 - tokens b) / (of_int limit / 60)\<rceil>" using b assms(2) by (simp add: retryAfter_def Let_def)
  then have "(1 - tokens b) / (of_int limit / 60) \<le> of_int ?s" by linarith
  then have "1 - tokens b \<le> of_int ?s * (of_int limit / 60)" using assms(3) by (simp add: field_simps)
  moreover have "refill limit (1000 * ?s) = of_int ?s * (of_int limit / 60)" by (simp add: refill_def)
  ultimately have "1 \<le> credit limit (now + 1000 * ?s) (bs' (bucket_key c))"
    using b assms(3) by (simp add: credit_simps)
  then show ?thesis using assms(2) by (simp add: checkRateLimit_def credit_def Let_def)
qed

section \<open>Examples\<close>

definition two_keys :: key_table where
  "two_keys = snd (createApiKey id ''bb'' 5 ''other'' 7 (snd (createApiKey id ''aa'' 1 ''app'' 60 \<lparr>api_keys = [], next_id = 1\<rparr>)))"

lemma two_keys_eval:
  "keys_ok two_keys"
  "fst (revokeApiKey 9 (IdText '' 1 '') two_keys) = Inr \<lparr>k_id = 1, keyHash = ''lum_aa'', keyPrefix = ''lum_aa...'', k_label = ''app'',
     rateLimit = 60, createdAt = 1, revokedAt = Some 9, updatedAt = 9, export_enabled = False\<rparr>"
  "trim '' lum_aa'' = ''lum_aa''"
  by code_simp+

theorem revocation_is_final_witness:
  "apiKeyAuthMiddleware id True ''x-api-key'' True (Some '' lum_aa'')
     (apply_key_ops id [SetLimit 11 (IdNumber 1) 99, Create ''aa'' 12 ''again'' 5] (snd (revokeApiKey 9 (IdText '' 1 '') two_keys)))
   = Answered 401 ''Invalid or revoked API key.''"
  using revocation_is_final [OF two_keys_eval(1), of 9 "IdText '' 1 ''" _ "snd (revokeApiKey 9 (IdText '' 1 '') two_keys)"
      "'' lum_aa''" id True "''x-api-key''" "[SetLimit 11 (IdNumber 1) 99, Create ''aa'' 12 ''again'' 5]",
      OF prod_eqI [OF two_keys_eval(2) [THEN trans [OF _ fst_conv [symmetric]]] snd_conv [symmetric]]]
  by (simp add: two_keys_eval(3) hashApiKey_def trim_def trim_start_def is_space_def char_code_def failure_message_def)

lemma third_key_eval:
  "createApiKey id ''cc'' 6 '' new '' 5 two_keys =
     (Inr (\<lparr>k_id = 3, keyHash = ''lum_cc'', keyPrefix = ''lum_cc...'', k_label = ''new'', rateLimit = 5, createdAt = 6,
            revokedAt = None, updatedAt = 6, export_enabled = False\<rparr>, ''lum_cc''),
      snd (createApiKey id ''cc'' 6 '' new '' 5 two_keys))"
  "next_id two_keys = 3" "trim '' new '' = ''new''" "list_all (\<lambda>c. \<not> is_space c) ''cc''"
  by code_simp+

theorem created_key_resolves_witness:
  "resolveCaller id False (Some ''lum_cc'') (snd (createApiKey id ''cc'' 6 '' new '' 5 two_keys))
     = Inr \<lparr>c_keyId = Some 3, c_label = ''new'', c_rateLimit = Some 5\<rparr>"
  using created_key_resolves [OF two_keys_eval(1) third_key_eval(1) third_key_eval(4), of False]
  by (simp add: third_key_eval(2,3))

text \<open>Three requests of a caller with one request a minute, and a fourth after the pause.\<close>

definition slow_caller :: api_caller where
  "slow_caller = \<lparr>c_keyId = Some 4, c_label = ''s'', c_rateLimit = Some 1\<rparr>"

lemma key_four: "nat_to_string 4 = ''4''"
  by code_simp

theorem rate_limit_bounds_requests_witness:
  "of_nat (allowed ''4'' (decisions [(slow_caller, 0), (slow_caller, 1000), (ANONYMOUS_CALLER, 2000), (slow_caller, 60000)] Map.empty))
     \<le> (2 :: rat)"
  using rate_limit_bounds_requests [of 1 "''4''" "[(slow_caller, 0), (slow_caller, 1000), (ANONYMOUS_CALLER, 2000), (slow_caller, 60000)]"
      0 60000]
  by (simp add: slow_caller_def ANONYMOUS_CALLER_def bucket_key_def)

lemma slow_caller_refused:
  "checkRateLimit slow_caller 1000 [''4'' \<mapsto> \<lparr>tokens = 0, lastRefill = 0\<rparr>]
     = (False, [''4'' \<mapsto> \<lparr>tokens = 1 / 60, lastRefill = 1000\<rparr>])"
  by (simp add: checkRateLimit_def refilled_def slow_caller_def bucket_key_def Let_def key_four)

theorem retry_after_suffices_witness:
  "fst (checkRateLimit slow_caller (1000 + 1000 * retryAfter slow_caller [''4'' \<mapsto> \<lparr>tokens = 1 / 60, lastRefill = 1000\<rparr>])
     [''4'' \<mapsto> \<lparr>tokens = 1 / 60, lastRefill = 1000\<rparr>])"
  using retry_after_suffices [OF slow_caller_refused, of 1] by (simp add: slow_caller_def)

end
