(* ===== verification/Network_Registry.thy ===== *)
theory Network_Registry
  imports Js_Text
begin

text \<open>
  \<open>indexer/src/networks.ts\<close> and its copy \<open>graphql-server/src/networks.ts\<close>: the networks a deployment
  declares in its environment, and the network a query argument selects. An environment is the list of
  its variables; every \<open>NetworkConfigError\<close> is a value.
\<close>

section \<open>Configuration\<close>

definition KNOWN_NETWORKS :: "string list" where
  "KNOWN_NETWORKS = [''mainnet'', ''testnet'', ''futurenet'']"

definition defaultPassphrase :: "string \<Rightarrow> string" where
  "defaultPassphrase name =
     (if name = ''testnet'' then ''Test SDF Network ; September 2015''
      else if name = ''futurenet'' then ''Test SDF Future Network ; October 2022''
      else ''Public Global Stellar Network ; September 2015'')"

definition DEFAULT_HORIZON_URL :: string where
  "DEFAULT_HORIZON_URL = ''https://horizon.stellar.org''"

datatype network_config_error =
    NoNames | DeclaredTwice string | UnknownNetwork string | MissingVariable string
  | SetWithoutNetworks "string list" | Undeclared "string list" | PrimaryUndeclared string

text \<open>\<open>horizonUrl\<close> is empty where the source stores \<open>undefined\<close>.\<close>

record network_config =
  nc_name :: string
  horizonUrl :: "string list"
  sorobanRpcUrl :: "string option"
  networkPassphrase :: string

record network_registry =
  networks :: "network_config list"
  primary :: network_config

type_synonym environment = "(string \<times> string) list"

fun check_names :: "string list \<Rightarrow> string list \<Rightarrow> network_config_error + unit" where
  "check_names seen [] = Inr ()"
| "check_names seen (name # names) =
     (if name \<in> set seen then Inl (DeclaredTwice name)
      else if name \<notin> set KNOWN_NETWORKS then Inl (UnknownNetwork name)
      else check_names (name # seen) names)"

definition optional_var :: "environment \<Rightarrow> string \<Rightarrow> string option" where
  "optional_var env key =
     (case map_of env key of None \<Rightarrow> None | Some v \<Rightarrow> if trim v = [] then None else Some (trim v))"

definition parseNetworkNames :: "environment \<Rightarrow> network_config_error + string list option" where
  "parseNetworkNames env =
     (case optional_var env ''NETWORKS'' of
        None \<Rightarrow> Inr None
      | Some raw \<Rightarrow>
          (let names = filter (\<lambda>n. n \<noteq> []) (map (\<lambda>n. lower_case (trim n)) (split_on (CHR '','') raw)) in
           if names = [] then Inl NoNames
           else and_then (check_names [] names) (\<lambda>_. Inr (Some names))))"

definition ends_with :: "string \<Rightarrow> string \<Rightarrow> bool" where
  "ends_with s suffix = (drop (length s - length suffix) s = suffix)"

definition prefixedEndpointVars :: "environment \<Rightarrow> (string \<times> string) list" where
  "prefixedEndpointVars env =
     filter (\<lambda>(_, prefix). prefix \<noteq> [])
       (concat (map (\<lambda>(key, _). case find (ends_with key) [''_HORIZON_URL'', ''_SOROBAN_RPC_URL''] of
           Some suffix \<Rightarrow> [(key, take (length key - length suffix) key)] | None \<Rightarrow> []) env))"

definition required :: "environment \<Rightarrow> string \<Rightarrow> network_config_error + string" where
  "required env key = (case optional_var env key of Some v \<Rightarrow> Inr v | None \<Rightarrow> Inl (MissingVariable key))"

definition endpointValue :: "string \<Rightarrow> string list" where
  "endpointValue v = filter (\<lambda>e. e \<noteq> []) (map trim (split_on (CHR '','') v))"

definition or_default :: "string option \<Rightarrow> string \<Rightarrow> string" where
  "or_default v d = (case v of Some x \<Rightarrow> x | None \<Rightarrow> d)"

definition buildNetwork :: "environment \<Rightarrow> string \<Rightarrow> string \<Rightarrow> network_config_error + network_config" where
  "buildNetwork env name prefix =
     and_then (required env (prefix @ ''_HORIZON_URL'')) (\<lambda>h.
     Inr \<lparr>nc_name = name, horizonUrl = endpointValue h,
          sorobanRpcUrl = optional_var env (prefix @ ''_SOROBAN_RPC_URL''),
          networkPassphrase = or_default (optional_var env (prefix @ ''_NETWORK_PASSPHRASE'')) (defaultPassphrase name)\<rparr>)"

definition flat_network :: "environment \<Rightarrow> network_config_error + network_registry" where
  "flat_network env =
     (let name = lower_case (trim (or_default (map_of env ''PRIMARY_NETWORK'') ''mainnet'')) in
      if name \<notin> set KNOWN_NETWORKS then Inl (UnknownNetwork name)
      else (let n = \<lparr>nc_name = name,
                     horizonUrl = endpointValue (or_default (optional_var env ''HORIZON_URL'') DEFAULT_HORIZON_URL),
                     sorobanRpcUrl = optional_var env ''SOROBAN_RPC_URL'',
                     networkPassphrase = or_default (optional_var env ''NETWORK_PASSPHRASE'') (defaultPassphrase name)\<rparr>
            in Inr \<lparr>networks = [n], primary = n\<rparr>))"

definition choose_primary :: "environment \<Rightarrow> network_config list \<Rightarrow> network_config_error + network_registry" where
  "choose_primary env ns =
     (case optional_var env ''PRIMARY_NETWORK'' of
        None \<Rightarrow> (case ns of [] \<Rightarrow> Inl NoNames | n # _ \<Rightarrow> Inr \<lparr>networks = ns, primary = n\<rparr>)
      | Some r \<Rightarrow> (case find (\<lambda>n. nc_name n = lower_case r) ns of
                     None \<Rightarrow> Inl (PrimaryUndeclared (lower_case r)) | Some n \<Rightarrow> Inr \<lparr>networks = ns, primary = n\<rparr>))"

definition resolveNetworks :: "environment \<Rightarrow> network_config_error + network_registry" where
  "resolveNetworks env =
     and_then (parseNetworkNames env) (\<lambda>names.
     let declared = prefixedEndpointVars env in
     case names of
       None \<Rightarrow> (if declared \<noteq> [] then Inl (SetWithoutNetworks (map fst declared)) else flat_network env)
     | Some names \<Rightarrow>
         (let stray = filter (\<lambda>(_, prefix). lower_case prefix \<notin> set names) declared in
          if stray \<noteq> [] then Inl (Undeclared (map fst stray))
          else and_then (traverse (\<lambda>name. buildNetwork env name (upper_case name)) names) (choose_primary env)))"

definition networkEnumValue :: "string \<Rightarrow> string" where
  "networkEnumValue name = upper_case name"

definition resolveNetworkArgument :: "string option \<Rightarrow> network_registry \<Rightarrow> string + network_config" where
  "resolveNetworkArgument requested reg =
     (case requested of
        None \<Rightarrow> Inr (primary reg)
      | Some r \<Rightarrow> (case find (\<lambda>n. nc_name n = lower_case r) (networks reg) of Some n \<Rightarrow> Inr n | None \<Rightarrow> Inl r))"

section \<open>What resolves is well-formed\<close>

definition registry_ok :: "network_registry \<Rightarrow> bool" where
  "registry_ok reg \<longleftrightarrow> primary reg \<in> set (networks reg) \<and> distinct (map nc_name (networks reg))
     \<and> set (map nc_name (networks reg)) \<subseteq> set KNOWN_NETWORKS"

lemma check_names_ok:
  "check_names seen names = Inr () \<Longrightarrow> distinct names \<and> set names \<inter> set seen = {} \<and> set names \<subseteq> set KNOWN_NETWORKS"
  by (induction seen names rule: check_names.induct) (auto split: if_splits)

lemma parsed_names_ok:
  "parseNetworkNames env = Inr (Some names) \<Longrightarrow> names \<noteq> [] \<and> distinct names \<and> set names \<subseteq> set KNOWN_NETWORKS"
  by (auto simp: parseNetworkNames_def Let_def and_then_def dest!: check_names_ok split: option.splits if_splits sum.splits)

lemma traverse_names:
  "traverse (\<lambda>name. buildNetwork env name (upper_case name)) names = Inr ns \<Longrightarrow> map nc_name ns = names"
  by (induction names arbitrary: ns) (auto simp: and_then_def buildNetwork_def split: sum.splits)

lemma choose_primary_ok:
  "choose_primary env ns = Inr reg \<Longrightarrow> networks reg = ns \<and> primary reg \<in> set ns"
  by (auto simp: choose_primary_def find_Some_iff split: option.splits list.splits)

lemma find_by_key: "inj_on key (set xs) \<Longrightarrow> find (\<lambda>x. key x = k) xs = Some y \<longleftrightarrow> y \<in> set xs \<and> key y = k"
  by (induction xs) auto

text \<open>
  C40: whatever the environment, a deployment that comes up has a non-empty set of distinct, known
  networks with the primary among them; and a query argument selects exactly the network it names, or
  is an error.
\<close>

theorem resolved_networks_are_well_formed:
  assumes "resolveNetworks env = Inr reg"
  shows "registry_ok reg
    \<and> (resolveNetworkArgument (Some r) reg = Inr n \<longleftrightarrow> n \<in> set (networks reg) \<and> nc_name n = lower_case r)"
proof -
  have ok: "registry_ok reg"
  proof (cases "parseNetworkNames env")
    case (Inr names)
    show ?thesis
    proof (cases names)
      case None
      then show ?thesis using assms Inr
        by (auto simp: resolveNetworks_def flat_network_def registry_ok_def and_then_def Let_def split: if_splits)
    next
      case (Some ns)
      then obtain cs where "traverse (\<lambda>name. buildNetwork env name (upper_case name)) ns = Inr cs"
        "choose_primary env cs = Inr reg"
        using assms Inr by (auto simp: resolveNetworks_def and_then_def Let_def split: if_splits sum.splits)
      then show ?thesis
        using parsed_names_ok [of env ns] Inr Some traverse_names [of env ns cs] choose_primary_ok [of env cs reg]
        by (simp add: registry_ok_def)
    qed
  qed (use assms in \<open>simp add: resolveNetworks_def and_then_def\<close>)
  then have "inj_on nc_name (set (networks reg))" by (simp add: registry_ok_def distinct_map)
  then have "find (\<lambda>m. nc_name m = lower_case r) (networks reg) = Some n \<longleftrightarrow> n \<in> set (networks reg) \<and> nc_name n = lower_case r"
    by (rule find_by_key)
  then show ?thesis using ok by (auto simp: resolveNetworkArgument_def split: option.splits)
qed

definition one_network :: environment where
  "one_network = [(''NETWORKS'', '' TestNet''), (''TESTNET_HORIZON_URL'', ''a,b'')]"

lemma one_network_eval:
  "resolveNetworks one_network =
     (let t = \<lparr>nc_name = ''testnet'', horizonUrl = [''a'', ''b''], sorobanRpcUrl = None,
               networkPassphrase = ''Test SDF Network ; September 2015''\<rparr>
      in Inr \<lparr>networks = [t], primary = t\<rparr>)"
  by code_simp

lemma lower_case_testnet: "lower_case ''TESTNET'' = ''testnet''"
  by code_simp

theorem resolved_networks_are_well_formed_witness:
  "resolveNetworkArgument (Some ''TESTNET'') (projr (resolveNetworks one_network)) =
     Inr \<lparr>nc_name = ''testnet'', horizonUrl = [''a'', ''b''], sorobanRpcUrl = None,
          networkPassphrase = ''Test SDF Network ; September 2015''\<rparr>"
  using resolved_networks_are_well_formed [OF one_network_eval [unfolded Let_def], of "''TESTNET''"
      "\<lparr>nc_name = ''testnet'', horizonUrl = [''a'', ''b''], sorobanRpcUrl = None,
        networkPassphrase = ''Test SDF Network ; September 2015''\<rparr>"]
  by (simp add: one_network_eval Let_def lower_case_testnet)

text \<open>A value of commas alone passes for an endpoint list and yields none.\<close>

lemma no_endpoint_is_accepted: "map_sum id (map horizonUrl \<circ> networks) (resolveNetworks [(''HORIZON_URL'', '' , '')]) = Inr [[]]"
  by code_simp

end
