(* ===== verification/Health.thy ===== *)
theory Health
  imports Complex_Main Lumina_Prelude
begin

text \<open>
  \<open>indexer/src/health.ts\<close>: the fold of the networks' positions into one, the health report and the
  status codes of the probes. Times are milliseconds; the texts of the details are left out.
\<close>

section \<open>State and report\<close>

record thresholds =
  maxSecondsSinceIndex :: rat
  maxLagLedgers :: int
  startToleranceSeconds :: rat

definition DEFAULT_THRESHOLDS :: thresholds where
  "DEFAULT_THRESHOLDS = \<lparr>maxSecondsSinceIndex = 60, maxLagLedgers = 20, startToleranceSeconds = 300\<rparr>"

record network_state =
  ns_network :: string
  ns_indexed :: int
  ns_horizon :: int
  ns_lastIndexedAt :: "int option"
  ns_paused :: bool

record indexer_state =
  st_indexed :: int
  st_horizon :: int
  st_lastIndexedAt :: "int option"
  st_startedAt :: int
  st_networks :: "network_state list option"

definition lag :: "network_state \<Rightarrow> int" where
  "lag e = max 0 (ns_horizon e - ns_indexed e)"

definition worse :: "network_state \<Rightarrow> network_state \<Rightarrow> network_state" where
  "worse acc e =
     (case (ns_lastIndexedAt e, ns_lastIndexedAt acc) of
        (None, Some _) \<Rightarrow> e
      | (Some _, None) \<Rightarrow> acc
      | (Some t, Some u) \<Rightarrow> if t < u then e else if u < t then acc else if lag acc < lag e then e else acc
      | (None, None) \<Rightarrow> if lag acc < lag e then e else acc)"

definition aggregateNetworkStates :: "int \<Rightarrow> network_state list \<Rightarrow> indexer_state" where
  "aggregateNetworkStates startedAt entries =
     (case entries of
        [] \<Rightarrow> \<lparr>st_indexed = 0, st_horizon = 0, st_lastIndexedAt = None, st_startedAt = startedAt, st_networks = None\<rparr>
      | e # es \<Rightarrow> (let w = foldl worse e es in
          \<lparr>st_indexed = ns_indexed w, st_horizon = ns_horizon w, st_lastIndexedAt = ns_lastIndexedAt w,
           st_startedAt = startedAt, st_networks = Some entries\<rparr>))"

datatype health_status = Ok | Degraded | Starting

datatype check_name = DatabaseCheck | HorizonAvailability | IndexingFreshness | IndexingLag

record network_health =
  nh_network :: string
  nh_indexed :: int
  nh_horizon :: int
  nh_lag :: int
  nh_age :: "rat option"
  nh_paused :: bool

record health_report =
  hr_status :: health_status
  hr_uptimeSeconds :: int
  hr_indexed :: int
  hr_horizon :: int
  hr_lag :: int
  hr_age :: "rat option"
  hr_databaseOk :: bool
  hr_checks :: "(check_name \<times> bool) list"
  hr_networks :: "network_health list option"

definition age :: "int \<Rightarrow> int option \<Rightarrow> rat option" where
  "age now indexedAt = map_option (\<lambda>t. of_int (now - t) / 1000) indexedAt"

definition is_paused :: "indexer_state \<Rightarrow> bool" where
  "is_paused state = (case st_networks state of Some ns \<Rightarrow> list_ex ns_paused ns | None \<Rightarrow> False)"

text \<open>\<open>probe\<close> is the outcome of \<open>SELECT 1\<close>, \<open>None\<close> when the report is built without a pool.\<close>

definition buildHealthReport :: "indexer_state \<Rightarrow> bool option \<Rightarrow> thresholds \<Rightarrow> int \<Rightarrow> health_report" where
  "buildHealthReport state probe th now =
     (let secondsSinceLastIndex = age now (st_lastIndexedAt state);
          lagLedgers = max 0 (st_horizon state - st_indexed state);
          uptimeSeconds = of_int (now - st_startedAt state) / 1000;
          startingTolerance = (uptimeSeconds \<le> startToleranceSeconds th);
          starting = (st_lastIndexedAt state = None \<and> startingTolerance);
          neverIndexedButExpired = (st_lastIndexedAt state = None \<and> \<not> startingTolerance);
          freshnessOk = (case secondsSinceLastIndex of None \<Rightarrow> \<not> neverIndexedButExpired
                         | Some s \<Rightarrow> s \<le> maxSecondsSinceIndex th);
          lagOk = (starting \<or> lagLedgers \<le> maxLagLedgers th);
          checks = (case probe of Some b \<Rightarrow> [(DatabaseCheck, b)] | None \<Rightarrow> [])
            @ [(HorizonAvailability, \<not> is_paused state), (IndexingFreshness, freshnessOk), (IndexingLag, lagOk)];
          failing = list_ex (\<lambda>(_, ok). \<not> ok) checks
      in \<lparr>hr_status = (if failing then Degraded else if starting then Starting else Ok),
          hr_uptimeSeconds = round uptimeSeconds, hr_indexed = st_indexed state, hr_horizon = st_horizon state,
          hr_lag = lagLedgers, hr_age = secondsSinceLastIndex, hr_databaseOk = (probe \<noteq> Some False), hr_checks = checks,
          hr_networks = map_option (map (\<lambda>e. \<lparr>nh_network = ns_network e, nh_indexed = ns_indexed e,
            nh_horizon = ns_horizon e, nh_lag = lag e, nh_age = age now (ns_lastIndexedAt e), nh_paused = ns_paused e\<rparr>))
            (st_networks state)\<rparr>)"

definition healthStatusCode :: "health_report \<Rightarrow> nat" where
  "healthStatusCode r = (if hr_status r = Degraded then 503 else 200)"

definition livenessStatusCode :: "health_report \<Rightarrow> nat" where
  "livenessStatusCode r = (case map_of (hr_checks r) IndexingFreshness of Some False \<Rightarrow> 503 | _ \<Rightarrow> 200)"

definition readyStatusCode :: "health_report \<Rightarrow> nat" where
  "readyStatusCode r = (if hr_status r \<noteq> Ok then 503 else healthStatusCode r)"

section \<open>What the status says\<close>

text \<open>The fold keeps a network that never indexed, and otherwise the one whose last index is oldest.\<close>

definition staler :: "int option \<Rightarrow> int option \<Rightarrow> bool" where
  "staler a b = (case (a, b) of (None, _) \<Rightarrow> True | (Some _, None) \<Rightarrow> False | (Some t, Some u) \<Rightarrow> t \<le> u)"

lemma staler_simps [simp]: "staler a a" "staler None b"
  by (auto simp: staler_def split: option.splits)

lemma staler_trans: "staler a b \<Longrightarrow> staler b c \<Longrightarrow> staler a c"
  by (auto simp: staler_def split: option.splits)

lemma worse_staler:
  "staler (ns_lastIndexedAt (worse acc e)) (ns_lastIndexedAt acc)" "staler (ns_lastIndexedAt (worse acc e)) (ns_lastIndexedAt e)"
  by (auto simp: worse_def staler_def split: option.splits)

lemma foldl_worse_staler:
  "e \<in> insert acc (set es) \<Longrightarrow> staler (ns_lastIndexedAt (foldl worse acc es)) (ns_lastIndexedAt e)"
proof (induction es arbitrary: acc e)
  case (Cons x es)
  have "staler (ns_lastIndexedAt (foldl worse (worse acc x) es)) (ns_lastIndexedAt (worse acc x))"
    using Cons.IH by simp
  then have "staler (ns_lastIndexedAt (foldl worse (worse acc x) es)) (ns_lastIndexedAt y)" if "y \<in> {acc, x}" for y
    using that worse_staler [of acc x] by (auto intro: staler_trans)
  moreover have "staler (ns_lastIndexedAt (foldl worse (worse acc x) es)) (ns_lastIndexedAt e)" if "e \<in> set es"
    using that Cons.IH by simp
  ultimately show ?case using Cons.prems by auto
qed simp

lemma worst_network_age:
  assumes "e \<in> set entries"
  shows "staler (st_lastIndexedAt (aggregateNetworkStates startedAt entries)) (ns_lastIndexedAt e)"
  using assms foldl_worse_staler by (cases entries) (auto simp: aggregateNetworkStates_def Let_def)

text \<open>
  A stuck network cannot hide. When a process that indexes some networks is ready, every one of them
  has indexed a ledger within the threshold, none is paused, and the database answered.
\<close>

theorem ready_means_every_network_is_fresh:
  assumes "readyStatusCode (buildHealthReport (aggregateNetworkStates startedAt entries) (Some up) th now) = 200"
    and "e \<in> set entries"
  shows "\<exists>t. ns_lastIndexedAt e = Some t \<and> of_int (now - t) / 1000 \<le> maxSecondsSinceIndex th \<and> \<not> ns_paused e \<and> up"
proof -
  let ?s = "aggregateNetworkStates startedAt entries"
  have nets: "st_networks ?s = Some entries" using assms(2) by (cases entries) (auto simp: aggregateNetworkStates_def Let_def)
  have "hr_status (buildHealthReport ?s (Some up) th now) = Ok"
    using assms(1) by (auto simp: readyStatusCode_def split: if_splits)
  then obtain t0 where t0: "st_lastIndexedAt ?s = Some t0" "of_int (now - t0) / 1000 \<le> maxSecondsSinceIndex th"
    and up: "up" "\<not> is_paused ?s"
    by (cases "st_lastIndexedAt ?s") (auto simp: buildHealthReport_def age_def Let_def split: if_splits)
  obtain t where t: "ns_lastIndexedAt e = Some t" "t0 \<le> t"
    using worst_network_age [OF assms(2), of startedAt] t0(1) by (auto simp: staler_def split: option.splits)
  then have "(of_int (now - t) :: rat) \<le> of_int (now - t0)" by simp
  then have "(of_int (now - t) :: rat) / 1000 \<le> maxSecondsSinceIndex th"
    using t0(2) by (meson divide_right_mono order_trans zero_le_numeral)
  then show ?thesis using t up nets assms(2) by (auto simp: is_paused_def list_ex_iff)
qed

definition healthy_network :: network_state where
  "healthy_network = \<lparr>ns_network = ''mainnet'', ns_indexed = 100, ns_horizon = 100, ns_lastIndexedAt = Some 995000, ns_paused = False\<rparr>"

theorem ready_means_every_network_is_fresh_witness:
  "\<exists>t. ns_lastIndexedAt healthy_network = Some t \<and> of_int (1000000 - t) / 1000 \<le> (60 :: rat) \<and> \<not> ns_paused healthy_network \<and> True"
  using ready_means_every_network_is_fresh [of 0 "[healthy_network]" True DEFAULT_THRESHOLDS 1000000 healthy_network]
  by (simp add: aggregateNetworkStates_def buildHealthReport_def age_def is_paused_def DEFAULT_THRESHOLDS_def
      readyStatusCode_def healthStatusCode_def healthy_network_def Let_def)

text \<open>
  A network that lags can hide. The lag that is checked is that of the network whose last index is
  oldest; another one that indexed more recently may be any number of ledgers behind while the process
  is ready.
\<close>

theorem lagging_network_can_hide:
  "readyStatusCode (buildHealthReport
     (aggregateNetworkStates 0
       [\<lparr>ns_network = ''mainnet'', ns_indexed = 100, ns_horizon = 100, ns_lastIndexedAt = Some 995000, ns_paused = False\<rparr>,
        \<lparr>ns_network = ''testnet'', ns_indexed = 0, ns_horizon = int n, ns_lastIndexedAt = Some 999000, ns_paused = False\<rparr>])
     (Some True) DEFAULT_THRESHOLDS 1000000) = 200"
  by (simp add: aggregateNetworkStates_def worse_def buildHealthReport_def age_def is_paused_def DEFAULT_THRESHOLDS_def
      readyStatusCode_def healthStatusCode_def Let_def)

end
