(* ===== verification/Read_Fallback.thy ===== *)
theory Read_Fallback
  imports Horizon_Client
begin

text \<open>
  The GraphQL server's reads that do not stop at the database: \<open>latestLedgerCache.ts\<close> with the
  \<open>latestLedger\<close> resolver that fills it, and the account loader of \<open>loaders.ts\<close> with its budget of
  Horizon calls and its memory of missing accounts. The two races are step relations cut at the awaits.
\<close>

section \<open>The latest-ledger cache\<close>

record 'v ledger_cache =
  entries :: "string \<Rightarrow> ('v \<times> int) option"
  generations :: "string \<Rightarrow> nat option"

definition empty_cache :: "'v ledger_cache" where
  "empty_cache = \<lparr>entries = (\<lambda>_. None), generations = (\<lambda>_. None)\<rparr>"

definition cache_get :: "int \<Rightarrow> int \<Rightarrow> string \<Rightarrow> 'v ledger_cache \<Rightarrow> 'v option \<times> 'v ledger_cache" where
  "cache_get ttlMs now network c =
     (case entries c network of
        None \<Rightarrow> (None, c)
      | Some (v, cachedAt) \<Rightarrow>
          if ttlMs \<le> now - cachedAt then (None, c\<lparr>entries := (entries c)(network := None)\<rparr>) else (Some v, c))"

definition cache_set :: "int \<Rightarrow> string \<Rightarrow> 'v \<Rightarrow> 'v ledger_cache \<Rightarrow> 'v ledger_cache" where
  "cache_set now network v c = c\<lparr>entries := (entries c)(network \<mapsto> (v, now))\<rparr>"

definition generation :: "string \<Rightarrow> 'v ledger_cache \<Rightarrow> nat" where
  "generation network c = (case generations c network of Some g \<Rightarrow> g | None \<Rightarrow> 0)"

definition setIfGeneration :: "int \<Rightarrow> string \<Rightarrow> nat \<Rightarrow> 'v \<Rightarrow> 'v ledger_cache \<Rightarrow> bool \<times> 'v ledger_cache" where
  "setIfGeneration now network g v c =
     (if generation network c \<noteq> g then (False, c) else (True, cache_set now network v c))"

text \<open>The number of dropped entries, which no caller reads, is left out.\<close>

definition invalidate :: "string option \<Rightarrow> 'v ledger_cache \<Rightarrow> 'v ledger_cache" where
  "invalidate network c =
     (let hit = (\<lambda>n. case network of Some m \<Rightarrow> n = m | None \<Rightarrow> entries c n \<noteq> None \<or> generations c n \<noteq> None) in
      c\<lparr>entries := (\<lambda>n. if hit n then None else entries c n),
        generations := (\<lambda>n. if hit n then Some (generation n c + 1) else generations c n)\<rparr>)"

subsection \<open>Readers, commits and notifications\<close>

text \<open>
  A value is the sequence of the latest ledger in the database. A request that misses remembers the
  generation, reads the database, and stores what it read. A notification follows the commit it reports.
\<close>

record reader =
  rd_network :: string
  rd_generation :: nat
  rd_value :: "nat option"

record cache_world =
  w_cache :: "nat ledger_cache"
  w_committed :: "string \<Rightarrow> nat"
  w_notified :: "string \<Rightarrow> nat"
  w_readers :: "reader list"

inductive cache_step :: "int \<Rightarrow> cache_world \<Rightarrow> cache_world \<Rightarrow> bool" for ttl where
  commit: "w_committed w n \<le> s \<Longrightarrow> cache_step ttl w (w\<lparr>w_committed := (w_committed w)(n := s)\<rparr>)"
| deliver: "w_notified w n \<le> s \<Longrightarrow> s \<le> w_committed w n \<Longrightarrow>
    cache_step ttl w (w\<lparr>w_notified := (w_notified w)(n := s), w_cache := invalidate (Some n) (w_cache w)\<rparr>)"
| hit: "cache_get ttl now n (w_cache w) = (Some v, c) \<Longrightarrow> cache_step ttl w (w\<lparr>w_cache := c\<rparr>)"
| miss: "cache_get ttl now n (w_cache w) = (None, c) \<Longrightarrow>
    cache_step ttl w (w\<lparr>w_cache := c, w_readers := w_readers w @
      [\<lparr>rd_network = n, rd_generation = generation n c, rd_value = None\<rparr>]\<rparr>)"
| read: "w_readers w = as @ r # bs \<Longrightarrow> rd_value r = None \<Longrightarrow>
    cache_step ttl w (w\<lparr>w_readers := as @ r\<lparr>rd_value := Some (w_committed w (rd_network r))\<rparr> # bs\<rparr>)"
| store: "w_readers w = as @ r # bs \<Longrightarrow> rd_value r = Some v \<Longrightarrow>
    cache_step ttl w (w\<lparr>w_readers := as @ bs,
      w_cache := snd (setIfGeneration now (rd_network r) (rd_generation r) v (w_cache w))\<rparr>)"
| give_up: "w_readers w = as @ r # bs \<Longrightarrow> cache_step ttl w (w\<lparr>w_readers := as @ bs\<rparr>)"

definition initial_world :: "cache_world \<Rightarrow> bool" where
  "initial_world w \<longleftrightarrow> w_cache w = empty_cache \<and> w_readers w = [] \<and> (\<forall>n. w_notified w n \<le> w_committed w n)"

text \<open>What is cached, and what a reader may still store, is as new as the last notification.\<close>

definition current_reader :: "cache_world \<Rightarrow> reader \<Rightarrow> bool" where
  "current_reader w r \<longleftrightarrow> rd_generation r \<le> generation (rd_network r) (w_cache w)
     \<and> (\<forall>v. rd_generation r = generation (rd_network r) (w_cache w) \<longrightarrow> rd_value r = Some v \<longrightarrow> w_notified w (rd_network r) \<le> v)"

definition cache_ok :: "cache_world \<Rightarrow> bool" where
  "cache_ok w \<longleftrightarrow> (\<forall>n. w_notified w n \<le> w_committed w n)
     \<and> (\<forall>n v t. entries (w_cache w) n = Some (v, t) \<longrightarrow> w_notified w n \<le> v)
     \<and> (\<forall>r \<in> set (w_readers w). current_reader w r)"

lemma generation_simps [simp]:
  "generation n (cache_set now m v c) = generation n c"
  "generation n (c\<lparr>entries := e\<rparr>) = generation n c"
  "generation n (invalidate (Some m) c) = generation n c + (if n = m then 1 else 0)"
  by (auto simp: generation_def cache_set_def invalidate_def Let_def)

lemma entries_simps [simp]:
  "entries (cache_set now m v c) n = (if n = m then Some (v, now) else entries c n)"
  "entries (invalidate (Some m) c) n = (if n = m then None else entries c n)"
  by (simp_all add: cache_set_def invalidate_def Let_def)

lemma cache_get_generation: "cache_get ttl now n c = (r, c') \<Longrightarrow> generation m c' = generation m c"
  by (auto simp: cache_get_def split: option.splits if_splits)

lemma cache_get_entries: "cache_get ttl now n c = (r, c') \<Longrightarrow> entries c' m = Some e \<Longrightarrow> entries c m = Some e"
  by (auto simp: cache_get_def split: option.splits if_splits)

lemma cache_step_ok:
  assumes "cache_step ttl w w'" and ok: "cache_ok w"
  shows "cache_ok w'"
  using assms(1)
proof cases
  case (commit n s)
  then show ?thesis using ok by (auto simp: cache_ok_def current_reader_def intro: order_trans)
next
  case (deliver n s)
  then show ?thesis using ok by (fastforce simp: cache_ok_def current_reader_def)
next
  case (hit now n v c)
  then show ?thesis using ok cache_get_entries [OF hit(2)]
    by (auto simp: cache_ok_def current_reader_def cache_get_generation [OF hit(2)])
next
  case (miss now n c)
  then show ?thesis using ok cache_get_entries [OF miss(2)]
    by (auto simp: cache_ok_def current_reader_def cache_get_generation [OF miss(2)])
next
  case (read as r bs)
  then show ?thesis using ok by (auto simp: cache_ok_def current_reader_def)
next
  case (store as r bs v now)
  then have "current_reader w r" using ok by (simp add: cache_ok_def)
  then show ?thesis using store ok by (auto simp: cache_ok_def current_reader_def setIfGeneration_def)
next
  case (give_up as r bs)
  then show ?thesis using ok by (auto simp: cache_ok_def current_reader_def)
qed

interpretation latest: invariant_system initial_world "cache_step ttl" cache_ok for ttl
  by unfold_locales (simp add: initial_world_def cache_ok_def empty_cache_def, blast intro: cache_step_ok)


definition example_world :: "nat \<Rightarrow> nat ledger_cache \<Rightarrow> reader list \<Rightarrow> cache_world" where
  "example_world s c rs = \<lparr>w_cache = c, w_committed = (\<lambda>_. s), w_notified = (\<lambda>_. 3), w_readers = rs\<rparr>"

lemma example_world_run: "(cache_step 4000)\<^sup>*\<^sup>* (example_world 5 empty_cache []) (example_world 5 (cache_set 10 ''m'' 5 empty_cache) [])"
proof -
  let ?r = "\<lparr>rd_network = ''m'', rd_generation = 0, rd_value = None\<rparr>"
  have "cache_step 4000 (example_world 5 empty_cache []) (example_world 5 empty_cache [?r])"
    using miss [of 4000 0 "''m''" "example_world 5 empty_cache []" empty_cache]
    by (simp add: example_world_def empty_cache_def cache_get_def generation_def)
  moreover have "cache_step 4000 (example_world 5 empty_cache [?r]) (example_world 5 empty_cache [?r\<lparr>rd_value := Some 5\<rparr>])"
    using read [of "example_world 5 empty_cache [?r]" "[]" ?r "[]"] by (simp add: example_world_def)
  moreover have "cache_step 4000 (example_world 5 empty_cache [?r\<lparr>rd_value := Some 5\<rparr>])
      (example_world 5 (cache_set 10 ''m'' 5 empty_cache) [])"
    using store [of "example_world 5 empty_cache [?r\<lparr>rd_value := Some 5\<rparr>]" "[]" "?r\<lparr>rd_value := Some 5\<rparr>" "[]" 5 4000 10]
    by (simp add: example_world_def setIfGeneration_def generation_def empty_cache_def)
  ultimately show ?thesis by (meson converse_rtranclp_into_rtranclp rtranclp.rtrancl_refl)
qed


section \<open>The budget of account fallbacks\<close>

definition ACCOUNT_FALLBACK_CONCURRENCY :: nat where "ACCOUNT_FALLBACK_CONCURRENCY = 4"

text \<open>
  \<open>withAccountFallbackBudget\<close>, cut where it awaits: \<open>woken\<close> callers had their promise resolved and have
  not resumed yet.
\<close>

record budget =
  active :: nat
  queued :: nat
  woken :: nat

definition no_fallbacks :: budget where "no_fallbacks = \<lparr>active = 0, queued = 0, woken = 0\<rparr>"

definition enter :: "budget \<Rightarrow> budget" where
  "enter b = (if ACCOUNT_FALLBACK_CONCURRENCY \<le> active b then b\<lparr>queued := queued b + 1\<rparr> else b\<lparr>active := active b + 1\<rparr>)"

definition resume_fallback :: "budget \<Rightarrow> budget" where
  "resume_fallback b = b\<lparr>woken := woken b - 1, active := active b + 1\<rparr>"

definition leave :: "budget \<Rightarrow> budget" where
  "leave b = (let b1 = b\<lparr>active := active b - 1\<rparr> in
     if 0 < queued b1 then b1\<lparr>queued := queued b1 - 1, woken := woken b1 + 1\<rparr> else b1)"

inductive budget_step :: "bool \<Rightarrow> budget \<Rightarrow> budget \<Rightarrow> bool" where
  enters: "budget_step True b (enter b)"
| resumes: "0 < woken b \<Longrightarrow> budget_step new b (resume_fallback b)"
| leaves: "0 < active b \<Longrightarrow> budget_step new b (leave b)"

inductive_cases budget_stepE: "budget_step new b c"

lemmas budget_defs = enter_def resume_fallback_def leave_def ACCOUNT_FALLBACK_CONCURRENCY_def Let_def

text \<open>A waiting caller has somebody to wake it.\<close>

definition budget_ok :: "budget \<Rightarrow> bool" where
  "budget_ok b \<longleftrightarrow> (0 < queued b \<longrightarrow> 0 < active b + woken b)"

lemma budget_step_ok: "budget_step new b c \<Longrightarrow> budget_ok b \<Longrightarrow> budget_ok c"
  by (erule budget_stepE) (auto simp: budget_ok_def budget_defs)

interpretation fallback: invariant_system "\<lambda>b. b = no_fallbacks" "budget_step True" budget_ok
  by unfold_locales (simp add: budget_ok_def no_fallbacks_def, blast intro: budget_step_ok)

definition budget_weight :: "budget \<Rightarrow> nat" where
  "budget_weight b = active b + 2 * woken b + 3 * queued b"

lemma budget_progress:
  assumes "budget_ok b" and "b \<noteq> no_fallbacks"
  shows "\<exists>c. budget_step False b c \<and> budget_weight c < budget_weight b"
proof (cases "0 < woken b")
  case True
  then have "budget_weight (resume_fallback b) < budget_weight b" by (simp add: budget_weight_def budget_defs)
  then show ?thesis using resumes [OF True] by blast
next
  case False
  then have "0 < active b" using assms by (cases b) (auto simp: budget_ok_def no_fallbacks_def)
  moreover have "budget_weight (leave b) < budget_weight b" using calculation by (auto simp: budget_weight_def budget_defs)
  ultimately show ?thesis using leaves by blast
qed

text \<open>
  No caller waits forever. From every state the fallbacks can get into, once no new ones come, they
  can all run to their end; nobody is left queued with nothing running.
\<close>

theorem fallbacks_drain:
  assumes "(budget_step True)\<^sup>*\<^sup>* no_fallbacks b"
  shows "(budget_step False)\<^sup>*\<^sup>* b no_fallbacks \<and>
    (budget_step False b c \<longrightarrow> budget_weight c < budget_weight b)"
proof
  have ok: "budget_ok b" using fallback.inv_reachable [OF _ assms] by simp
  then show "(budget_step False)\<^sup>*\<^sup>* b no_fallbacks"
  proof (induction "budget_weight b" arbitrary: b rule: less_induct)
    case less
    show ?case
    proof (cases "b = no_fallbacks")
      case False
      then obtain d where d: "budget_step False b d" "budget_weight d < budget_weight b"
        using budget_progress less.prems by blast
      then show ?thesis using less.hyps budget_step_ok less.prems by (meson converse_rtranclp_into_rtranclp)
    qed simp
  qed
  show "budget_step False b c \<longrightarrow> budget_weight c < budget_weight b"
    by (auto elim!: budget_stepE simp: budget_weight_def budget_defs)
qed

theorem fallbacks_drain_witness:
  "(budget_step False)\<^sup>*\<^sup>* (enter no_fallbacks) no_fallbacks"
proof -
  have "(budget_step True)\<^sup>*\<^sup>* no_fallbacks (enter no_fallbacks)" using enters by (rule r_into_rtranclp)
  from fallbacks_drain [OF this] show ?thesis by blast
qed

lemma leave_many:
  "(budget_step True)\<^sup>*\<^sup>* \<lparr>active = a + n, queued = q + n, woken = w\<rparr> \<lparr>active = a, queued = q, woken = w + n\<rparr>"
proof (induction n arbitrary: a q)
  case (Suc n)
  have "leave \<lparr>active = Suc a, queued = Suc q, woken = w + n\<rparr> = \<lparr>active = a, queued = q, woken = w + Suc n\<rparr>"
    by (simp add: budget_defs)
  then have "budget_step True \<lparr>active = Suc a, queued = Suc q, woken = w + n\<rparr> \<lparr>active = a, queued = q, woken = w + Suc n\<rparr>"
    by (metis leaves select_convs(1) zero_less_Suc)
  then show ?case using Suc [of "Suc a" "Suc q"] by (simp add: rtranclp.rtrancl_into_rtrancl)
qed simp

lemma resume_many: "(budget_step True)\<^sup>*\<^sup>* \<lparr>active = a, queued = q, woken = n\<rparr> \<lparr>active = a + n, queued = q, woken = 0\<rparr>"
proof (induction n arbitrary: a)
  case (Suc n)
  have "budget_step True \<lparr>active = a, queued = q, woken = Suc n\<rparr> \<lparr>active = Suc a, queued = q, woken = n\<rparr>"
    using resumes [of "\<lparr>active = a, queued = q, woken = Suc n\<rparr>" True] by (simp add: budget_defs)
  then show ?case using Suc [of "Suc a"] by (simp add: converse_rtranclp_into_rtranclp)
qed simp

lemma enter_many: "(budget_step True)\<^sup>*\<^sup>* no_fallbacks \<lparr>active = 4, queued = q, woken = 0\<rparr>"
proof (induction q)
  case 0
  have "\<lparr>active = 4, queued = 0, woken = 0\<rparr> = enter (enter (enter (enter no_fallbacks)))"
    by (simp add: budget_defs no_fallbacks_def)
  then show ?case by (metis enters rtranclp.simps)
next
  case (Suc q)
  have "budget_step True \<lparr>active = 4, queued = q, woken = 0\<rparr> \<lparr>active = 4, queued = Suc q, woken = 0\<rparr>"
    using enters [of "\<lparr>active = 4, queued = q, woken = 0\<rparr>"] by (simp add: budget_defs)
  then show ?case using Suc by (rule rtranclp.rtrancl_into_rtrancl [rotated])
qed

lemma budget_overrun: "(budget_step True)\<^sup>*\<^sup>* no_fallbacks \<lparr>active = 4 + k, queued = q, woken = 0\<rparr>"
proof (induction k arbitrary: q)
  case (Suc k)
  have "(budget_step True)\<^sup>*\<^sup>* no_fallbacks \<lparr>active = 3 + Suc k, queued = q + Suc k, woken = 0\<rparr>"
    using Suc [of "q + Suc k"] by (simp add: numeral_eq_Suc)
  also have "(budget_step True)\<^sup>*\<^sup>* \<dots> \<lparr>active = 3, queued = q, woken = 0 + Suc k\<rparr>" by (rule leave_many)
  also have "(budget_step True)\<^sup>*\<^sup>* \<dots> \<lparr>active = 4, queued = q, woken = Suc k\<rparr>"
    using enters [of "\<lparr>active = 3, queued = q, woken = Suc k\<rparr>"] by (simp add: budget_defs)
  also have "(budget_step True)\<^sup>*\<^sup>* \<dots> \<lparr>active = 4 + Suc k, queued = q, woken = 0\<rparr>" by (rule resume_many)
  finally show ?case .
qed (simp add: enter_many)

text \<open>
  The budget is not a bound. A caller that arrives between the end of one fallback and the
  resumption of the caller it woke takes the free place as well, so any number can run at once.
\<close>

theorem fallback_budget_is_exceeded:
  "\<exists>b. (budget_step True)\<^sup>*\<^sup>* no_fallbacks b \<and> active b = ACCOUNT_FALLBACK_CONCURRENCY + k"
  using budget_overrun [of k 0] by (intro exI [of _ "\<lparr>active = 4 + k, queued = 0, woken = 0\<rparr>"])
    (simp add: ACCOUNT_FALLBACK_CONCURRENCY_def)

section \<open>Missing accounts\<close>

definition NEGATIVE_ACCOUNT_TTL_MS :: int where "NEGATIVE_ACCOUNT_TTL_MS = 30000"

text \<open>
  The loader of one address: the database row, else the memory of missing accounts, else Horizon (whose
  account is handed on as it came, not yet in the shape of a row). Times
  are positive, so a remembered one is never taken for none.
\<close>

definition ask_horizon ::
  "horizon_env \<Rightarrow> HorizonEndpoint \<Rightarrow> int \<Rightarrow> string \<Rightarrow> string
     \<Rightarrow> (string \<Rightarrow> int option) \<times> horizon_state \<Rightarrow> (horizon_error + jsval option) \<times> (string \<Rightarrow> int option) \<times> horizon_state" where
  "ask_horizon env horizonUrl now cacheKey address s =
     (let (missing, st) = s in
      case getAccount_hz env address (Some horizonUrl) st of
        (Inl e, st1) \<Rightarrow> (Inl e, missing, st1)
      | (Inr None, st1) \<Rightarrow> (Inr None, missing(cacheKey \<mapsto> now), st1)
      | (Inr (Some a), st1) \<Rightarrow> (Inr (Some a), missing, st1))"

definition load_account ::
  "horizon_env \<Rightarrow> HorizonEndpoint \<Rightarrow> string \<Rightarrow> int \<Rightarrow> (string \<Rightarrow> jsval option) \<Rightarrow> string
     \<Rightarrow> (string \<Rightarrow> int option) \<times> horizon_state \<Rightarrow> (horizon_error + jsval option) \<times> (string \<Rightarrow> int option) \<times> horizon_state" where
  "load_account env horizonUrl urlText now rows address s =
     (let (missing, st) = s; cacheKey = urlText @ '':'' @ address in
      case rows address of
        Some row \<Rightarrow> (Inr (Some row), missing, st)
      | None \<Rightarrow>
          (case missing cacheKey of
             Some at0 \<Rightarrow>
               (if now - at0 < NEGATIVE_ACCOUNT_TTL_MS then (Inr None, missing, st)
                else ask_horizon env horizonUrl now cacheKey address (missing(cacheKey := None), st))
           | None \<Rightarrow> ask_horizon env horizonUrl now cacheKey address (missing, st)))"

text \<open>
  An outage is remembered as absence. One 5xx answer of the first endpoint, even with others
  configured, makes the account missing for the next thirty seconds: no request is sent, whatever
  Horizon would answer by then.
\<close>

theorem outage_is_cached_as_absence:
  assumes "rows address = None" and "missing (urlText @ '':'' @ address) = None"
    and "endpoints env (Some horizonUrl) st = e # es"
    and "hz_fetch env (hz_requests st) (url (url_path (url (''/accounts/'' @ address) e)) e) = Answer 503 ra body"
    and "now \<le> later" and "later < now + NEGATIVE_ACCOUNT_TTL_MS"
  shows "\<exists>missing' st'. load_account env horizonUrl urlText now rows address (missing, st) = (Inr None, missing', st')
    \<and> hz_requests st' = hz_requests st + 1
    \<and> load_account env' horizonUrl urlText later rows address (missing', st') = (Inr None, missing', st')"
proof -
  obtain k where k: "max_retries env = Suc k" by (cases "max_retries env") (auto simp: max_retries_def)
  let ?target = "url (''/accounts/'' @ address) e" and ?st = "st\<lparr>hz_requests := hz_requests st + 1\<rparr>"
  have "judge env NullMode check attempt (hz_fetch env (hz_requests st) (url (url_path ?target) e)) = Finish (Inr None) False" for check attempt
    unfolding assms(4) by (simp add: judge_def is_success_def)
  then have "endpoint_loop env NullMode check (max_retries env - k) ?target (e # es) 0 st = ((Some (Inr None), 0), ?st)" for check
    by (simp add: Let_def)
  then have "getAccount_hz env address (Some horizonUrl) st = (Inr None, ?st)"
    using assms(3) by (simp add: getAccount_hz_def request_path_def request_def k Let_def)
  then have "load_account env horizonUrl urlText now rows address (missing, st)
      = (Inr None, missing(urlText @ '':'' @ address \<mapsto> now), ?st)"
    using assms(1,2) by (simp add: load_account_def ask_horizon_def)
  moreover have "load_account env' horizonUrl urlText later rows address (missing(urlText @ '':'' @ address \<mapsto> now), ?st)
      = (Inr None, missing(urlText @ '':'' @ address \<mapsto> now), ?st)"
    using assms(1,5,6) by (simp add: load_account_def)
  ultimately show ?thesis by auto
qed

lemma two_endpoints_named:
  "endpoints (two_endpoints fetch) (Some (EndpointList [''h://a'', ''h://b''])) fresh_client = [''h://a'', ''h://b'']"
  using two_endpoints_simps(2) [of fetch] by (simp add: endpoints_def configured_def two_endpoints_def is_demoted_def)

theorem outage_is_cached_as_absence_witness:
  "\<exists>missing' st'. load_account (two_endpoints (\<lambda>_ _. Answer 503 None (Inl ''down''))) (EndpointList [''h://a'', ''h://b'']) ''u'' 5
       (\<lambda>_. None) ''GA'' (Map.empty, fresh_client) = (Inr None, missing', st')
     \<and> hz_requests st' = hz_requests fresh_client + 1
     \<and> load_account (two_endpoints (\<lambda>_ _. Answer 200 None (Inr (JInt 1)))) (EndpointList [''h://a'', ''h://b'']) ''u'' 9
         (\<lambda>_. None) ''GA'' (missing', st') = (Inr None, missing', st')"
  by (rule outage_is_cached_as_absence [OF _ _ two_endpoints_named])
    (simp_all add: NEGATIVE_ACCOUNT_TTL_MS_def)

end
