(* ===== verification/Op_Fields.thy ===== *)
theory Op_Fields
  imports Ledger_Store
begin

text \<open>
  How the decoders of \<open>indexer/src/db.ts\<close> read an operation and hand values to PostgreSQL: the
  JavaScript operators on properties that may be missing (\<open>||\<close>, \<open>??\<close>, \<open>String\<close>, \<open>Number\<close>,
  \<open>parseInt\<close>, \<open>parseFloat\<close>), the asset formatter, the text a parameter is sent as, and the
  \<open>numeric\<close> type with its decimal scale.
\<close>

named_theorems field_simps \<open>evaluating property reads and coercions\<close>

section \<open>JavaScript\<close>

text \<open>The numbers that are not integers are truthy unless they are \<open>NaN\<close>.\<close>

definition js_truthy :: "jsval \<Rightarrow> bool" where
  "js_truthy v = (case v of JUndefined \<Rightarrow> False | JNull \<Rightarrow> False | JBool b \<Rightarrow> b | JInt i \<Rightarrow> i \<noteq> 0
     | JNum t fin w \<Rightarrow> t \<noteq> ''NaN'' | JBig i \<Rightarrow> i \<noteq> 0 | JStr s \<Rightarrow> s \<noteq> [] | _ \<Rightarrow> True)"

text \<open>\<open>v || w\<close>, \<open>v ?? w\<close> and \<open>v != null\<close>.\<close>

definition or_else :: "jsval \<Rightarrow> jsval \<Rightarrow> jsval" where
  "or_else v w = (if js_truthy v then v else w)"

definition is_nullish :: "jsval \<Rightarrow> bool" where
  "is_nullish v = (v = JUndefined \<or> v = JNull)"

definition coalesce :: "jsval \<Rightarrow> jsval \<Rightarrow> jsval" where
  "coalesce v w = (if is_nullish v then w else v)"

text \<open>\<open>String(v)\<close>, on values that JSON text denotes and on \<open>undefined\<close>.\<close>

fun js_text :: "jsval \<Rightarrow> string" where
  "js_text JNull = ''null''"
| "js_text (JBool b) = bool_text b"
| "js_text (JInt i) = int_to_string i"
| "js_text (JNum t fin w) = t"
| "js_text (JBig i) = int_to_string i"
| "js_text (JStr s) = s"
| "js_text (JArr xs) = join_with '','' (map (\<lambda>x. if x = JNull then [] else js_text x) xs)"
| "js_text (JObj ps) = ''[object Object]''"
| "js_text v = ''undefined''"

text \<open>\<open>Number(v)\<close> where it is an integer; \<open>NaN\<close> and fractions are \<open>None\<close>.\<close>

definition js_number :: "jsval \<Rightarrow> int option" where
  "js_number v = (case v of JNull \<Rightarrow> Some 0 | JBool b \<Rightarrow> Some (if b then 1 else 0) | JInt i \<Rightarrow> Some i
     | JNum t fin w \<Rightarrow> w | JBig i \<Rightarrow> Some i | JStr s \<Rightarrow> integer_of_text s
     | JArr xs \<Rightarrow> integer_of_text (js_text (JArr xs)) | _ \<Rightarrow> None)"

text \<open>\<open>parseInt(s, 10)\<close>.\<close>

definition parse_int :: "string \<Rightarrow> int option" where
  "parse_int s =
     (let t = trim_start s; neg = (take 1 t = ''-'');
          u = (if neg \<or> take 1 t = ''+'' then drop 1 t else t); ds = takeWhile is_digit u
      in if ds = [] then None
         else Some (if neg then - int (nat_of_digits ds) else int (nat_of_digits ds)))"

text \<open>
  \<open>parseFloat(s) > 0\<close>: the longest prefix that is a decimal numeral, without a minus sign, has a
  digit other than zero. (A numeral below the smallest double would round to zero.)
\<close>

definition parses_positive :: "string \<Rightarrow> bool" where
  "parses_positive s =
     (let t = trim_start s; u = (if take 1 t = ''+'' then drop 1 t else t);
          ip = takeWhile is_digit u; r = drop (length ip) u;
          fp = (if take 1 r = ''.'' then takeWhile is_digit (drop 1 r) else [])
      in take 8 u = ''Infinity'' \<or> list_ex (\<lambda>c. c \<noteq> CHR ''0'') (ip @ fp))"

section \<open>Properties of an operation\<close>

text \<open>\<open>operation[name]\<close> for a property other than the five that every operation has.\<close>

definition field :: "horizon_operation \<Rightarrow> string \<Rightarrow> jsval" where
  "field op name = get_member (JObj (o_fields op)) name"

definition formatAsset :: "jsval \<Rightarrow> jsval" where
  "formatAsset obj =
     (if \<not> js_truthy obj then JStr ''native''
      else (case obj of
              JStr s \<Rightarrow> JStr s
            | _ \<Rightarrow>
                (let code = or_else (get_member obj ''asset_code'') (get_member obj ''code'');
                     issuer = or_else (get_member obj ''asset_issuer'') (get_member obj ''issuer'')
                 in if get_member obj ''asset_type'' = JStr ''native'' \<or> get_member obj ''asset'' = JStr ''native''
                    then JStr ''native''
                    else if js_truthy code \<and> js_truthy issuer
                    then JStr (js_text code @ '':'' @ js_text issuer)
                    else or_else (get_member obj ''asset'') (JStr ''native''))))"

definition formatAssetFromPrefix :: "horizon_operation \<Rightarrow> string \<Rightarrow> jsval" where
  "formatAssetFromPrefix op prefix =
     (let code = field op (prefix @ ''asset_code''); issuer = field op (prefix @ ''asset_issuer'')
      in if field op (prefix @ ''asset_type'') = JStr ''native'' then JStr ''native''
         else if js_truthy code \<and> js_truthy issuer then JStr (js_text code @ '':'' @ js_text issuer)
         else or_else (field op (prefix @ ''asset'')) (JStr ''native''))"

section \<open>Parameters\<close>

text \<open>
  The text node-postgres sends for a value that is not null: strings as they are, numbers and
  booleans printed, an object as JSON, an array as an array literal.
\<close>

definition pg_quote :: "string \<Rightarrow> string" where
  "pg_quote s = CHR 0x22 # concat (map (\<lambda>c. if c = CHR 0x22 \<or> c = CHR 0x5C then [CHR 0x5C, c] else [c]) s)
     @ [CHR 0x22]"

fun pg_item :: "jsval \<Rightarrow> string" where
  "pg_item JUndefined = ''NULL''"
| "pg_item JNull = ''NULL''"
| "pg_item (JArr xs) = ''{'' @ join_with '','' (map pg_item xs) @ ''}''"
| "pg_item (JStr s) = pg_quote s"
| "pg_item (JObj ps) = pg_quote (json_text (JObj ps))"
| "pg_item v = pg_quote (js_text v)"

definition param :: "jsval \<Rightarrow> string" where
  "param v = (case v of JStr s \<Rightarrow> s | JObj ps \<Rightarrow> json_text v | JArr xs \<Rightarrow> pg_item v | _ \<Rightarrow> js_text v)"

definition null_param :: "jsval \<Rightarrow> string option" where
  "null_param v = (if is_nullish v then None else Some (param v))"

definition int4_param :: "int option \<Rightarrow> string + int" where
  "int4_param v = (case v of
       Some i \<Rightarrow> if - (2 ^ 31) \<le> i \<and> i < 2 ^ 31 then Inr i else Inl ''integer out of range''
     | None \<Rightarrow> Inl ''invalid input syntax for type integer'')"

definition int8_param :: "int option \<Rightarrow> string + int" where
  "int8_param v = (case v of
       Some i \<Rightarrow> if - (2 ^ 63) \<le> i \<and> i < 2 ^ 63 then Inr i else Inl ''bigint out of range''
     | None \<Rightarrow> Inl ''invalid input syntax for type bigint'')"

section \<open>The type numeric\<close>

text \<open>\<open>(n, s)\<close> is \<open>n / 10 ^ s\<close>, printed with \<open>s\<close> decimals.\<close>

type_synonym numeric = "int \<times> nat"

definition numeric_neg :: "numeric \<Rightarrow> numeric" where
  "numeric_neg x = (- fst x, snd x)"

text \<open>Decimal notation with an optional exponent; \<open>NaN\<close> and the infinities are left out.\<close>

definition numeric_unsigned :: "string \<Rightarrow> numeric option" where
  "numeric_unsigned u =
     (let m = takeWhile (\<lambda>c. c \<noteq> CHR ''e'' \<and> c \<noteq> CHR ''E'') u;
          ip = takeWhile (\<lambda>c. c \<noteq> CHR ''.'') m; fp = drop (length ip + 1) m
      in if \<not> list_all is_digit (ip @ fp) \<or> ip @ fp = [] then None
         else (case unsigned_exponent (drop (length m) u) of
                 None \<Rightarrow> None
               | Some e \<Rightarrow>
                   (let n = int (nat_of_digits (ip @ fp)); k = e - int (length fp)
                    in Some (n * (if 0 \<le> k then 10 ^ nat k else 1), nat (- k)))))"

definition numeric_of_text :: "string \<Rightarrow> numeric option" where
  "numeric_of_text s =
     (let t = trim s in
      if take 1 t = ''-'' then map_option numeric_neg (numeric_unsigned (drop 1 t))
      else numeric_unsigned (if take 1 t = ''+'' then drop 1 t else t))"

definition numeric_text :: "numeric \<Rightarrow> string" where
  "numeric_text x =
     (let m = nat \<bar>fst x\<bar>; s = snd x;
          body = nat_to_string (m div 10 ^ s)
            @ (if s = 0 then [] else CHR ''.'' # pad_start s (CHR ''0'') (nat_to_string (m mod 10 ^ s)))
      in if fst x < 0 then CHR ''-'' # body else body)"

definition numeric_add :: "numeric \<Rightarrow> numeric \<Rightarrow> numeric" where
  "numeric_add x y =
     (let s = max (snd x) (snd y)
      in (fst x * 10 ^ (s - snd x) + fst y * 10 ^ (s - snd y), s))"

text \<open>\<open>(a::numeric + b::numeric)::text\<close>.\<close>

definition add_texts :: "string \<Rightarrow> string \<Rightarrow> string option" where
  "add_texts a b =
     (case (numeric_of_text a, numeric_of_text b) of
        (Some x, Some y) \<Rightarrow> Some (numeric_text (numeric_add x y)) | _ \<Rightarrow> None)"

text \<open>
  Assignment to a column \<open>NUMERIC(20, 7)\<close>: rounded to seven decimals, halves away from zero, and
  at most thirteen digits before the point. The column's value is a number of units of \<open>10 ^ -7\<close>.
\<close>

definition units :: "numeric \<Rightarrow> int" where
  "units x =
     (let n = fst x; s = snd x
      in if s \<le> 7 then n * 10 ^ (7 - s)
         else sgn n * ((2 * \<bar>n\<bar> + 10 ^ (s - 7)) div (2 * 10 ^ (s - 7))))"

definition column_20_7 :: "numeric \<Rightarrow> string + int" where
  "column_20_7 x = (if \<bar>units x\<bar> < 10 ^ 20 then Inr (units x) else Inl ''numeric field overflow'')"

definition of_column :: "int \<Rightarrow> numeric" where
  "of_column u = (u, 7)"

text \<open>\<open>$n::numeric\<close>; a null parameter gives null.\<close>

definition numeric_param :: "jsval \<Rightarrow> string + numeric option" where
  "numeric_param v =
     (if is_nullish v then Inr None
      else (case numeric_of_text (param v) of
              Some x \<Rightarrow> Inr (Some x) | None \<Rightarrow> Inl ''invalid input syntax for type numeric''))"

definition not_null :: "'a option \<Rightarrow> string + 'a" where
  "not_null v = (case v of Some x \<Rightarrow> Inr x | None \<Rightarrow> Inl ''null value violates not-null constraint'')"

text \<open>A parameter for a column \<open>NUMERIC(20, 7) NOT NULL\<close>.\<close>

definition amount_param :: "jsval \<Rightarrow> string + int" where
  "amount_param v = and_then (numeric_param v) (\<lambda>x. and_then (not_null x) column_20_7)"

lemmas js_defs = js_truthy_def or_else_def is_nullish_def coalesce_def

lemma js_truthy_simps [simp, field_simps]:
  "\<not> js_truthy JUndefined" "\<not> js_truthy JNull" "js_truthy (JStr s) \<longleftrightarrow> s \<noteq> []" "js_truthy (JBool b) \<longleftrightarrow> b"
  "js_truthy (JInt i) \<longleftrightarrow> i \<noteq> 0" "js_truthy (JArr xs)" "js_truthy (JObj ps)"
  by (simp_all add: js_truthy_def)

lemma or_else_simps [simp, field_simps]:
  "js_truthy v \<Longrightarrow> or_else v w = v" "\<not> js_truthy v \<Longrightarrow> or_else v w = w"
  by (simp_all add: or_else_def)

lemma is_nullish_simps [simp, field_simps]:
  "is_nullish JUndefined" "is_nullish JNull" "\<not> is_nullish (JStr s)" "\<not> is_nullish (JInt i)"
  by (simp_all add: is_nullish_def)

lemma param_JStr [simp, field_simps]: "param (JStr s) = s"
  by (simp add: param_def)

section \<open>Values\<close>

text \<open>The value of a numeric, in units of \<open>10 ^ - k\<close> for any \<open>k\<close> at least its scale.\<close>

definition scaled :: "nat \<Rightarrow> numeric \<Rightarrow> int" where
  "scaled k x = fst x * 10 ^ (k - snd x)"

lemma numeric_add_scale [simp]: "snd (numeric_add x y) = max (snd x) (snd y)"
  by (simp add: numeric_add_def Let_def)

lemma scaled_add:
  assumes "snd x \<le> k" "snd y \<le> k"
  shows "scaled k (numeric_add x y) = scaled k x + scaled k y"
proof -
  let ?s = "max (snd x) (snd y)"
  have "(10 :: int) ^ (?s - snd x) * 10 ^ (k - ?s) = 10 ^ (k - snd x)"
    "(10 :: int) ^ (?s - snd y) * 10 ^ (k - ?s) = 10 ^ (k - snd y)"
    using assms by (simp_all add: power_add [symmetric])
  then show ?thesis
    by (simp add: scaled_def numeric_add_def Let_def algebra_simps)
qed

lemma scaled_neg [simp]: "scaled k (numeric_neg x) = - scaled k x"
  by (simp add: scaled_def numeric_neg_def)

lemma units_scaled: "snd x \<le> 7 \<Longrightarrow> units x = scaled 7 x"
  by (simp add: units_def scaled_def Let_def)

section \<open>Printing and reading back\<close>

lemma split_point:
  assumes "list_all is_digit w"
  shows "takeWhile (\<lambda>c. c \<noteq> CHR ''.'') (w @ CHR ''.'' # f) = w" "takeWhile (\<lambda>c. c \<noteq> CHR ''.'') w = w"
  using assms by (auto simp: list_all_iff takeWhile_append takeWhile_eq_all_conv digit_not_sep)

lemma digit_not_e: "is_digit c \<Longrightarrow> c \<noteq> CHR ''e'' \<and> c \<noteq> CHR ''E''"
  by (auto simp: is_digit_def char_code_def)

lemma numeric_unsigned_body:
  assumes w: "list_all is_digit w" "w \<noteq> []" and f: "list_all is_digit f"
  shows "numeric_unsigned (if f = [] then w else w @ CHR ''.'' # f) = Some (int (nat_of_digits (w @ f)), length f)"
proof -
  define body where "body = (if f = [] then w else w @ CHR ''.'' # f)"
  have "c \<in> set body \<Longrightarrow> c \<noteq> CHR ''e'' \<and> c \<noteq> CHR ''E''" for c
    using w f digit_not_e by (auto simp: body_def list_all_iff split: if_splits)
  then have m: "takeWhile (\<lambda>c. c \<noteq> CHR ''e'' \<and> c \<noteq> CHR ''E'') body = body"
    by (simp add: takeWhile_eq_all_conv)
  have ip: "takeWhile (\<lambda>c. c \<noteq> CHR ''.'') body = w" and fp: "drop (length w + 1) body = f"
    using split_point [OF w(1)] by (auto simp: body_def)
  have "drop (length body) body = []" by simp
  then show ?thesis
    unfolding body_def [symmetric] numeric_unsigned_def Let_def m ip fp
    using w f by (simp add: unsigned_exponent_def del: nat_of_digits_append)
qed

text \<open>Text that starts and ends like a numeral has no space to trim.\<close>

lemma numeric_of_unsigned:
  assumes "u \<noteq> []" "is_digit (hd u)" "is_digit (last u)"
  shows "numeric_of_text u = numeric_unsigned u"
    "numeric_of_text (CHR ''-'' # u) = map_option numeric_neg (numeric_unsigned u)"
proof -
  have minus: "\<not> is_space (CHR ''-'')" by (simp add: is_space_def char_code_def)
  have trim: "trim u = u" "trim (CHR ''-'' # u) = CHR ''-'' # u"
    using assms minus by (auto intro!: trim_id simp: digit_not_sep)
  obtain c cs where u: "u = c # cs" "c \<noteq> CHR ''-''" "c \<noteq> CHR ''+''"
    using assms by (cases u) (auto simp: digit_not_sep)
  show "numeric_of_text u = numeric_unsigned u"
    "numeric_of_text (CHR ''-'' # u) = map_option numeric_neg (numeric_unsigned u)"
    by (simp_all add: numeric_of_text_def Let_def trim) (use u in auto)
qed

lemma numeric_of_numeric_text [simp]: "numeric_of_text (numeric_text x) = Some x"
proof -
  define m where "m = nat \<bar>fst x\<bar>"
  define s where "s = snd x"
  define w where "w = nat_to_string (m div 10 ^ s)"
  define f where "f = (if s = 0 then [] else pad_start s (CHR ''0'') (nat_to_string (m mod 10 ^ s)))"
  define body where "body = (if f = [] then w else w @ CHR ''.'' # f)"
  have "m mod 10 ^ s < 10 ^ s" by simp
  then have len: "s \<noteq> 0 \<Longrightarrow> length (nat_to_string (m mod 10 ^ s)) \<le> s"
    by (intro nat_to_string_length) auto
  have w: "list_all is_digit w" "w \<noteq> []" by (simp_all add: w_def)
  have f: "list_all is_digit f" "length f = s"
    using len nat_to_string_digits [of "m mod 10 ^ s"]
    by (auto simp: f_def pad_start_def list_all_iff is_digit_def char_code_def)
  have "nat_of_digits f = m mod 10 ^ s" by (simp add: f_def)
  then have val: "nat_of_digits (w @ f) = m"
    using f(2) div_mult_mod_eq [of m "10 ^ s"] by (simp add: nat_of_digits_append w_def)
  have body: "numeric_unsigned body = Some (int m, s)"
    unfolding body_def by (simp only: numeric_unsigned_body [OF w f(1)] val f(2))
  have ends: "body \<noteq> []" "is_digit (hd body)" "is_digit (last body)"
    using w f(1) by (auto simp: body_def list_all_iff hd_append)
  have out: "numeric_text x = (if fst x < 0 then CHR ''-'' # body else body)"
    using f(2) by (auto simp: numeric_text_def Let_def w_def f_def m_def s_def body_def)
  show ?thesis
    unfolding out using numeric_of_unsigned [OF ends] body
    by (auto simp: m_def s_def numeric_neg_def prod_eq_iff)
qed

end
