(* ===== verification/Asset_Tables.thy ===== *)
theory Asset_Tables
  imports Op_Fields
begin

text \<open>
  Trustlines, assets and hourly volume (\<open>processAssetOperation\<close> of \<open>indexer/src/db.ts\<close> and what
  it calls), together with the state of all the derived tables the decoders share. A \<open>CHECK\<close> that a
  table written earlier in the transaction has already passed (positive ledger, non-empty source
  account) is not repeated; counters are taken to stay below \<open>2 ^ 31\<close>.
\<close>

section \<open>The derived tables\<close>

record trustline_row =
  trust_limit :: string
  balance :: string
  tl_modified :: int
  tl_created_at :: int

record asset_row =
  holder_count :: int
  first_seen :: int
  last_activity :: int

record volume_row =
  volume :: int
  operation_total :: int

record pool_row =
  asset_a :: string
  asset_b :: string
  fee_bp :: int
  reserve_a :: int
  reserve_b :: int
  total_shares :: int
  pool_ledger :: int

record share_row =
  shares :: int
  share_ledger :: int

datatype balance_status = Unclaimed | Claimed | Clawed_back

record claimable_row =
  cb_asset :: string
  cb_amount :: int
  cb_sponsor :: string
  cb_claimants :: string
  cb_status :: balance_status
  cb_claimed_by :: "string option"
  cb_claimed_at :: "int option"
  cb_claimed_ledger :: "int option"
  cb_created_ledger :: int
  cb_created_at :: int

datatype predicate_type = Unconditional | Abs_before | Rel_before | Compound

record claimant_row =
  cl_type :: predicate_type
  cl_details :: string
  cl_abs_before :: "int option"
  cl_rel_before :: "int option"

datatype payment_type = Strict_send | Strict_receive

record path_payment_row =
  pp_transaction_hash :: string
  pp_ledger :: int
  pp_type :: payment_type
  pp_from :: string
  pp_to :: string
  pp_source_asset :: string
  pp_source_amount :: int
  pp_dest_asset :: string
  pp_dest_amount :: int
  pp_path_assets :: "string list"
  pp_hop_count :: nat
  pp_created_at :: int

datatype signer_action = Added | Removed

record signer_change =
  sc_account :: string
  sc_operation_id :: string
  sc_transaction_hash :: string
  sc_ledger :: int
  sc_network :: string
  sc_signer_key :: string
  sc_weight :: int
  sc_action :: signer_action
  sc_created_at :: int

record threshold_change =
  tc_account :: string
  tc_operation_id :: string
  tc_transaction_hash :: string
  tc_ledger :: int
  tc_network :: string
  tc_master_weight :: "int option"
  tc_low_threshold :: "int option"
  tc_med_threshold :: "int option"
  tc_high_threshold :: "int option"
  tc_home_domain :: "string option"
  tc_set_flags :: "string list option"
  tc_clear_flags :: "string list option"
  tc_created_at :: int

record ttl_row =
  ttl_contract_id :: string
  live_until_ledger :: int
  ttl_last_ledger :: int
  ttl_operation_type :: string
  ttl_created_at :: int

record interface_row =
  ci_wasm_hash :: string
  ci_functions :: string

record sponsorship_row =
  sp_sponsor :: string
  sp_type :: string
  sp_ledger :: int

record derived_tables =
  trustlines :: "(string \<times> string \<times> string \<times> string, trustline_row) table"
  assets :: "(string \<times> string \<times> string, asset_row) table"
  volume_buckets :: "(string \<times> string \<times> int \<times> string, volume_row) table"
  liquidity_pools :: "(string \<times> string, pool_row) table"
  pool_shares :: "(string \<times> string \<times> string, share_row) table"
  claimable_balances :: "(string \<times> string, claimable_row) table"
  claimants :: "(string \<times> string \<times> string, claimant_row) table"
  path_payments :: "(string \<times> string, path_payment_row) table"
  path_payment_hops :: "(string \<times> nat \<times> string, string) table"
  signer_changes :: "signer_change list"
  threshold_changes :: "threshold_change list"
  sponsorships :: "(string \<times> string, sponsorship_row) table"
  soroban_ttl :: "(string \<times> string, ttl_row) table"
  contract_interfaces :: "(string \<times> string, interface_row) table"

definition no_rows :: derived_tables where
  "no_rows =
     \<lparr>trustlines = [], assets = [], volume_buckets = [], liquidity_pools = [], pool_shares = [],
      claimable_balances = [], claimants = [], path_payments = [], path_payment_hops = [],
      signer_changes = [], threshold_changes = [], sponsorships = [], soroban_ttl = [],
      contract_interfaces = []\<rparr>"

section \<open>Trustlines\<close>

definition DEFAULT_LIMIT :: string where
  "DEFAULT_LIMIT = ''922337203685.4775807''"

definition update_asset ::
  "(string \<times> string \<times> string) \<Rightarrow> (asset_row \<Rightarrow> asset_row) \<Rightarrow> derived_tables \<Rightarrow> derived_tables" where
  "update_asset k f d = d\<lparr>assets := update_where (\<lambda>k' _. k' = k) f (assets d)\<rparr>"

text \<open>\<open>INSERT INTO assets ... ON CONFLICT DO UPDATE\<close>, with the holders to add.\<close>

definition ensure_asset ::
  "(string \<times> string \<times> string) \<Rightarrow> int \<Rightarrow> int \<Rightarrow> derived_tables \<Rightarrow> derived_tables" where
  "ensure_asset k new ledger d =
     d\<lparr>assets := insert_do_update k \<lparr>holder_count = new, first_seen = ledger, last_activity = ledger\<rparr>
        (\<lambda>a. a\<lparr>holder_count := holder_count a + new, last_activity := ledger\<rparr>) (assets d)\<rparr>"

definition is_zero_text :: "string \<Rightarrow> bool" where
  "is_zero_text s = (s = ''0'' \<or> s = ''0.0000000'')"

definition drop_holder :: "(string \<times> string \<times> string) \<Rightarrow> derived_tables \<Rightarrow> derived_tables" where
  "drop_holder k = update_asset k (\<lambda>a. a\<lparr>holder_count := max 0 (holder_count a - 1)\<rparr>)"

definition add_holder :: "(string \<times> string \<times> string) \<Rightarrow> derived_tables \<Rightarrow> derived_tables" where
  "add_holder k = update_asset k (\<lambda>a. a\<lparr>holder_count := holder_count a + 1\<rparr>)"

definition upsertTrustline ::
  "string \<Rightarrow> int \<Rightarrow> horizon_operation \<Rightarrow> derived_tables \<Rightarrow> string + derived_tables" where
  "upsertTrustline network ledger op d =
     (let assetCode = field op ''asset_code''; assetIssuer = field op ''asset_issuer'';
          limit = field op ''limit''; account = o_source_account op;
          k = (account, param assetCode, param assetIssuer, network);
          asset = (param assetCode, param assetIssuer, network)
      in if \<not> js_truthy assetCode \<or> \<not> js_truthy assetIssuer then Inr d
         else if limit = JStr ''0'' \<or> limit = JStr ''0.0000000'' then
           (case map_of (trustlines d) k of
              None \<Rightarrow> Inr d
            | Some r \<Rightarrow>
                (let d1 = d\<lparr>trustlines := delete_where (\<lambda>k' _. k' = k) (trustlines d)\<rparr>
                 in Inr (if is_zero_text (balance r) then d1
                         else update_asset asset (\<lambda>a. a\<lparr>last_activity := ledger\<rparr>) (drop_holder asset d1))))
         else
           (let is_insert = (map_of (trustlines d) k = None);
                limit_text = param (or_else limit (JStr DEFAULT_LIMIT));
                d1 = d\<lparr>trustlines := insert_do_update k
                       \<lparr>trust_limit = limit_text, balance = ''0'', tl_modified = ledger,
                        tl_created_at = o_created_at op\<rparr>
                       (\<lambda>r. r\<lparr>trust_limit := limit_text, tl_modified := ledger\<rparr>) (trustlines d)\<rparr>
            in Inr (ensure_asset asset (if is_insert then 1 else 0) ledger d1)))"

text \<open>
  \<open>change\<close> is the balance change as text. The old balance is null for a new row, and \<open>||\<close> reads
  an empty one as \<open>'0'\<close>.
\<close>

definition text_or_zero :: "string \<Rightarrow> string" where
  "text_or_zero s = (if s = [] then ''0'' else s)"

definition store_balance ::
  "(string \<times> string \<times> string \<times> string) \<Rightarrow> int \<Rightarrow> string \<Rightarrow> int \<Rightarrow> derived_tables
     \<Rightarrow> string + (bool \<times> string \<times> string \<times> derived_tables)" where
  "store_balance k ledger change created d =
     (case map_of (trustlines d) k of
        None \<Rightarrow>
          Inr (True, change, ''0'', d\<lparr>trustlines := trustlines d @
            [(k, \<lparr>trust_limit = DEFAULT_LIMIT, balance = change, tl_modified = ledger,
                  tl_created_at = created\<rparr>)]\<rparr>)
      | Some r \<Rightarrow>
          (case add_texts (balance r) change of
             None \<Rightarrow> Inl ''invalid input syntax for type numeric''
           | Some t \<Rightarrow>
               Inr (False, t, balance r, d\<lparr>trustlines :=
                 update_where (\<lambda>k' _. k' = k) (\<lambda>r. r\<lparr>balance := t, tl_modified := ledger\<rparr>) (trustlines d)\<rparr>)))"

definition updateTrustlineBalance ::
  "string \<Rightarrow> int \<Rightarrow> string \<Rightarrow> string \<Rightarrow> string \<Rightarrow> string \<Rightarrow> int \<Rightarrow> derived_tables
     \<Rightarrow> string + derived_tables" where
  "updateTrustlineBalance network ledger account code issuer change created d =
     (let asset = (code, issuer, network) in
      and_then (store_balance (account, code, issuer, network) ledger change created d)
        (\<lambda>(isInsert, newBalance, oldBalance, d1).
           let wasHolder = parses_positive (text_or_zero oldBalance);
               isHolder = parses_positive (text_or_zero newBalance);
               d2 = ensure_asset asset 0 ledger d1;
               d3 = (if \<not> wasHolder \<and> isHolder then add_holder asset d2
                     else if wasHolder \<and> \<not> isHolder then drop_holder asset d2 else d2)
           in Inr (if isInsert \<and> isHolder then add_holder asset d3 else d3)))"

section \<open>Volume\<close>

text \<open>Times are in milliseconds; \<open>bucket_hour\<close> truncates to the hour.\<close>

definition HOUR :: int where
  "HOUR = 3600000"

definition bucket_hour :: "int \<Rightarrow> int" where
  "bucket_hour t = t - t mod HOUR"

definition trackAssetVolume ::
  "string \<Rightarrow> string \<Rightarrow> string \<Rightarrow> jsval \<Rightarrow> int \<Rightarrow> derived_tables \<Rightarrow> string + derived_tables" where
  "trackAssetVolume network code issuer amount timestamp d =
     (let k = (code, issuer, bucket_hour timestamp, network) in
      and_then (amount_param amount) (\<lambda>v.
      and_then (guard (0 \<le> v) ''asset_volume_buckets_volume_check'') (\<lambda>_.
      and_then (case map_of (volume_buckets d) k of
                  None \<Rightarrow> Inr v | Some r \<Rightarrow> column_20_7 (of_column (volume r + v))) (\<lambda>total.
      Inr (d\<lparr>volume_buckets := insert_do_update k \<lparr>volume = v, operation_total = 1\<rparr>
             (\<lambda>r. \<lparr>volume = total, operation_total = operation_total r + 1\<rparr>) (volume_buckets d)\<rparr>)))))"

section \<open>The decoder\<close>

definition processAssetOperation :: "derived_tables handler" where
  "processAssetOperation network ledger op tx d =
     (if o_type op = ''change_trust'' then upsertTrustline network ledger op d
      else if o_type op \<in> {''payment'', ''path_payment_strict_send'', ''path_payment_strict_receive''} then
        (let amount = field op ''amount''; sender = or_else (field op ''from'') (JStr (o_source_account op));
             recipient = field op ''to'';
             assetCode = (if o_type op = ''path_payment_strict_send'' then field op ''source_asset_code''
                          else field op ''asset_code'');
             assetIssuer = (if o_type op = ''path_payment_strict_send'' then field op ''source_asset_issuer''
                            else field op ''asset_issuer'')
         in if \<not> js_truthy assetCode \<or> \<not> js_truthy assetIssuer \<or> \<not> js_truthy amount then Inr d
            else
              and_then (trackAssetVolume network (param assetCode) (param assetIssuer) amount (o_created_at op) d)
                (\<lambda>d1. if js_truthy sender \<and> js_truthy recipient
                      then and_then (updateTrustlineBalance network ledger (param sender) (param assetCode)
                               (param assetIssuer) (CHR ''-'' # js_text amount) (o_created_at op) d1)
                             (\<lambda>d2. updateTrustlineBalance network ledger (param recipient) (param assetCode)
                               (param assetIssuer) (param amount) (o_created_at op) d2)
                      else Inr d1))
      else Inr d)"

end
