(* ===== verification/History_Archive.thy ===== *)
theory History_Archive
  imports "HOL-Library.Word" Js_Text
begin

unbundle bit_operations_syntax

text \<open>
  The framing of Stellar history archives in \<open>indexer/src/historyArchive.ts\<close>: which checkpoint file
  holds a ledger, its path, and the splitting of a decompressed file into XDR records; and the index of
  an operation in its id, from \<open>claimableBalanceId.ts\<close>. Bytes and markers are kept at their width.
  Decoding a record is the Stellar SDK's and is an argument.
\<close>

section \<open>Record streams\<close>

type_synonym bytes = "8 word list"

datatype xdr_error = TruncatedMarker | Fragmented | InvalidRecord | Undecodable string

definition MAX_XDR_RECORD_BYTES :: "32 word" where "MAX_XDR_RECORD_BYTES = 128 * 1024 * 1024"

text \<open>\<open>data.readUInt32BE(offset)\<close>.\<close>

fun readUInt32BE :: "bytes \<Rightarrow> 32 word" where
  "readUInt32BE (a # b # c # d # _) =
     push_bit 24 (ucast a) OR push_bit 16 (ucast b) OR push_bit 8 (ucast c) OR ucast d"
| "readUInt32BE _ = 0"

function parseXdrRecordStream :: "(bytes \<Rightarrow> string + 'a) \<Rightarrow> bytes \<Rightarrow> xdr_error + 'a list" where
  "parseXdrRecordStream decode data =
     (if data = [] then Inr []
      else if length data < 4 then Inl TruncatedMarker
      else
        let marker = readUInt32BE data; size = marker AND 0x7fffffff; rest = drop 4 data in
        if marker AND 0x80000000 = 0 then Inl Fragmented
        else if size = 0 \<or> MAX_XDR_RECORD_BYTES < size \<or> length rest < unat size then Inl InvalidRecord
        else (case decode (take (unat size) rest) of
                Inl e \<Rightarrow> Inl (Undecodable e)
              | Inr r \<Rightarrow> and_then (parseXdrRecordStream decode (drop (unat size) rest)) (\<lambda>rs. Inr (r # rs))))"
  by auto

termination
  by (relation "measure (length \<circ> snd)") auto

declare parseXdrRecordStream.simps [simp del]

section \<open>Files\<close>

definition CHECKPOINT_FREQUENCY :: nat where "CHECKPOINT_FREQUENCY = 64"

definition checkpointForLedger :: "nat \<Rightarrow> nat" where
  "checkpointForLedger sequence = (sequence + CHECKPOINT_FREQUENCY - 1) div CHECKPOINT_FREQUENCY * CHECKPOINT_FREQUENCY"

fun hex_number :: "nat \<Rightarrow> string" where
  "hex_number n = (if n < 16 then [''0123456789abcdef'' ! n] else hex_number (n div 16) @ [''0123456789abcdef'' ! (n mod 16)])"

declare hex_number.simps [simp del]

definition historyArchiveFilePath :: "string \<Rightarrow> nat \<Rightarrow> string" where
  "historyArchiveFilePath kind checkpoint =
     (let hex = pad_start 8 (CHR ''0'') (hex_number checkpoint) in
      kind @ ''/'' @ take 2 hex @ ''/'' @ take 2 (drop 2 hex) @ ''/'' @ take 2 (drop 4 hex)
        @ ''/'' @ kind @ ''-'' @ hex @ ''.xdr.gz'')"

section \<open>Operation ids\<close>

text \<open>The id the archive reader gives an operation, and the index the claimable balance code reads off an id.\<close>

definition archive_operation_id :: "int \<Rightarrow> nat \<Rightarrow> int" where
  "archive_operation_id ledger index = ledger * 1000000 + int index"

definition operationIndex :: "int \<Rightarrow> int" where
  "operationIndex operationId = (operationId AND 0xfff) - 1"

section \<open>Framing is exact\<close>

definition writeUInt32BE :: "32 word \<Rightarrow> bytes" where
  "writeUInt32BE m = [ucast (drop_bit 24 m), ucast (drop_bit 16 m), ucast (drop_bit 8 m), ucast m]"

lemma bit_split:
  fixes n :: nat
  obtains "24 \<le> n" "24 + (n - 24) = n" | "n < 24" "16 \<le> n" "16 + (n - 16) = n"
  | "n < 16" "8 \<le> n" "8 + (n - 8) = n" | "n < 8"
  by fastforce

lemma read_write: "readUInt32BE (writeUInt32BE m @ rest) = m"
proof (rule bit_word_eqI)
  fix n assume "n < LENGTH(32)"
  then show "bit (readUInt32BE (writeUInt32BE m @ rest)) n = bit m n"
    by (cases rule: bit_split [of n]) (auto simp: writeUInt32BE_def bit_simps)
qed

lemma write_read_bytes:
  "writeUInt32BE (readUInt32BE (a # b # c # d # rest)) = [a, b, c, d]"
  by (auto simp: writeUInt32BE_def intro!: bit_word_eqI) (auto simp: bit_simps dest: bit_imp_le_length)

lemma write_read: "4 \<le> length data \<Longrightarrow> writeUInt32BE (readUInt32BE data) = take 4 data"
  by (cases data rule: readUInt32BE.cases) (auto simp: write_read_bytes simp del: readUInt32BE.simps)

lemma high_bit: "bit (0x80000000 :: 32 word) n \<longleftrightarrow> n = 31"
proof -
  have "(0x80000000 :: 32 word) = push_bit 31 1" by simp
  then show ?thesis by (simp only:) (auto simp only: bit_push_bit_iff bit_1_iff; simp)
qed

lemma low_bits: "bit (0x7fffffff :: 32 word) n \<longleftrightarrow> n < 31"
proof -
  have "(0x7fffffff :: 32 word) = mask 31" by (simp add: mask_eq_exp_minus_1)
  then show ?thesis by (simp only:) (auto simp only: bit_mask_iff; simp)
qed

lemma marker_bit: "m AND 0x80000000 = (0 :: 32 word) \<longleftrightarrow> \<not> bit m 31"
proof
  assume "m AND 0x80000000 = 0"
  then have "\<not> bit (m AND 0x80000000) 31" by simp
  then show "\<not> bit m 31" unfolding bit_and_iff high_bit by simp
next
  assume "\<not> bit m 31"
  then have "\<not> bit (m AND 0x80000000) n" for n unfolding bit_and_iff high_bit by auto
  then show "m AND 0x80000000 = 0" by (simp add: bit_eq_iff [of "m AND 0x80000000"])
qed
lemma marker_size: "bit (m :: 32 word) 31 \<Longrightarrow> 0x80000000 OR (m AND 0x7fffffff) = m"
  by (rule bit_word_eqI) (unfold bit_and_iff bit_or_iff high_bit low_bits, auto)

lemma size_of_marker: "\<not> bit x 31 \<Longrightarrow> (0x80000000 OR x) AND 0x7fffffff = (x :: 32 word)"
  by (rule bit_word_eqI) (unfold bit_and_iff bit_or_iff high_bit low_bits, auto simp: numeral_eq_Suc less_Suc_eq)

text \<open>A record as the archive frames it: one last fragment of a legal size.\<close>

definition frame :: "bytes \<Rightarrow> bytes" where
  "frame r = writeUInt32BE (0x80000000 OR of_nat (length r)) @ r"

definition frameable :: "bytes \<Rightarrow> bool" where
  "frameable r \<longleftrightarrow> r \<noteq> [] \<and> length r \<le> unat MAX_XDR_RECORD_BYTES"

lemma max_bytes: "unat MAX_XDR_RECORD_BYTES = 134217728"
  by (simp add: MAX_XDR_RECORD_BYTES_def)

lemma small_of_nat:
  assumes "k \<le> unat MAX_XDR_RECORD_BYTES"
  shows "unat (of_nat k :: 32 word) = k" "\<not> bit (of_nat k :: 32 word) 31"
proof -
  have k: "k < 2 ^ 31" using assms by (simp add: max_bytes)
  then have "\<not> bit k 31" by (simp add: bit_iff_odd)
  then show "\<not> bit (of_nat k :: 32 word) 31" by (simp add: bit_simps)
  show "unat (of_nat k :: 32 word) = k" using k by (simp add: unat_of_nat)
qed

lemma parse_frame:
  assumes "frameable r"
  shows "parseXdrRecordStream Inr (frame r @ rest) = and_then (parseXdrRecordStream Inr rest) (\<lambda>rs. Inr (r # rs))"
proof -
  let ?n = "of_nat (length r) :: 32 word"
  have n: "unat ?n = length r" "\<not> bit ?n 31" using assms small_of_nat by (auto simp: frameable_def)
  have read: "readUInt32BE (frame r @ rest) = 0x80000000 OR ?n" by (simp add: frame_def read_write)
  have size: "readUInt32BE (frame r @ rest) AND 0x7fffffff = ?n" by (simp add: read size_of_marker n(2))
  have marker: "readUInt32BE (frame r @ rest) AND 0x80000000 \<noteq> 0"
    unfolding marker_bit read by (simp add: bit_simps)
  have bounds: "?n \<noteq> 0" "\<not> MAX_XDR_RECORD_BYTES < ?n"
    using assms n(1) by (auto simp: frameable_def word_less_nat_alt)
  define data where "data = frame r @ rest"
  have data: "data \<noteq> []" "\<not> length data < 4" "drop 4 data = r @ rest"
    by (auto simp: data_def frame_def writeUInt32BE_def)
  show ?thesis
    using data size marker bounds n(1) unfolding data_def [symmetric]
    by (subst parseXdrRecordStream.simps) (simp add: Let_def)
qed

lemma parse_frames:
  "list_all frameable rs \<Longrightarrow> parseXdrRecordStream Inr (concat (map frame rs)) = Inr rs"
proof (induction rs)
  case Nil
  then show ?case by (simp add: parseXdrRecordStream.simps)
qed (simp add: parse_frame)

lemma parse_only_frames:
  "parseXdrRecordStream Inr data = Inr rs \<Longrightarrow> list_all frameable rs \<and> data = concat (map frame rs)"
proof (induction "length data" arbitrary: data rs rule: less_induct)
  case less
  show ?case
  proof (cases "data = []")
    case True
    then show ?thesis using less.prems by (simp add: parseXdrRecordStream.simps)
  next
    case False
    let ?m = "readUInt32BE data" and ?rest = "drop 4 data"
    let ?size = "?m AND 0x7fffffff"
    let ?r = "take (unat ?size) ?rest"
    have ok: "4 \<le> length data" "bit ?m 31" "?size \<noteq> 0" "\<not> MAX_XDR_RECORD_BYTES < ?size" "unat ?size \<le> length ?rest"
      using less.prems False by (auto simp: parseXdrRecordStream.simps [of _ data] Let_def marker_bit split: if_splits)
    then obtain rs' where rs': "parseXdrRecordStream Inr (drop (unat ?size) ?rest) = Inr rs'" "rs = ?r # rs'"
      using less.prems False
      by (auto simp: parseXdrRecordStream.simps [of _ data] Let_def marker_bit and_then_def split: if_splits sum.splits)
    have IH: "list_all frameable rs' \<and> drop (unat ?size) ?rest = concat (map frame rs')"
      using less.hyps [OF _ rs'(1)] ok(1) by simp
    have len: "length ?r = unat ?size" using ok(5) by simp
    then have "frameable ?r" using ok(3,4) by (auto simp: frameable_def word_less_nat_alt unat_eq_0)
    moreover have "frame ?r = take 4 data @ ?r"
      using write_read [OF ok(1)] marker_size [OF ok(2)] unfolding frame_def len by (simp del: take_append)
    moreover have "data = take 4 data @ ?r @ drop (unat ?size) ?rest" by (simp only: append_take_drop_id)
    ultimately have "data = frame ?r @ concat (map frame rs')" using IH by (metis append.assoc)
    then show ?thesis using IH rs'(2) \<open>frameable ?r\<close> by simp
  qed
qed

text \<open>
  C39: the parser accepts exactly the framed streams. It returns the records \<open>rs\<close> if and only if the
  bytes are those records, each non-empty and at most 128 MiB, framed one after the other; every
  truncated, fragmented or oversized file is an error.
\<close>

theorem archive_framing_is_exact:
  "parseXdrRecordStream Inr data = Inr rs \<longleftrightarrow> list_all frameable rs \<and> data = concat (map frame rs)"
  using parse_frames parse_only_frames by blast

text \<open>
  No ledger is looked for in a checkpoint that exists. Stellar publishes its checkpoints at the
  ledgers one below a multiple of 64; the reader always asks for a multiple.
\<close>

theorem checkpoint_is_never_published:
  "checkpointForLedger sequence mod CHECKPOINT_FREQUENCY = 0 \<and> sequence \<le> checkpointForLedger sequence
     \<and> checkpointForLedger sequence < sequence + CHECKPOINT_FREQUENCY
     \<and> (checkpointForLedger sequence + 1) mod CHECKPOINT_FREQUENCY \<noteq> 0"
proof -
  have "checkpointForLedger sequence mod CHECKPOINT_FREQUENCY = 0"
    by (simp add: checkpointForLedger_def CHECKPOINT_FREQUENCY_def)
  moreover have "sequence \<le> checkpointForLedger sequence \<and> checkpointForLedger sequence < sequence + CHECKPOINT_FREQUENCY"
  proof -
    have "(sequence + 63) div 64 * 64 + (sequence + 63) mod 64 = sequence + 63" "(sequence + 63) mod 64 < 64" by simp_all
    then show ?thesis unfolding checkpointForLedger_def CHECKPOINT_FREQUENCY_def by linarith
  qed
  moreover have "(c + 1) mod 64 \<noteq> 0" if "c mod 64 = 0" for c :: nat
    using that by (simp add: mod_Suc)
  ultimately show ?thesis by (simp add: CHECKPOINT_FREQUENCY_def)
qed

end
