(* ===== verification/Op_Tables.thy ===== *)
theory Op_Tables
  imports Asset_Tables History_Archive
begin

text \<open>
  The other eight decoders of \<open>indexer/src/db.ts\<close>: liquidity pools, claimable balances, path
  payments, account options, the two decoded operations, revoked sponsorships, Soroban entry
  lifetimes and contract interfaces; each is one function from the tables to the tables, or the
  error that sends its operation to the dead letters.
\<close>

section \<open>Liquidity pools\<close>

definition array_or :: "jsval \<Rightarrow> jsval \<Rightarrow> jsval" where
  "array_or v w = or_else (or_else v w) (JArr [])"

definition item :: "jsval \<Rightarrow> nat \<Rightarrow> jsval" where
  "item v i = (case v of JArr xs \<Rightarrow> if i < length xs then xs ! i else JUndefined | _ \<Rightarrow> JUndefined)"

text \<open>\<open>reserves[i] ? reserves[i].amount : (x || y || '0')\<close>\<close>

definition reserve_amount :: "jsval \<Rightarrow> nat \<Rightarrow> jsval \<Rightarrow> jsval \<Rightarrow> jsval" where
  "reserve_amount reserves i x y =
     (if js_truthy (item reserves i) then get_member (item reserves i) ''amount''
      else or_else (or_else x y) (JStr ''0''))"

definition reserve_asset :: "jsval \<Rightarrow> nat \<Rightarrow> jsval \<Rightarrow> string \<Rightarrow> jsval" where
  "reserve_asset reserves i x fallback =
     (if js_truthy (item reserves i) then formatAsset (get_member (item reserves i) ''asset'')
      else or_else x (JStr fallback))"

definition deposit_pool ::
  "string \<Rightarrow> string \<Rightarrow> int \<Rightarrow> string \<Rightarrow> string \<Rightarrow> int \<Rightarrow> int \<Rightarrow> int \<Rightarrow> derived_tables
     \<Rightarrow> string + derived_tables" where
  "deposit_pool network poolId ledger a b amountA amountB received d =
     (case map_of (liquidity_pools d) (poolId, network) of
        None \<Rightarrow> Inr (d\<lparr>liquidity_pools := liquidity_pools d @ [((poolId, network),
            \<lparr>asset_a = a, asset_b = b, fee_bp = 30, reserve_a = amountA, reserve_b = amountB,
             total_shares = received, pool_ledger = ledger\<rparr>)]\<rparr>)
      | Some p \<Rightarrow>
          and_then (column_20_7 (of_column (reserve_a p + amountA))) (\<lambda>ra.
          and_then (column_20_7 (of_column (reserve_b p + amountB))) (\<lambda>rb.
          and_then (column_20_7 (of_column (total_shares p + received))) (\<lambda>ts.
          Inr (d\<lparr>liquidity_pools := update_where (\<lambda>k _. k = (poolId, network))
            (\<lambda>p. p\<lparr>reserve_a := ra, reserve_b := rb, total_shares := ts, pool_ledger := ledger\<rparr>)
            (liquidity_pools d)\<rparr>)))))"

definition deposit_shares ::
  "string \<Rightarrow> string \<Rightarrow> int \<Rightarrow> string \<Rightarrow> int \<Rightarrow> derived_tables \<Rightarrow> string + derived_tables" where
  "deposit_shares network poolId ledger account received d =
     (case map_of (pool_shares d) (poolId, account, network) of
        None \<Rightarrow> Inr (d\<lparr>pool_shares := pool_shares d @ [((poolId, account, network),
            \<lparr>shares = received, share_ledger = ledger\<rparr>)]\<rparr>)
      | Some s \<Rightarrow>
          and_then (column_20_7 (of_column (shares s + received))) (\<lambda>n.
          Inr (d\<lparr>pool_shares := update_where (\<lambda>k _. k = (poolId, account, network))
            (\<lambda>_. \<lparr>shares = n, share_ledger = ledger\<rparr>) (pool_shares d)\<rparr>)))"

text \<open>\<open>GREATEST(0, column - $n::numeric)\<close>: \<open>GREATEST\<close> ignores a null.\<close>

definition greatest_0 :: "int \<Rightarrow> numeric option \<Rightarrow> string + int" where
  "greatest_0 column x =
     (case x of None \<Rightarrow> Inr 0
      | Some v \<Rightarrow> (let r = numeric_add (of_column column) (numeric_neg v)
                   in if fst r \<le> 0 then Inr 0 else column_20_7 r))"

definition withdraw_pool ::
  "string \<Rightarrow> string \<Rightarrow> int \<Rightarrow> numeric option \<Rightarrow> numeric option \<Rightarrow> numeric option \<Rightarrow> derived_tables
     \<Rightarrow> string + derived_tables" where
  "withdraw_pool network poolId ledger amountA amountB burned d =
     (case map_of (liquidity_pools d) (poolId, network) of
        None \<Rightarrow> Inr d
      | Some p \<Rightarrow>
          and_then (greatest_0 (reserve_a p) amountA) (\<lambda>ra.
          and_then (greatest_0 (reserve_b p) amountB) (\<lambda>rb.
          and_then (greatest_0 (total_shares p) burned) (\<lambda>ts.
          Inr (d\<lparr>liquidity_pools := update_where (\<lambda>k _. k = (poolId, network))
            (\<lambda>p. p\<lparr>reserve_a := ra, reserve_b := rb, total_shares := ts, pool_ledger := ledger\<rparr>)
            (liquidity_pools d)\<rparr>)))))"

definition withdraw_shares ::
  "string \<Rightarrow> string \<Rightarrow> int \<Rightarrow> string \<Rightarrow> numeric option \<Rightarrow> derived_tables \<Rightarrow> string + derived_tables" where
  "withdraw_shares network poolId ledger account burned d =
     (case map_of (pool_shares d) (poolId, account, network) of
        None \<Rightarrow> Inr d
      | Some s \<Rightarrow>
          and_then (greatest_0 (shares s) burned) (\<lambda>n.
          Inr (d\<lparr>pool_shares := update_where (\<lambda>k _. k = (poolId, account, network))
            (\<lambda>_. \<lparr>shares = n, share_ledger = ledger\<rparr>) (pool_shares d)\<rparr>)))"

definition received_shares :: "horizon_operation \<Rightarrow> jsval" where
  "received_shares op = or_else (or_else (field op ''shares_received'') (field op ''shares'')) (JStr ''0'')"

definition burned_shares :: "horizon_operation \<Rightarrow> jsval" where
  "burned_shares op = or_else (field op ''shares'') (JStr ''0'')"

definition processLiquidityPoolOperation :: "derived_tables handler" where
  "processLiquidityPoolOperation network ledger op tx d =
     (let pool = field op ''liquidity_pool_id''; account = o_source_account op in
      if o_type op \<noteq> ''liquidity_pool_deposit'' \<and> o_type op \<noteq> ''liquidity_pool_withdraw'' then Inr d
      else if \<not> js_truthy pool then Inr d
      else if o_type op = ''liquidity_pool_deposit'' then
        (let reserves = array_or (field op ''reserves_deposited'') (field op ''reserves_max'');
             a = reserve_asset reserves 0 (field op ''asset_a'') ''native'';
             b = reserve_asset reserves 1 (field op ''asset_b'') ''unknown''
         in and_then (amount_param (reserve_amount reserves 0 (field op ''amount_a'') (field op ''max_amount_a''))) (\<lambda>va.
            and_then (amount_param (reserve_amount reserves 1 (field op ''amount_b'') (field op ''max_amount_b''))) (\<lambda>vb.
            and_then (amount_param (received_shares op)) (\<lambda>n.
            and_then (deposit_pool network (param pool) ledger (param a) (param b) va vb n d)
              (deposit_shares network (param pool) ledger account n)))))
      else
        (let reserves = array_or (field op ''reserves_received'') (field op ''reserves_min'') in
         and_then (numeric_param (reserve_amount reserves 0 (field op ''amount_a'') (field op ''min_amount_a''))) (\<lambda>va.
         and_then (numeric_param (reserve_amount reserves 1 (field op ''amount_b'') (field op ''min_amount_b''))) (\<lambda>vb.
         and_then (numeric_param (burned_shares op)) (\<lambda>n.
         and_then (withdraw_pool network (param pool) ledger va vb n d)
           (withdraw_shares network (param pool) ledger account n))))))"

section \<open>Claimable balances\<close>

text \<open>\<open>operationIndex\<close> of an id that is text; \<open>None\<close> is the \<open>SyntaxError\<close> of \<open>BigInt\<close>.\<close>

definition operation_index :: "string \<Rightarrow> int option" where
  "operation_index operationId = map_option operationIndex (bigint_of_text operationId)"

text \<open>
  What is computed outside the repository: the hash of an operation-id preimage (account, sequence,
  operation number; \<open>None\<close> where the Stellar SDK throws), and PostgreSQL's reading of a timestamp.
\<close>

record decoder_env =
  op_id_hash :: "string \<Rightarrow> string \<Rightarrow> int \<Rightarrow> string option"
  timestamptz :: "string \<Rightarrow> int option"

definition claimableBalanceId ::
  "decoder_env \<Rightarrow> string \<Rightarrow> string \<Rightarrow> string \<Rightarrow> string option" where
  "claimableBalanceId env sourceAccount sequence operationId =
     (case operation_index operationId of None \<Rightarrow> None | Some i \<Rightarrow> op_id_hash env sourceAccount sequence i)"

definition balanceIdFor ::
  "decoder_env \<Rightarrow> horizon_operation \<Rightarrow> horizon_transaction option \<Rightarrow> string + string" where
  "balanceIdFor env op tx =
     (let reported = or_else (field op ''balance_id'') (field op ''claimable_balance_id'') in
      if js_truthy reported then Inr (param reported)
      else (case tx of
              None \<Rightarrow> Inr (o_id op)
            | Some t \<Rightarrow>
                (case t_source_account_sequence t of
                   Some sequence \<Rightarrow>
                     if t_source_account t \<noteq> [] \<and> sequence \<noteq> [] then
                       (case claimableBalanceId env (t_source_account t) sequence (o_id op) of
                          Some i \<Rightarrow> Inr i | None \<Rightarrow> Inl ''claimable balance id'')
                     else Inr (o_id op)
                 | None \<Rightarrow> Inr (o_id op))))"

text \<open>
  The predicate of a claimant. An epoch is printed with \<open>toISOString\<close> and read back by PostgreSQL,
  which knows the years 1 to 9999 of that notation; a fraction of a second cannot occur.
\<close>

definition epoch_ms :: "jsval \<Rightarrow> string + int" where
  "epoch_ms v = (case js_number v of
       Some s \<Rightarrow> if - 62135596800 \<le> s \<and> s \<le> 253402300799 then Inr (s * 1000) else Inl ''Invalid time value''
     | None \<Rightarrow> Inl ''Invalid time value'')"

definition claimant_predicate :: "decoder_env \<Rightarrow> jsval \<Rightarrow> string + claimant_row" where
  "claimant_predicate env predicate =
     (let row = (\<lambda>t a r. \<lparr>cl_type = t, cl_details = json_text predicate, cl_abs_before = a, cl_rel_before = r\<rparr>);
          p = get_member predicate
      in if js_truthy (p ''abs_before'') then
           (case timestamptz env (js_text (p ''abs_before'')) of
              Some t \<Rightarrow> Inr (row Abs_before (Some t) None) | None \<Rightarrow> Inl ''invalid input syntax for type timestamptz'')
         else if js_truthy (p ''abs_before_epoch'') then
           and_then (epoch_ms (p ''abs_before_epoch'')) (\<lambda>t. Inr (row Abs_before (Some t) None))
         else if \<not> is_nullish (p ''rel_before'') then
           and_then (int8_param (let s = js_text (p ''rel_before'') in
                       if is_int_text (trim s) then Some (int_of_text (trim s)) else None))
             (\<lambda>r. Inr (row Rel_before None (Some r)))
         else if js_truthy (p ''unconditional'') then Inr (row Unconditional None None)
         else if js_truthy (p ''and'') \<or> js_truthy (p ''or'') \<or> js_truthy (p ''not'')
         then Inr (row Compound None None)
         else Inr (row Unconditional None None))"

definition insert_claimant ::
  "decoder_env \<Rightarrow> string \<Rightarrow> string \<Rightarrow> jsval \<Rightarrow> derived_tables \<Rightarrow> string + derived_tables" where
  "insert_claimant env network balanceId claimant d =
     and_then (claimant_predicate env (or_else (get_member claimant ''predicate'') (JObj []))) (\<lambda>row.
     and_then (not_null (null_param (get_member claimant ''destination''))) (\<lambda>dest.
     Inr (d\<lparr>claimants := insert_do_nothing (balanceId, dest, network) row (claimants d)\<rparr>)))"

fun insert_claimants ::
  "decoder_env \<Rightarrow> string \<Rightarrow> string \<Rightarrow> jsval list \<Rightarrow> derived_tables \<Rightarrow> string + derived_tables" where
  "insert_claimants env network balanceId [] d = Inr d"
| "insert_claimants env network balanceId (c # cs) d =
     and_then (insert_claimant env network balanceId c d) (insert_claimants env network balanceId cs)"

text \<open>The items of a \<open>for ... of\<close> loop.\<close>

definition array_items :: "jsval \<Rightarrow> string + jsval list" where
  "array_items v = (case v of JArr xs \<Rightarrow> Inr xs | JStr s \<Rightarrow> Inr (map (\<lambda>c. JStr [c]) s)
     | _ \<Rightarrow> Inl ''is not iterable'')"

definition new_claimable :: "int \<Rightarrow> horizon_operation \<Rightarrow> int \<Rightarrow> claimable_row" where
  "new_claimable ledger op amount =
     \<lparr>cb_asset = param (formatAsset (JObj (o_fields op))), cb_amount = amount,
      cb_sponsor = param (or_else (field op ''sponsor'') (JStr (o_source_account op))),
      cb_claimants = json_text (or_else (field op ''claimants'') (JArr [])),
      cb_status = Unclaimed, cb_claimed_by = None, cb_claimed_at = None, cb_claimed_ledger = None,
      cb_created_ledger = ledger, cb_created_at = o_created_at op\<rparr>"

definition claim_row :: "int \<Rightarrow> horizon_operation \<Rightarrow> claimable_row \<Rightarrow> claimable_row" where
  "claim_row ledger op r =
     r\<lparr>cb_status := Claimed,
       cb_claimed_by := Some (param (or_else (field op ''claimant'') (JStr (o_source_account op)))),
       cb_claimed_at := Some (o_created_at op), cb_claimed_ledger := Some ledger\<rparr>"

definition claw_back_row :: "int \<Rightarrow> horizon_operation \<Rightarrow> claimable_row \<Rightarrow> claimable_row" where
  "claw_back_row ledger op r =
     r\<lparr>cb_status := Clawed_back, cb_claimed_at := Some (o_created_at op), cb_claimed_ledger := Some ledger\<rparr>"

definition claimable_types :: "string list" where
  "claimable_types = [''create_claimable_balance'', ''claim_claimable_balance'', ''clawback_claimable_balance'']"

definition processClaimableBalanceOperation :: "decoder_env \<Rightarrow> derived_tables handler" where
  "processClaimableBalanceOperation env network ledger op tx d =
     (if o_type op \<notin> set claimable_types then Inr d
      else and_then (balanceIdFor env op tx) (\<lambda>balanceId.
        if balanceId = [] then Inr d
        else if o_type op = ''create_claimable_balance'' then
          and_then (amount_param (or_else (field op ''amount'') (JStr ''0''))) (\<lambda>amount.
          and_then (array_items (or_else (field op ''claimants'') (JArr []))) (\<lambda>cs.
          insert_claimants env network balanceId cs
            (d\<lparr>claimable_balances := insert_do_nothing (balanceId, network) (new_claimable ledger op amount)
                 (claimable_balances d)\<rparr>)))
        else
          Inr (d\<lparr>claimable_balances := update_where (\<lambda>k _. k = (balanceId, network))
                 (if o_type op = ''claim_claimable_balance'' then claim_row ledger op
                  else claw_back_row ledger op)
                 (claimable_balances d)\<rparr>)))"

section \<open>Path payments\<close>

definition dest_asset :: "horizon_operation \<Rightarrow> jsval" where
  "dest_asset op =
     (let d = formatAssetFromPrefix op ''dest_'' in
      if d \<noteq> JStr ''native'' \<or> js_truthy (field op ''dest_asset_type'') then d
      else formatAsset (JObj (o_fields op)))"

fun insert_hops :: "string \<Rightarrow> string \<Rightarrow> nat \<Rightarrow> string list \<Rightarrow> derived_tables \<Rightarrow> derived_tables" where
  "insert_hops network opId idx [] d = d"
| "insert_hops network opId idx (a # as) d =
     insert_hops network opId (idx + 1) as
       (d\<lparr>path_payment_hops := insert_do_nothing (opId, idx, network) a (path_payment_hops d)\<rparr>)"

definition path_items :: "jsval \<Rightarrow> string + jsval list" where
  "path_items v = (case or_else v (JArr []) of JArr xs \<Rightarrow> Inr xs | _ \<Rightarrow> Inl ''pathRaw.map is not a function'')"

definition source_amount :: "horizon_operation \<Rightarrow> jsval" where
  "source_amount op =
     (if o_type op = ''path_payment_strict_send''
      then coalesce (coalesce (field op ''source_amount'') (field op ''amount'')) (JStr ''0'')
      else coalesce (coalesce (coalesce (field op ''source_amount'') (field op ''source_max''))
             (field op ''amount'')) (JStr ''0''))"

definition dest_amount :: "horizon_operation \<Rightarrow> jsval" where
  "dest_amount op =
     (if o_type op = ''path_payment_strict_send''
      then coalesce (coalesce (coalesce (coalesce (field op ''dest_amount'') (field op ''dest_min''))
             (field op ''destination_min'')) (field op ''amount'')) (JStr ''0'')
      else coalesce (coalesce (field op ''dest_amount'') (field op ''amount'')) (JStr ''0''))"

definition processPathPaymentOperation :: "derived_tables handler" where
  "processPathPaymentOperation network ledger op tx d =
     (if o_type op \<noteq> ''path_payment_strict_send'' \<and> o_type op \<noteq> ''path_payment_strict_receive'' then Inr d
      else
        and_then (path_items (field op ''path'')) (\<lambda>raw.
        and_then (amount_param (JStr (js_text (source_amount op)))) (\<lambda>sent.
        and_then (amount_param (JStr (js_text (dest_amount op)))) (\<lambda>received.
          let pathAssets = map (param \<circ> formatAsset) raw;
              row = \<lparr>pp_transaction_hash = o_transaction_hash op, pp_ledger = ledger,
                pp_type = (if o_type op = ''path_payment_strict_send'' then Strict_send else Strict_receive),
                pp_from = param (or_else (field op ''from'') (JStr (o_source_account op))),
                pp_to = param (or_else (field op ''to'') (JStr [])),
                pp_source_asset = param (formatAssetFromPrefix op ''source_''),
                pp_source_amount = sent, pp_dest_asset = param (dest_asset op), pp_dest_amount = received,
                pp_path_assets = pathAssets, pp_hop_count = length pathAssets,
                pp_created_at = o_created_at op\<rparr>
          in Inr (insert_hops network (o_id op) 0 pathAssets
                (d\<lparr>path_payments := insert_do_nothing (o_id op, network) row (path_payments d)\<rparr>))))))"

section \<open>Account options\<close>

definition weight_value :: "jsval \<Rightarrow> int option" where
  "weight_value raw = (case raw of JInt i \<Rightarrow> Some i | JNum t fin w \<Rightarrow> w
     | _ \<Rightarrow> parse_int (js_text (coalesce raw (JStr ''0''))))"

definition record_signer_change ::
  "string \<Rightarrow> int \<Rightarrow> horizon_operation \<Rightarrow> derived_tables \<Rightarrow> string + derived_tables" where
  "record_signer_change network ledger op d =
     (let signer = field op ''signer'';
          signerKey = or_else (field op ''signer_key'') (get_member signer ''key'');
          raw = coalesce (field op ''signer_weight'') (get_member signer ''weight'')
      in if \<not> js_truthy signerKey then Inr d
         else and_then (int4_param (weight_value raw)) (\<lambda>w.
           Inr (d\<lparr>signer_changes := signer_changes d @
             [\<lparr>sc_account = o_source_account op, sc_operation_id = o_id op,
               sc_transaction_hash = o_transaction_hash op, sc_ledger = ledger, sc_network = network,
               sc_signer_key = param signerKey, sc_weight = w,
               sc_action = (if w = 0 then Removed else Added), sc_created_at = o_created_at op\<rparr>]\<rparr>)))"

text \<open>\<open>x != null ? Number(x) : null\<close> for an \<open>INTEGER\<close> column.\<close>

definition optional_int :: "jsval \<Rightarrow> string + int option" where
  "optional_int v = (if is_nullish v then Inr None else and_then (int4_param (js_number v)) (\<lambda>i. Inr (Some i)))"

text \<open>\<open>list || (flags ? [String(flags)] : null)\<close> for a \<open>TEXT[]\<close> column.\<close>

definition flag_list :: "jsval \<Rightarrow> jsval \<Rightarrow> string + string list option" where
  "flag_list texts flags =
     (if js_truthy texts then
        (case texts of JArr xs \<Rightarrow> Inr (Some (map param xs)) | _ \<Rightarrow> Inl ''malformed array literal'')
      else if js_truthy flags then Inr (Some [js_text flags])
      else Inr None)"

definition record_threshold_change ::
  "string \<Rightarrow> int \<Rightarrow> horizon_operation \<Rightarrow> derived_tables \<Rightarrow> string + derived_tables" where
  "record_threshold_change network ledger op d =
     and_then (optional_int (field op ''master_key_weight'')) (\<lambda>master.
     and_then (optional_int (field op ''low_threshold'')) (\<lambda>low.
     and_then (optional_int (field op ''med_threshold'')) (\<lambda>med.
     and_then (optional_int (field op ''high_threshold'')) (\<lambda>high.
     and_then (flag_list (field op ''set_flags_s'') (field op ''set_flags'')) (\<lambda>setFlags.
     and_then (flag_list (field op ''clear_flags_s'') (field op ''clear_flags'')) (\<lambda>clearFlags.
       let homeDomain = (if js_truthy (field op ''home_domain'') then Some (param (field op ''home_domain'')) else None)
       in if master = None \<and> low = None \<and> med = None \<and> high = None \<and> homeDomain = None
             \<and> setFlags = None \<and> clearFlags = None
          then Inr d
          else Inr (d\<lparr>threshold_changes := threshold_changes d @
             [\<lparr>tc_account = o_source_account op, tc_operation_id = o_id op,
               tc_transaction_hash = o_transaction_hash op, tc_ledger = ledger, tc_network = network,
               tc_master_weight = master, tc_low_threshold = low, tc_med_threshold = med,
               tc_high_threshold = high, tc_home_domain = homeDomain, tc_set_flags = setFlags,
               tc_clear_flags = clearFlags, tc_created_at = o_created_at op\<rparr>]\<rparr>)))))))"

definition processSetOptionsOperation :: "derived_tables handler" where
  "processSetOptionsOperation network ledger op tx d =
     (if o_type op \<noteq> ''set_options'' then Inr d
      else and_then (record_signer_change network ledger op d) (record_threshold_change network ledger op))"

section \<open>Decoded operations\<close>

text \<open>
  The decoder assigns properties of the operation object and runs no statement; the operation's row
  was written before, from the object as Horizon sent it.
\<close>

definition set_field :: "string \<Rightarrow> jsval \<Rightarrow> horizon_operation \<Rightarrow> horizon_operation" where
  "set_field k v op = op\<lparr>o_fields := insert_do_update k v (\<lambda>_. v) (o_fields op)\<rparr>"

definition decoded_operation :: "horizon_operation \<Rightarrow> horizon_operation" where
  "decoded_operation op =
     (if o_type op = ''bump_sequence'' then
        (let bumpTo = or_else (field op ''bump_to'') (field op ''bumpTo'')
         in if js_truthy bumpTo then set_field ''bump_sequence'' bumpTo op else op)
      else if o_type op = ''manage_data'' then
        (let dataName = or_else (field op ''data_name'') (field op ''name'');
             dataValue = or_else (field op ''data_value'') (field op ''value'')
         in if js_truthy dataName
            then set_field ''data_value'' (or_else dataValue JNull) (set_field ''data_name'' dataName op)
            else op)
      else op)"

definition processDecodedOperations :: "derived_tables handler" where
  "processDecodedOperations network ledger op tx d = Inr d"

section \<open>Sponsorships, entry lifetimes, contract interfaces\<close>

definition revoked_id :: "horizon_operation \<Rightarrow> jsval" where
  "revoked_id op =
     or_else (field op ''account_id'') (or_else (field op ''trustline_account_id'')
       (or_else (field op ''data_account_id'') (or_else (field op ''claimable_balance_id'')
         (or_else (field op ''offer_id'') (JStr [])))))"

definition processRevokeSponsorshipOperation :: "derived_tables handler" where
  "processRevokeSponsorshipOperation network ledger op tx d =
     (if o_type op \<noteq> ''revoke_sponsorship'' \<or> \<not> js_truthy (revoked_id op) then Inr d
      else Inr (d\<lparr>sponsorships := delete_where (\<lambda>k _. k = (param (revoked_id op), network)) (sponsorships d)\<rparr>))"

text \<open>\<open>key.substring(0, 56)\<close>; on a value that is not a string the call throws and is caught.\<close>

definition key_prefix :: "jsval \<Rightarrow> string" where
  "key_prefix key = (case key of JStr s \<Rightarrow> take 56 s | _ \<Rightarrow> [])"

definition upsert_ttl ::
  "string \<Rightarrow> int \<Rightarrow> horizon_operation \<Rightarrow> jsval \<Rightarrow> jsval \<Rightarrow> derived_tables \<Rightarrow> string + derived_tables" where
  "upsert_ttl network ledger op extendTo key d =
     and_then (not_null (null_param key)) (\<lambda>k.
     and_then (int8_param (js_number extendTo)) (\<lambda>live.
       let row = \<lparr>ttl_contract_id = key_prefix key, live_until_ledger = live, ttl_last_ledger = ledger,
             ttl_operation_type = o_type op, ttl_created_at = o_created_at op\<rparr>
       in Inr (d\<lparr>soroban_ttl := insert_do_update (k, network) row
             (\<lambda>r. r\<lparr>live_until_ledger := live, ttl_last_ledger := ledger, ttl_operation_type := o_type op,
                    ttl_created_at := o_created_at op\<rparr>) (soroban_ttl d)\<rparr>)))"

fun upsert_ttls ::
  "string \<Rightarrow> int \<Rightarrow> horizon_operation \<Rightarrow> jsval \<Rightarrow> jsval list \<Rightarrow> derived_tables \<Rightarrow> string + derived_tables" where
  "upsert_ttls network ledger op extendTo [] d = Inr d"
| "upsert_ttls network ledger op extendTo (k # ks) d =
     and_then (upsert_ttl network ledger op extendTo k d) (upsert_ttls network ledger op extendTo ks)"

definition extend_to :: "int \<Rightarrow> horizon_operation \<Rightarrow> jsval" where
  "extend_to ledger op =
     or_else (or_else (field op ''extend_to'') (field op ''extendTo'')) (JStr (int_to_string ledger))"

definition processSorobanTTLOperation :: "derived_tables handler" where
  "processSorobanTTLOperation network ledger op tx d =
     (if o_type op \<noteq> ''restore_footprint'' \<and> o_type op \<noteq> ''extend_footprint_ttl'' then Inr d
      else and_then (array_items (or_else (or_else (field op ''ledger_keys'')
                       (get_member (field op ''ext'') ''ledgerKeys'')) (JArr [])))
             (\<lambda>ks. upsert_ttls network ledger op (extend_to ledger op) ks d))"

definition placeholder_functions :: string where
  "placeholder_functions = json_text (JArr [JObj [(''name'', JStr ''placeholder''),
     (''inputs'', JArr []), (''outputs'', JArr [])]])"

definition processContractInterfaceOperation :: "derived_tables handler" where
  "processContractInterfaceOperation network ledger op tx d =
     (let call = or_else (field op ''function'') (field op ''host_function'');
          contractId = or_else (or_else (or_else (field op ''contract_id'') (get_member call ''contract_id''))
                         (field op ''address'')) (JStr []);
          wasmHash = or_else (or_else (or_else (field op ''wasm_hash'') (get_member call ''wasm_hash''))
                       (field op ''wasmId'')) (JStr [])
      in if o_type op \<noteq> ''invoke_host_function'' \<or> \<not> js_truthy call
            \<or> \<not> js_truthy contractId \<or> \<not> js_truthy wasmHash then Inr d
         else
           (let row = \<lparr>ci_wasm_hash = param wasmHash, ci_functions = placeholder_functions\<rparr>
            in Inr (d\<lparr>contract_interfaces := insert_do_update (param contractId, network) row
                 (\<lambda>_. row) (contract_interfaces d)\<rparr>)))"

section \<open>All decoders, in the order \<open>indexLedger\<close> calls them\<close>

definition decoders :: "decoder_env \<Rightarrow> derived_tables handler list" where
  "decoders env =
     [processAssetOperation, processLiquidityPoolOperation, processClaimableBalanceOperation env,
      processPathPaymentOperation, processSetOptionsOperation, processDecodedOperations,
      processRevokeSponsorshipOperation, processSorobanTTLOperation, processContractInterfaceOperation]"

definition decode_operation ::
  "decoder_env \<Rightarrow> string \<Rightarrow> int \<Rightarrow> horizon_operation \<Rightarrow> horizon_transaction option \<Rightarrow> derived_tables
     \<Rightarrow> string + derived_tables" where
  "decode_operation env = run_handlers (decoders env)"

section \<open>Reads\<close>

text \<open>Rows with equal times are listed in insertion order; PostgreSQL promises none.\<close>

definition status_text :: "balance_status \<Rightarrow> string" where
  "status_text s = (case s of Unclaimed \<Rightarrow> ''unclaimed'' | Claimed \<Rightarrow> ''claimed'' | Clawed_back \<Rightarrow> ''clawed_back'')"

definition getLiquidityPool :: "string \<Rightarrow> string \<Rightarrow> derived_tables \<Rightarrow> pool_row option" where
  "getLiquidityPool network poolId d = map_of (liquidity_pools d) (poolId, network)"

definition getClaimableBalance :: "string \<Rightarrow> string \<Rightarrow> derived_tables \<Rightarrow> claimable_row option" where
  "getClaimableBalance network balanceId d = map_of (claimable_balances d) (balanceId, network)"

definition getClaimableBalancesForAccount ::
  "string \<Rightarrow> string \<Rightarrow> string \<Rightarrow> derived_tables \<Rightarrow> (string \<times> predicate_type \<times> claimable_row) list" where
  "getClaimableBalancesForAccount network account status d =
     sort_key (\<lambda>(_, _, r). - cb_created_at r)
       (concat (map (\<lambda>((b, n), r).
          map (\<lambda>(_, c). (b, cl_type c, r))
            (filter (\<lambda>((b', dest, n'), _). b' = b \<and> n' = n \<and> dest = account) (claimants d)))
        (filter (\<lambda>((_, n), r). n = network \<and> (status = [] \<or> status_text (cb_status r) = status))
          (claimable_balances d))))"

definition getPathPayment :: "string \<Rightarrow> string \<Rightarrow> derived_tables \<Rightarrow> path_payment_row option" where
  "getPathPayment network operationId d = map_of (path_payments d) (operationId, network)"

definition findPathPaymentsByAsset ::
  "string \<Rightarrow> string \<Rightarrow> nat \<Rightarrow> derived_tables \<Rightarrow> (string \<times> path_payment_row) list" where
  "findPathPaymentsByAsset network asset limit d =
     take limit (sort_key (\<lambda>(_, r). - pp_created_at r)
       (map (\<lambda>((i, _), r). (i, r))
         (filter (\<lambda>((_, n), r). n = network \<and>
             (pp_source_asset r = asset \<or> pp_dest_asset r = asset \<or> asset \<in> set (pp_path_assets r)))
           (path_payments d))))"

definition getSignerChangesForAccount :: "string \<Rightarrow> string \<Rightarrow> derived_tables \<Rightarrow> signer_change list" where
  "getSignerChangesForAccount network account d =
     sort_key (\<lambda>c. - sc_created_at c)
       (filter (\<lambda>c. sc_account c = account \<and> sc_network c = network) (signer_changes d))"

definition getThresholdChangesForAccount :: "string \<Rightarrow> string \<Rightarrow> derived_tables \<Rightarrow> threshold_change list" where
  "getThresholdChangesForAccount network account d =
     sort_key (\<lambda>c. - tc_created_at c)
       (filter (\<lambda>c. tc_account c = account \<and> tc_network c = network) (threshold_changes d))"

end
