(* ===== verification/Asset_Flow.thy ===== *)
theory Asset_Flow
  imports Asset_Tables
begin

text \<open>
  What the trustline and asset tables keep while operations are decoded: payments conserve every
  asset's total, and the ways in which the holder count and the path payments depart from the
  balances they are computed from.
\<close>

section \<open>What an asset's trustlines add up to\<close>

text \<open>In units of \<open>10 ^ - k\<close>; a balance whose text is not a numeral counts as nothing.\<close>

definition asset_of :: "string \<times> string \<times> string \<times> string \<Rightarrow> string \<times> string \<times> string" where
  "asset_of k = snd k"

definition balance_value :: "nat \<Rightarrow> trustline_row \<Rightarrow> int" where
  "balance_value k r = (case numeric_of_text (balance r) of Some x \<Rightarrow> scaled k x | None \<Rightarrow> 0)"

definition asset_total :: "nat \<Rightarrow> string \<times> string \<times> string \<Rightarrow> derived_tables \<Rightarrow> int" where
  "asset_total k a d =
     sum_list (map (\<lambda>(key, r). if asset_of key = a then balance_value k r else 0) (trustlines d))"

definition numeral_upto :: "nat \<Rightarrow> string \<Rightarrow> bool" where
  "numeral_upto k s = (case numeric_of_text s of Some x \<Rightarrow> snd x \<le> k | None \<Rightarrow> False)"

definition balances_ok :: "nat \<Rightarrow> derived_tables \<Rightarrow> bool" where
  "balances_ok k d \<longleftrightarrow> keyed (trustlines d) \<and> list_all (\<lambda>(_, r). numeral_upto k (balance r)) (trustlines d)"

lemma trustlines_frame [simp]:
  "trustlines (update_asset a f d) = trustlines d" "trustlines (ensure_asset a n l d) = trustlines d"
  "trustlines (add_holder a d) = trustlines d" "trustlines (drop_holder a d) = trustlines d"
  by (simp_all add: update_asset_def ensure_asset_def add_holder_def drop_holder_def)

lemma track_frame: "trackAssetVolume n c i v t d = Inr d' \<Longrightarrow> trustlines d' = trustlines d"
  by (auto simp: trackAssetVolume_def Let_def and_then_Inr)

lemma store_balance_total:
  assumes ok: "balances_ok k d" and c: "numeric_of_text change = Some c" "snd c \<le> k"
    and run: "store_balance key ledger change created d = Inr (i, new, old, d')"
  shows "balances_ok k d' \<and>
    asset_total k a d' = asset_total k a d + (if asset_of key = a then scaled k c else 0)"
proof (cases "map_of (trustlines d) key")
  case None
  then have "key \<notin> keys (trustlines d)" by (simp add: in_keys_iff)
  with None run ok c show ?thesis
    by (auto simp: store_balance_def balances_ok_def asset_total_def balance_value_def numeral_upto_def
        keyed_def keys_def)
next
  case (Some r)
  then obtain t where t: "add_texts (balance r) change = Some t"
    and d': "d' = d\<lparr>trustlines := update_where (\<lambda>k' _. k' = key) (\<lambda>r. r\<lparr>balance := t, tl_modified := ledger\<rparr>)
        (trustlines d)\<rparr>"
    using run by (auto simp: store_balance_def split: option.splits)
  have "numeral_upto k (balance r)"
    using ok map_of_SomeD [OF Some] by (auto simp: balances_ok_def list_all_iff)
  then obtain x where x: "numeric_of_text (balance r) = Some x" "snd x \<le> k"
    by (auto simp: numeral_upto_def split: option.splits)
  then have t': "numeric_of_text t = Some (numeric_add x c)"
    using t c by (auto simp: add_texts_def)
  have "keyed (trustlines d')" using ok by (simp add: balances_ok_def d')
  moreover have "list_all (\<lambda>(_, r). numeral_upto k (balance r)) (trustlines d')"
    using ok t' x(2) c(2)
    by (auto simp: balances_ok_def d' update_where_def list_all_iff numeral_upto_def)
  moreover have "asset_total k a d' = asset_total k a d
      - (if asset_of key = a then balance_value k r else 0)
      + (if asset_of key = a then scaled k (numeric_add x c) else 0)"
    using ok t' by (simp add: asset_total_def d' balances_ok_def sum_update_key [OF _ Some] balance_value_def)
  ultimately show ?thesis
    using x c by (simp add: balance_value_def scaled_add balances_ok_def)
qed

lemma update_balance_total:
  assumes "balances_ok k d" "numeric_of_text change = Some c" "snd c \<le> k"
    and run: "updateTrustlineBalance n l account code issuer change created d = Inr d'"
  shows "balances_ok k d' \<and>
    asset_total k a d' = asset_total k a d + (if (code, issuer, n) = a then scaled k c else 0)"
proof -
  obtain i new old d1 where d1: "store_balance (account, code, issuer, n) l change created d = Inr (i, new, old, d1)"
    and "trustlines d' = trustlines d1"
    using run by (auto simp: updateTrustlineBalance_def Let_def and_then_Inr split: if_splits)
  then have "balances_ok k d' = balances_ok k d1" "asset_total k a d' = asset_total k a d1"
    by (simp_all add: balances_ok_def asset_total_def)
  with store_balance_total [OF assms(1-3) d1, of a] show ?thesis by (simp add: asset_of_def)
qed

definition payment_types :: "string list" where
  "payment_types = [''payment'', ''path_payment_strict_send'', ''path_payment_strict_receive'']"

text \<open>What a decoded operation other than \<open>change_trust\<close> did.\<close>

lemma payment_cases [consumes 2]:
  assumes run: "processAssetOperation n l op tx d = Inr d'" and ty: "o_type op \<noteq> ''change_trust''"
  obtains (skip) "d' = d"
  | (volume) c i where "trackAssetVolume n c i (field op ''amount'') (o_created_at op) d = Inr d'"
  | (move) c i d1 d2 p q where
      "trackAssetVolume n c i (field op ''amount'') (o_created_at op) d = Inr d1"
      "updateTrustlineBalance n l p c i (CHR ''-'' # js_text (field op ''amount'')) (o_created_at op) d1 = Inr d2"
      "updateTrustlineBalance n l q c i (param (field op ''amount'')) (o_created_at op) d2 = Inr d'"
proof -
  define code where "code = (if o_type op = ''path_payment_strict_send''
      then field op ''source_asset_code'' else field op ''asset_code'')"
  define issuer where "issuer = (if o_type op = ''path_payment_strict_send''
      then field op ''source_asset_issuer'' else field op ''asset_issuer'')"
  from run ty show ?thesis
    unfolding processAssetOperation_def code_def [symmetric] issuer_def [symmetric] Let_def
    by (auto simp: and_then_Inr intro: skip volume move split: if_split_asm)
qed

text \<open>
  C23: a payment of either kind moves a balance and creates none: whenever it is decoded, the sum
  of the stored balances of every asset, in units of any scale the stored texts fit, is what it was.
\<close>

theorem payments_conserve_balances:
  assumes op: "o_type op \<in> set payment_types" "field op ''amount'' = JStr amount"
    and amount: "is_digit (hd amount)" "is_digit (last amount)" "numeral_upto k amount"
    and ok: "balances_ok k d"
    and run: "processAssetOperation network ledger op tx d = Inr d'"
  shows "balances_ok k d' \<and> asset_total k a d' = asset_total k a d"
proof -
  obtain c where c: "numeric_of_text amount = Some c" "snd c \<le> k"
    using amount(3) by (auto simp: numeral_upto_def split: option.splits)
  have "amount \<noteq> []" using c by (auto simp: numeric_of_text_def numeric_unsigned_def Let_def)
  then have neg: "numeric_of_text (CHR ''-'' # amount) = Some (numeric_neg c)" "snd (numeric_neg c) \<le> k"
    using numeric_of_unsigned [OF _ amount(1,2)] c by (auto simp: numeric_neg_def)
  have "o_type op \<noteq> ''change_trust''" using op(1) by (auto simp: payment_types_def)
  with run show ?thesis
  proof (cases rule: payment_cases)
    case (volume c' i')
    then show ?thesis
      using ok by (auto dest!: track_frame simp: balances_ok_def asset_total_def)
  next
    case (move c' i' d1 d2 p q)
    then have "balances_ok k d1" "asset_total k a d1 = asset_total k a d"
      using ok by (auto dest!: track_frame simp: balances_ok_def asset_total_def)
    with update_balance_total [OF _ neg, of d1 network ledger p c' i' "o_created_at op" d2 a]
      update_balance_total [OF _ c, of d2 network ledger q c' i' "o_created_at op" d' a] move(2,3) op(2)
    show ?thesis by simp
  qed (use ok in simp)
qed

section \<open>Holders\<close>

text \<open>The count the assets table keeps, and the number of trustlines it is to count.\<close>

definition holders :: "string \<times> string \<times> string \<Rightarrow> derived_tables \<Rightarrow> int" where
  "holders a d = (case map_of (assets d) a of Some r \<Rightarrow> holder_count r | None \<Rightarrow> 0)"

definition positive_balances :: "string \<times> string \<times> string \<Rightarrow> derived_tables \<Rightarrow> nat" where
  "positive_balances a d =
     length (filter (\<lambda>(k, r). asset_of k = a \<and> parses_positive (balance r)) (trustlines d))"

definition trust_op :: "horizon_operation \<Rightarrow> string \<Rightarrow> string \<Rightarrow> bool" where
  "trust_op op code issuer \<longleftrightarrow> o_type op = ''change_trust'' \<and> field op ''asset_code'' = JStr code \<and>
     field op ''asset_issuer'' = JStr issuer \<and> code \<noteq> [] \<and> issuer \<noteq> []"

lemma trust_op_run:
  "trust_op op code issuer \<Longrightarrow>
     processAssetOperation network ledger op tx d = upsertTrustline network ledger op d"
  by (simp add: trust_op_def processAssetOperation_def)

text \<open>
  A trustline that is opened and closed without ever holding anything leaves the asset with
  one holder more, for good: opening counts a holder, and closing one whose balance reads
  \<open>0\<close> counts none off.
\<close>

theorem closed_trustline_stays_a_holder:
  assumes "trust_op op code issuer" and "field op ''limit'' \<noteq> JStr ''0''" "field op ''limit'' \<noteq> JStr ''0.0000000''"
    and "trust_op op' code issuer" and "field op' ''limit'' = JStr ''0.0000000''"
    and "o_source_account op' = o_source_account op"
    and fresh: "map_of (trustlines d) (o_source_account op, code, issuer, network) = None"
  shows "\<exists>d1 d2. processAssetOperation network l op tx d = Inr d1
    \<and> processAssetOperation network l' op' tx' d1 = Inr d2
    \<and> map_of (trustlines d2) = map_of (trustlines d)
    \<and> holders (code, issuer, network) d2 = holders (code, issuer, network) d + 1"
proof -
  let ?k = "(o_source_account op, code, issuer, network)"
  define d1 where "d1 = ensure_asset (code, issuer, network) 1 l (d\<lparr>trustlines := insert_do_update ?k
      \<lparr>trust_limit = param (or_else (field op ''limit'') (JStr DEFAULT_LIMIT)), balance = ''0'',
       tl_modified = l, tl_created_at = o_created_at op\<rparr>
      (\<lambda>r. r\<lparr>trust_limit := param (or_else (field op ''limit'') (JStr DEFAULT_LIMIT)), tl_modified := l\<rparr>)
      (trustlines d)\<rparr>)"
  define d2 where "d2 = d1\<lparr>trustlines := delete_where (\<lambda>k' _. k' = ?k) (trustlines d1)\<rparr>"
  have open_op: "upsertTrustline network l op d = Inr d1"
    using assms(1-3) fresh by (simp add: upsertTrustline_def Let_def trust_op_def d1_def)
  have row: "\<exists>r. map_of (trustlines d1) ?k = Some r \<and> balance r = ''0''"
    using fresh by (simp add: d1_def ensure_asset_def table_simps)
  have "upsertTrustline network l' op' d1 = Inr d2"
    using assms(4-6) row
    by (auto simp: upsertTrustline_def Let_def trust_op_def d2_def is_zero_text_def)
  moreover have "map_of (trustlines d2) x = map_of (trustlines d) x" for x
    using fresh by (simp add: d2_def d1_def ensure_asset_def table_simps)
  moreover have "holders (code, issuer, network) d2 = holders (code, issuer, network) d + 1"
    by (simp add: holders_def d2_def d1_def ensure_asset_def table_simps split: option.splits)
  ultimately show ?thesis
    using open_op trust_op_run [OF assms(1)] trust_op_run [OF assms(4)] by (auto simp: fun_eq_iff)
qed

section \<open>Concrete operations\<close>

definition text_op :: "string \<Rightarrow> string \<Rightarrow> string \<Rightarrow> (string \<times> string) list \<Rightarrow> horizon_operation" where
  "text_op i ty source ps =
     \<lparr>o_id = i, o_type = ty, o_transaction_hash = ''ab'', o_created_at = 1000, o_source_account = source,
      o_json = ''{}'', o_fields = map (\<lambda>(k, v). (k, JStr v)) ps\<rparr>"

definition usd :: "(string \<times> string) list" where
  "usd = [(''asset_code'', ''USD''), (''asset_issuer'', ''GI'')]"

definition open_usd :: horizon_operation where
  "open_usd = text_op ''1'' ''change_trust'' ''GA'' ((''limit'', ''1000.0000000'') # usd)"

definition close_usd :: horizon_operation where
  "close_usd = text_op ''2'' ''change_trust'' ''GA'' ((''limit'', ''0.0000000'') # usd)"

definition pay_usd :: horizon_operation where
  "pay_usd = text_op ''3'' ''payment'' ''GI''
     ([(''from'', ''GI''), (''to'', ''GA''), (''amount'', ''10'')] @ usd)"

definition after_ops :: "horizon_operation list \<Rightarrow> derived_tables" where
  "after_ops ops = fold (\<lambda>op d. case processAssetOperation ''public'' 7 op None d of Inr d' \<Rightarrow> d' | Inl _ \<Rightarrow> d)
     ops no_rows"

text \<open>
  An account that opens a trustline and then receives a payment is counted twice in
  \<open>holder_count\<close>, once for the trustline and once for the balance that became positive; so is one
  whose trustline the indexer first sees as the payment's recipient.
\<close>

theorem new_holder_is_counted_twice:
  "holders (''USD'', ''GI'', ''public'') (after_ops [open_usd, pay_usd]) = 2 \<and>
   positive_balances (''USD'', ''GI'', ''public'') (after_ops [open_usd, pay_usd]) = 1 \<and>
   holders (''USD'', ''GI'', ''public'') (after_ops [pay_usd]) = 2 \<and>
   positive_balances (''USD'', ''GI'', ''public'') (after_ops [pay_usd]) = 1"
  by code_simp

definition convert_usd :: horizon_operation where
  "convert_usd = text_op ''4'' ''path_payment_strict_send'' ''GA''
     [(''from'', ''GA''), (''to'', ''GB''), (''amount'', ''3''), (''source_amount'', ''100''),
      (''asset_type'', ''credit_alphanum4''), (''asset_code'', ''EUR''), (''asset_issuer'', ''GE''),
      (''source_asset_type'', ''credit_alphanum4''), (''source_asset_code'', ''USD''),
      (''source_asset_issuer'', ''GI'')]"

text \<open>
  A strict-send path payment that delivers 3 EUR for 100 USD moves 3 USD: the amount the
  recipient got is taken off the sender in the source asset, and the recipient is credited in the
  source asset; no EUR balance changes.
\<close>

theorem path_payment_moves_the_wrong_asset:
  "map (\<lambda>(k, r). (k, balance r)) (trustlines (after_ops [convert_usd])) =
     [((''GA'', ''USD'', ''GI'', ''public''), ''-3''), ((''GB'', ''USD'', ''GI'', ''public''), ''3'')]"
  by code_simp

theorem closed_trustline_stays_a_holder_witness:
  "holders (''USD'', ''GI'', ''public'') (after_ops [open_usd, close_usd]) = 1 \<and>
   trustlines (after_ops [open_usd, close_usd]) = []"
proof -
  have ops: "trust_op open_usd ''USD'' ''GI''" "field open_usd ''limit'' \<noteq> JStr ''0''"
    "field open_usd ''limit'' \<noteq> JStr ''0.0000000''" "trust_op close_usd ''USD'' ''GI''"
    "field close_usd ''limit'' = JStr ''0.0000000''" "o_source_account close_usd = o_source_account open_usd"
    by code_simp+
  have "map_of (trustlines no_rows) (o_source_account open_usd, ''USD'', ''GI'', ''public'') = None"
    by (simp add: no_rows_def)
  from closed_trustline_stays_a_holder [OF ops this, of 7 None 7 None] obtain d1 d2 where
    d: "processAssetOperation ''public'' 7 open_usd None no_rows = Inr d1"
      "processAssetOperation ''public'' 7 close_usd None d1 = Inr d2"
      "map_of (trustlines d2) = map_of (trustlines no_rows)"
      "holders (''USD'', ''GI'', ''public'') d2 = holders (''USD'', ''GI'', ''public'') no_rows + 1" by blast
  then have "after_ops [open_usd, close_usd] = d2" by (simp add: after_ops_def)
  moreover have "trustlines d2 = []" using d(3) by (simp add: no_rows_def) 
  ultimately show ?thesis using d(4) by (simp add: holders_def no_rows_def)
qed

theorem payments_conserve_balances_witness:
  "case processAssetOperation ''public'' 7 pay_usd None (after_ops [open_usd, pay_usd]) of
     Inl _ \<Rightarrow> False
   | Inr d \<Rightarrow> asset_total 7 (''USD'', ''GI'', ''public'') d = 0 \<and>
       map_of (trustlines d) (''GA'', ''USD'', ''GI'', ''public'') \<noteq> None"
proof -
  have ty: "o_type pay_usd \<in> set payment_types" "field pay_usd ''amount'' = JStr ''10''"
    "is_digit (hd ''10'')" "is_digit (last ''10'')" "numeral_upto 7 ''10''"
    by code_simp+
  have ok: "balances_ok 7 (after_ops [open_usd, pay_usd])" 
    unfolding balances_ok_def keyed_def by code_simp
  have zero: "asset_total 7 (''USD'', ''GI'', ''public'') (after_ops [open_usd, pay_usd]) = 0" by code_simp
  have "case processAssetOperation ''public'' 7 pay_usd None (after_ops [open_usd, pay_usd]) of
     Inl _ \<Rightarrow> False | Inr d \<Rightarrow> map_of (trustlines d) (''GA'', ''USD'', ''GI'', ''public'') \<noteq> None" by code_simp
  then obtain d where d: "processAssetOperation ''public'' 7 pay_usd None (after_ops [open_usd, pay_usd]) = Inr d"
    "map_of (trustlines d) (''GA'', ''USD'', ''GI'', ''public'') \<noteq> None"
    by (auto split: sum.splits)
  with payments_conserve_balances [OF ty ok d(1)] zero show ?thesis by simp
qed

end
