(* ===== verification/Decoder_Frames.thy ===== *)
theory Decoder_Frames
  imports Op_Tables Asset_Flow
begin

text \<open>
  Runs of the decoders over many operations, and what each decoder leaves alone.
\<close>

section \<open>Operations as they are decoded\<close>

text \<open>An operation with its ledger and its transaction; one that fails leaves the tables as they were.\<close>

type_synonym op_event = "int \<times> horizon_operation \<times> horizon_transaction option"

definition decode_or_skip ::
  "decoder_env \<Rightarrow> string \<Rightarrow> op_event \<Rightarrow> derived_tables \<Rightarrow> derived_tables" where
  "decode_or_skip env network e d =
     (case e of (s, op, tx) \<Rightarrow> (case decode_operation env network s op tx d of Inr d' \<Rightarrow> d' | Inl _ \<Rightarrow> d))"

definition replay_events ::
  "decoder_env \<Rightarrow> string \<Rightarrow> op_event list \<Rightarrow> derived_tables \<Rightarrow> derived_tables" where
  "replay_events env network evs d = fold (decode_or_skip env network) evs d"

lemma run_handlers_inv:
  assumes "run_handlers hs n s op tx d = Inr d'" and "P d"
    and "\<And>h x y. h \<in> set hs \<Longrightarrow> P x \<Longrightarrow> h n s op tx x = Inr y \<Longrightarrow> P y"
  shows "P d'"
  using assms
proof (induction hs arbitrary: d)
  case (Cons h hs)
  from Cons.prems(1) obtain d1 where d1: "h n s op tx d = Inr d1" "run_handlers hs n s op tx d1 = Inr d'"
    by (auto split: sum.splits)
  then have "P d1" using Cons.prems(2,3) by (meson list.set_intros(1))
  with Cons.IH [OF d1(2)] Cons.prems(3) show ?case by (meson list.set_intros(2))
qed simp

section \<open>What each decoder leaves alone\<close>

text \<open>The tables the asset and account decoders do not write.\<close>

definition asset_side :: "derived_tables \<Rightarrow> (string \<times> string, claimable_row) table \<times>
    (string \<times> string, sponsorship_row) table \<times> (string \<times> string, pool_row) table \<times>
    (string \<times> string \<times> string, share_row) table" where
  "asset_side d = (claimable_balances d, sponsorships d, liquidity_pools d, pool_shares d)"

lemma asset_side_simps [simp]:
  "asset_side (update_asset a f d) = asset_side d" "asset_side (ensure_asset a n l d) = asset_side d"
  "asset_side (add_holder a d) = asset_side d" "asset_side (drop_holder a d) = asset_side d"
  "asset_side (d\<lparr>trustlines := t\<rparr>) = asset_side d" "asset_side (d\<lparr>volume_buckets := v\<rparr>) = asset_side d"
  by (simp_all add: asset_side_def update_asset_def ensure_asset_def add_holder_def drop_holder_def)

lemma store_balance_side: "store_balance k l c t d = Inr (i, x, y, d') \<Longrightarrow> asset_side d' = asset_side d"
  by (auto simp: store_balance_def split: option.splits)

lemma update_balance_side:
  "updateTrustlineBalance n l p c i x t d = Inr d' \<Longrightarrow> asset_side d' = asset_side d"
  by (auto simp: updateTrustlineBalance_def Let_def and_then_Inr dest!: store_balance_side split: if_splits)

lemma track_side: "trackAssetVolume n c i v t d = Inr d' \<Longrightarrow> asset_side d' = asset_side d"
  by (auto simp: trackAssetVolume_def Let_def and_then_Inr)

lemma upsert_trustline_side:
  assumes "upsertTrustline n l op d = Inr d'"
  shows "asset_side d' = asset_side d"
proof -
  define k where "k = (o_source_account op, param (field op ''asset_code''), param (field op ''asset_issuer''), n)"
  from assms show ?thesis
    unfolding upsertTrustline_def Let_def k_def [symmetric]
    by (cases "map_of (trustlines d) k") (simp_all split: if_split_asm, auto)
qed

lemma asset_frame:
  assumes run: "processAssetOperation n s op tx d = Inr d'"
  shows "asset_side d' = asset_side d"
proof (cases "o_type op = ''change_trust''")
  case True
  with run show ?thesis by (simp add: processAssetOperation_def upsert_trustline_side)
next
  case False
  with run show ?thesis
    by (cases rule: payment_cases) (auto dest!: track_side update_balance_side)
qed

lemma pool_frame:
  assumes "processLiquidityPoolOperation n s op tx d = Inr d'"
  shows "claimable_balances d' = claimable_balances d \<and> sponsorships d' = sponsorships d"
proof -
  have parts: "deposit_pool n i s a b x y z d = Inr d' \<Longrightarrow>
      claimable_balances d' = claimable_balances d \<and> sponsorships d' = sponsorships d"
    "deposit_shares n i s a z d = Inr d' \<Longrightarrow>
      claimable_balances d' = claimable_balances d \<and> sponsorships d' = sponsorships d"
    "withdraw_pool n i s u v w d = Inr d' \<Longrightarrow>
      claimable_balances d' = claimable_balances d \<and> sponsorships d' = sponsorships d"
    "withdraw_shares n i s a w d = Inr d' \<Longrightarrow>
      claimable_balances d' = claimable_balances d \<and> sponsorships d' = sponsorships d"
    for i a b x y z u v w d d'
    by (auto simp: deposit_pool_def deposit_shares_def withdraw_pool_def withdraw_shares_def and_then_Inr
        split: option.splits)
  from assms show ?thesis
    unfolding processLiquidityPoolOperation_def Let_def
    by (simp only: and_then_Inr split: if_split_asm) (auto dest!: parts)
qed

lemma insert_claimants_frame:
  "insert_claimants env n b cs d = Inr d' \<Longrightarrow>
     claimable_balances d' = claimable_balances d \<and> sponsorships d' = sponsorships d \<and>
     liquidity_pools d' = liquidity_pools d \<and> pool_shares d' = pool_shares d"
  by (induction cs arbitrary: d) (auto simp: and_then_Inr insert_claimant_def)

lemma claimable_frame:
  "processClaimableBalanceOperation env n s op tx d = Inr d' \<Longrightarrow>
     sponsorships d' = sponsorships d \<and> liquidity_pools d' = liquidity_pools d \<and> pool_shares d' = pool_shares d"
  by (auto simp: processClaimableBalanceOperation_def and_then_Inr dest!: insert_claimants_frame split: if_splits)

lemma insert_hops_frame [simp]:
  "claimable_balances (insert_hops n i k as d) = claimable_balances d"
  "sponsorships (insert_hops n i k as d) = sponsorships d"
  "liquidity_pools (insert_hops n i k as d) = liquidity_pools d"
  "pool_shares (insert_hops n i k as d) = pool_shares d"
  by (induction as arbitrary: k d) simp_all

lemma path_frame:
  "processPathPaymentOperation n s op tx d = Inr d' \<Longrightarrow>
     claimable_balances d' = claimable_balances d \<and> sponsorships d' = sponsorships d \<and>
     liquidity_pools d' = liquidity_pools d \<and> pool_shares d' = pool_shares d"
  by (auto simp: processPathPaymentOperation_def Let_def and_then_Inr split: if_splits)

lemma options_frame:
  assumes "processSetOptionsOperation n s op tx d = Inr d'"
  shows "asset_side d' = asset_side d"
proof -
  have signer: "record_signer_change n s op d = Inr d' \<Longrightarrow> asset_side d' = asset_side d" for d d'
    unfolding record_signer_change_def Let_def
    by (simp only: and_then_Inr split: if_split_asm) (auto simp: asset_side_def)
  have thresholds: "record_threshold_change n s op d = Inr d' \<Longrightarrow> asset_side d' = asset_side d" for d d'
    unfolding record_threshold_change_def Let_def and_then_Inr
    by (elim exE conjE) (simp only: sum.inject split: if_split_asm, auto simp: asset_side_def)
  from assms show ?thesis
    unfolding processSetOptionsOperation_def
    by (simp only: and_then_Inr split: if_split_asm) (auto dest!: signer thresholds)
qed

lemma upsert_ttls_frame:
  "upsert_ttls n s op x ks d = Inr d' \<Longrightarrow>
     claimable_balances d' = claimable_balances d \<and> sponsorships d' = sponsorships d \<and>
     liquidity_pools d' = liquidity_pools d \<and> pool_shares d' = pool_shares d"
  by (induction ks arbitrary: d) (auto simp: upsert_ttl_def Let_def and_then_Inr)

lemma late_frame:
  "processDecodedOperations n s op tx d = Inr d' \<Longrightarrow> d' = d"
  "processRevokeSponsorshipOperation n s op tx d = Inr d' \<Longrightarrow>
     claimable_balances d' = claimable_balances d \<and>
     liquidity_pools d' = liquidity_pools d \<and> pool_shares d' = pool_shares d"
  "processSorobanTTLOperation n s op tx d = Inr d' \<Longrightarrow>
     claimable_balances d' = claimable_balances d \<and> sponsorships d' = sponsorships d \<and>
     liquidity_pools d' = liquidity_pools d \<and> pool_shares d' = pool_shares d"
  "processContractInterfaceOperation n s op tx d = Inr d' \<Longrightarrow>
     claimable_balances d' = claimable_balances d \<and> sponsorships d' = sponsorships d \<and>
     liquidity_pools d' = liquidity_pools d \<and> pool_shares d' = pool_shares d"
  by (auto simp: processDecodedOperations_def processRevokeSponsorshipOperation_def
      processSorobanTTLOperation_def processContractInterfaceOperation_def Let_def and_then_Inr
      dest!: upsert_ttls_frame split: if_splits)

text \<open>Sponsorships are only ever removed.\<close>

lemma decode_sponsorships:
  assumes "decode_operation env n s op tx d = Inr d'"
  shows "set (sponsorships d') \<subseteq> set (sponsorships d)"
  using assms unfolding decode_operation_def
proof (rule run_handlers_inv)
  fix h x y
  assume "h \<in> set (decoders env)" and x: "set (sponsorships x) \<subseteq> set (sponsorships d)"
    and "h n s op tx x = Inr y"
  then have "set (sponsorships y) \<subseteq> set (sponsorships x)"
    by (auto simp: decoders_def asset_side_def processRevokeSponsorshipOperation_def delete_where_def
        dest!: asset_frame pool_frame claimable_frame path_frame options_frame late_frame(1,3,4)
        split: if_split_asm)
  with x show "set (sponsorships y) \<subseteq> set (sponsorships d)" by blast
qed simp

text \<open>
  The sponsorships table is empty for ever: no decoder inserts into it, whatever operations a
  network has seen.
\<close>

theorem sponsorships_stay_empty:
  "sponsorships (replay_events env network evs no_rows) = []"
proof -
  have "set (sponsorships (replay_events env network evs d)) \<subseteq> set (sponsorships d)" for d
    unfolding replay_events_def
  proof (induction evs arbitrary: d)
    case (Cons e evs)
    have "set (sponsorships (decode_or_skip env network e d)) \<subseteq> set (sponsorships d)"
      by (auto simp: decode_or_skip_def dest: decode_sponsorships split: prod.splits sum.splits)
    with Cons [of "decode_or_skip env network e d"] show ?case by simp
  qed simp
  from this [of no_rows] show ?thesis by (simp add: no_rows_def)
qed

end
