(* ===== verification/Claimable_Life.thy ===== *)
theory Claimable_Life
  imports Decoder_Frames
begin

text \<open>
  The rows of \<open>claimable_balances\<close> as a function of the events of each balance: the decoders refine a
  life cycle in which the first create fixes a balance and later departures overwrite its status.
\<close>

section \<open>Claimable balances follow their events\<close>

datatype balance_event =
    Untouched
  | Create claimable_row
  | Claim int horizon_operation
  | Claw_back int horizon_operation

fun apply_event :: "balance_event \<Rightarrow> claimable_row option \<Rightarrow> claimable_row option" where
  "apply_event Untouched r = r"
| "apply_event (Create row) r = (case r of None \<Rightarrow> Some row | Some x \<Rightarrow> Some x)"
| "apply_event (Claim s op) r = map_option (claim_row s op) r"
| "apply_event (Claw_back s op) r = map_option (claw_back_row s op) r"

definition claimant_ok :: "decoder_env \<Rightarrow> jsval \<Rightarrow> bool" where
  "claimant_ok env c = (is_ok (claimant_predicate env (or_else (get_member c ''predicate'') (JObj [])))
     \<and> \<not> is_nullish (get_member c ''destination''))"

definition created_row :: "decoder_env \<Rightarrow> int \<Rightarrow> horizon_operation \<Rightarrow> claimable_row option" where
  "created_row env s op =
     (case (amount_param (or_else (field op ''amount'') (JStr ''0'')),
            array_items (or_else (field op ''claimants'') (JArr []))) of
        (Inr amount, Inr cs) \<Rightarrow> if list_all (claimant_ok env) cs then Some (new_claimable s op amount) else None
      | _ \<Rightarrow> None)"

definition event_on :: "decoder_env \<Rightarrow> string \<Rightarrow> op_event \<Rightarrow> balance_event" where
  "event_on env b e =
     (case e of (s, op, tx) \<Rightarrow>
        if o_type op \<notin> set claimable_types \<or> balanceIdFor env op tx \<noteq> Inr b \<or> b = [] then Untouched
        else if o_type op = ''create_claimable_balance'' then
          (case created_row env s op of Some row \<Rightarrow> Create row | None \<Rightarrow> Untouched)
        else if o_type op = ''claim_claimable_balance'' then Claim s op else Claw_back s op)"

lemma insert_claimants_ok:
  "(\<exists>d'. insert_claimants env n b cs d = Inr d') \<longleftrightarrow> list_all (claimant_ok env) cs"
proof (induction cs arbitrary: d)
  case (Cons c cs)
  show ?case
  proof (cases "claimant_ok env c")
    case True
    then obtain d1 where "insert_claimant env n b c d = Inr d1"
      by (auto simp: claimant_ok_def insert_claimant_def is_ok_def null_param_def not_null_def split: sum.splits)
    with True Cons [of d1] show ?thesis by simp
  next
    case False
    then obtain e where "insert_claimant env n b c d = Inl e"
      by (auto simp: claimant_ok_def insert_claimant_def is_ok_def null_param_def not_null_def split: sum.splits)
    with False show ?thesis by simp
  qed
qed simp

text \<open>The claimable-balance decoder, by what it does to the rows.\<close>

lemma claimable_event:
  assumes d'_def: "d' = (case processClaimableBalanceOperation env n s op tx d of Inr d' \<Rightarrow> d' | Inl _ \<Rightarrow> d)"
  shows "map_of (claimable_balances d') (b, m) =
    (if m = n then apply_event (event_on env b (s, op, tx)) (map_of (claimable_balances d) (b, m))
     else map_of (claimable_balances d) (b, m))"
proof (cases "o_type op \<in> set claimable_types \<and> (\<exists>i. balanceIdFor env op tx = Inr i \<and> i \<noteq> [])")
  case False
  then have "d' = d" "event_on env b (s, op, tx) = Untouched"
    by (auto simp: d'_def processClaimableBalanceOperation_def event_on_def and_then_def split: sum.splits)
  then show ?thesis by simp
next
  case True
  then obtain i where ty: "o_type op \<in> set claimable_types" and i: "balanceIdFor env op tx = Inr i" "i \<noteq> []"
    by blast
  show ?thesis
  proof (cases "o_type op = ''create_claimable_balance''")
    case False
    then have "d' = d\<lparr>claimable_balances := update_where (\<lambda>k _. k = (i, n))
        (if o_type op = ''claim_claimable_balance'' then claim_row s op else claw_back_row s op)
        (claimable_balances d)\<rparr>"
      using ty i by (simp add: d'_def processClaimableBalanceOperation_def)
    with False ty i show ?thesis
      by (cases "map_of (claimable_balances d) (b, m)") (auto simp: lookup_update_where event_on_def)
  next
    case create: True
    show ?thesis
    proof (cases "created_row env s op")
      case None
      then have "d' = d"
        using ty i create insert_claimants_ok [of env n i]
        by (auto simp: d'_def processClaimableBalanceOperation_def created_row_def and_then_def
            split: sum.splits if_splits)
      with None ty i create show ?thesis by (simp add: event_on_def)
    next
      case (Some row)
      then obtain amount cs where ac: "amount_param (or_else (field op ''amount'') (JStr ''0'')) = Inr amount"
        "array_items (or_else (field op ''claimants'') (JArr [])) = Inr cs"
        "list_all (claimant_ok env) cs" "row = new_claimable s op amount"
        by (auto simp: created_row_def split: sum.splits if_splits)
      define d1 where "d1 = d\<lparr>claimable_balances := insert_do_nothing (i, n) row (claimable_balances d)\<rparr>"
      obtain d2 where d2: "insert_claimants env n i cs d1 = Inr d2"
        using insert_claimants_ok [of env n i cs d1] ac(3) by blast
      have "d' = d2"
        using ty i create ac d2 by (simp add: d'_def processClaimableBalanceOperation_def d1_def)
      with insert_claimants_frame [OF d2] have "claimable_balances d' = claimable_balances d1" by simp
      with Some ty i create show ?thesis
        by (auto simp: d1_def event_on_def table_simps split: option.splits)
    qed
  qed
qed

lemma not_claimable_types:
  assumes "o_type op \<in> set claimable_types"
  shows "processAssetOperation n s op tx d = Inr d" "processLiquidityPoolOperation n s op tx d = Inr d"
    "processPathPaymentOperation n s op tx d = Inr d" "processSetOptionsOperation n s op tx d = Inr d"
    "processDecodedOperations n s op tx d = Inr d" "processRevokeSponsorshipOperation n s op tx d = Inr d"
    "processSorobanTTLOperation n s op tx d = Inr d" "processContractInterfaceOperation n s op tx d = Inr d"
  using assms
  by (auto simp: claimable_types_def processAssetOperation_def processLiquidityPoolOperation_def
      processPathPaymentOperation_def processSetOptionsOperation_def processDecodedOperations_def
      processRevokeSponsorshipOperation_def processSorobanTTLOperation_def processContractInterfaceOperation_def)

lemma decode_or_skip_claimables:
  "map_of (claimable_balances (decode_or_skip env n (s, op, tx) d)) (b, m) =
    (if m = n then apply_event (event_on env b (s, op, tx)) (map_of (claimable_balances d) (b, m))
     else map_of (claimable_balances d) (b, m))"
proof (cases "o_type op \<in> set claimable_types")
  case True
  then have "decode_operation env n s op tx d = processClaimableBalanceOperation env n s op tx d"
    by (simp add: decode_operation_def decoders_def not_claimable_types split: sum.splits)
  then show ?thesis by (simp add: decode_or_skip_def claimable_event [OF refl])
next
  case False
  then have none: "processClaimableBalanceOperation env n s op tx x = Inr x" for x
    by (simp add: processClaimableBalanceOperation_def)
  have "claimable_balances (decode_or_skip env n (s, op, tx) d) = claimable_balances d"
  proof (cases "decode_operation env n s op tx d")
    case (Inr d')
    then have "claimable_balances d' = claimable_balances d"
      unfolding decode_operation_def
    proof (rule run_handlers_inv)
      fix h x y
      assume "h \<in> set (decoders env)" and x: "claimable_balances x = claimable_balances d"
        and "h n s op tx x = Inr y"
      then have "claimable_balances y = claimable_balances x"
        by (auto simp: decoders_def asset_side_def none
            dest!: asset_frame pool_frame path_frame options_frame late_frame)
      with x show "claimable_balances y = claimable_balances d" by simp
    qed simp
    with Inr show ?thesis by (simp add: decode_or_skip_def)
  qed (simp add: decode_or_skip_def)
  with False show ?thesis by (simp add: event_on_def)
qed


section \<open>The life of a balance\<close>

definition life_of :: "decoder_env \<Rightarrow> string \<Rightarrow> op_event list \<Rightarrow> claimable_row option \<Rightarrow> claimable_row option" where
  "life_of env b evs r = fold (\<lambda>e. apply_event (event_on env b e)) evs r"

lemma claimable_balances_follow_their_events:
  "map_of (claimable_balances (replay_events env n evs d)) (b, m) =
     (if m = n then life_of env b evs (map_of (claimable_balances d) (b, m))
      else map_of (claimable_balances d) (b, m))"
proof (induction evs arbitrary: d)
  case (Cons e evs)
  obtain s op tx where e: "e = (s, op, tx)" by (cases e) auto
  show ?case
    using Cons [of "decode_or_skip env n e d"]
    by (auto simp: replay_events_def life_of_def e decode_or_skip_claimables)
qed (simp add: replay_events_def life_of_def)

section \<open>Decoding again\<close>

text \<open>A departure overwrites some columns with constants.\<close>

definition overwrite ::
  "(balance_status \<times> int \<times> int) option \<Rightarrow> string option \<Rightarrow> claimable_row \<Rightarrow> claimable_row" where
  "overwrite left who r =
     (let r1 = (case left of None \<Rightarrow> r | Some (st, t, l) \<Rightarrow>
            r\<lparr>cb_status := st, cb_claimed_at := Some t, cb_claimed_ledger := Some l\<rparr>)
      in (case who of None \<Rightarrow> r1 | Some w \<Rightarrow> r1\<lparr>cb_claimed_by := Some w\<rparr>))"

lemma overwrite_again:
  "overwrite a p (overwrite b q r) =
     overwrite (case a of None \<Rightarrow> b | Some _ \<Rightarrow> a) (case p of None \<Rightarrow> q | Some _ \<Rightarrow> p) r"
  by (auto simp: overwrite_def split: option.splits)

lemma event_overwrites:
  "\<exists>a p. \<forall>r. apply_event e (Some r) = Some (overwrite a p r)"
proof (cases e)
  case (Claim s op)
  have "apply_event e (Some r) = Some (overwrite (Some (Claimed, o_created_at op, s))
      (Some (param (or_else (field op ''claimant'') (JStr (o_source_account op))))) r)" for r
    by (simp add: Claim claim_row_def overwrite_def)
  then show ?thesis by blast
next
  case (Claw_back s op)
  have "apply_event e (Some r) = Some (overwrite (Some (Clawed_back, o_created_at op, s)) None r)" for r
    by (simp add: Claw_back claw_back_row_def overwrite_def)
  then show ?thesis by blast
next
  case Untouched
  then have "apply_event e (Some r) = Some (overwrite None None r)" for r by (simp add: overwrite_def)
  then show ?thesis by blast
next
  case (Create row)
  then have "apply_event e (Some r) = Some (overwrite None None r)" for r by (simp add: overwrite_def)
  then show ?thesis by blast
qed

lemma life_overwrites: "\<exists>a p. \<forall>r. life_of env b evs (Some r) = Some (overwrite a p r)"
proof (induction evs)
  case Nil
  have "life_of env b [] (Some r) = Some (overwrite None None r)" for r
    by (simp add: life_of_def overwrite_def)
  then show ?case by blast
next
  case (Cons e evs)
  obtain a p where "\<forall>r. apply_event (event_on env b e) (Some r) = Some (overwrite a p r)"
    using event_overwrites by blast
  moreover obtain a' p' where "\<forall>r. life_of env b evs (Some r) = Some (overwrite a' p' r)"
    using Cons by blast
  ultimately have "\<forall>r. life_of env b (e # evs) (Some r) = Some (overwrite a' p' (overwrite a p r))"
    by (simp add: life_of_def)
  then show ?case unfolding overwrite_again by blast
qed

lemma overwrite_idem: "overwrite a p (overwrite a p r) = overwrite a p r"
  by (auto simp: overwrite_again split: option.splits)

lemma life_of_Some_again:
  assumes "life_of env b evs (Some r) = Some x"
  shows "life_of env b evs (Some x) = Some x"
proof -
  obtain a p where "\<forall>r. life_of env b evs (Some r) = Some (overwrite a p r)"
    using life_overwrites by blast
  then show ?thesis using assms overwrite_idem by force
qed

text \<open>No balance is created after it has been claimed or clawed back.\<close>

definition leaves :: "balance_event \<Rightarrow> bool" where
  "leaves e = (case e of Claim _ _ \<Rightarrow> True | Claw_back _ _ \<Rightarrow> True | _ \<Rightarrow> False)"

definition creates :: "balance_event \<Rightarrow> bool" where
  "creates e = (case e of Create _ \<Rightarrow> True | _ \<Rightarrow> False)"

fun chain_order :: "decoder_env \<Rightarrow> string \<Rightarrow> op_event list \<Rightarrow> bool" where
  "chain_order env b [] = True"
| "chain_order env b (e # evs) =
     ((leaves (event_on env b e) \<longrightarrow> list_all (\<lambda>e'. \<not> creates (event_on env b e')) evs) \<and> chain_order env b evs)"

lemma life_of_never_created:
  "list_all (\<lambda>e. \<not> creates (event_on env b e)) evs \<Longrightarrow> life_of env b evs None = None"
proof (induction evs)
  case (Cons e evs)
  then have "apply_event (event_on env b e) None = None"
    by (cases "event_on env b e") (auto simp: creates_def)
  with Cons show ?case by (simp add: life_of_def)
qed (simp add: life_of_def)

lemma life_of_again:
  assumes "chain_order env b evs"
  shows "life_of env b evs (life_of env b evs r) = life_of env b evs r"
proof (cases r)
  case (Some x)
  obtain y where "life_of env b evs (Some x) = Some y"
    using life_overwrites by blast
  with Some life_of_Some_again show ?thesis by metis
next
  case None
  from assms show ?thesis unfolding None
  proof (induction evs)
    case (Cons e evs)
    have cons: "life_of env b (e # evs) r = life_of env b evs (apply_event (event_on env b e) r)" for r
      by (simp add: life_of_def)
    show ?case
    proof (cases "event_on env b e")
      case Untouched
      with Cons cons show ?thesis by simp
    next
      case (Create row)
      obtain x where x: "life_of env b evs (Some row) = Some x" using life_overwrites by blast
      with Create cons life_of_Some_again [OF x] show ?thesis by simp
    next
      case (Claim s op)
      then have "life_of env b evs None = None"
        using Cons.prems by (intro life_of_never_created) (simp add: leaves_def)
      with Claim cons show ?thesis by simp
    next
      case (Claw_back s op)
      then have "life_of env b evs None = None"
        using Cons.prems by (intro life_of_never_created) (simp add: leaves_def)
      with Claw_back cons show ?thesis by simp
    qed
  qed (simp add: life_of_def)
qed

end
