(* ===== verification/Derived_Ledger.thy ===== *)
theory Derived_Ledger
  imports Claimable_Life Ledger_Integrity
begin

text \<open>
  Landing a ledger with the repository's own decoders: the derived tables are the replay of the
  ledger's operations, so what a second landing or another order of landings does to them follows.
\<close>

section \<open>Landing a ledger\<close>

definition ledger_events :: "ledger_bundle \<Rightarrow> op_event list" where
  "ledger_events b =
     map (\<lambda>op. (l_sequence (b_ledger b), op, transactionsByHash (b_transactions b) (o_transaction_hash op)))
       (b_operations b)"

lemma process_derived:
  "process_operation (decoders env) n s txs op db = Inr db' \<Longrightarrow>
     derived db' = decode_or_skip env n (s, op, transactionsByHash txs (o_transaction_hash op)) (derived db)"
  by (auto simp: process_operation_def decode_or_skip_def decode_operation_def recordDeadLetterOperation_def
      split: sum.splits)

lemma process_all_derived:
  "run_statements None (map (process_operation (decoders env) n s txs) ops) db = Inr db' \<Longrightarrow>
     derived db' = fold (\<lambda>op. decode_or_skip env n (s, op, transactionsByHash txs (o_transaction_hash op)))
       ops (derived db)"
proof (induction ops arbitrary: db)
  case (Cons op ops)
  then obtain db1 where "process_operation (decoders env) n s txs op db = Inr db1"
    "run_statements None (map (process_operation (decoders env) n s txs) ops) db1 = Inr db'"
    by (auto split: sum.splits)
  with Cons.IH process_derived show ?case by fastforce
qed simp

lemma other_statements_derived:
  assumes "run_statements None ss db = Inr db'"
    and "\<And>st x y. st \<in> set ss \<Longrightarrow> st x = Inr y \<Longrightarrow> derived y = derived x"
  shows "derived db' = derived db"
  by (rule run_statements_inv [OF assms(1), where P = "\<lambda>x. derived x = derived db"]) (auto dest: assms(2))

text \<open>The derived tables after a landing are the replay of its operations.\<close>

lemma indexLedger_derived:
  assumes "indexLedger (decoders env) crash now n b db = (Inr u, db')"
  shows "derived db' = replay_events env n (ledger_events b) (derived db)"
proof -
  let ?s = "l_sequence (b_ledger b)"
  let ?process = "map (process_operation (decoders env) n ?s (b_transactions b)) (b_operations b)"
  have run: "run_statements None (ledger_statements (decoders env) now n b) db = Inr db'"
    using assms by (auto simp: indexLedger_def transaction_ok intro: run_statements_None)
  obtain pre post where split: "ledger_statements (decoders env) now n b = pre @ ?process @ post"
    and pre: "\<And>st x y. st \<in> set pre \<Longrightarrow> st x = Inr y \<Longrightarrow> derived y = derived x"
    and post: "\<And>st x y. st \<in> set post \<Longrightarrow> st x = Inr y \<Longrightarrow> derived y = derived x"
  proof (rule that)
    show "ledger_statements (decoders env) now n b =
      ([insert_ledger n (b_ledger b)]
        @ map (insert_transactions n) (chunks BATCH_CHUNK_SIZE (b_transactions b))
        @ map (insert_operations n ?s) (chunks BATCH_CHUNK_SIZE (b_operations b)))
      @ ?process
      @ (map (insert_effects n ?s) (chunks BATCH_CHUNK_SIZE (b_effects b))
        @ (if b_accounts b \<noteq> [] then [enqueue_refreshes now n ?s (b_accounts b)] else [])
        @ [\<lambda>db. Inr (clearLedgerFailures n ?s db), \<lambda>db. Inr (setIndexerCursor n Forward ?s db),
           \<lambda>db. Inr (notifyIndexed (ledger_notification n b) db)])"
      by (simp add: ledger_statements_def Let_def)
  qed (auto simp: statement_defs split: if_splits)
  obtain db1 db2 where "run_statements None pre db = Inr db1" "run_statements None ?process db1 = Inr db2"
    "run_statements None post db2 = Inr db'"
    using run unfolding split by (auto simp: run_statements_None_append split: sum.splits)
  note parts = this
  have "derived db1 = derived db" using parts(1) by (rule other_statements_derived) (rule pre)
  moreover have "derived db' = derived db2" using parts(3) by (rule other_statements_derived) (rule post)
  ultimately show ?thesis using process_all_derived [OF parts(2)] by (simp add: replay_events_def ledger_events_def fold_map comp_def)
qed

lemma indexLedger_claimable:
  assumes "indexLedger (decoders env) crash now n b db = (Inr u, db')"
  shows "map_of (claimable_balances (derived db')) (i, m) =
    (if m = n then life_of env i (ledger_events b) (map_of (claimable_balances (derived db)) (i, m))
     else map_of (claimable_balances (derived db)) (i, m))"
  by (simp add: indexLedger_derived [OF assms] claimable_balances_follow_their_events)

text \<open>
  Landing a ledger again, as retries and repairs do, leaves every claimable balance as it is,
  provided the ledger does not create a balance after removing it (which the chain cannot do): a
  claimed balance never comes back.
\<close>

theorem claimables_survive_reindexing:
  assumes "indexLedger (decoders env) crash now n b db = (Inr u, db')"
    and "chain_order env i (ledger_events b)"
  shows "map_of (claimable_balances (derived (snd (indexLedger (decoders env) crash' now' n b db')))) (i, m) =
    map_of (claimable_balances (derived db')) (i, m)"
proof (cases "indexLedger (decoders env) crash' now' n b db'")
  case (Pair r db2)
  show ?thesis
  proof (cases r)
    case (Inl e)
    with Pair have "db2 = db'" by (auto simp: indexLedger_def transaction_def split: sum.splits)
    with Pair show ?thesis by simp
  next
    case (Inr v)
    with Pair indexLedger_claimable [of env crash' now' n b db' v db2 i m]
      indexLedger_claimable [OF assms(1), of i m] life_of_again [OF assms(2)]
    show ?thesis by (cases "m = n") simp_all
  qed
qed

section \<open>Landing in the order of a backfill\<close>

text \<open>
  Ledgers landed newest first, the order of the backfill worker, leave a claimed balance
  claimable: the claim finds no row to update and the creation then inserts the balance as unclaimed.
  Landed oldest first, the same two ledgers leave it claimed.
\<close>

theorem backfill_reopens_claimed_balances:
  assumes events: "map (event_on env i) (ledger_events older) = [Create row]"
    "map (event_on env i) (ledger_events newer) = [Claim s op]"
    and none: "map_of (claimable_balances (derived db)) (i, n) = None"
    and forwards: "indexLedger (decoders env) c1 t1 n older db = (Inr u1, db1)"
      "indexLedger (decoders env) c2 t2 n newer db1 = (Inr u2, db2)"
    and backwards: "indexLedger (decoders env) c3 t3 n newer db = (Inr u3, db3)"
      "indexLedger (decoders env) c4 t4 n older db3 = (Inr u4, db4)"
  shows "map_of (claimable_balances (derived db2)) (i, n) = Some (claim_row s op row)
    \<and> map_of (claimable_balances (derived db4)) (i, n) = Some row"
proof -
  have life: "life_of env i evs r = fold apply_event (map (event_on env i) evs) r" for evs r
    by (simp add: life_of_def fold_map comp_def)
  show ?thesis
    using none
    by (simp add: indexLedger_claimable [OF forwards(1)] indexLedger_claimable [OF forwards(2)]
        indexLedger_claimable [OF backwards(1)] indexLedger_claimable [OF backwards(2)] life events)
qed

section \<open>Concrete ledgers\<close>

definition plain_env :: decoder_env where
  "plain_env = \<lparr>op_id_hash = (\<lambda>account sequence i. None), timestamptz = (\<lambda>t. None)\<rparr>"

definition one_op_bundle :: "int \<Rightarrow> horizon_operation \<Rightarrow> ledger_bundle" where
  "one_op_bundle s op =
     \<lparr>b_ledger = \<lparr>l_sequence = s, l_closed_at = 1000, l_successful_count = 1, l_failed_count = 0,
        l_operation_count = 1, l_base_fee = 100, l_base_reserve = 5000000\<rparr>,
      b_transactions = [\<lparr>t_hash = ''ab'', t_ledger = s, t_created_at = 1000, t_source_account = ''GA'',
        t_fee_charged = 100, t_operation_count = 1, t_successful = True, t_memo_type = None, t_memo = None,
        t_source_account_sequence = None\<rparr>],
      b_operations = [op], b_effects = [], b_accounts = []\<rparr>"

definition create_b1 :: horizon_operation where
  "create_b1 = text_op ''8'' ''create_claimable_balance'' ''GA''
     [(''balance_id'', ''B1''), (''amount'', ''5''), (''asset'', ''native'')]"

definition claim_b1 :: horizon_operation where
  "claim_b1 = text_op ''9'' ''claim_claimable_balance'' ''GB'' [(''balance_id'', ''B1'')]"

lemma one_op_bundle_ok:
  assumes "0 < s" "o_id op \<noteq> []" "o_type op \<noteq> []" "o_transaction_hash op = ''ab''" "o_source_account op \<noteq> []"
  shows "bundle_ok (one_op_bundle s op)"
  using assms by (simp add: bundle_ok_def one_op_bundle_def tx_check_def op_check_def)

lemma concrete_bundles_ok:
  "bundle_ok (one_op_bundle 10 create_b1)" "bundle_ok (one_op_bundle 11 claim_b1)"
  "bundle_ok (one_op_bundle 12 pay_usd)"
  by (rule one_op_bundle_ok; simp add: create_b1_def claim_b1_def pay_usd_def text_op_def)+

lemma concrete_events:
  "map (event_on plain_env ''B1'') (ledger_events (one_op_bundle 10 create_b1)) =
     [Create (new_claimable 10 create_b1 50000000)]"
  "map (event_on plain_env ''B1'') (ledger_events (one_op_bundle 11 claim_b1)) = [Claim 11 claim_b1]"
  by code_simp+

definition land :: "int \<Rightarrow> horizon_operation \<Rightarrow> derived_tables store \<Rightarrow> derived_tables store" where
  "land s op db = snd (indexLedger (decoders plain_env) None 0 ''public'' (one_op_bundle s op) db)"

definition status_b1 :: "derived_tables store \<Rightarrow> balance_status option" where
  "status_b1 db = map_option cb_status (map_of (claimable_balances (derived db)) (''B1'', ''public''))"

lemma land_run:
  assumes "bundle_ok (one_op_bundle s op)"
  shows "indexLedger (decoders plain_env) None 0 ''public'' (one_op_bundle s op) db = (Inr (), land s op db)"
  using indexLedger_total [OF assms] by (metis land_def snd_conv)

theorem backfill_reopens_claimed_balances_witness:
  "status_b1 (land 11 claim_b1 (land 10 create_b1 (empty_store no_rows))) = Some Claimed \<and>
   status_b1 (land 10 create_b1 (land 11 claim_b1 (empty_store no_rows))) = Some Unclaimed"
proof -
  have none: "map_of (claimable_balances (derived (empty_store no_rows))) (''B1'', ''public'') = None"
    by (simp add: empty_store_def no_rows_def)
  note run = land_run [OF concrete_bundles_ok(1)] land_run [OF concrete_bundles_ok(2)]
  from backfill_reopens_claimed_balances [OF concrete_events none run(1,2) run(2,1)]
  show ?thesis by (simp add: status_b1_def claim_row_def new_claimable_def)
qed

theorem claimables_survive_reindexing_witness:
  "map_of (claimable_balances (derived (land 10 create_b1 (land 10 create_b1 (empty_store no_rows))))) (''B1'', ''public'')
     = map_of (claimable_balances (derived (land 10 create_b1 (empty_store no_rows)))) (''B1'', ''public'')"
proof -
  have "chain_order plain_env ''B1'' (ledger_events (one_op_bundle 10 create_b1))"
    by code_simp
  from claimables_survive_reindexing [OF land_run [OF concrete_bundles_ok(1)] this]
  show ?thesis by (simp add: land_def)
qed

definition paid_volume :: "derived_tables \<Rightarrow> (int \<times> int) list" where
  "paid_volume d = map (\<lambda>(_, r). (volume r, operation_total r)) (volume_buckets d)"

definition stored_balances :: "derived_tables \<Rightarrow> string list" where
  "stored_balances d = map (\<lambda>(_, r). balance r) (trustlines d)"

text \<open>
  Landing a ledger a second time changes no operation row, and doubles the asset's hourly volume,
  its operation count and both parties' balances.
\<close>

theorem reindexing_inflates_volume:
  "let db1 = land 12 pay_usd (empty_store no_rows); db2 = land 12 pay_usd db1
   in operations db2 = operations db1 \<and> length (operations db1) = 1 \<and>
      paid_volume (derived db1) = [(100000000, 1)] \<and> paid_volume (derived db2) = [(200000000, 2)] \<and>
      stored_balances (derived db1) = [''-10'', ''10''] \<and> stored_balances (derived db2) = [''-20'', ''20'']"
proof -
  let ?b = "one_op_bundle 12 pay_usd"
  define db1 where "db1 = land 12 pay_usd (empty_store no_rows)"
  define db2 where "db2 = land 12 pay_usd db1"
  note l = land_run [OF concrete_bundles_ok(3), of "empty_store no_rows", folded db1_def]
    land_run [OF concrete_bundles_ok(3), of db1, folded db2_def]
  have d1: "derived db1 = replay_events plain_env ''public'' (ledger_events ?b) no_rows"
    using indexLedger_derived [OF l(1)] by (simp add: empty_store_def)
  have d2: "derived db2 = replay_events plain_env ''public'' (ledger_events ?b @ ledger_events ?b) no_rows"
    using indexLedger_derived [OF l(2)] d1 by (simp add: replay_events_def)
  have "paid_volume (derived db1) = [(100000000, 1)] \<and> stored_balances (derived db1) = [''-10'', ''10'']"
    unfolding d1 by code_simp
  moreover have "paid_volume (derived db2) = [(200000000, 2)] \<and> stored_balances (derived db2) = [''-20'', ''20'']"
    unfolding d2 by code_simp
  moreover have "operations db2 = operations db1"
    using landing_again_keeps_rows [OF l(1), of "decoders plain_env" None 0] l(2) by simp
  moreover have "length (operations db1) = 1"
    unfolding db1_def by code_simp
  ultimately show ?thesis unfolding Let_def db1_def [symmetric] db2_def [symmetric] by simp
qed

end
