(* ===== verification/Pool_Shares.thy ===== *)
theory Pool_Shares
  imports Op_Tables Asset_Flow
begin

text \<open>
  Liquidity pools: the pool's total and the accounts' shares are kept by separate statements, and agree
  as long as withdrawals are covered.
\<close>

section \<open>Totals and holdings\<close>

definition total_of :: "string \<times> string \<Rightarrow> derived_tables \<Rightarrow> int" where
  "total_of k d = (case map_of (liquidity_pools d) k of Some p \<Rightarrow> total_shares p | None \<Rightarrow> 0)"

definition held_by :: "string \<times> string \<times> string \<Rightarrow> derived_tables \<Rightarrow> int" where
  "held_by k d = (case map_of (pool_shares d) k of Some s \<Rightarrow> shares s | None \<Rightarrow> 0)"

definition share_sum :: "string \<times> string \<Rightarrow> derived_tables \<Rightarrow> int" where
  "share_sum k d =
     sum_list (map (\<lambda>((p, a, n), s). if (p, n) = k then shares s else 0) (pool_shares d))"

definition pools_ok :: "derived_tables \<Rightarrow> bool" where
  "pools_ok d \<longleftrightarrow> keyed (liquidity_pools d) \<and> keyed (pool_shares d) \<and>
     list_all (\<lambda>(_, s). 0 \<le> shares s) (pool_shares d) \<and> (\<forall>k. total_of k d = share_sum k d)"

text \<open>
  A withdrawal is covered when the indexed shares of its account reach it; deposits receive no
  negative number of shares.
\<close>

definition covered :: "string \<Rightarrow> horizon_operation \<Rightarrow> derived_tables \<Rightarrow> bool" where
  "covered n op d =
     (if o_type op = ''liquidity_pool_deposit'' then
        (case amount_param (received_shares op) of Inr v \<Rightarrow> 0 \<le> v | Inl _ \<Rightarrow> True)
      else if o_type op = ''liquidity_pool_withdraw'' then
        (case numeric_param (burned_shares op) of
           Inr (Some v) \<Rightarrow> snd v \<le> 7 \<and> 0 \<le> units v \<and>
             units v \<le> held_by (param (field op ''liquidity_pool_id''), o_source_account op, n) d
         | Inr None \<Rightarrow> False | Inl _ \<Rightarrow> True)
      else True)"

lemma column_20_7_7: "column_20_7 (of_column u) = Inr v \<Longrightarrow> v = u"
  by (auto simp: column_20_7_def of_column_def units_def split: if_splits)

lemma greatest_0_value:
  assumes "greatest_0 c (Some v) = Inr x" "snd v \<le> 7"
  shows "x = max 0 (c - units v)"
proof -
  let ?r = "numeric_add (of_column c) (numeric_neg v)"
  have "snd ?r = 7" and "scaled 7 ?r = c - units v"
    using assms(2) by (simp_all add: scaled_add of_column_def numeric_neg_def units_scaled)
      (simp_all add: scaled_def)
  then have "fst ?r = c - units v" and r: "?r = of_column (c - units v)"
    by (simp_all add: scaled_def of_column_def prod_eq_iff)
  with assms(1) show ?thesis
    by (auto simp: greatest_0_def Let_def dest: column_20_7_7 split: if_splits)
qed

lemma held_nonneg: "pools_ok d \<Longrightarrow> 0 \<le> held_by k d"
  by (auto simp: pools_ok_def held_by_def list_all_iff dest!: map_of_SomeD split: option.splits)

lemma held_le_sum:
  assumes "list_all (\<lambda>(_, s). 0 \<le> shares s) t" "map_of t (p, a, n) = Some s"
  shows "shares s \<le> sum_list (map (\<lambda>((p', a, n'), s). if (p', n') = (p, n) then shares s else 0) t)"
  using assms
proof (induction t)
  case (Cons r t)
  obtain p' a' n' s' where r: "r = ((p', a', n'), s')" by (cases r) auto
  have nn: "0 \<le> sum_list (map (\<lambda>((p', a, n'), s). if (p', n') = (p, n) then shares s else 0) t)"
    using Cons.prems(1) by (intro sum_list_nonneg) (auto simp: list_all_iff)
  show ?case
  proof (cases "(p', a', n') = (p, a, n)")
    case True
    with r nn Cons.prems show ?thesis by auto
  next
    case False
    with Cons r have "shares s \<le> sum_list (map (\<lambda>((p', a, n'), s). if (p', n') = (p, n) then shares s else 0) t)"
      by auto
    with r Cons.prems(1) show ?thesis by auto
  qed
qed simp

section \<open>What the four statements do to the totals\<close>

lemma deposit_pool_total:
  assumes ok: "keyed (liquidity_pools d)" and run: "deposit_pool n i l a b x y v d = Inr d1"
  shows "keyed (liquidity_pools d1) \<and> pool_shares d1 = pool_shares d \<and>
    total_of k d1 = total_of k d + (if k = (i, n) then v else 0)"
proof (cases "map_of (liquidity_pools d) (i, n)")
  case None
  with run ok show ?thesis by (auto simp: deposit_pool_def total_of_def lookup_snoc split: option.splits)
next
  case (Some p)
  with run ok show ?thesis
    by (auto simp: deposit_pool_def and_then_Inr total_of_def lookup_update_key dest!: column_20_7_7)
qed

lemma withdraw_pool_total:
  assumes ok: "keyed (liquidity_pools d)" and run: "withdraw_pool n i l x y (Some v) d = Inr d1"
    and v: "snd v \<le> 7" "units v \<le> total_of (i, n) d"
  shows "keyed (liquidity_pools d1) \<and> pool_shares d1 = pool_shares d \<and>
    (map_of (liquidity_pools d) (i, n) \<noteq> None \<longrightarrow>
      total_of k d1 = total_of k d - (if k = (i, n) then units v else 0)) \<and>
    (map_of (liquidity_pools d) (i, n) = None \<longrightarrow> d1 = d)"
proof (cases "map_of (liquidity_pools d) (i, n)")
  case None
  with run ok show ?thesis by (simp add: withdraw_pool_def)
next
  case (Some p)
  with run ok v show ?thesis
    by (auto simp: withdraw_pool_def and_then_Inr total_of_def lookup_update_key
        dest!: greatest_0_value [OF _ v(1)])
qed

lemma share_sum_snoc [simp]:
  "share_sum k (d\<lparr>pool_shares := pool_shares d @ [((p, a, n), s)]\<rparr>) =
     share_sum k d + (if k = (p, n) then shares s else 0)"
  by (auto simp: share_sum_def)

lemma share_sum_update:
  assumes "keyed (pool_shares d)" "map_of (pool_shares d) (p, a, n) = Some s"
  shows "share_sum k (d\<lparr>pool_shares := update_where (\<lambda>k _. k = (p, a, n)) f (pool_shares d)\<rparr>) =
    share_sum k d + (if k = (p, n) then shares (f s) - shares s else 0)"
  using sum_update_key [OF assms, of "\<lambda>((p, a, n), s). if (p, n) = k then shares s else 0" f]
  by (auto simp: share_sum_def)

lemma deposit_shares_sum:
  assumes ok: "keyed (pool_shares d)" "list_all (\<lambda>(_, s). 0 \<le> shares s) (pool_shares d)" "0 \<le> v"
    and run: "deposit_shares n i l acc v d = Inr d1"
  shows "keyed (pool_shares d1) \<and> list_all (\<lambda>(_, s). 0 \<le> shares s) (pool_shares d1) \<and>
    liquidity_pools d1 = liquidity_pools d \<and> share_sum k d1 = share_sum k d + (if k = (i, n) then v else 0)"
proof (cases "map_of (pool_shares d) (i, acc, n)")
  case None
  with run ok show ?thesis by (auto simp: deposit_shares_def)
next
  case (Some s)
  have "0 \<le> shares s" using ok(2) map_of_SomeD [OF Some] by (auto simp: list_all_iff)
  with Some run ok show ?thesis
    by (auto simp: deposit_shares_def and_then_Inr share_sum_update intro!: list_all_update dest!: column_20_7_7)
qed

lemma withdraw_shares_sum:
  assumes ok: "keyed (pool_shares d)" "list_all (\<lambda>(_, s). 0 \<le> shares s) (pool_shares d)"
    and run: "withdraw_shares n i l acc (Some v) d = Inr d1"
    and v: "snd v \<le> 7" "0 \<le> units v" "units v \<le> held_by (i, acc, n) d"
  shows "keyed (pool_shares d1) \<and> list_all (\<lambda>(_, s). 0 \<le> shares s) (pool_shares d1) \<and>
    liquidity_pools d1 = liquidity_pools d \<and> share_sum k d1 = share_sum k d - (if k = (i, n) then units v else 0)"
proof (cases "map_of (pool_shares d) (i, acc, n)")
  case None
  with run ok v show ?thesis by (auto simp: withdraw_shares_def held_by_def)
next
  case (Some s)
  with v have "units v \<le> shares s" by (simp add: held_by_def)
  with Some run ok show ?thesis
    by (auto simp: withdraw_shares_def and_then_Inr share_sum_update intro!: list_all_update dest!: greatest_0_value [OF _ v(1)])
qed


section \<open>Shares add up\<close>

text \<open>
  C24: a pool's \<open>total_shares\<close> is the sum of the shares its accounts hold, after every deposit and
  every withdrawal that the account's indexed shares cover, whatever the reserves do.
\<close>

theorem pool_shares_add_up:
  assumes ok: "pools_ok d" and cov: "covered n op d"
    and run: "processLiquidityPoolOperation n l op tx d = Inr d'"
  shows "pools_ok d'"
proof -
  define i where "i = param (field op ''liquidity_pool_id'')"
  have parts: "keyed (liquidity_pools d)" "keyed (pool_shares d)"
    "list_all (\<lambda>(_, s). 0 \<le> shares s) (pool_shares d)" "\<And>k. total_of k d = share_sum k d"
    using ok by (simp_all only: pools_ok_def)
  consider (none) "d' = d"
    | (deposit) a b va vb v d1 where "o_type op = ''liquidity_pool_deposit''"
        "amount_param (received_shares op) = Inr v" "deposit_pool n i l a b va vb v d = Inr d1"
        "deposit_shares n i l (o_source_account op) v d1 = Inr d'"
    | (withdraw) va vb v d1 where "o_type op = ''liquidity_pool_withdraw''"
        "numeric_param (burned_shares op) = Inr v" "withdraw_pool n i l va vb v d = Inr d1"
        "withdraw_shares n i l (o_source_account op) v d1 = Inr d'"
    using run unfolding processLiquidityPoolOperation_def Let_def i_def [symmetric]
    by (auto simp: and_then_Inr split: if_split_asm)
  then show ?thesis
  proof cases
    case none
    with ok show ?thesis by simp
  next
    case (deposit a b va vb v d1)
    have v: "0 \<le> v" using cov deposit(1,2) by (simp add: covered_def)
    have 1: "keyed (liquidity_pools d1) \<and> pool_shares d1 = pool_shares d \<and>
        total_of k d1 = total_of k d + (if k = (i, n) then v else 0)" for k
      using parts deposit(3) by (intro deposit_pool_total) auto
    then have 2: "keyed (pool_shares d') \<and> list_all (\<lambda>(_, s). 0 \<le> shares s) (pool_shares d') \<and>
        liquidity_pools d' = liquidity_pools d1 \<and> share_sum k d' = share_sum k d1 + (if k = (i, n) then v else 0)" for k
      using parts v deposit(4) by (intro deposit_shares_sum) auto
    show ?thesis
      using 1 2 parts by (simp add: pools_ok_def total_of_def share_sum_def)
  next
    case (withdraw va vb v d1)
    then obtain u where u: "v = Some u" "snd u \<le> 7" "0 \<le> units u" "units u \<le> held_by (i, o_source_account op, n) d"
      using cov by (auto simp: covered_def i_def split: option.splits)
    have "held_by (i, o_source_account op, n) d \<le> total_of (i, n) d"
    proof (cases "map_of (pool_shares d) (i, o_source_account op, n)")
      case None
      have "0 \<le> share_sum (i, n) d"
        using parts unfolding share_sum_def by (intro sum_list_nonneg) (auto simp: list_all_iff)
      with None parts show ?thesis by (simp add: held_by_def)
    next
      case (Some s)
      with parts held_le_sum [of "pool_shares d" i "o_source_account op" n s] show ?thesis
        by (simp add: held_by_def share_sum_def)
    qed
    then have le: "units u \<le> total_of (i, n) d" using u(4) by simp
    have 1: "keyed (liquidity_pools d1) \<and> pool_shares d1 = pool_shares d \<and>
        total_of k d1 = total_of k d - (if k = (i, n) then units u else 0)" for k
    proof (cases "map_of (liquidity_pools d) (i, n)")
      case None
      then have "units u = 0" using le u(3) by (simp add: total_of_def)
      with None withdraw_pool_total [OF _ withdraw(3) [unfolded u(1)] u(2) le] parts show ?thesis by auto
    next
      case (Some p)
      with withdraw_pool_total [OF _ withdraw(3) [unfolded u(1)] u(2) le, of k] parts show ?thesis by auto
    qed
    then have "units u \<le> held_by (i, o_source_account op, n) d1" using u(4) by (simp add: held_by_def)
    then have 2: "keyed (pool_shares d') \<and> list_all (\<lambda>(_, s). 0 \<le> shares s) (pool_shares d') \<and>
        liquidity_pools d' = liquidity_pools d1 \<and>
        share_sum k d' = share_sum k d1 - (if k = (i, n) then units u else 0)" for k
      using parts 1 u withdraw(4) by (intro withdraw_shares_sum) auto
    show ?thesis
      using 1 2 parts by (simp add: pools_ok_def total_of_def share_sum_def)
  qed
qed

definition pool_op :: "string \<Rightarrow> string \<Rightarrow> string \<Rightarrow> string \<Rightarrow> horizon_operation" where
  "pool_op i ty source n =
     text_op i ty source [(''liquidity_pool_id'', ''P''), (''amount_a'', ''0''), (''amount_b'', ''0''), (''shares'', n)]"

text \<open>
  A withdrawal of shares that were deposited before indexing began is taken off the pool's total
  and off nobody: the pool then counts fewer shares than its accounts hold.
\<close>

theorem early_withdrawal_breaks_the_total:
  "(case and_then (processLiquidityPoolOperation ''public'' 7 (pool_op ''1'' ''liquidity_pool_deposit'' ''GA'' ''10'') None no_rows)
      (processLiquidityPoolOperation ''public'' 8 (pool_op ''2'' ''liquidity_pool_withdraw'' ''GB'' ''4'') None) of
      Inl _ \<Rightarrow> False
    | Inr d \<Rightarrow> total_of (''P'', ''public'') d = 60000000 \<and> share_sum (''P'', ''public'') d = 100000000)"
  by code_simp

theorem pool_shares_add_up_witness:
  "(case and_then (processLiquidityPoolOperation ''public'' 7 (pool_op ''1'' ''liquidity_pool_deposit'' ''GA'' ''10'') None no_rows)
      (processLiquidityPoolOperation ''public'' 8 (pool_op ''2'' ''liquidity_pool_withdraw'' ''GA'' ''4'') None) of
      Inl _ \<Rightarrow> False
    | Inr d \<Rightarrow> pools_ok d \<and> total_of (''P'', ''public'') d = 60000000)"
proof -
  let ?deposit = "pool_op ''1'' ''liquidity_pool_deposit'' ''GA'' ''10''"
  let ?withdraw = "pool_op ''2'' ''liquidity_pool_withdraw'' ''GA'' ''4''"
  have empty: "pools_ok no_rows"
    by (simp add: pools_ok_def no_rows_def keyed_def total_of_def share_sum_def)
  have "case processLiquidityPoolOperation ''public'' 7 ?deposit None no_rows of Inl _ \<Rightarrow> False
      | Inr d1 \<Rightarrow> covered ''public'' ?deposit no_rows \<and> covered ''public'' ?withdraw d1 \<and>
         (case processLiquidityPoolOperation ''public'' 8 ?withdraw None d1 of Inl _ \<Rightarrow> False
          | Inr d2 \<Rightarrow> total_of (''P'', ''public'') d2 = 60000000)"
    by code_simp
  then obtain d1 d2 where d: "processLiquidityPoolOperation ''public'' 7 ?deposit None no_rows = Inr d1"
    "covered ''public'' ?deposit no_rows" "covered ''public'' ?withdraw d1"
    "processLiquidityPoolOperation ''public'' 8 ?withdraw None d1 = Inr d2"
    "total_of (''P'', ''public'') d2 = 60000000"
    by (auto split: sum.splits)
  have "pools_ok d2"
    by (rule pool_shares_add_up [OF pool_shares_add_up [OF empty d(2,1)] d(3,4)])
  with d show ?thesis by simp
qed

end
