(* ===== verification/Trades.thy ===== *)
theory Trades
  imports Op_Tables
begin

text \<open>
  The ingestion of trades: \<open>insertTrades\<close> and \<open>getLatestTradePagingToken\<close> of \<open>indexer/src/db.ts\<close> and
  \<open>pollTrades\<close> of \<open>indexer/src/index.ts\<close>, polling a feed across restarts, outages and lost connections.
\<close>

section \<open>Rows\<close>

text \<open>
  A trade as Horizon sends it. \<open>ht_price\<close> is its price: the two properties as JavaScript values
  (\<open>number | string\<close>).
\<close>

record horizon_trade =
  ht_id :: string
  ht_paging_token :: string
  ht_close_time :: int
  ht_type :: "string option"
  ht_base_account :: "string option"
  ht_base_amount :: string
  ht_base_asset_type :: string
  ht_base_asset_code :: "string option"
  ht_base_asset_issuer :: "string option"
  ht_base_offer_id :: "string option"
  ht_counter_account :: "string option"
  ht_counter_amount :: string
  ht_counter_asset_type :: string
  ht_counter_asset_code :: "string option"
  ht_counter_asset_issuer :: "string option"
  ht_counter_offer_id :: "string option"
  ht_base_is_seller :: "bool option"
  ht_price :: "(jsval \<times> jsval) option"

record trade_row =
  tr_paging_token :: string
  tr_close_time :: int
  tr_type :: string
  tr_base_account :: string
  tr_base_amount :: int
  tr_base_asset :: "string \<times> string option \<times> string option"
  tr_base_offer_id :: "string option"
  tr_counter_account :: "string option"
  tr_counter_amount :: int
  tr_counter_asset :: "string \<times> string option \<times> string option"
  tr_counter_offer_id :: "string option"
  tr_base_is_seller :: "bool option"
  tr_price_n :: "int option"
  tr_price_d :: "int option"
  tr_price :: "int option"

type_synonym trades_table = "(string \<times> string, trade_row) table"

section \<open>Inserting a page\<close>

text \<open>\<open>x != null ? BigInt(x) : null\<close> for a \<open>BIGINT\<close> column; a text or fraction that is no integer throws.\<close>

definition optional_bigint :: "jsval \<Rightarrow> string + int option" where
  "optional_bigint v =
     (if is_nullish v then Inr None
      else (case bigint_of v of
              Some i \<Rightarrow> and_then (int8_param (Some i)) (\<lambda>i. Inr (Some i))
            | None \<Rightarrow> Inl ''Cannot convert to a BigInt''))"

text \<open>
  \<open>(Number(n) / Number(d)).toFixed(7)\<close> is a division of doubles and is an argument, \<open>ratio_text\<close>.
\<close>

definition trade_price ::
  "(int \<Rightarrow> int \<Rightarrow> string) \<Rightarrow> horizon_trade \<Rightarrow> string + (int option \<times> int option \<times> int option)" where
  "trade_price ratio_text t =
     (case ht_price t of
        None \<Rightarrow> Inr (None, None, None)
      | Some (vn, vd) \<Rightarrow>
          and_then (optional_bigint vn) (\<lambda>n.
          and_then (optional_bigint vd) (\<lambda>d.
          (case (n, d) of
             (Some i, Some j) \<Rightarrow>
               if j = 0 then Inr (n, d, None)
               else and_then (amount_param (JStr (ratio_text i j))) (\<lambda>p. Inr (n, d, Some p))
           | _ \<Rightarrow> Inr (n, d, None)))))"

definition trade_row_of :: "(int \<Rightarrow> int \<Rightarrow> string) \<Rightarrow> horizon_trade \<Rightarrow> string + trade_row" where
  "trade_row_of ratio_text t =
     and_then (trade_price ratio_text t) (\<lambda>(n, d, p).
     and_then (not_null (ht_base_account t)) (\<lambda>account.
     and_then (amount_param (JStr (ht_base_amount t))) (\<lambda>base.
     and_then (amount_param (JStr (ht_counter_amount t))) (\<lambda>counter.
     and_then (guard (ht_id t \<noteq> [] \<and> account \<noteq> [] \<and> 0 \<le> base \<and> 0 \<le> counter) ''trades check'') (\<lambda>_.
     Inr \<lparr>tr_paging_token = ht_paging_token t, tr_close_time = ht_close_time t,
       tr_type = (case ht_type t of Some ty \<Rightarrow> ty | None \<Rightarrow> ''orderbook''),
       tr_base_account = account, tr_base_amount = base,
       tr_base_asset = (ht_base_asset_type t, ht_base_asset_code t, ht_base_asset_issuer t),
       tr_base_offer_id = ht_base_offer_id t, tr_counter_account = ht_counter_account t,
       tr_counter_amount = counter,
       tr_counter_asset = (ht_counter_asset_type t, ht_counter_asset_code t, ht_counter_asset_issuer t),
       tr_counter_offer_id = ht_counter_offer_id t, tr_base_is_seller = ht_base_is_seller t,
       tr_price_n = n, tr_price_d = d, tr_price = p\<rparr>)))))"

definition insert_trade ::
  "(int \<Rightarrow> int \<Rightarrow> string) \<Rightarrow> string \<Rightarrow> horizon_trade \<Rightarrow> trades_table statement" where
  "insert_trade ratio_text network t db =
     (case trade_row_of ratio_text t of
        Inl e \<Rightarrow> Inl (Raised e)
      | Inr row \<Rightarrow> Inr (insert_do_nothing (ht_id t, network) row db))"

definition insertTrades ::
  "(int \<Rightarrow> int \<Rightarrow> string) \<Rightarrow> nat option \<Rightarrow> string \<Rightarrow> horizon_trade list \<Rightarrow> trades_table
     \<Rightarrow> (db_error + unit) \<times> trades_table" where
  "insertTrades ratio_text crash network ts db =
     (if ts = [] then (Inr (), db) else transaction crash (map (insert_trade ratio_text network) ts) db)"

text \<open>\<open>ORDER BY paging_token DESC LIMIT 1\<close> under the database's collation.\<close>

definition getLatestTradePagingToken ::
  "(string \<Rightarrow> string \<Rightarrow> bool) \<Rightarrow> string \<Rightarrow> trades_table \<Rightarrow> string option" where
  "getLatestTradePagingToken before network db =
     fold (\<lambda>((i, n), r) best.
       if n \<noteq> network then best
       else (case best of None \<Rightarrow> Some (tr_paging_token r)
             | Some b \<Rightarrow> if before b (tr_paging_token r) then Some (tr_paging_token r) else best))
       db None"

section \<open>Polling\<close>

text \<open>The network, the price division and the collation.\<close>

record trades_env =
  te_network :: string
  te_ratio :: "int \<Rightarrow> int \<Rightarrow> string"
  te_before :: "string \<Rightarrow> string \<Rightarrow> bool"

definition TRADES_LIMIT :: nat where
  "TRADES_LIMIT = 200"

text \<open>
  \<open>answer\<close> is what \<open>getTrades\<close> returns for the cursor, or its error; \<open>cursor\<close> is the loop's
  \<open>tradesCursor\<close>, empty until it is set.
\<close>

definition pollTrades ::
  "trades_env \<Rightarrow> bool \<Rightarrow> (string option \<Rightarrow> string + horizon_trade list) \<Rightarrow> nat option
     \<Rightarrow> string \<times> trades_table \<Rightarrow> string \<times> trades_table" where
  "pollTrades env read_fails answer crash w =
     (case w of (cursor, db) \<Rightarrow>
        if cursor = [] \<and> read_fails then (cursor, db)
        else
          (let cursor1 = (if cursor = [] then
                 (case getLatestTradePagingToken (te_before env) (te_network env) db of
                    Some t \<Rightarrow> if t \<noteq> [] then t else cursor | None \<Rightarrow> cursor) else cursor)
           in case answer (if cursor1 = [] then None else Some cursor1) of
                Inl e \<Rightarrow> (cursor1, db)
              | Inr ts \<Rightarrow>
                  if ts = [] then (cursor1, db)
                  else (case insertTrades (te_ratio env) crash (te_network env) ts db of
                          (Inl e, db') \<Rightarrow> (cursor1, db')
                        | (Inr _, db') \<Rightarrow> (ht_paging_token (last ts), db'))))"

text \<open>The process starts with no cursor in memory.\<close>

definition restart :: "string \<times> trades_table \<Rightarrow> string \<times> trades_table" where
  "restart w = ([], snd w)"

section \<open>The feed\<close>

text \<open>
  Horizon's feed: every trade in order, of which a request sees what has happened so far. A page is
  what follows the cursor. The client rejects a page with a trade that lacks a required property;
  \<open>base_account\<close> is one Horizon leaves out when the base of the trade is a liquidity pool.
\<close>

fun after_token :: "string \<Rightarrow> horizon_trade list \<Rightarrow> horizon_trade list" where
  "after_token c [] = []"
| "after_token c (t # ts) = (if ht_paging_token t = c then ts else after_token c ts)"

definition shape_ok :: "horizon_trade \<Rightarrow> bool" where
  "shape_ok t = (ht_base_account t \<noteq> None)"

definition horizon_page :: "horizon_trade list \<Rightarrow> string option \<Rightarrow> string + horizon_trade list" where
  "horizon_page feed cursor =
     (let page = take TRADES_LIMIT (case cursor of None \<Rightarrow> feed | Some c \<Rightarrow> after_token c feed)
      in if list_all shape_ok page then Inr page else Inl ''response shape'')"

text \<open>
  A poll that sees the first \<open>k\<close> trades, or fails on the way to Horizon; and a new process.
\<close>

inductive trades_step ::
  "trades_env \<Rightarrow> horizon_trade list \<Rightarrow> string \<times> trades_table \<Rightarrow> string \<times> trades_table \<Rightarrow> bool"
  for env feed where
  poll: "trades_step env feed w (pollTrades env fails (horizon_page (take k feed)) crash w)"
| outage: "trades_step env feed w (pollTrades env fails (\<lambda>_. Inl e) crash w)"
| new_process: "trades_step env feed w (restart w)"

definition well_formed_feed :: "horizon_trade list \<Rightarrow> bool" where
  "well_formed_feed feed \<longleftrightarrow> distinct (map ht_paging_token feed)"

section \<open>The table is a prefix of the feed\<close>

definition prefix_ok ::
  "string \<Rightarrow> horizon_trade list \<Rightarrow> nat \<Rightarrow> string \<times> trades_table \<Rightarrow> bool" where
  "prefix_ok n feed m w \<longleftrightarrow> m \<le> length feed \<and>
     keys (snd w) = (\<lambda>t. (ht_id t, n)) ` set (take m feed) \<and>
     (\<forall>(k, r) \<in> set (snd w). \<exists>j < m. tr_paging_token r = ht_paging_token (feed ! j)) \<and>
     (fst w = [] \<or> (\<exists>j < m. fst w = ht_paging_token (feed ! j)))"

lemma after_token_drop:
  "distinct (map ht_paging_token xs) \<Longrightarrow> j < length xs \<Longrightarrow>
     after_token (ht_paging_token (xs ! j)) xs = drop (Suc j) xs"
proof (induction xs arbitrary: j)
  case (Cons x xs)
  show ?case
  proof (cases j)
    case (Suc i)
    with Cons.prems have "ht_paging_token x \<noteq> ht_paging_token (xs ! i)" by (metis image_eqI length_Cons
      list.set_map list.simps(9) distinct.simps(2) Suc_less_eq nth_mem)
    with Suc Cons show ?thesis by simp
  qed simp
qed simp

lemma after_token_unseen:
  "c \<notin> ht_paging_token ` set xs \<Longrightarrow> after_token c xs = []"
  by (induction xs) auto

text \<open>What follows a cursor that is in the stored part of the feed.\<close>

lemma page_shape:
  assumes feed: "well_formed_feed feed"
    and c: "case cursor of None \<Rightarrow> j = 0 | Some c \<Rightarrow> 0 < j \<and> j \<le> length feed \<and> c = ht_paging_token (feed ! (j - 1))"
    and page: "horizon_page (take k feed) cursor = Inr ts"
  shows "list_all shape_ok ts \<and> (ts = [] \<or> (\<exists>l. j + l \<le> length feed \<and> ts = take l (drop j feed) \<and> 0 < l))"
proof -
  define rest where "rest = (case cursor of None \<Rightarrow> take k feed | Some c \<Rightarrow> after_token c (take k feed))"
  have ts: "ts = take TRADES_LIMIT rest" "list_all shape_ok ts"
    using page by (auto simp: horizon_page_def rest_def Let_def split: if_splits)
  have "rest = [] \<or> rest = drop j (take k feed)"
  proof (cases cursor)
    case None
    then show ?thesis using c by (simp add: rest_def)
  next
    case (Some c')
    then have j: "0 < j" "j \<le> length feed" "c' = ht_paging_token (feed ! (j - 1))" using c by auto
    have d: "distinct (map ht_paging_token (take k feed))"
      using feed by (simp add: well_formed_feed_def take_map [symmetric])
    show ?thesis
    proof (cases "j - 1 < k")
      case True
      then have "c' = ht_paging_token (take k feed ! (j - 1))" "j - 1 < length (take k feed)" using j by auto
      with after_token_drop [OF d] j(1) Some show ?thesis by (simp add: rest_def)
    next
      case False
      have "c' \<notin> ht_paging_token ` set (take k feed)"
      proof
        assume "c' \<in> ht_paging_token ` set (take k feed)"
        then obtain i where i: "i < k" "i < length feed" "c' = ht_paging_token (feed ! i)"
          by (auto simp: in_set_conv_nth)
        then have "map ht_paging_token feed ! i = map ht_paging_token feed ! (j - 1)" using j by simp
        then have "i = j - 1"
          using feed i j by (subst (asm) nth_eq_iff_index_eq) (auto simp: well_formed_feed_def)
        with i False show False by simp
      qed
      with Some show ?thesis by (simp add: rest_def after_token_unseen)
    qed
  qed
  then show ?thesis
  proof
    assume rest: "rest = drop j (take k feed)"
    define l where "l = min TRADES_LIMIT (min k (length feed) - j)"
    have len: "length ts = l" by (simp add: ts rest l_def)
    have "ts = take l (drop j feed)"
      by (simp add: ts rest l_def drop_take min_def take_all_iff) 
    then show ?thesis using ts(2) len by (cases "l = 0") (auto simp: l_def)
  qed (use ts in auto)
qed


lemma insert_trades_rows:
  "run_statements crash (map (insert_trade rt n) ts) db = Inr db' \<Longrightarrow>
     keys db' = keys db \<union> (\<lambda>t. (ht_id t, n)) ` set ts \<and>
     (\<forall>(k, r) \<in> set db'. (k, r) \<in> set db \<or> (\<exists>t \<in> set ts. tr_paging_token r = ht_paging_token t))"
proof (induction ts arbitrary: db crash)
  case (Cons t ts)
  from Cons.prems obtain db1 where db1: "insert_trade rt n t db = Inr db1"
    "run_statements (map_option (\<lambda>n. n - 1) crash) (map (insert_trade rt n) ts) db1 = Inr db'"
    unfolding list.map run_statements_Cons by blast
  then obtain row where row: "db1 = insert_do_nothing (ht_id t, n) row db"
    "tr_paging_token row = ht_paging_token t"
    by (auto simp: insert_trade_def trade_row_of_def and_then_Inr split: sum.splits)
  have IH: "keys db' = keys db1 \<union> (\<lambda>t. (ht_id t, n)) ` set ts"
    "\<forall>(k, r) \<in> set db'. (k, r) \<in> set db1 \<or> (\<exists>t \<in> set ts. tr_paging_token r = ht_paging_token t)"
    using Cons.IH [OF db1(2)] by simp_all
  have "(k, r) \<in> set db1 \<Longrightarrow> (k, r) \<in> set db \<or> tr_paging_token r = ht_paging_token t" for k r
    using row by (auto simp: insert_do_nothing_def split: if_splits)
  with IH row(1) show ?case by fastforce
qed (auto split: if_splits)

lemma latest_token_stored:
  assumes "getLatestTradePagingToken le n db = Some c"
  shows "\<exists>(k, r) \<in> set db. tr_paging_token r = c"
proof -
  define f where "f = (\<lambda>((i :: string, m), r :: trade_row) best. if m \<noteq> n then best
       else (case best of None \<Rightarrow> Some (tr_paging_token r)
             | Some b \<Rightarrow> if le b (tr_paging_token r) then Some (tr_paging_token r) else best))"
  have "fold f t b = Some c \<Longrightarrow> b = Some c \<or> (\<exists>(k, r) \<in> set t. tr_paging_token r = c)" for t b
  proof (induction t arbitrary: b)
    case (Cons x t)
    obtain i m r where x: "x = ((i, m), r)" by (cases x) auto
    from Cons.IH [of "f x b"] Cons.prems
    have "f x b = Some c \<or> (\<exists>(k, r) \<in> set t. tr_paging_token r = c)" by simp
    with x show ?case by (auto simp: f_def split: if_splits option.splits)
  qed simp
  from this [of db None] assms show ?thesis by (simp add: getLatestTradePagingToken_def f_def)
qed

lemma prefix_ok_store:
  assumes ok: "prefix_ok n feed m (c, db)" and j: "j \<le> m" "j + l \<le> length feed" "0 < l"
    and run: "run_statements crash (map (insert_trade rt n) (take l (drop j feed))) db = Inr db'"
  shows "prefix_ok n feed (max m (j + l)) (ht_paging_token (last (take l (drop j feed))), db')"
proof -
  define M where "M = max m (j + l)"
  have sets: "set (take M feed) = set (take m feed) \<union> set (take l (drop j feed))"
  proof (cases "j + l \<le> m")
    case True
    have "set (take l (drop j feed)) \<subseteq> set (take m feed)"
    proof
      fix x assume "x \<in> set (take l (drop j feed))"
      then obtain i where "i < l" "x = feed ! (j + i)" "j + i < length feed"
        by (auto simp: in_set_conv_nth)
      then show "x \<in> set (take m feed)" using True by (force simp: in_set_conv_nth)
    qed
    with True show ?thesis by (auto simp: M_def max_def)
  next
    case False
    then have M: "M = j + l" by (simp add: M_def)
    have "set (take (j + l) feed) = set (take j feed) \<union> set (take l (drop j feed))"
      by (simp add: take_add)
    moreover have "set (take j feed) \<subseteq> set (take m feed)" using j(1) by (rule set_take_subset_set_take)
    moreover have "set (take m feed) \<subseteq> set (take (j + l) feed)"
      using False by (intro set_take_subset_set_take) simp
    ultimately show ?thesis unfolding M by blast
  qed
  note rows = insert_trades_rows [OF run]
  have "\<exists>i < M. tr_paging_token r = ht_paging_token (feed ! i)" if kr: "(k, r) \<in> set db'" for k r
  proof -
    from rows kr consider "(k, r) \<in> set db"
      | t where "t \<in> set (take l (drop j feed))" "tr_paging_token r = ht_paging_token t" by fastforce
    then show ?thesis
    proof cases
      case 1
      then obtain i where "i < m" "tr_paging_token r = ht_paging_token (feed ! i)"
        using ok by (fastforce simp: prefix_ok_def)
      then show ?thesis by (intro exI [of _ i]) (simp add: M_def)
    next
      case (2 t)
      then obtain i where "i < l" "t = feed ! (j + i)" by (auto simp: in_set_conv_nth)
      with 2 show ?thesis by (intro exI [of _ "j + i"]) (simp add: M_def)
    qed
  qed
  moreover have "\<exists>i < M. ht_paging_token (last (take l (drop j feed))) = ht_paging_token (feed ! i)"
    using j(2,3) by (intro exI [of _ "j + l - 1"]) (subst last_conv_nth, auto simp: M_def)
  moreover have "keys db' = (\<lambda>t. (ht_id t, n)) ` set (take M feed)"
    using ok rows sets by (simp add: prefix_ok_def image_Un)
  moreover have "M \<le> length feed" using ok j by (simp add: M_def prefix_ok_def)
  ultimately show ?thesis
    unfolding M_def [symmetric] by (auto simp: prefix_ok_def)
qed

lemma prefix_ok_poll:
  assumes feed: "well_formed_feed feed" and ok: "prefix_ok n feed m w" and n: "n = te_network env"
    and bound: "m \<le> p" "p < length feed \<Longrightarrow> \<not> shape_ok (feed ! p)" "p \<le> length feed"
    and answer: "\<And>c ts. answer c = Inr ts \<Longrightarrow> horizon_page (take k feed) c = Inr ts"
  shows "\<exists>m'. m \<le> m' \<and> m' \<le> p \<and> prefix_ok n feed m' (pollTrades env fails answer crash w)"
proof -
  obtain c db where w: "w = (c, db)" by (cases w)
  define c1 where "c1 = (if c = [] then (case getLatestTradePagingToken (te_before env) n db of
      Some t \<Rightarrow> if t \<noteq> [] then t else c | None \<Rightarrow> c) else c)"
  have c1: "c1 = [] \<or> (\<exists>j < m. c1 = ht_paging_token (feed ! j))"
    using ok latest_token_stored [of "te_before env" n db]
    by (fastforce simp: c1_def w prefix_ok_def split: option.splits if_splits)
  then have ok1: "prefix_ok n feed m (c1, db)" using ok by (auto simp: prefix_ok_def w)
  define cur where "cur = (if c1 = [] then None else Some c1)"
  have poll: "pollTrades env fails answer crash w =
     (if c = [] \<and> fails then (c, db)
      else (case answer cur of Inl e \<Rightarrow> (c1, db)
        | Inr ts \<Rightarrow> if ts = [] then (c1, db)
            else (case insertTrades (te_ratio env) crash n ts db of
                    (Inl e, db') \<Rightarrow> (c1, db') | (Inr _, db') \<Rightarrow> (ht_paging_token (last ts), db'))))"
    unfolding pollTrades_def w prod.case c1_def cur_def n Let_def by simp
  consider "pollTrades env fails answer crash w = w" | "pollTrades env fails answer crash w = (c1, db)"
    | ts db' where "answer cur = Inr ts" "ts \<noteq> []"
        "run_statements crash (map (insert_trade (te_ratio env) n) ts) db = Inr db'"
        "pollTrades env fails answer crash w = (ht_paging_token (last ts), db')"
  proof (cases "c = [] \<and> fails")
    case True
    then show ?thesis using that(1) poll w by simp
  next
    case reads: False
    show ?thesis
    proof (cases "answer cur")
      case (Inl e)
      then show ?thesis using that(2) poll reads by simp
    next
      case (Inr ts)
      show ?thesis
      proof (cases "ts = []")
        case True
        then show ?thesis using that(2) poll reads Inr by simp
      next
        case False
        then show ?thesis
          using that(2) [unfolded poll] that(3) [OF Inr False, unfolded poll] reads Inr
          by (cases "run_statements crash (map (insert_trade (te_ratio env) n) ts) db")
            (simp_all add: insertTrades_def transaction_def)
      qed
    qed
  qed
  then show ?thesis
  proof cases
    case (3 ts db')
    obtain j where j: "j \<le> m" "case cur of None \<Rightarrow> j = 0
        | Some c \<Rightarrow> 0 < j \<and> j \<le> length feed \<and> c = ht_paging_token (feed ! (j - 1))"
    proof (cases "c1 = []")
      case True
      then show ?thesis using that [of 0] by (simp add: cur_def)
    next
      case False
      with c1 obtain i where "i < m" "c1 = ht_paging_token (feed ! i)" by blast
      then show ?thesis
        using that [of "Suc i"] False ok by (simp add: cur_def prefix_ok_def)
    qed
    from page_shape [OF feed j(2) answer [OF 3(1)]] 3(2) obtain l where
      l: "list_all shape_ok ts" "j + l \<le> length feed" "ts = take l (drop j feed)" "0 < l" by blast
    have "j + l \<le> p"
    proof (rule ccontr)
      assume "\<not> j + l \<le> p"
      then have "p - j < length ts" "ts ! (p - j) = feed ! p" "p < length feed"
        using l j(1) bound(1) by auto
      with bound(2) l(1) show False by (metis list_all_length)
    qed
    then have "prefix_ok n feed (max m (j + l)) (ht_paging_token (last ts), db')"
      using prefix_ok_store [OF ok1 j(1) l(2,4)] 3(3) l(3) by simp
    with 3(4) bound(1) \<open>j + l \<le> p\<close> show ?thesis by (intro exI [of _ "max m (j + l)"]) simp
  qed (use ok ok1 bound in \<open>auto intro!: exI [of _ m]\<close>)
qed

lemma prefix_ok_steps:
  assumes feed: "well_formed_feed feed" and bound: "p < length feed \<Longrightarrow> \<not> shape_ok (feed ! p)" "p \<le> length feed"
    and steps: "(trades_step env feed)\<^sup>*\<^sup>* ([], []) w"
  shows "\<exists>m \<le> p. prefix_ok (te_network env) feed m w"
  using steps
proof (induction rule: rtranclp_induct)
  case base
  have "prefix_ok (te_network env) feed 0 ([], [])" by (simp add: prefix_ok_def)
  then show ?case by blast
next
  case (step w w')
  then obtain m where m: "m \<le> p" "prefix_ok (te_network env) feed m w" by blast
  from step.hyps(2) show ?case
  proof cases
    case (poll fails k crash)
    with prefix_ok_poll [OF feed m(2) refl m(1) bound, of "horizon_page (take k feed)" k fails crash]
    show ?thesis by auto
  next
    case (outage fails e crash)
    with prefix_ok_poll [OF feed m(2) refl m(1) bound, of "\<lambda>_. Inl e" 0 fails crash]
    show ?thesis by auto
  next
    case new_process
    with m show ?thesis by (auto simp: prefix_ok_def restart_def)
  qed
qed

text \<open>
  C25: after any polls (with the connection lost at any statement), outages and restarts, what the
  trades table holds is exactly the feed up to some point: no trade is skipped, whatever collation
  the stored cursor is read back with.
\<close>

theorem trades_are_a_prefix_of_the_feed:
  assumes "well_formed_feed feed" and "(trades_step env feed)\<^sup>*\<^sup>* ([], []) w"
  shows "\<exists>m \<le> length feed. keys (snd w) = (\<lambda>t. (ht_id t, te_network env)) ` set (take m feed)"
  using prefix_ok_steps [OF assms(1) _ _ assms(2), of "length feed"] by (auto simp: prefix_ok_def)

text \<open>
  A trade without \<open>base_account\<close> stops the table before it for good: its page is rejected as a
  whole at every poll, before and after every restart, and no later trade is ever stored.
\<close>

theorem pool_trade_stops_trades:
  assumes "well_formed_feed feed" and "p < length feed" "ht_base_account (feed ! p) = None"
    and "(trades_step env feed)\<^sup>*\<^sup>* ([], []) w"
  shows "\<exists>m \<le> p. keys (snd w) = (\<lambda>t. (ht_id t, te_network env)) ` set (take m feed)"
  using prefix_ok_steps [OF assms(1) _ _ assms(4), of p] assms(2,3) by (auto simp: prefix_ok_def shape_ok_def)

section \<open>A concrete feed\<close>

definition sample_trade :: "string \<Rightarrow> string option \<Rightarrow> horizon_trade" where
  "sample_trade i account =
     \<lparr>ht_id = i, ht_paging_token = i, ht_close_time = 1000, ht_type = None, ht_base_account = account,
      ht_base_amount = ''7'', ht_base_asset_type = ''native'', ht_base_asset_code = None,
      ht_base_asset_issuer = None, ht_base_offer_id = None, ht_counter_account = None,
      ht_counter_amount = ''3'', ht_counter_asset_type = ''native'', ht_counter_asset_code = None,
      ht_counter_asset_issuer = None, ht_counter_offer_id = None, ht_base_is_seller = None, ht_price = None\<rparr>"

definition sample_feed :: "horizon_trade list" where
  "sample_feed = [sample_trade ''9-0'' (Some ''GA''), sample_trade ''10-0'' None, sample_trade ''11-0'' (Some ''GB'')]"

definition sample_env :: trades_env where
  "sample_env = \<lparr>te_network = ''public'', te_ratio = (\<lambda>n d. ''1''), te_before = (\<lambda>a b. length a < length b)\<rparr>"

definition first_poll :: "string \<times> trades_table" where
  "first_poll = pollTrades sample_env False (horizon_page (take 1 sample_feed)) None ([], [])"

definition second_poll :: "string \<times> trades_table" where
  "second_poll = pollTrades sample_env False (horizon_page (take 3 sample_feed)) None (restart first_poll)"

lemma sample_polls:
  "(trades_step sample_env sample_feed)\<^sup>*\<^sup>* ([], []) first_poll"
  "(trades_step sample_env sample_feed)\<^sup>*\<^sup>* ([], []) second_poll"
proof -
  have first: "trades_step sample_env sample_feed ([], []) first_poll"
    unfolding first_poll_def by (rule trades_step.poll)
  have new: "trades_step sample_env sample_feed first_poll (restart first_poll)"
    by (rule trades_step.new_process)
  have second: "trades_step sample_env sample_feed (restart first_poll) second_poll"
    unfolding second_poll_def by (rule trades_step.poll)
  show "(trades_step sample_env sample_feed)\<^sup>*\<^sup>* ([], []) first_poll"
    using first by (rule r_into_rtranclp)
  then show "(trades_step sample_env sample_feed)\<^sup>*\<^sup>* ([], []) second_poll"
    using new second by (rule rtranclp.rtrancl_into_rtrancl [OF rtranclp.rtrancl_into_rtrancl])
qed

lemma sample_feed_ok: "well_formed_feed sample_feed"
  by (simp add: well_formed_feed_def sample_feed_def sample_trade_def)

theorem trades_are_a_prefix_of_the_feed_witness:
  "map fst (snd first_poll) = [(''9-0'', ''public'')] \<and> fst first_poll = ''9-0'' \<and>
   (\<exists>m. keys (snd first_poll) = (\<lambda>t. (ht_id t, ''public'')) ` set (take m sample_feed))"
proof -
  have "te_network sample_env = ''public''" by (simp add: sample_env_def)
  with trades_are_a_prefix_of_the_feed [OF sample_feed_ok sample_polls(1)]
  have "\<exists>m. keys (snd first_poll) = (\<lambda>t. (ht_id t, ''public'')) ` set (take m sample_feed)" by auto
  moreover have "map fst (snd first_poll) = [(''9-0'', ''public'')] \<and> fst first_poll = ''9-0''"
    by code_simp
  ultimately show ?thesis by blast
qed

theorem pool_trade_stops_trades_witness:
  "keys (snd second_poll) \<subseteq> {(''9-0'', ''public'')} \<and> fst second_poll = ''9-0''"
proof -
  have "Suc 0 < length sample_feed" "ht_base_account (sample_feed ! Suc 0) = None"
    by (simp_all add: sample_feed_def sample_trade_def)
  from pool_trade_stops_trades [OF sample_feed_ok this sample_polls(2)]
  obtain m where "m \<le> Suc 0" "keys (snd second_poll) = (\<lambda>t. (ht_id t, ''public'')) ` set (take m sample_feed)"
    by (auto simp: sample_env_def)
  moreover have "set (take m sample_feed) \<subseteq> set (take (Suc 0) sample_feed)"
    using calculation(1) by (rule set_take_subset_set_take)
  moreover have "fst second_poll = ''9-0''" by code_simp
  ultimately show ?thesis by (auto simp: sample_feed_def sample_trade_def)
qed


end
