(* ===== verification/Claim_Predicates.thy ===== *)
theory Claim_Predicates
  imports Complex_Main Op_Fields
begin

text \<open>
  \<open>graphql-server/src/claimableBalances.ts\<close>: the evaluation of claim predicates and the rows of the
  \<open>claimableBalances\<close> query. A predicate arrives as JSON; the evaluation is three-valued, with
  \<open>null\<close> for a predicate it cannot read. The model of the ledger's own rule (\<open>holds\<close>) and of
  Horizon's JSON for it (\<open>horizon_json\<close>) are here too: on every predicate whose times a \<open>Date\<close> can
  represent the evaluation is exact, and where it answers despite unreadable parts its answer does not
  depend on them. Past that range it is not: a deadline in the far future reads as expired.
\<close>

section \<open>Numbers and dates\<close>

text \<open>
  \<open>Number(v)\<close> when it is finite. Decimals are exact here; a double rounds a fraction of a second to
  its 53 bits.
\<close>

definition rational_text :: "string \<Rightarrow> rat option" where
  "rational_text s =
     (case integer_of_text s of
        Some i \<Rightarrow> Some (of_int i)
      | None \<Rightarrow> map_option (\<lambda>(n, k). of_int n / 10 ^ k) (numeric_of_text s))"

definition finite_double :: "rat \<Rightarrow> rat option" where
  "finite_double q = (if \<bar>q\<bar> < 2 ^ 1024 - 2 ^ 970 then Some q else None)"

definition finite_number :: "jsval \<Rightarrow> rat option" where
  "finite_number v =
     (case v of
        JNull \<Rightarrow> Some 0
      | JBool b \<Rightarrow> Some (if b then 1 else 0)
      | JInt i \<Rightarrow> Some (of_int i)
      | JNum t fin w \<Rightarrow> if fin then rational_text t else None
      | JStr s \<Rightarrow> Option.bind (rational_text s) finite_double
      | JArr xs \<Rightarrow> Option.bind (rational_text (js_text v)) finite_double
      | _ \<Rightarrow> None)"

text \<open>
  \<open>new Date(ms)\<close>: \<open>None\<close> is the invalid date, which every comparison is false with. Times are
  milliseconds.
\<close>

definition MAX_DATE_MS :: int where
  "MAX_DATE_MS = 8640000000000000"

definition truncate_rat :: "rat \<Rightarrow> int" where
  "truncate_rat q = (if q < 0 then - \<lfloor>- q\<rfloor> else \<lfloor>q\<rfloor>)"

definition new_date :: "rat \<Rightarrow> int option" where
  "new_date ms = (if \<bar>ms\<bar> \<le> of_int MAX_DATE_MS then Some (truncate_rat ms) else None)"

definition before_date :: "int \<Rightarrow> int option \<Rightarrow> bool" where
  "before_date t d = (case d of Some d \<Rightarrow> t < d | None \<Rightarrow> False)"

section \<open>Evaluating a predicate\<close>

text \<open>\<open>p[name]\<close> for names that no object inherits.\<close>

definition prop_of :: "(string \<times> jsval) list \<Rightarrow> string \<Rightarrow> jsval" where
  "prop_of ps name = (case map_of ps name of Some v \<Rightarrow> v | None \<Rightarrow> JUndefined)"

text \<open>
  \<open>predicateDeadline\<close>; \<open>None\<close> is \<open>undefined\<close>. \<open>date_parse\<close> is \<open>Date.parse\<close>, whose formats
  other than the ISO one are up to the engine.
\<close>

definition predicateDeadline ::
  "(string \<Rightarrow> int option) \<Rightarrow> (string \<times> jsval) list \<Rightarrow> int \<Rightarrow> int option option" where
  "predicateDeadline date_parse p createdAt =
     (let epoch = (if prop_of p ''abs_before_epoch'' = JUndefined then None
                   else finite_number (prop_of p ''abs_before_epoch''));
          parsed = (case prop_of p ''abs_before'' of JStr s \<Rightarrow> date_parse s | _ \<Rightarrow> None);
          relative = (if prop_of p ''rel_before'' = JUndefined then None
                      else finite_number (prop_of p ''rel_before''))
      in case epoch of
           Some seconds \<Rightarrow> Some (new_date (seconds * 1000))
         | None \<Rightarrow>
             (case parsed of
                Some ms \<Rightarrow> Some (Some ms)
              | None \<Rightarrow> map_option (\<lambda>seconds. new_date (of_int createdAt + seconds * 1000)) relative))"

definition and_results :: "bool option list \<Rightarrow> bool option" where
  "and_results rs = (if Some False \<in> set rs then Some False else if None \<in> set rs then None else Some True)"

definition or_results :: "bool option list \<Rightarrow> bool option" where
  "or_results rs = (if Some True \<in> set rs then Some True else if None \<in> set rs then None else Some False)"

lemma prop_of_size: "prop_of ps name = v \<Longrightarrow> v \<noteq> JUndefined \<Longrightarrow> size v < size (JObj ps)"
proof (induction ps)
  case (Cons q ps)
  then show ?case by (cases q) (auto simp: prop_of_def split: if_splits option.splits)
qed (simp add: prop_of_def)

lemma prop_of_items: "prop_of ps name = JArr xs \<Longrightarrow> x \<in> set xs \<Longrightarrow> size x < size (JObj ps)"
  using prop_of_size [of ps name "JArr xs"] size_list_estimation' [of x xs "size x" size] by simp

function evaluatePredicate :: "(string \<Rightarrow> int option) \<Rightarrow> jsval \<Rightarrow> int \<Rightarrow> int \<Rightarrow> bool option" where
  "evaluatePredicate date_parse predicate createdAt now =
     (case predicate of
        JObj p \<Rightarrow>
          (let conj = prop_of p ''and''; disj = prop_of p ''or'' in
           if prop_of p ''unconditional'' = JBool True then Some True
           else if conj \<noteq> JUndefined \<or> disj \<noteq> JUndefined then
             (case coalesce conj disj of
                JArr parts \<Rightarrow>
                  if parts = [] then None
                  else (let results = map (\<lambda>part. evaluatePredicate date_parse part createdAt now) parts
                        in if conj \<noteq> JUndefined then and_results results else or_results results)
              | _ \<Rightarrow> None)
           else if prop_of p ''not'' \<noteq> JUndefined then
             map_option Not (evaluatePredicate date_parse (prop_of p ''not'') createdAt now)
           else map_option (before_date now) (predicateDeadline date_parse p createdAt))
      | _ \<Rightarrow> None)"
  by pat_completeness auto
termination
proof (relation "measure (\<lambda>(_, v, _, _). size v)", goal_cases)
  case (2 date_parse predicate createdAt now p conj disj parts x)
  then have "prop_of p ''and'' = JArr parts \<or> prop_of p ''or'' = JArr parts"
    by (auto simp: coalesce_def split: if_splits)
  with 2 show ?case using prop_of_items [of p _ parts x] by auto
next
  case (3 date_parse predicate createdAt now p conj disj)
  then show ?case using prop_of_size [OF refl, of p "''not''"] by auto
qed simp

declare evaluatePredicate.simps [simp del]

section \<open>What the ledger decides\<close>

text \<open>
  A claim predicate with its times in seconds, as Core has it; an unreadable part is a JSON value that
  the evaluation cannot read. \<open>holds\<close> is the ledger's rule, under a guess for those parts.
\<close>

datatype claim_predicate =
    Unconditional
  | Before int
  | Within int
  | Both claim_predicate claim_predicate
  | Either claim_predicate claim_predicate
  | Negated claim_predicate
  | Unreadable jsval

fun holds :: "(jsval \<Rightarrow> bool) \<Rightarrow> claim_predicate \<Rightarrow> int \<Rightarrow> int \<Rightarrow> bool" where
  "holds guess Unconditional created now \<longleftrightarrow> True"
| "holds guess (Before s) created now \<longleftrightarrow> now < s * 1000"
| "holds guess (Within s) created now \<longleftrightarrow> now < created + s * 1000"
| "holds guess (Both p q) created now \<longleftrightarrow> holds guess p created now \<and> holds guess q created now"
| "holds guess (Either p q) created now \<longleftrightarrow> holds guess p created now \<or> holds guess q created now"
| "holds guess (Negated p) created now \<longleftrightarrow> \<not> holds guess p created now"
| "holds guess (Unreadable v) created now \<longleftrightarrow> guess v"

text \<open>Horizon's JSON; \<open>print_time\<close> prints a time.\<close>

fun horizon_json :: "(int \<Rightarrow> string) \<Rightarrow> claim_predicate \<Rightarrow> jsval" where
  "horizon_json print_time Unconditional = JObj [(''unconditional'', JBool True)]"
| "horizon_json print_time (Before s) =
     JObj [(''abs_before'', JStr (print_time s)), (''abs_before_epoch'', JStr (int_to_string s))]"
| "horizon_json print_time (Within s) = JObj [(''rel_before'', JStr (int_to_string s))]"
| "horizon_json print_time (Both p q) = JObj [(''and'', JArr [horizon_json print_time p, horizon_json print_time q])]"
| "horizon_json print_time (Either p q) = JObj [(''or'', JArr [horizon_json print_time p, horizon_json print_time q])]"
| "horizon_json print_time (Negated p) = JObj [(''not'', horizon_json print_time p)]"
| "horizon_json print_time (Unreadable v) = v"

text \<open>The deadlines a \<open>Date\<close> can represent, and the parts that are what they claim to be.\<close>

fun dates_in_range :: "int \<Rightarrow> claim_predicate \<Rightarrow> bool" where
  "dates_in_range created (Before s) = (\<bar>s * 1000\<bar> \<le> MAX_DATE_MS)"
| "dates_in_range created (Within s) = (\<bar>s\<bar> \<le> MAX_DATE_MS \<and> \<bar>created + s * 1000\<bar> \<le> MAX_DATE_MS)"
| "dates_in_range created (Both p q) = (dates_in_range created p \<and> dates_in_range created q)"
| "dates_in_range created (Either p q) = (dates_in_range created p \<and> dates_in_range created q)"
| "dates_in_range created (Negated p) = dates_in_range created p"
| "dates_in_range created p = True"

fun unreadable_parts :: "claim_predicate \<Rightarrow> jsval list" where
  "unreadable_parts (Both p q) = unreadable_parts p @ unreadable_parts q"
| "unreadable_parts (Either p q) = unreadable_parts p @ unreadable_parts q"
| "unreadable_parts (Negated p) = unreadable_parts p"
| "unreadable_parts (Unreadable v) = [v]"
| "unreadable_parts p = []"

section \<open>The evaluation agrees with the ledger\<close>

lemma unsigned_integer_digits:
  assumes "list_all is_digit ds" "ds \<noteq> []"
  shows "unsigned_integer ds = Some (nat_of_digits ds)"
proof -
  have sep: "is_digit c \<Longrightarrow> c \<noteq> CHR ''e'' \<and> c \<noteq> CHR ''E'' \<and> c \<noteq> CHR ''.''" for c
    by (auto simp: is_digit_def char_code_def)
  have "takeWhile (\<lambda>c. c \<noteq> CHR ''e'' \<and> c \<noteq> CHR ''E'') ds = ds"
    by (rule takeWhile_eq_all_conv [THEN iffD2]) (use assms(1) sep in \<open>auto simp: list_all_iff\<close>)
  moreover have "takeWhile (\<lambda>c. c \<noteq> CHR ''.'') ds = ds"
    by (rule takeWhile_eq_all_conv [THEN iffD2]) (use assms(1) sep in \<open>auto simp: list_all_iff\<close>)
  ultimately show ?thesis using assms
    by (simp add: unsigned_integer_def unsigned_exponent_def Let_def del: takeWhile_eq_all_conv)
qed

lemma radix_of_digit:
  assumes "is_digit c"
  shows "radix_of c = None"
proof -
  have "c \<noteq> CHR ''x''" "c \<noteq> CHR ''X''" "c \<noteq> CHR ''o''" "c \<noteq> CHR ''O''" "c \<noteq> CHR ''b''" "c \<noteq> CHR ''B''"
    using assms by (auto simp: is_digit_def char_code_def)
  then show ?thesis by (simp add: radix_of_def)
qed

lemma integer_of_digits:
  assumes "list_all is_digit ds" "ds \<noteq> []"
  shows "integer_of_text ds = Some (int (nat_of_digits ds))"
proof -
  obtain c cs where ds: "ds = c # cs" using assms(2) by (cases ds) auto
  have digits: "is_digit (hd ds)" "is_digit (last ds)" using assms by (auto simp: list_all_iff)
  then have "trim ds = ds" using assms(2) by (intro trim_id) (auto simp: digit_not_sep)
  moreover have "c \<noteq> CHR ''-''" "c \<noteq> CHR ''+''" using digits ds by (auto simp: digit_not_sep)
  moreover have "\<And>x xs. cs = x # xs \<Longrightarrow> radix_of x = None"
    using assms(1) ds radix_of_digit by auto
  moreover have "unsigned_integer (c # cs) = Some (nat_of_digits (c # cs))"
    using unsigned_integer_digits [OF assms] ds by simp
  ultimately show ?thesis
    unfolding integer_of_text_def ds by (cases cs; cases "tl cs") auto
qed

lemma integer_of_int_to_string [simp]: "integer_of_text (int_to_string i) = Some i"
proof (cases "i < 0")
  case True
  define ds where "ds = nat_to_string (nat (- i))"
  have ds: "list_all is_digit ds" "ds \<noteq> []" "int (nat_of_digits ds) = - i"
    using True by (simp_all add: ds_def)
  then have "is_digit (last ds)" by (auto simp: list_all_iff)
  then have "trim (CHR ''-'' # ds) = CHR ''-'' # ds"
    using ds(2) digit_not_sep(1) [of "last ds"] by (intro trim_id) (auto simp: is_space_def char_code_def)
  moreover have "int_to_string i = CHR ''-'' # ds" using True by (simp add: int_to_string_def ds_def)
  moreover have "integer_of_text (CHR ''-'' # ds) = map_option (\<lambda>n. - int n) (unsigned_integer ds)"
    using calculation(1) by (simp only: integer_of_text_def list.case refl if_True)
  ultimately show ?thesis
    using unsigned_integer_digits [OF ds(1,2)] ds(3) by simp
next
  case False
  then show ?thesis by (simp add: int_to_string_def integer_of_digits)
qed

lemma finite_number_seconds: "\<bar>s\<bar> \<le> MAX_DATE_MS \<Longrightarrow> finite_number (JStr (int_to_string s)) = Some (of_int s)"
proof -
  assume "\<bar>s\<bar> \<le> MAX_DATE_MS"
  then have "\<bar>of_int s :: rat\<bar> \<le> of_int MAX_DATE_MS" by (simp flip: of_int_abs)
  also have "of_int MAX_DATE_MS < (2 ^ 1024 - 2 ^ 970 :: rat)" by (simp add: MAX_DATE_MS_def)
  finally show ?thesis by (simp add: finite_number_def rational_text_def finite_double_def)
qed

lemma new_date_int: "\<bar>ms\<bar> \<le> MAX_DATE_MS \<Longrightarrow> new_date (of_int ms) = Some ms"
  by (simp add: new_date_def truncate_rat_def flip: of_int_minus of_int_abs)

lemma deadline_before:
  "\<bar>s * 1000\<bar> \<le> MAX_DATE_MS \<Longrightarrow>
     predicateDeadline parse [(''abs_before'', JStr x), (''abs_before_epoch'', JStr (int_to_string s))] created
       = Some (Some (s * 1000))"
  using new_date_int [of "s * 1000"]
  by (simp add: predicateDeadline_def prop_of_def finite_number_seconds)

lemma deadline_within:
  "\<bar>s\<bar> \<le> MAX_DATE_MS \<Longrightarrow> \<bar>created + s * 1000\<bar> \<le> MAX_DATE_MS \<Longrightarrow>
     predicateDeadline parse [(''rel_before'', JStr (int_to_string s))] created = Some (Some (created + s * 1000))"
  using new_date_int [of "created + s * 1000"]
  by (simp add: predicateDeadline_def prop_of_def finite_number_seconds)

lemma evaluate_forms:
  "evaluatePredicate parse (JObj [(''unconditional'', JBool True)]) created now = Some True"
  "evaluatePredicate parse (JObj [(''and'', JArr [v, w])]) created now =
     and_results [evaluatePredicate parse v created now, evaluatePredicate parse w created now]"
  "evaluatePredicate parse (JObj [(''or'', JArr [v, w])]) created now =
     or_results [evaluatePredicate parse v created now, evaluatePredicate parse w created now]"
  by (subst evaluatePredicate.simps, simp add: prop_of_def coalesce_def is_nullish_def)+

lemma evaluate_not:
  "v \<noteq> JUndefined \<Longrightarrow> evaluatePredicate parse (JObj [(''not'', v)]) created now =
     map_option Not (evaluatePredicate parse v created now)"
  by (subst evaluatePredicate.simps) (simp add: prop_of_def)

lemma evaluate_deadlines:
  "evaluatePredicate parse (JObj [(''abs_before'', v), (''abs_before_epoch'', w)]) created now =
     map_option (before_date now) (predicateDeadline parse [(''abs_before'', v), (''abs_before_epoch'', w)] created)"
  "evaluatePredicate parse (JObj [(''rel_before'', w)]) created now =
     map_option (before_date now) (predicateDeadline parse [(''rel_before'', w)] created)"
  by (subst evaluatePredicate.simps, simp add: prop_of_def)+

lemma horizon_json_defined: "JUndefined \<notin> set (unreadable_parts p) \<Longrightarrow> horizon_json pr p \<noteq> JUndefined"
  by (cases p) auto

text \<open>
  On a predicate in Horizon's JSON whose deadlines a \<open>Date\<close> can represent, the evaluation gives the
  ledger's answer; with parts it cannot read it gives an answer only if the ledger's answer is the
  same whatever those parts mean, and it gives one whenever every part is readable.
\<close>

lemma predicates_evaluate_exactly:
  assumes "dates_in_range created p"
    and "\<forall>v \<in> set (unreadable_parts p). v \<noteq> JUndefined \<and> evaluatePredicate parse v created now = None"
  shows "case evaluatePredicate parse (horizon_json print_time p) created now of
           Some b \<Rightarrow> (\<forall>guess. holds guess p created now = b)
         | None \<Rightarrow> unreadable_parts p \<noteq> []"
  using assms
proof (induction p)
  case (Negated p)
  then have "JUndefined \<notin> set (unreadable_parts p)" by auto
  with Negated show ?case
    using evaluate_not [OF horizon_json_defined] by (auto split: option.splits)
qed (auto simp: evaluate_forms evaluate_deadlines deadline_before deadline_within before_date_def
    and_results_def or_results_def split: option.splits if_splits)

text \<open>A deadline past the range of \<open>Date\<close> is an invalid date, and every time counts as after it.\<close>

lemma far_deadline_reads_as_expired:
  assumes "MAX_DATE_MS < s * 1000" "s < 2 ^ 63" "now \<le> MAX_DATE_MS"
  shows "evaluatePredicate parse (horizon_json print_time (Before s)) created now = Some False"
    and "holds guess (Before s) created now"
proof -
  have "\<bar>of_int s :: rat\<bar> \<le> of_int (2 ^ 63)"
    unfolding of_int_abs [symmetric] of_int_le_iff using assms(1,2) by (simp add: MAX_DATE_MS_def)
  also have "of_int (2 ^ 63) < (2 ^ 1024 - 2 ^ 970 :: rat)" by simp
  finally have "finite_number (JStr (int_to_string s)) = Some (of_int s)"
    by (simp add: finite_number_def rational_text_def finite_double_def)
  moreover have "(of_int MAX_DATE_MS :: rat) < of_int s * 1000"
    using assms(1) by (metis of_int_less_iff of_int_mult of_int_numeral)
  then have "new_date (of_int s * 1000) = None" by (simp add: new_date_def)
  ultimately show "evaluatePredicate parse (horizon_json print_time (Before s)) created now = Some False"
    by (simp add: evaluate_deadlines predicateDeadline_def prop_of_def before_date_def)
  show "holds guess (Before s) created now" using assms by simp
qed

section \<open>Rows\<close>

text \<open>A row of the query, its claimants as the JSON column holds them; times are milliseconds.\<close>

record balance_row =
  br_balance_id :: string
  br_asset :: string
  br_amount :: string
  br_sponsor :: "string option"
  br_claimants :: "jsval list option"
  br_status :: string
  br_claimed_by :: "string option"
  br_claimed_at :: "int option"
  br_claimed_ledger :: "int option"
  br_created_ledger :: int
  br_created_at :: int
  br_network :: string

record claimant_item =
  ct_destination :: jsval
  ct_predicate :: string
  ct_claimableNow :: "bool option"

record claimable_item =
  ci_network :: string
  ci_id :: string
  ci_asset :: string
  ci_amount :: string
  ci_sponsor :: "string option"
  ci_status :: string
  ci_claimedBy :: "string option"
  ci_claimedAt :: "int option"
  ci_claimedLedger :: "int option"
  ci_createdLedger :: int
  ci_createdAt :: int
  ci_claimants :: "claimant_item list"
  ci_claimableNow :: "bool option"

definition apiAsset :: "string \<Rightarrow> string" where
  "apiAsset stored = (if stored = ''native'' then ''XLM'' else stored)"

definition storedAsset :: "string \<Rightarrow> string" where
  "storedAsset asset = (if asset = ''XLM'' \<or> asset = ''native'' then ''native'' else asset)"

text \<open>One claimant; reading a property of \<open>null\<close> raises.\<close>

definition map_claimant ::
  "(string \<Rightarrow> int option) \<Rightarrow> bool \<Rightarrow> int \<Rightarrow> int \<Rightarrow> jsval \<Rightarrow> string + claimant_item" where
  "map_claimant parse live created now entry =
     (if is_nullish entry then Inl ''TypeError''
      else
        (let predicate = coalesce (get_member entry ''predicate'') JNull in
         Inr \<lparr>ct_destination = coalesce (get_member entry ''destination'') (JStr []),
              ct_predicate = json_text predicate,
              ct_claimableNow = (if live then evaluatePredicate parse predicate created now
                                 else Some False)\<rparr>))"

definition some_claimable :: "bool option list \<Rightarrow> bool option" where
  "some_claimable rs = (if Some True \<in> set rs then Some True else if None \<in> set rs then None else Some False)"

definition mapClaimableBalance ::
  "(string \<Rightarrow> int option) \<Rightarrow> balance_row \<Rightarrow> int \<Rightarrow> string option \<Rightarrow> string + claimable_item" where
  "mapClaimableBalance parse row now claimant =
     (let live = (br_status row = ''unclaimed'');
          entries = (case br_claimants row of Some es \<Rightarrow> es | None \<Rightarrow> [])
      in and_then (traverse (map_claimant parse live (br_created_at row) now) entries) (\<lambda>claimants.
         let asked = (case claimant of Some c \<Rightarrow> c \<noteq> [] | None \<Rightarrow> False);
             forClaimant = (if asked then find (\<lambda>e. ct_destination e = JStr (the claimant)) claimants else None)
         in Inr \<lparr>ci_network = br_network row, ci_id = br_balance_id row, ci_asset = apiAsset (br_asset row),
              ci_amount = br_amount row, ci_sponsor = br_sponsor row, ci_status = upper_case (br_status row),
              ci_claimedBy = br_claimed_by row, ci_claimedAt = br_claimed_at row,
              ci_claimedLedger = br_claimed_ledger row, ci_createdLedger = br_created_ledger row,
              ci_createdAt = br_created_at row, ci_claimants = claimants,
              ci_claimableNow =
                (case forClaimant of
                   Some e \<Rightarrow> ct_claimableNow e
                 | None \<Rightarrow> if asked then Some False else some_claimable (map ct_claimableNow claimants))\<rparr>))"

section \<open>Who can claim now\<close>

definition claimant_json :: "(int \<Rightarrow> string) \<Rightarrow> string \<times> claim_predicate \<Rightarrow> jsval" where
  "claimant_json print_time c =
     JObj [(''destination'', JStr (fst c)), (''predicate'', horizon_json print_time (snd c))]"

definition readable_claimants ::
  "(string \<Rightarrow> int option) \<Rightarrow> int \<Rightarrow> int \<Rightarrow> (string \<times> claim_predicate) list \<Rightarrow> bool" where
  "readable_claimants parse created now cs =
     list_all (\<lambda>(_, p). dates_in_range created p \<and>
        list_all (\<lambda>v. \<not> is_nullish v \<and> evaluatePredicate parse v created now = None) (unreadable_parts p)) cs"

text \<open>The claimants of a balance that may claim it, were it open.\<close>

definition ledger_allows ::
  "(jsval \<Rightarrow> bool) \<Rightarrow> string option \<Rightarrow> (string \<times> claim_predicate) list \<Rightarrow> int \<Rightarrow> int \<Rightarrow> bool" where
  "ledger_allows guess claimant cs created now =
     list_ex (\<lambda>(d, p). (claimant = None \<or> claimant = Some d) \<and> holds guess p created now) cs"

definition entry_of ::
  "(string \<Rightarrow> int option) \<Rightarrow> (int \<Rightarrow> string) \<Rightarrow> bool \<Rightarrow> int \<Rightarrow> int \<Rightarrow> string \<times> claim_predicate \<Rightarrow> claimant_item" where
  "entry_of parse print_time live created now c =
     \<lparr>ct_destination = JStr (fst c), ct_predicate = json_text (horizon_json print_time (snd c)),
      ct_claimableNow = (if live then evaluatePredicate parse (horizon_json print_time (snd c)) created now
                         else Some False)\<rparr>"

lemma map_claimant_json:
  "\<not> is_nullish (horizon_json print_time (snd c)) \<Longrightarrow>
     map_claimant parse live created now (claimant_json print_time c) = Inr (entry_of parse print_time live created now c)"
  by (simp add: map_claimant_def claimant_json_def entry_of_def get_member_def coalesce_def is_nullish_def Let_def)

lemma horizon_json_not_nullish:
  "list_all (\<lambda>v. \<not> is_nullish v) (unreadable_parts p) \<Longrightarrow> \<not> is_nullish (horizon_json print_time p)"
  by (cases p) (auto simp: is_nullish_def)

lemma map_claimants_json:
  "readable_claimants parse created now cs \<Longrightarrow>
     traverse (map_claimant parse live created now) (map (claimant_json print_time) cs)
       = Inr (map (entry_of parse print_time live created now) cs)"
  by (induction cs)
    (auto simp: readable_claimants_def map_claimant_json horizon_json_not_nullish list_all_iff)

lemma readable_claimant:
  assumes "readable_claimants parse created now cs" "(d, p) \<in> set cs"
  shows "case ct_claimableNow (entry_of parse print_time live created now (d, p)) of
           Some b \<Rightarrow> (\<forall>guess. (live \<and> holds guess p created now) = b)
         | None \<Rightarrow> live \<and> unreadable_parts p \<noteq> []"
proof -
  have "dates_in_range created p"
    "\<forall>v \<in> set (unreadable_parts p). v \<noteq> JUndefined \<and> evaluatePredicate parse v created now = None"
    using assms by (auto simp: readable_claimants_def list_all_iff is_nullish_def)
  from predicates_evaluate_exactly [OF this, of print_time] show ?thesis
    by (auto simp: entry_of_def split: option.splits)
qed

lemma find_claimant:
  "distinct (map fst cs) \<Longrightarrow> (d, p) \<in> set cs \<Longrightarrow>
     find (\<lambda>e. ct_destination e = JStr d) (map (entry_of parse print_time live created now) cs)
       = Some (entry_of parse print_time live created now (d, p))"
proof (induction cs)
  case (Cons c cs)
  have "c = (d, p)" if "fst c = d"
  proof (rule ccontr)
    assume "c \<noteq> (d, p)"
    then have "(d, p) \<in> set cs" using Cons.prems(2) by simp
    then have "fst (d, p) \<in> fst ` set cs" by (rule imageI)
    with that Cons.prems(1) show False by simp
  qed
  with Cons show ?case by (auto simp: entry_of_def)
qed simp

lemma find_no_claimant:
  "d \<notin> fst ` set cs \<Longrightarrow>
     find (\<lambda>e. ct_destination e = JStr d) (map (entry_of parse print_time live created now) cs) = None"
  by (induction cs) (auto simp: entry_of_def)

lemma some_claimable_cases:
  "some_claimable rs = Some b \<Longrightarrow> (if b then Some True \<in> set rs else \<forall>r \<in> set rs. r = Some False)"
  by (cases b) (auto simp: some_claimable_def split: if_splits, metis (full_types) option.exhaust)

lemma some_claimable_None: "some_claimable rs = None \<Longrightarrow> None \<in> set rs"
  by (simp add: some_claimable_def split: if_splits)

lemma any_claimable:
  assumes "readable_claimants parse created now cs"
  shows "case some_claimable (map (ct_claimableNow \<circ> entry_of parse print_time live created now) cs) of
           Some b \<Rightarrow> (\<forall>guess. (live \<and> ledger_allows guess None cs created now) = b)
         | None \<Rightarrow> list_ex (\<lambda>(_, p). unreadable_parts p \<noteq> []) cs"
proof (cases "some_claimable (map (ct_claimableNow \<circ> entry_of parse print_time live created now) cs)")
  case None
  from some_claimable_None [OF this] obtain d p where "(d, p) \<in> set cs"
    "ct_claimableNow (entry_of parse print_time live created now (d, p)) = None" by auto
  with readable_claimant [OF assms this(1), of live print_time] show ?thesis
    unfolding None by (auto simp: list_ex_iff)
next
  case (Some b)
  note b = some_claimable_cases [OF Some]
  show ?thesis
  proof (cases b)
    case True
    with b obtain d p where dp: "(d, p) \<in> set cs"
      "ct_claimableNow (entry_of parse print_time live created now (d, p)) = Some True" by auto
    with readable_claimant [OF assms dp(1), of live print_time] have "live \<and> (\<forall>guess. holds guess p created now)"
      by simp
    with dp(1) Some True show ?thesis by (auto simp: ledger_allows_def list_ex_iff)
  next
    case False
    have "\<not> (live \<and> holds guess p created now)" if "(d, p) \<in> set cs" for d p guess
      using readable_claimant [OF assms that, of live print_time] b False that by auto
    with Some False show ?thesis by (auto simp: ledger_allows_def list_ex_iff)
  qed
qed

text \<open>
  C13: for a balance whose claimants are Horizon's, with deadlines a \<open>Date\<close> can represent, the answer
  \<open>claimableNow\<close> is the ledger's: whether the balance is unclaimed and the given claimant's (without
  one, some claimant's) predicate holds at the time of the request. It is \<open>null\<close> only if a predicate
  has a part that cannot be read, and otherwise right whatever such parts mean.
\<close>

theorem claimable_now_is_the_ledgers:
  assumes row: "br_claimants row = Some (map (claimant_json print_time) cs)" "distinct (map fst cs)"
    and readable: "readable_claimants parse (br_created_at row) now cs"
    and claimant: "claimant \<noteq> Some []"
  shows "\<exists>item. mapClaimableBalance parse row now claimant = Inr item \<and>
    (case ci_claimableNow item of
       Some b \<Rightarrow> (\<forall>guess. (br_status row = ''unclaimed''
         \<and> ledger_allows guess claimant cs (br_created_at row) now) = b)
     | None \<Rightarrow> list_ex (\<lambda>(_, p). unreadable_parts p \<noteq> []) cs)"
proof -
  define live where "live = (br_status row = ''unclaimed'')"
  let ?items = "map (entry_of parse print_time live (br_created_at row) now) cs"
  have items: "traverse (map_claimant parse live (br_created_at row) now) (map (claimant_json print_time) cs) = Inr ?items"
    by (rule map_claimants_json [OF readable])
  show ?thesis
  proof (cases claimant)
    case None
    with any_claimable [OF readable, of live print_time] items show ?thesis
      by (auto simp: mapClaimableBalance_def row(1) simp flip: live_def split: option.splits)
  next
    case (Some c)
    then have c: "c \<noteq> []" using claimant by simp
    show ?thesis
    proof (cases "c \<in> fst ` set cs")
      case True
      then obtain p where p: "(c, p) \<in> set cs" by auto
      have only: "q = p" if "(c, q) \<in> set cs" for q
        by (rule eq_key_imp_eq_value [OF row(2) that p])
      have allows: "ledger_allows guess (Some c) cs (br_created_at row) now = holds guess p (br_created_at row) now"
        for guess
        using p by (auto simp: ledger_allows_def list_ex_iff dest: only)
      obtain item where item: "mapClaimableBalance parse row now claimant = Inr item"
        "ci_claimableNow item = ct_claimableNow (entry_of parse print_time live (br_created_at row) now (c, p))"
        using items find_claimant [OF row(2) p, of parse print_time live "br_created_at row" now] c
        by (simp add: mapClaimableBalance_def row(1) Some Let_def flip: live_def)
      from readable_claimant [OF readable p, of live print_time, folded item(2)] show ?thesis
        using p unfolding live_def
        by (intro exI [of _ item] conjI item(1)) (auto simp: Some allows list_ex_iff split: option.splits)
    next
      case False
      then have "\<not> ledger_allows guess (Some c) cs (br_created_at row) now" for guess
        by (force simp: ledger_allows_def list_ex_iff)
      with False c items find_no_claimant [OF False] show ?thesis
        by (simp add: mapClaimableBalance_def row(1) Some flip: live_def)
    qed
  qed
qed

definition sample_balance :: balance_row where
  "sample_balance =
     \<lparr>br_balance_id = ''B1'', br_asset = ''native'', br_amount = ''10'', br_sponsor = None,
      br_claimants = Some (map (claimant_json (\<lambda>_. []))
        [(''GA'', Negated (Within 60)), (''GB'', Both (Within 60) (Unreadable (JObj [])))]),
      br_status = ''unclaimed'', br_claimed_by = None, br_claimed_at = None, br_claimed_ledger = None,
      br_created_ledger = 7, br_created_at = 1000, br_network = ''public''\<rparr>"

theorem claimable_now_is_the_ledgers_witness:
  "(case mapClaimableBalance (\<lambda>_. None) sample_balance 60999 (Some ''GB'') of
      Inl _ \<Rightarrow> False | Inr item \<Rightarrow> ci_claimableNow item = None) \<and>
   (case mapClaimableBalance (\<lambda>_. None) sample_balance 61000 (Some ''GB'') of
      Inl _ \<Rightarrow> False
    | Inr item \<Rightarrow> ci_claimableNow item = Some False) \<and>
   \<not> ledger_allows (\<lambda>_. True) (Some ''GB'')
       [(''GA'', Negated (Within 60)), (''GB'', Both (Within 60) (Unreadable (JObj [])))] 1000 61000"
proof -
  let ?cs = "[(''GA'', Negated (Within 60)), (''GB'', Both (Within 60) (Unreadable (JObj [])))]"
  have row: "br_claimants sample_balance = Some (map (claimant_json (\<lambda>_. [])) ?cs)" "distinct (map fst ?cs)"
    "br_created_at sample_balance = 1000" "br_status sample_balance = ''unclaimed''"
    by (simp_all add: sample_balance_def)
  have unreadable: "evaluatePredicate (\<lambda>_. None) (JObj []) 1000 t = None" for t
    by (subst evaluatePredicate.simps) (simp add: prop_of_def predicateDeadline_def)
  have readable: "readable_claimants (\<lambda>_. None) 1000 t ?cs" for t
    by (simp add: readable_claimants_def unreadable is_nullish_def MAX_DATE_MS_def)
  have eval: "(case mapClaimableBalance (\<lambda>_. None) sample_balance 60999 (Some ''GB'') of
      Inl _ \<Rightarrow> False | Inr item \<Rightarrow> ci_claimableNow item = None)"
    "(case mapClaimableBalance (\<lambda>_. None) sample_balance 61000 (Some ''GB'') of
      Inl _ \<Rightarrow> False | Inr item \<Rightarrow> ci_claimableNow item = Some False)"
    unfolding mapClaimableBalance_def row(1,3,4)
    by (simp_all add: map_claimant_json is_nullish_def entry_of_def evaluate_forms evaluate_deadlines
        deadline_within MAX_DATE_MS_def before_date_def and_results_def unreadable Let_def)
  obtain item where item: "mapClaimableBalance (\<lambda>_. None) sample_balance 61000 (Some ''GB'') = Inr item"
    "case ci_claimableNow item of
       Some b \<Rightarrow> (\<forall>guess. (br_status sample_balance = ''unclaimed''
         \<and> ledger_allows guess (Some ''GB'') ?cs (br_created_at sample_balance) 61000) = b)
     | None \<Rightarrow> list_ex (\<lambda>(_, p). unreadable_parts p \<noteq> []) ?cs"
    using claimable_now_is_the_ledgers [OF row(1,2) readable [folded row(3)], of "Some ''GB''"] by auto
  then have "\<not> ledger_allows (\<lambda>_. True) (Some ''GB'') ?cs 1000 61000"
    using eval(2) row(3,4) by auto
  with eval show ?thesis by blast
qed

end
