(* ===== verification/Server_Lists.thy ===== *)
theory Server_Lists
  imports Pagination Claim_Predicates
begin

text \<open>
  The listings of the server that keyset on a ledger and a text key: effects (\<open>effects.ts\<close>), account
  life cycles and contract events (\<open>db.ts\<close>), operations of an asset (\<open>search.ts\<close>), claimable balances
  (\<open>claimableBalances.ts\<close>), and contract storage entries, whose cursor is a row's key (\<open>db.ts\<close>). All
  walk their rows completely, by one proof over the shared shape; the storage listing does so only
  while no entry changes.
\<close>

section \<open>The shared shape\<close>

text \<open>
  \<open>cursorCondition\<close> on a keyset \<open>(bigint, text)\<close>, \<open>ORDER BY\<close> the same columns, \<open>LIMIT\<close>, and the
  reversal of a backward page, over the rows that satisfy the other conditions.
\<close>

definition ledger_page ::
  "('a \<Rightarrow> int \<times> string) \<Rightarrow> string \<Rightarrow> sort_order \<Rightarrow> direction \<Rightarrow> nat \<Rightarrow> json option option \<Rightarrow> 'a list
     \<Rightarrow> page_error + 'a list" where
  "ledger_page key query baseOrder direction limit cursor rows =
     map_sum id (\<lambda>k. keyset_page key baseOrder direction limit k rows) (resume_key query cursor)"

definition key_values :: "('a \<Rightarrow> int \<times> string) \<Rightarrow> 'a \<Rightarrow> cursor_value list" where
  "key_values key r = [CNum (fst (key r)), CStr (snd (key r))]"

definition ledger_cursor :: "('a \<Rightarrow> int \<times> string) \<Rightarrow> string \<Rightarrow> 'a \<Rightarrow> json option" where
  "ledger_cursor key query r = Some (encodeCursor query (key_values key r))"

lemma resume_ledger_cursor: "resume_key query (Some (ledger_cursor key query r)) = Inr (Some (key r))"
  using decode_encode [of query "key_values key r"]
  by (simp add: resume_key_def ledger_cursor_def key_values_def cast_bigint_def cast_text_def numeral_2_eq_2)

lemma resume_nothing: "resume_key query None = Inr None"
  by (simp add: resume_key_def)

lemma ledger_page_first:
  "ledger_page key query base FORWARD limit None rows = Inr (take limit (listing key base rows))"
  by (simp add: ledger_page_def resume_nothing page_first)

lemma ledger_page_after:
  assumes "distinct (map key rows)" "listing key base rows = xs @ r # ys"
  shows "ledger_page key query base FORWARD limit (Some (ledger_cursor key query r)) rows = Inr (take limit ys)"
  by (simp add: ledger_page_def resume_ledger_cursor page_after [OF assms])

lemma ledger_walk:
  assumes "distinct (map key rows)" "0 < limit" "length rows < fuel * limit"
    and "ks_query ks = query" "length (ks_columns ks) = 2"
  shows "walk (\<lambda>c. ledger_page key query base FORWARD limit c rows)
      (\<lambda>items prior. pageInfo ks items limit (key_values key) FORWARD prior None) fuel None =
    Inr (listing key base rows)"
proof -
  have "keyset_listing (\<lambda>c. ledger_page key query base FORWARD limit c rows)
      (\<lambda>items prior. pageInfo ks items limit (key_values key) FORWARD prior None)
      (ledger_cursor key query) (listing key base rows) limit"
    using assms(2,4,5)
    by unfold_locales
      (auto simp: ledger_page_first ledger_page_after [OF assms(1), unfolded ledger_cursor_def key_values_def]
        pageInfo_def Let_def key_values_def ledger_cursor_def)
  moreover have "length (listing key base rows) = length rows" by (simp add: listing_def)
  ultimately show ?thesis using assms(3) keyset_listing.walk_whole by fastforce
qed

lemma filter_keys_distinct:
  assumes "distinct (map k rows)" and "\<And>r s. P r \<Longrightarrow> P s \<Longrightarrow> key r = key s \<Longrightarrow> k r = k s"
  shows "distinct (map key (filter P rows))"
proof -
  have k: "distinct rows" "inj_on k (set rows)" using assms(1) by (simp_all add: distinct_map)
  have "inj_on key (set (filter P rows))"
  proof (rule inj_onI)
    fix r s assume "r \<in> set (filter P rows)" "s \<in> set (filter P rows)" "key r = key s"
    then show "r = s" using assms(2) [of r s] inj_onD [OF k(2), of r s] by simp
  qed
  with k(1) show ?thesis by (simp add: distinct_map)
qed

text \<open>The keyset of a query by its name in \<open>KEYSETS\<close>.\<close>

definition declared_keyset :: "string \<Rightarrow> keyset option" where
  "declared_keyset name = map_of KEYSETS name"

text \<open>The value of a \<open>numeric\<close>.\<close>

definition numeric_value :: "numeric \<Rightarrow> rat" where
  "numeric_value x = of_int (fst x) / 10 ^ snd x"

section \<open>Effects\<close>

record effect_item =
  ef_network :: string
  ef_account :: string
  ef_type :: string
  ef_ledger :: int
  ef_id :: string

definition ef_key :: "effect_item \<Rightarrow> int \<times> string" where
  "ef_key r = (ef_ledger r, ef_id r)"

definition effect_matches :: "string \<Rightarrow> string \<Rightarrow> string option \<Rightarrow> effect_item \<Rightarrow> bool" where
  "effect_matches network account type r =
     (ef_network r = network \<and> ef_account r = account
      \<and> (case type of None \<Rightarrow> True | Some t \<Rightarrow> t = [] \<or> ef_type r = t))"

definition getEffects ::
  "effect_item list \<Rightarrow> string \<Rightarrow> string \<Rightarrow> string option \<Rightarrow> nat \<Rightarrow> json option option
     \<Rightarrow> page_error + effect_item list" where
  "getEffects rows network account type limit cursor =
     (if trim account = [] then Inl BadInput
      else ledger_page ef_key ''effects'' DESC FORWARD limit cursor
             (filter (effect_matches network account type) rows))"

section \<open>Account life cycles\<close>

text \<open>An operation with its details as the JSON column holds them.\<close>

record op_item = op_row +
  oi_details :: "(string \<times> jsval) list"

text \<open>\<open>details->>name\<close>: the text of a property, \<open>NULL\<close> when it is missing or null.\<close>

definition detail_text :: "'z op_item_scheme \<Rightarrow> string \<Rightarrow> string option" where
  "detail_text r name =
     (case map_of (oi_details r) name of
        None \<Rightarrow> None
      | Some v \<Rightarrow> (case v of JNull \<Rightarrow> None | JStr s \<Rightarrow> Some s | _ \<Rightarrow> Some (json_text v)))"

text \<open>\<open>type IN (...) AND details @> {"account": address}\<close>.\<close>

definition lifecycle_matches :: "string \<Rightarrow> string \<Rightarrow> op_item \<Rightarrow> bool" where
  "lifecycle_matches network address r =
     (opr_network r = network \<and> opr_type r \<in> {''create_account'', ''account_merge''}
      \<and> map_of (oi_details r) ''account'' = Some (JStr address))"

definition getAccountLifecycle ::
  "op_item list \<Rightarrow> string \<Rightarrow> string \<Rightarrow> nat \<Rightarrow> json option option \<Rightarrow> page_error + op_item list" where
  "getAccountLifecycle rows network address limit cursor =
     ledger_page op_key ''accountLifecycle'' DESC FORWARD limit cursor
       (filter (lifecycle_matches network address) rows)"

section \<open>Contract events\<close>

record event_item =
  ev_network :: string
  ev_contract_id :: string
  ev_ledger :: int
  ev_id :: string
  ev_topics :: "string list"

definition ev_key :: "event_item \<Rightarrow> int \<times> string" where
  "ev_key r = (ev_ledger r, ev_id r)"

definition event_matches :: "string \<Rightarrow> string \<Rightarrow> string option \<Rightarrow> event_item \<Rightarrow> bool" where
  "event_matches network contractId topic r =
     (ev_contract_id r = contractId \<and> ev_network r = network
      \<and> (case topic of None \<Rightarrow> True | Some t \<Rightarrow> t = [] \<or> t \<in> set (ev_topics r)))"

definition getEventsByContract ::
  "event_item list \<Rightarrow> string \<Rightarrow> string \<Rightarrow> string option \<Rightarrow> nat \<Rightarrow> json option option
     \<Rightarrow> direction option \<Rightarrow> sort_order option \<Rightarrow> page_error + event_item list" where
  "getEventsByContract rows network contractId topic limit cursor dir ord =
     ledger_page ev_key ''events'' (case ord of Some x \<Rightarrow> x | None \<Rightarrow> DESC)
       (case dir of Some d \<Rightarrow> d | None \<Rightarrow> FORWARD) limit cursor
       (filter (event_matches network contractId topic) rows)"

section \<open>Operations of an asset\<close>

record parsed_asset =
  pa_code :: "string option"
  pa_issuer :: "string option"
  pa_native :: bool

text \<open>\<open>parseAsset\<close>: \<open>XLM\<close> and \<open>native\<close> in any case, or exactly two parts that are not empty.\<close>

definition parseAsset_search :: "string \<Rightarrow> page_error + parsed_asset" where
  "parseAsset_search asset =
     (let trimmed = trim asset in
      if trimmed = [] then Inl BadInput
      else if upper_case trimmed = ''XLM'' \<or> lower_case trimmed = ''native''
      then Inr \<lparr>pa_code = None, pa_issuer = None, pa_native = True\<rparr>
      else (case split_on (CHR '':'') trimmed of
              [code, issuer] \<Rightarrow>
                if code = [] \<or> issuer = [] then Inl BadInput
                else Inr \<lparr>pa_code = Some code, pa_issuer = Some issuer, pa_native = False\<rparr>
            | _ \<Rightarrow> Inl BadInput))"

text \<open>\<open>assetConditions\<close>; a comparison with \<open>NULL\<close> selects nothing.\<close>

definition detail_is :: "'z op_item_scheme \<Rightarrow> string \<Rightarrow> string option \<Rightarrow> bool" where
  "detail_is r name value = (case (detail_text r name, value) of (Some s, Some v) \<Rightarrow> s = v | _ \<Rightarrow> False)"

definition asset_roles :: "string list" where
  "asset_roles = [[], ''selling_'', ''buying_'']"

definition assetConditions :: "parsed_asset \<Rightarrow> 'z op_item_scheme \<Rightarrow> bool" where
  "assetConditions asset r =
     (if pa_native asset
      then list_ex (\<lambda>role. detail_is r (role @ ''asset_type'') (Some ''native'')) asset_roles
      else list_ex (\<lambda>role. detail_is r (role @ ''asset_code'') (pa_code asset)
             \<and> detail_is r (role @ ''asset_issuer'') (pa_issuer asset)) asset_roles)"

definition asset_op_matches :: "string \<Rightarrow> parsed_asset \<Rightarrow> string option \<Rightarrow> string option \<Rightarrow> op_item \<Rightarrow> bool" where
  "asset_op_matches network asset account type r =
     (opr_network r = network \<and> assetConditions asset r
      \<and> (case account of None \<Rightarrow> True | Some a \<Rightarrow> a = [] \<or> opr_source_account r = a)
      \<and> (case type of None \<Rightarrow> True | Some t \<Rightarrow> t = [] \<or> opr_type r = lower_case t))"

definition getOperationsByAsset ::
  "op_item list \<Rightarrow> string \<Rightarrow> string \<Rightarrow> string option \<Rightarrow> string option \<Rightarrow> nat \<Rightarrow> json option option
     \<Rightarrow> direction option \<Rightarrow> sort_order option \<Rightarrow> page_error + op_item list" where
  "getOperationsByAsset rows network asset account type limit cursor dir ord =
     and_then (parseAsset_search asset) (\<lambda>parsed.
       ledger_page op_key ''operations'' (case ord of Some x \<Rightarrow> x | None \<Rightarrow> DESC)
         (case dir of Some d \<Rightarrow> d | None \<Rightarrow> FORWARD) limit cursor
         (filter (asset_op_matches network parsed account type) rows))"

section \<open>Claimable balances\<close>

text \<open>
  \<open>KEYSETS.claimableBalances\<close> is not declared, so a cursor ends in a property read on \<open>undefined\<close>.
  \<open>claimants\<close> is the table \<open>claimable_balance_claimants\<close>: destination, network and balance.
\<close>

definition present :: "string option \<Rightarrow> string option" where
  "present v = (case v of None \<Rightarrow> None | Some s \<Rightarrow> if trim s = [] then None else Some (trim s))"

definition balance_matches ::
  "(string \<times> string \<times> string) list \<Rightarrow> string \<Rightarrow> string option \<Rightarrow> string option \<Rightarrow> string option \<Rightarrow> bool
     \<Rightarrow> balance_row \<Rightarrow> bool" where
  "balance_matches claimants network claimant sponsor asset includeClaimed r =
     (br_network r = network
      \<and> (case claimant of None \<Rightarrow> True | Some c \<Rightarrow> (c, br_network r, br_balance_id r) \<in> set claimants)
      \<and> (case sponsor of None \<Rightarrow> True | Some s \<Rightarrow> br_sponsor r = Some s)
      \<and> (case asset of None \<Rightarrow> True | Some a \<Rightarrow> br_asset r = storedAsset a)
      \<and> (includeClaimed \<or> br_status r = ''unclaimed''))"

definition br_key :: "balance_row \<Rightarrow> int \<times> string" where
  "br_key r = (br_created_ledger r, br_balance_id r)"

definition getClaimableBalances ::
  "(string \<Rightarrow> int option) \<Rightarrow> balance_row list \<Rightarrow> (string \<times> string \<times> string) list \<Rightarrow> int \<Rightarrow> string
     \<Rightarrow> string option \<Rightarrow> string option \<Rightarrow> string option \<Rightarrow> bool \<Rightarrow> nat \<Rightarrow> json option option
     \<Rightarrow> page_error + claimable_item list" where
  "getClaimableBalances parse rows claimants now network claimant_arg sponsor_arg asset_arg includeClaimed limit cursor =
     (let claimant = present claimant_arg; sponsor = present sponsor_arg; asset = present asset_arg in
      if claimant = None \<and> sponsor = None \<and> asset = None then Inl BadInput
      else if cursor \<noteq> None then Inl Internal
      else map_sum (\<lambda>_. Internal) id
        (traverse (\<lambda>r. mapClaimableBalance parse r now claimant)
          (keyset_page br_key DESC FORWARD limit None
            (filter (balance_matches claimants network claimant sponsor asset includeClaimed) rows))))"

section \<open>Contract storage entries\<close>

record storage_item =
  si_network :: string
  si_contract_id :: string
  si_key :: string
  si_durability :: string
  si_state :: string
  si_last_modified_ledger :: int

definition si_sort_key :: "storage_item \<Rightarrow> int \<times> string" where
  "si_sort_key r = (si_last_modified_ledger r, si_key r)"

text \<open>
  \<open>key LIKE prefix% ESCAPE '\'\<close> after escaping: the pattern language with its escape character, so
  that the filter can be compared with the prefix test it stands for.
\<close>

definition escape_like :: "string \<Rightarrow> string" where
  "escape_like s = concat (map (\<lambda>c. if c \<in> {CHR 0x5C, CHR ''%'', CHR ''_''} then [CHR 0x5C, c] else [c]) s)"

fun like :: "string \<Rightarrow> string \<Rightarrow> bool" where
  "like [] s = (s = [])"
| "like (p # ps) s =
     (if p = CHR 0x5C then
        (case ps of [] \<Rightarrow> False
         | q # qs \<Rightarrow> (case s of [] \<Rightarrow> False | c # cs \<Rightarrow> q = c \<and> like qs cs))
      else if p = CHR ''%'' then list_ex (\<lambda>n. like ps (drop n s)) [0..<Suc (length s)]
      else (case s of [] \<Rightarrow> False | c # cs \<Rightarrow> (p = CHR ''_'' \<or> p = c) \<and> like ps cs))"

definition storage_matches :: "string \<Rightarrow> string \<Rightarrow> string option \<Rightarrow> string option \<Rightarrow> storage_item \<Rightarrow> bool" where
  "storage_matches network contractId durability keyPrefix r =
     (si_contract_id r = contractId \<and> si_network r = network
      \<and> (case durability of None \<Rightarrow> True | Some d \<Rightarrow> d = [] \<or> si_durability r = lower_case d)
      \<and> (case keyPrefix of None \<Rightarrow> True | Some p \<Rightarrow> p = [] \<or> like (escape_like p @ ''%'') (si_key r)))"

text \<open>
  The cursor is the key of a row; its position is looked up when the next page is read, and a key that
  is gone compares as \<open>NULL\<close>.
\<close>

definition getContractStorageEntries_page ::
  "storage_item list \<Rightarrow> string \<Rightarrow> string \<Rightarrow> string option \<Rightarrow> string option \<Rightarrow> nat \<Rightarrow> string option
     \<Rightarrow> direction \<Rightarrow> storage_item list" where
  "getContractStorageEntries_page rows network contractId durability keyPrefix limit cursor direction =
     (let matching = filter (storage_matches network contractId durability keyPrefix) rows in
      case (case cursor of Some c \<Rightarrow> if c = [] then None else Some c | None \<Rightarrow> None) of
        None \<Rightarrow> keyset_page si_sort_key DESC direction limit None matching
      | Some c \<Rightarrow>
          (case find (\<lambda>r. si_key r = c \<and> si_contract_id r = contractId \<and> si_network r = network) rows of
             None \<Rightarrow> []
           | Some r \<Rightarrow> keyset_page si_sort_key DESC direction limit (Some (si_sort_key r)) matching))"

lemma like_escaped: "like (escape_like p @ ''%'') s = (take (length p) s = p)"
proof (induction p arbitrary: s)
  case Nil
  have "list_ex (\<lambda>n. like [] (drop n s)) [0..<Suc (length s)]"
    unfolding list_ex_iff by (rule bexI [of _ "length s"]) simp_all
  then show ?case by (simp add: escape_like_def)
next
  case (Cons c p)
  then show ?case by (cases s) (auto simp: escape_like_def)
qed

lemma storage_prefix:
  "storage_matches network contractId durability (Some p) r \<Longrightarrow> take (length p) (si_key r) = p"
  by (auto simp: storage_matches_def like_escaped)

lemma storage_page_after:
  assumes keys: "distinct (map (\<lambda>r. (si_contract_id r, si_key r, si_network r)) rows)"
    and l: "listing si_sort_key DESC (filter (storage_matches network contractId d p) rows) = xs @ r # ys"
    and key: "si_key r \<noteq> []"
  shows "getContractStorageEntries_page rows network contractId d p limit (Some (si_key r)) FORWARD = take limit ys"
proof -
  have "r \<in> set (listing si_sort_key DESC (filter (storage_matches network contractId d p) rows))"
    unfolding l by simp
  then have r: "r \<in> set rows" "si_contract_id r = contractId" "si_network r = network"
    by (simp_all add: storage_matches_def)
  have "find (\<lambda>q. si_key q = si_key r \<and> si_contract_id q = contractId \<and> si_network q = network) rows = Some r"
    using keys r
  proof (induction rows)
    case (Cons q rows)
    then show ?case by (cases "q = r") force+
  qed simp
  moreover have "distinct (map si_sort_key (filter (storage_matches network contractId d p) rows))"
    by (rule filter_keys_distinct [OF keys]) (auto simp: si_sort_key_def storage_matches_def)
  ultimately show ?thesis
    using key by (simp add: getContractStorageEntries_page_def Let_def page_after [OF _ l])
qed

text \<open>
  An entry that is written again while a client holds its key as the cursor moves to the front of the
  listing, and the next page is the first page of all the other entries.
\<close>

lemma changed_cursor_entry_restarts:
  assumes "distinct (map (\<lambda>r. (si_contract_id r, si_key r, si_network r)) rows)"
    and "listing si_sort_key DESC (filter (storage_matches network contractId d p) rows) = r # ys" "si_key r \<noteq> []"
  shows "getContractStorageEntries_page rows network contractId d p limit (Some (si_key r)) FORWARD = take limit ys"
  using storage_page_after [of rows network contractId d p "[]" r ys limit] assms by simp

section \<open>Walks\<close>

text \<open>
  C15: following \<open>pageInfo.cursor\<close> through the listings of an account's effects, its life cycle, a
  contract's events and an asset's operations reads every matching row exactly once, newest first, for
  every page size and filter, and ends.
\<close>

theorem listings_walk_completely:
  assumes effects: "distinct (map (\<lambda>r. (ef_id r, ef_network r)) efs)"
    and opsK: "distinct (map (\<lambda>r. (opr_id r, opr_network r)) oprs)"
    and eventsK: "distinct (map (\<lambda>r. (ev_id r, ev_network r)) evs)"
    and limit: "0 < limit" "length efs < fuel * limit" "length oprs < fuel * limit" "length evs < fuel * limit"
    and args: "trim account \<noteq> []" "parseAsset_search asset = Inr parsed"
    and keysets: "declared_keyset ''effects'' = Some k1" "declared_keyset ''accountLifecycle'' = Some k2"
      "declared_keyset ''events'' = Some k3" "declared_keyset ''assetOperations'' = Some k4"
  shows "walk (getEffects efs n account type limit)
        (\<lambda>items prior. pageInfo k1 items limit (key_values ef_key) FORWARD prior None) fuel None
      = Inr (listing ef_key DESC (filter (effect_matches n account type) efs))
    \<and> walk (getAccountLifecycle oprs n account limit)
        (\<lambda>items prior. pageInfo k2 items limit (key_values op_key) FORWARD prior None) fuel None
      = Inr (listing op_key DESC (filter (lifecycle_matches n account) oprs))
    \<and> walk (\<lambda>c. getEventsByContract evs n contractId topic limit c None None)
        (\<lambda>items prior. pageInfo k3 items limit (key_values ev_key) FORWARD prior None) fuel None
      = Inr (listing ev_key DESC (filter (event_matches n contractId topic) evs))
    \<and> walk (\<lambda>c. getOperationsByAsset oprs n asset src optype limit c None None)
        (\<lambda>items prior. pageInfo k4 items limit (key_values op_key) FORWARD prior None) fuel None
      = Inr (listing op_key DESC (filter (asset_op_matches n parsed src optype) oprs))"
proof (intro conjI)
  note keyset_simps = declared_keyset_def KEYSETS_def
  have shorter: "length (filter P xs) < m" if "length xs < m" for P and xs :: "'x list" and m
    using that length_filter_le [of P xs] by linarith
  have k1: "ks_query k1 = ''effects''" "length (ks_columns k1) = 2"
    and k2: "ks_query k2 = ''accountLifecycle''" "length (ks_columns k2) = 2"
    and k3: "ks_query k3 = ''events''" "length (ks_columns k3) = 2"
    and k4: "ks_query k4 = ''operations''" "length (ks_columns k4) = 2"
    using keysets by (auto simp: keyset_simps)
  have getEffects_eq: "getEffects efs n account type limit =
      (\<lambda>c. ledger_page ef_key ''effects'' DESC FORWARD limit c (filter (effect_matches n account type) efs))"
    by (rule ext) (simp add: getEffects_def args(1))
  have getAccountLifecycle_eq: "getAccountLifecycle oprs n account limit =
      (\<lambda>c. ledger_page op_key ''accountLifecycle'' DESC FORWARD limit c (filter (lifecycle_matches n account) oprs))"
    by (rule ext) (simp add: getAccountLifecycle_def)
  show "walk (getEffects efs n account type limit)
        (\<lambda>items prior. pageInfo k1 items limit (key_values ef_key) FORWARD prior None) fuel None
      = Inr (listing ef_key DESC (filter (effect_matches n account type) efs))"
    using ledger_walk [OF filter_keys_distinct [OF effects] limit(1) shorter [OF limit(2)] k1, of "effect_matches n account type" ef_key DESC]
    unfolding getEffects_eq by (simp add: ef_key_def effect_matches_def)
  show "walk (getAccountLifecycle oprs n account limit)
        (\<lambda>items prior. pageInfo k2 items limit (key_values op_key) FORWARD prior None) fuel None
      = Inr (listing op_key DESC (filter (lifecycle_matches n account) oprs))"
    using ledger_walk [OF filter_keys_distinct [OF opsK] limit(1) shorter [OF limit(3)] k2, of "lifecycle_matches n account" op_key DESC]
    unfolding getAccountLifecycle_eq by (simp add: op_key_def lifecycle_matches_def)
  show "walk (\<lambda>c. getEventsByContract evs n contractId topic limit c None None)
        (\<lambda>items prior. pageInfo k3 items limit (key_values ev_key) FORWARD prior None) fuel None
      = Inr (listing ev_key DESC (filter (event_matches n contractId topic) evs))"
    using ledger_walk [OF filter_keys_distinct [OF eventsK] limit(1) shorter [OF limit(4)] k3, of "event_matches n contractId topic" ev_key DESC]
    by (simp add: getEventsByContract_def ev_key_def event_matches_def)
  show "walk (\<lambda>c. getOperationsByAsset oprs n asset src optype limit c None None)
        (\<lambda>items prior. pageInfo k4 items limit (key_values op_key) FORWARD prior None) fuel None
      = Inr (listing op_key DESC (filter (asset_op_matches n parsed src optype) oprs))"
    using ledger_walk [OF filter_keys_distinct [OF opsK] limit(1) shorter [OF limit(3)] k4, of "asset_op_matches n parsed src optype" op_key DESC]
    by (simp add: getOperationsByAsset_def args(2) op_key_def asset_op_matches_def)
qed

definition sample_effect :: "int \<Rightarrow> string \<Rightarrow> effect_item" where
  "sample_effect l i = \<lparr>ef_network = ''public'', ef_account = ''GA'', ef_type = ''trade'', ef_ledger = l, ef_id = i\<rparr>"

definition sample_op :: "int \<Rightarrow> string \<Rightarrow> (string \<times> jsval) list \<Rightarrow> op_item" where
  "sample_op l i d = \<lparr>opr_network = ''public'', opr_ledger = l, opr_id = i, opr_type = ''create_account'',
     opr_source_account = ''GF'', oi_details = d\<rparr>"

definition sample_event :: "int \<Rightarrow> string \<Rightarrow> event_item" where
  "sample_event l i = \<lparr>ev_network = ''public'', ev_contract_id = ''C'', ev_ledger = l, ev_id = i, ev_topics = [''t'']\<rparr>"

theorem listings_walk_completely_witness:
  fixes efs oprs evs k1 k4
  defines "efs \<equiv> [sample_effect 5 ''a'', sample_effect 7 ''b'', sample_effect 5 ''c'']"
    and "oprs \<equiv> [sample_op 4 ''a'' [(''account'', JStr ''GA'')], sample_op 6 ''b'' [(''asset_type'', JStr ''native'')]]"
    and "evs \<equiv> [sample_event 3 ''a'', sample_event 4 ''b'']"
    and "k1 \<equiv> the (declared_keyset ''effects'')" and "k4 \<equiv> the (declared_keyset ''assetOperations'')"
  shows "walk (getEffects efs ''public'' ''GA'' None 2)
        (\<lambda>items prior. pageInfo k1 items 2 (key_values ef_key) FORWARD prior None) 2 None
      = Inr [sample_effect 7 ''b'', sample_effect 5 ''c'', sample_effect 5 ''a'']
    \<and> walk (\<lambda>c. getOperationsByAsset oprs ''public'' ''xlm'' None None 2 c None None)
        (\<lambda>items prior. pageInfo k4 items 2 (key_values op_key) FORWARD prior None) 2 None
      = Inr [sample_op 6 ''b'' [(''asset_type'', JStr ''native'')]]"
proof -
  have keysets: "declared_keyset ''effects'' = Some k1" "declared_keyset ''assetOperations'' = Some k4"
    by (simp_all add: k1_def k4_def declared_keyset_def KEYSETS_def)
  have distinct: "distinct (map (\<lambda>r. (ef_id r, ef_network r)) efs)" "distinct (map (\<lambda>r. (opr_id r, opr_network r)) oprs)"
    "distinct (map (\<lambda>r. (ev_id r, ev_network r)) evs)"
    by (simp_all add: efs_def oprs_def evs_def sample_effect_def sample_op_def sample_event_def)
  have xlm: "parseAsset_search ''xlm'' = Inr \<lparr>pa_code = None, pa_issuer = None, pa_native = True\<rparr>" by code_simp
  have lists: "listing ef_key DESC (filter (effect_matches ''public'' ''GA'' None) efs)
      = [sample_effect 7 ''b'', sample_effect 5 ''c'', sample_effect 5 ''a'']"
    "listing op_key DESC (filter (asset_op_matches ''public'' \<lparr>pa_code = None, pa_issuer = None, pa_native = True\<rparr> None None) oprs)
      = [sample_op 6 ''b'' [(''asset_type'', JStr ''native'')]]"
    unfolding efs_def oprs_def by code_simp+
  have "trim ''GA'' \<noteq> []" by code_simp
  moreover have "declared_keyset ''accountLifecycle'' = Some (the (declared_keyset ''accountLifecycle''))"
    "declared_keyset ''events'' = Some (the (declared_keyset ''events''))"
    by (simp_all add: declared_keyset_def KEYSETS_def)
  ultimately show ?thesis
    using listings_walk_completely [OF distinct, of 2 2 "''GA''" "''xlm''" _ k1 _ _ k4 "''public''" None "''C''" None None None]
      keysets xlm lists by (simp add: efs_def oprs_def evs_def)
qed

end
