(* ===== verification/Ledger_Coverage.thy ===== *)
theory Ledger_Coverage
  imports Main
begin

text \<open>
  \<open>getLedgerCoverage\<close> of \<open>graphql-server/src/db.ts\<close>: which ledgers of an inclusive range are indexed,
  as one query that finds the runs of consecutive sequences by the difference between a sequence and
  its row number, and the gaps before, between and after them. The property is that the answer is
  exact: its ranges are the maximal indexed runs, its gaps the maximal missing ones.
\<close>

section \<open>The query\<close>

text \<open>\<open>numbered\<close>: each sequence in the range with \<open>sequence - ROW_NUMBER() OVER (ORDER BY sequence)\<close>.\<close>

definition numbered :: "int list \<Rightarrow> int \<Rightarrow> int \<Rightarrow> (int \<times> int) list" where
  "numbered sequences a b =
     map (\<lambda>(i, s). (s, s - (int i + 1))) (enumerate 0 (sort (filter (\<lambda>s. a \<le> s \<and> s \<le> b) sequences)))"

text \<open>\<open>coverage\<close>: \<open>GROUP BY island\<close> with \<open>MIN\<close>, \<open>MAX\<close> and \<open>COUNT\<close>.\<close>

record covered =
  range_start :: int
  range_end :: int
  indexed_count :: int

definition coverage :: "(int \<times> int) list \<Rightarrow> covered list" where
  "coverage ns =
     map (\<lambda>island. let ss = map fst (filter (\<lambda>(_, i). i = island) ns)
            in \<lparr>range_start = Min (set ss), range_end = Max (set ss), indexed_count = int (length ss)\<rparr>)
       (remdups (map snd ns))"

text \<open>\<open>ordered_coverage\<close>: each row with the end of the row before it in the order of \<open>range_start\<close>.\<close>

definition ordered_coverage :: "covered list \<Rightarrow> (covered \<times> int option) list" where
  "ordered_coverage cs =
     (let ordered = sort_key range_start cs in zip ordered (None # map (\<lambda>c. Some (range_end c)) ordered))"

record segment =
  is_indexed :: bool
  seg_start :: int
  seg_end :: int
  seg_count :: int

definition gap :: "int \<Rightarrow> int \<Rightarrow> segment" where
  "gap a b = \<lparr>is_indexed = False, seg_start = a, seg_end = b, seg_count = 0\<rparr>"

definition indexed_segment :: "covered \<Rightarrow> segment" where
  "indexed_segment c = \<lparr>is_indexed = True, seg_start = range_start c, seg_end = range_end c, seg_count = indexed_count c\<rparr>"

text \<open>The five branches of the union; an aggregate over no rows is \<open>NULL\<close> and fails its \<open>HAVING\<close>.\<close>

definition segments :: "covered list \<Rightarrow> int \<Rightarrow> int \<Rightarrow> segment list" where
  "segments cs a b =
     map indexed_segment cs
     @ (if cs \<noteq> [] \<and> a < Min (range_start ` set cs) then [gap a (Min (range_start ` set cs) - 1)] else [])
     @ concat (map (\<lambda>(c, prev). case prev of
          Some e \<Rightarrow> if e + 1 < range_start c then [gap (e + 1) (range_start c - 1)] else [] | None \<Rightarrow> [])
         (ordered_coverage cs))
     @ (if cs \<noteq> [] \<and> Max (range_end ` set cs) < b then [gap (Max (range_end ` set cs) + 1) b] else [])
     @ (if cs = [] then [gap a b] else [])"

text \<open>\<open>ORDER BY range_start, is_indexed DESC\<close>.\<close>

definition ordered_segments :: "segment list \<Rightarrow> segment list" where
  "ordered_segments ss = sort_key seg_start (sort_key (\<lambda>s. \<not> is_indexed s) ss)"

section \<open>The answer\<close>

record ledger_coverage =
  lc_network :: string
  lc_startLedger :: int
  lc_endLedger :: int
  lc_complete :: bool
  lc_indexedLedgerCount :: int
  lc_indexedRanges :: "(int \<times> int) list"
  lc_gaps :: "(int \<times> int) list"

text \<open>The table as sequences with their networks.\<close>

definition getLedgerCoverage :: "(int \<times> string) list \<Rightarrow> string \<Rightarrow> int \<Rightarrow> int \<Rightarrow> ledger_coverage" where
  "getLedgerCoverage table network startLedger endLedger =
     (let sequences = map fst (filter (\<lambda>(_, n). n = network) table);
          rows = ordered_segments (segments (coverage (numbered sequences startLedger endLedger)) startLedger endLedger);
          range = (\<lambda>s. (seg_start s, seg_end s));
          gaps = map range (filter (\<lambda>s. \<not> is_indexed s) rows)
      in \<lparr>lc_network = network, lc_startLedger = startLedger, lc_endLedger = endLedger,
          lc_complete = (gaps = []),
          lc_indexedLedgerCount = sum_list (map seg_count (filter is_indexed rows)),
          lc_indexedRanges = map range (filter is_indexed rows), lc_gaps = gaps\<rparr>)"

section \<open>Islands are runs\<close>

text \<open>A maximal interval within \<open>[a, b]\<close> on which \<open>P\<close> holds.\<close>

definition maximal_run :: "(int \<Rightarrow> bool) \<Rightarrow> int \<Rightarrow> int \<Rightarrow> int \<Rightarrow> int \<Rightarrow> bool" where
  "maximal_run P a b x y \<longleftrightarrow> a \<le> x \<and> x \<le> y \<and> y \<le> b \<and> (\<forall>s \<in> {x..y}. P s)
     \<and> (x = a \<or> \<not> P (x - 1)) \<and> (y = b \<or> \<not> P (y + 1))"

definition rank :: "int set \<Rightarrow> int \<Rightarrow> nat" where
  "rank S s = card {x \<in> S. x \<le> s}"

lemma card_upto_nth:
  assumes "sorted xs" "distinct xs" "i < length xs"
  shows "rank (set xs) (xs ! i) = i + 1"
proof -
  have "{x \<in> set xs. x \<le> xs ! i} = set (take (i + 1) xs)"
  proof
    show "{x \<in> set xs. x \<le> xs ! i} \<subseteq> set (take (i + 1) xs)"
    proof
      fix x assume "x \<in> {x \<in> set xs. x \<le> xs ! i}"
      then obtain j where j: "j < length xs" "xs ! j = x" "x \<le> xs ! i" by (auto simp: in_set_conv_nth)
      have "j \<le> i"
      proof (rule ccontr)
        assume "\<not> j \<le> i"
        then have "xs ! i < xs ! j"
          using assms j(1) by (metis nat_le_linear nth_eq_iff_index_eq order_le_less sorted_nth_mono)
        with j show False by simp
      qed
      with j show "x \<in> set (take (i + 1) xs)" by (auto simp: in_set_conv_nth intro!: exI [of _ j])
    qed
    show "set (take (i + 1) xs) \<subseteq> {x \<in> set xs. x \<le> xs ! i}"
      using assms by (auto simp: in_set_conv_nth dest: in_set_takeD intro!: sorted_nth_mono)
  qed
  then show ?thesis using assms by (simp add: rank_def distinct_card)
qed

lemma set_numbered:
  assumes "distinct sequences" and S: "S = {s \<in> set sequences. a \<le> s \<and> s \<le> b}"
  shows "set (numbered sequences a b) = (\<lambda>s. (s, s - int (rank S s))) ` S"
    and "distinct (map fst (numbered sequences a b))"
proof -
  define xs where "xs = sort (filter (\<lambda>s. a \<le> s \<and> s \<le> b) sequences)"
  have xs: "sorted xs" "distinct xs" "set xs = S" using assms by (auto simp: xs_def)
  have "set (numbered sequences a b) = (\<lambda>i. (xs ! i, xs ! i - (int i + 1))) ` {..<length xs}"
    by (force simp: numbered_def in_set_enumerate_eq simp flip: xs_def)
  also have "\<dots> = (\<lambda>i. (xs ! i, xs ! i - int (rank S (xs ! i)))) ` {..<length xs}"
    using card_upto_nth [OF xs(1,2)] xs(3) by (intro image_cong) auto
  also have "\<dots> = (\<lambda>s. (s, s - int (rank S s))) ` S"
    unfolding xs(3) [symmetric] set_conv_nth by force
  finally show "set (numbered sequences a b) = (\<lambda>s. (s, s - int (rank S s))) ` S" .
  have "map fst (numbered sequences a b) = xs"
    by (simp add: numbered_def case_prod_unfold comp_def map_snd_enumerate [unfolded comp_def] flip: xs_def)
  then show "distinct (map fst (numbered sequences a b))" using xs(2) by simp
qed

lemma same_island:
  assumes "finite S" "s \<in> S" "t \<in> S" "s \<le> t"
  shows "s - int (rank S s) \<le> t - int (rank S t)"
    and "s - int (rank S s) = t - int (rank S t) \<longleftrightarrow> {s..t} \<subseteq> S"
proof -
  have split: "{x \<in> S. x \<le> t} = {x \<in> S. x \<le> s} \<union> (S \<inter> {s<..t})"
    using assms(4) by auto
  have "rank S t = rank S s + card (S \<inter> {s<..t})"
    unfolding rank_def split by (rule card_Un_disjoint) (use assms(1) in auto)
  moreover have "card (S \<inter> {s<..t}) \<le> card {s<..t}" by (rule card_mono) auto
  moreover have "card (S \<inter> {s<..t}) = card {s<..t} \<longleftrightarrow> {s<..t} \<subseteq> S"
    by (metis card_subset_eq finite_greaterThanAtMost_int inf.absorb_iff2 inf_le2)
  moreover have "{s..t} = insert s {s<..t}" using assms(4) by auto
  ultimately show "s - int (rank S s) \<le> t - int (rank S t)"
    "s - int (rank S s) = t - int (rank S t) \<longleftrightarrow> {s..t} \<subseteq> S"
    using assms(2,4) by auto
qed

definition island :: "int set \<Rightarrow> int \<Rightarrow> int set" where
  "island S s = {t \<in> S. t - int (rank S t) = s - int (rank S s)}"

lemma maximal_run_island:
  assumes "finite S" "S \<subseteq> {a..b}" "maximal_run (\<lambda>s. s \<in> S) a b x y" "s \<in> {x..y}"
  shows "island S s = {x..y}"
proof -
  have run: "{x..y} \<subseteq> S" "x - 1 \<notin> S" "y + 1 \<notin> S"
    using assms(2,3) by (auto simp: maximal_run_def)
  have s: "s \<in> S" using run(1) assms(4) by blast
  have "t \<in> {x..y}" if t: "t \<in> S" "t - int (rank S t) = s - int (rank S s)" for t
  proof (cases "t \<le> s")
    case True
    then have "{t..s} \<subseteq> S" using same_island(2) [OF assms(1) t(1) s] t(2) by simp
    moreover have "x - 1 \<in> {t..s}" if "t < x" using that assms(4) by auto
    ultimately have "x \<le> t" using run(2) by fastforce
    with True assms(4) show ?thesis by auto
  next
    case False
    then have "{s..t} \<subseteq> S" using same_island(2) [OF assms(1) s t(1)] t(2) by simp
    moreover have "y + 1 \<in> {s..t}" if "y < t" using that assms(4) by auto
    ultimately have "t \<le> y" using run(3) by fastforce
    with False assms(4) show ?thesis by auto
  qed
  moreover have "t \<in> island S s" if "t \<in> {x..y}" for t
  proof -
    have "{min s t..max s t} \<subseteq> {x..y}" using assms(4) that by auto
    with run(1) have "{min s t..max s t} \<subseteq> S" by blast
    moreover have "t \<in> S" using run(1) that by blast
    ultimately have sub: "t \<in> S" "{min s t..max s t} \<subseteq> S" by auto
    have "t - int (rank S t) = s - int (rank S s)"
    proof (cases "s \<le> t")
      case True
      with sub same_island(2) [OF assms(1) s sub(1)] show ?thesis by simp
    next
      case False
      with sub same_island(2) [OF assms(1) sub(1) s] show ?thesis by simp
    qed
    with sub(1) show ?thesis by (simp add: island_def)
  qed
  ultimately show ?thesis unfolding island_def by blast
qed

lemma island_maximal_run:
  assumes "finite S" "S \<subseteq> {a..b}" "s \<in> S"
  shows "maximal_run (\<lambda>s. s \<in> S) a b (Min (island S s)) (Max (island S s))"
proof -
  define I where "I = island S s"
  have I: "finite I" "s \<in> I" "I \<subseteq> S" using assms by (auto simp: I_def island_def)
  have ends: "Min I \<in> I" "Max I \<in> I" "Min I \<le> s" "s \<le> Max I"
    using I(1,2) Min_in [of I] Max_in [of I] by (blast | simp)+
  have same: "t - int (rank S t) = s - int (rank S s)" if "t \<in> I" for t using that by (simp add: I_def island_def)
  have mem: "t \<in> I" if "t \<in> S" "t - int (rank S t) = s - int (rank S s)" for t using that by (simp add: I_def island_def)
  have inS: "Min I \<in> S" "Max I \<in> S" using ends(1,2) I(3) by blast+
  have le: "Min I \<le> Max I" using ends(3,4) by simp
  have run: "{Min I..Max I} \<subseteq> S"
    using same_island(2) [OF assms(1) inS le] same [OF ends(1)] same [OF ends(2)] by simp
  have "Min I - 1 \<notin> S"
  proof
    assume m: "Min I - 1 \<in> S"
    have "{Min I - 1..Min I} = {Min I - 1, Min I}" by auto
    with m inS(1) have "{Min I - 1..Min I} \<subseteq> S" by simp
    then have "Min I - 1 \<in> I"
      using same_island(2) [OF assms(1) m inS(1)] same [OF ends(1)] by (intro mem m) simp
    with Min_le [OF I(1) this] show False by simp
  qed
  moreover have "Max I + 1 \<notin> S"
  proof
    assume m: "Max I + 1 \<in> S"
    have "{Max I..Max I + 1} = {Max I, Max I + 1}" by auto
    with m inS(2) have "{Max I..Max I + 1} \<subseteq> S" by simp
    then have "Max I + 1 \<in> I"
      using same_island(2) [OF assms(1) inS(2) m] same [OF ends(2)] by (intro mem m) simp
    with Max_ge [OF I(1) this] show False by simp
  qed
  moreover have "a \<le> Min I" "Max I \<le> b" using inS assms(2) by auto
  moreover have "\<forall>s \<in> {Min I..Max I}. s \<in> S" using run by blast
  ultimately show ?thesis using le unfolding maximal_run_def I_def [symmetric] by simp
qed

definition run_row :: "int \<times> int \<Rightarrow> covered" where
  "run_row r = \<lparr>range_start = fst r, range_end = snd r, indexed_count = snd r - fst r + 1\<rparr>"

definition runs :: "int set \<Rightarrow> int \<Rightarrow> int \<Rightarrow> (int \<times> int) set" where
  "runs S a b = {(x, y). maximal_run (\<lambda>s. s \<in> S) a b x y}"

lemma runD:
  assumes "S \<subseteq> {a..b}" "(x, y) \<in> runs S a b"
  shows "{x..y} \<subseteq> S" "x \<le> y" "x - 1 \<notin> S" "y + 1 \<notin> S" "x \<in> S" "y \<in> S" "a \<le> x" "y \<le> b"
  using assms by (auto simp: runs_def maximal_run_def)

lemma run_of:
  assumes "finite S" "S \<subseteq> {a..b}" "s \<in> S"
  obtains x y where "(x, y) \<in> runs S a b" "x \<le> s" "s \<le> y"
proof -
  have "s \<in> island S s" "finite (island S s)" using assms(1,3) by (simp_all add: island_def)
  then have "Min (island S s) \<le> s" "s \<le> Max (island S s)" by simp_all
  with island_maximal_run [OF assms] that show ?thesis by (auto simp: runs_def)
qed

lemma run_starting:
  assumes "finite S" "S \<subseteq> {a..b}" "s \<in> S" "s - 1 \<notin> S"
  obtains y where "(s, y) \<in> runs S a b"
proof -
  obtain x y where r: "(x, y) \<in> runs S a b" "x \<le> s" "s \<le> y" by (rule run_of [OF assms(1-3)])
  moreover have "s - 1 \<in> {x..y}" if "x \<noteq> s" using that r by auto
  ultimately have "x = s" using runD(1) [OF assms(2) r(1)] assms(4) by blast
  with r that show ?thesis by blast
qed

lemma run_ending:
  assumes "finite S" "S \<subseteq> {a..b}" "s \<in> S" "s + 1 \<notin> S"
  obtains x where "(x, s) \<in> runs S a b"
proof -
  obtain x y where r: "(x, y) \<in> runs S a b" "x \<le> s" "s \<le> y" by (rule run_of [OF assms(1-3)])
  moreover have "s + 1 \<in> {x..y}" if "y \<noteq> s" using that r by auto
  ultimately have "y = s" using runD(1) [OF assms(2) r(1)] assms(4) by blast
  with r that show ?thesis by blast
qed

lemma coverage_row:
  assumes "distinct sequences" "S = {s \<in> set sequences. a \<le> s \<and> s \<le> b}" "s \<in> S"
  shows "(let ss = map fst (filter (\<lambda>(_, i). i = s - int (rank S s)) (numbered sequences a b))
          in \<lparr>range_start = Min (set ss), range_end = Max (set ss), indexed_count = int (length ss)\<rparr>)
    = run_row (Min (island S s), Max (island S s))"
proof -
  let ?ss = "map fst (filter (\<lambda>(_, i). i = s - int (rank S s)) (numbered sequences a b))"
  have S: "finite S" "S \<subseteq> {a..b}" using assms(2) by auto
  have "set ?ss = island S s"
    by (force simp: set_numbered(1) [OF assms(1,2)] island_def)
  moreover have "distinct ?ss" by (rule distinct_map_filter [OF set_numbered(2) [OF assms(1,2)]])
  ultimately have len: "length ?ss = card (island S s)" by (metis distinct_card)
  define x where "x = Min (island S s)"
  define y where "y = Max (island S s)"
  have run: "maximal_run (\<lambda>s. s \<in> S) a b x y"
    unfolding x_def y_def by (rule island_maximal_run [OF S assms(3)])
  moreover have "s \<in> {x..y}" using S(1) assms(3) by (simp add: x_def y_def island_def)
  ultimately have eq: "island S s = {x..y}" by (rule maximal_run_island [OF S])
  moreover have "x \<le> y" using run by (simp add: maximal_run_def)
  ultimately have "int (card (island S s)) = y - x + 1" by simp
  with len \<open>set ?ss = island S s\<close> show ?thesis
    unfolding Let_def run_row_def x_def [symmetric] y_def [symmetric] by (simp add: x_def y_def)
qed

lemma coverage_runs:
  assumes "distinct sequences" and S: "S = {s \<in> set sequences. a \<le> s \<and> s \<le> b}"
  shows "set (coverage (numbered sequences a b)) = run_row ` runs S a b"
    and "distinct (map range_start (coverage (numbered sequences a b)))"
proof -
  let ?f = "\<lambda>s. s - int (rank S s)"
  have fin: "finite S" "S \<subseteq> {a..b}" using S by auto
  have islands: "set (map snd (numbered sequences a b)) = ?f ` S"
    by (force simp: set_numbered(1) [OF assms])
  have row: "set (coverage (numbered sequences a b)) = (\<lambda>s. run_row (Min (island S s), Max (island S s))) ` S"
    unfolding coverage_def set_map set_remdups islands [unfolded set_map] image_image
    by (rule image_cong [OF refl coverage_row [OF assms]])
  have ends: "(\<lambda>s. (Min (island S s), Max (island S s))) ` S = runs S a b"
  proof
    show "(\<lambda>s. (Min (island S s), Max (island S s))) ` S \<subseteq> runs S a b"
      using island_maximal_run [OF fin] by (auto simp: runs_def)
    show "runs S a b \<subseteq> (\<lambda>s. (Min (island S s), Max (island S s))) ` S"
    proof (clarify)
      fix x y assume r: "(x, y) \<in> runs S a b"
      then have "island S x = {x..y}"
        using runD(2) [OF fin(2) r] by (intro maximal_run_island [OF fin]) (auto simp: runs_def)
      moreover have "Min {x..y} = x" "Max {x..y} = y"
        using runD(2) [OF fin(2) r] by (auto intro: Min_eqI Max_eqI)
      ultimately show "(x, y) \<in> (\<lambda>s. (Min (island S s), Max (island S s))) ` S"
        using runD(5) [OF fin(2) r] by (intro image_eqI [of _ _ x]) simp_all
    qed
  qed
  show "set (coverage (numbered sequences a b)) = run_row ` runs S a b"
    unfolding row ends [symmetric] image_image ..
  have "inj_on (\<lambda>i. range_start (let ss = map fst (filter (\<lambda>(_, j). j = i) (numbered sequences a b))
          in \<lparr>range_start = Min (set ss), range_end = Max (set ss), indexed_count = int (length ss)\<rparr>)) (?f ` S)"
  proof (rule inj_onI, clarify)
    fix s t assume st: "s \<in> S" "t \<in> S" and eq:
      "range_start (let ss = map fst (filter (\<lambda>(_, j). j = ?f s) (numbered sequences a b))
          in \<lparr>range_start = Min (set ss), range_end = Max (set ss), indexed_count = int (length ss)\<rparr>) =
       range_start (let ss = map fst (filter (\<lambda>(_, j). j = ?f t) (numbered sequences a b))
          in \<lparr>range_start = Min (set ss), range_end = Max (set ss), indexed_count = int (length ss)\<rparr>)"
    then have "Min (island S s) = Min (island S t)"
      unfolding coverage_row [OF assms st(1)] coverage_row [OF assms st(2)] by (simp add: run_row_def)
    moreover have "Min (island S u) \<in> island S u" if "u \<in> S" for u
      using that fin(1) by (intro Min_in) (auto simp: island_def)
    ultimately show "?f s = ?f t" using st by (metis (mono_tags, lifting) island_def mem_Collect_eq)
  qed
  then show "distinct (map range_start (coverage (numbered sequences a b)))"
    unfolding coverage_def map_map comp_def
    by (simp add: distinct_map islands [unfolded set_map])
qed

section \<open>Gaps are the missing runs\<close>

lemma zip_previous:
  fixes key :: "'a \<Rightarrow> int"
  assumes "sorted_wrt (\<lambda>p q. key p < key q) L"
  shows "(c, Some e) \<in> set (zip L (None # map (\<lambda>c. Some (g c)) L)) \<longleftrightarrow>
    (\<exists>p \<in> set L. c \<in> set L \<and> e = g p \<and> key p < key c \<and> \<not> (\<exists>q \<in> set L. key p < key q \<and> key q < key c))"
    (is "?zip \<longleftrightarrow> ?prev")
proof
  assume ?zip
  then obtain i where i: "i < length L" "L ! i = c" "(None # map (\<lambda>c. Some (g c)) L) ! i = Some e"
    by (auto simp: in_set_zip)
  then obtain j where j: "i = Suc j" "e = g (L ! j)" by (cases i) auto
  have mono: "k < m \<Longrightarrow> m < length L \<Longrightarrow> key (L ! k) < key (L ! m)" for k m
    using sorted_wrt_nth_less [OF assms] by simp
  have "\<not> (key (L ! j) < key q \<and> key q < key c)" if "q \<in> set L" for q
  proof -
    obtain k where k: "k < length L" "q = L ! k" using \<open>q \<in> set L\<close> by (auto simp: in_set_conv_nth)
    consider "k \<le> j" | "i \<le> k" using j(1) by linarith
    then show ?thesis using mono [of k j] mono [of i k] k i j by (cases; auto simp: le_less)
  qed
  with i j mono [of j i] show ?prev by (auto intro!: bexI [of _ "L ! j"])
next
  assume ?prev
  then obtain p where p: "p \<in> set L" "c \<in> set L" "e = g p" "key p < key c"
    "\<And>q. q \<in> set L \<Longrightarrow> \<not> (key p < key q \<and> key q < key c)" by blast
  obtain j k where jk: "j < length L" "p = L ! j" "k < length L" "c = L ! k"
    using p(1,2) by (auto simp: in_set_conv_nth)
  have mono: "k < m \<Longrightarrow> m < length L \<Longrightarrow> key (L ! k) < key (L ! m)" for k m
    using sorted_wrt_nth_less [OF assms] by simp
  have "j < k"
    using mono [of k j] jk p(4) by (cases j k rule: linorder_cases) auto
  moreover have "\<not> Suc j < k"
    using mono [of j "Suc j"] mono [of "Suc j" k] p(5) [of "L ! Suc j"] jk by auto
  ultimately have "k = Suc j" by simp
  with jk p(3) show ?zip by (auto simp: in_set_zip intro!: exI [of _ k])
qed

lemma sorted_starts:
  "distinct (map range_start cs) \<Longrightarrow> sorted_wrt (\<lambda>p q. range_start p < range_start q) (sort_key range_start cs)"
proof -
  assume d: "distinct (map range_start cs)"
  have "distinct (map range_start (sort_key range_start cs))"
    using d by (simp add: distinct_map inj_on_def)
  then have "sorted_wrt (<) (map range_start (sort_key range_start cs))"
    by (simp add: strict_sorted_iff)
  then show ?thesis by (simp add: sorted_wrt_map)
qed

lemma set_ordered_coverage:
  assumes "distinct (map range_start cs)"
  shows "(c, Some e) \<in> set (ordered_coverage cs) \<longleftrightarrow>
    (\<exists>p \<in> set cs. c \<in> set cs \<and> e = range_end p \<and> range_start p < range_start c
       \<and> \<not> (\<exists>q \<in> set cs. range_start p < range_start q \<and> range_start q < range_start c))"
  using zip_previous [OF sorted_starts [OF assms], of c e range_end]
  by (simp add: ordered_coverage_def Let_def)

definition gap_rows :: "covered list \<Rightarrow> int \<Rightarrow> int \<Rightarrow> (int \<times> int) set" where
  "gap_rows cs a b = {(seg_start s, seg_end s) |s. s \<in> set (segments cs a b) \<and> \<not> is_indexed s}"

text \<open>What the branches of the union select, over the set \<open>R\<close> of indexed runs.\<close>

definition consecutive :: "(int \<times> int) set \<Rightarrow> int \<times> int \<Rightarrow> int \<times> int \<Rightarrow> bool" where
  "consecutive R p c \<longleftrightarrow> p \<in> R \<and> c \<in> R \<and> fst p < fst c \<and> \<not> (\<exists>q \<in> R. fst p < fst q \<and> fst q < fst c)"

definition is_gap :: "(int \<times> int) set \<Rightarrow> int \<Rightarrow> int \<Rightarrow> int \<Rightarrow> int \<Rightarrow> bool" where
  "is_gap R a b x y \<longleftrightarrow>
    (R \<noteq> {} \<and> x = a \<and> a \<le> y \<and> y + 1 = Min (fst ` R))
    \<or> (\<exists>p c. consecutive R p c \<and> x = snd p + 1 \<and> y = fst c - 1 \<and> x \<le> y)
    \<or> (R \<noteq> {} \<and> y = b \<and> x \<le> b \<and> x = Max (snd ` R) + 1)
    \<or> (R = {} \<and> x = a \<and> y = b)"

lemma gap_simps [simp]:
  "gap x y = gap u v \<longleftrightarrow> x = u \<and> y = v" "\<not> is_indexed (gap x y)" "seg_start (gap x y) = x" "seg_end (gap x y) = y"
  "is_indexed (indexed_segment c)" "gap x y \<noteq> indexed_segment c"
  by (auto simp: gap_def indexed_segment_def)

lemma in_if_singleton: "z \<in> set (if P then [w] else []) \<longleftrightarrow> P \<and> z = w"
  by auto

lemma between_rows:
  assumes "distinct (map range_start cs)" "set cs = run_row ` R"
  shows "gap x y \<in> set (concat (map (\<lambda>(c, prev). case prev of
          Some e \<Rightarrow> if e + 1 < range_start c then [gap (e + 1) (range_start c - 1)] else [] | None \<Rightarrow> [])
         (ordered_coverage cs))) \<longleftrightarrow>
      (\<exists>p c. consecutive R p c \<and> x = snd p + 1 \<and> y = fst c - 1 \<and> x \<le> y)" (is "?concat \<longleftrightarrow> ?pair")
proof
  assume ?concat
  then obtain c e where c: "(c, Some e) \<in> set (ordered_coverage cs)" "e + 1 < range_start c"
    "x = e + 1" "y = range_start c - 1"
    by (auto split: option.splits if_splits)
  then show ?pair
    by (auto simp: set_ordered_coverage [OF assms(1)] assms(2) run_row_def consecutive_def) blast
next
  assume ?pair
  then obtain p c where pc: "consecutive R p c" "x = snd p + 1" "y = fst c - 1" "x \<le> y" by blast
  then have "(run_row c, Some (snd p)) \<in> set (ordered_coverage cs)"
    by (auto simp: set_ordered_coverage [OF assms(1)] assms(2) run_row_def consecutive_def)
  with pc show ?concat
    by (auto simp: run_row_def intro!: bexI [of _ "(run_row c, Some (snd p))"])
qed

lemma gap_rows_eq:
  assumes "distinct (map range_start cs)" "set cs = run_row ` R"
  shows "(x, y) \<in> gap_rows cs a b \<longleftrightarrow> is_gap R a b x y"
proof -
  have images: "range_start ` set cs = fst ` R" "range_end ` set cs = snd ` R" "cs = [] \<longleftrightarrow> R = {}"
    using assms(2) by (auto simp: run_row_def image_image)
  have gap_eq: "s = gap (seg_start s) (seg_end s)" if "s \<in> set (segments cs a b)" "\<not> is_indexed s" for s
    using that by (auto simp: segments_def split: if_splits option.splits)
  have "(x, y) \<in> gap_rows cs a b \<longleftrightarrow> gap x y \<in> set (segments cs a b)"
  proof
    assume "(x, y) \<in> gap_rows cs a b"
    then obtain s where "s \<in> set (segments cs a b)" "\<not> is_indexed s" "seg_start s = x" "seg_end s = y"
      by (auto simp: gap_rows_def)
    with gap_eq [of s] show "gap x y \<in> set (segments cs a b)" by simp
  next
    assume "gap x y \<in> set (segments cs a b)"
    then show "(x, y) \<in> gap_rows cs a b"
      unfolding gap_rows_def by (intro CollectI exI [of _ "gap x y"]) simp
  qed
  moreover have "gap x y \<notin> set (map indexed_segment cs)" by auto
  moreover have "(a < m \<and> x = a \<and> y = m - 1) = (x = a \<and> a \<le> y \<and> y + 1 = m)"
    "(m < b \<and> x = m + 1 \<and> y = b) = (y = b \<and> x \<le> b \<and> x = m + 1)" for m
    by auto
  ultimately show ?thesis
    unfolding segments_def set_append Un_iff between_rows [OF assms] in_if_singleton images is_gap_def gap_simps conj_assoc
    by simp
qed

lemma finite_runs: "finite S \<Longrightarrow> S \<subseteq> {a..b} \<Longrightarrow> finite (runs S a b)"
  by (rule finite_subset [of _ "S \<times> S"]) (auto dest: runD(5,6))

lemma runs_empty: "finite S \<Longrightarrow> S \<subseteq> {a..b} \<Longrightarrow> runs S a b = {} \<longleftrightarrow> S = {}"
  by (metis all_not_in_conv runD(5) run_of surj_pair)

lemma outer_ends:
  assumes "finite S" "S \<subseteq> {a..b}" "S \<noteq> {}"
  shows "Min (fst ` runs S a b) = Min S" "Max (snd ` runs S a b) = Max S"
proof -
  note D = runD [OF assms(2)]
  have fin: "finite (fst ` runs S a b)" "finite (snd ` runs S a b)"
    using finite_runs [OF assms(1,2)] by simp_all
  have "Min S - 1 \<notin> S" "Max S + 1 \<notin> S"
    using assms(1) by (fastforce dest: Min_le Max_ge)+
  then obtain y x where ends: "(Min S, y) \<in> runs S a b" "(x, Max S) \<in> runs S a b"
    using run_starting [OF assms(1,2) Min_in [OF assms(1,3)]] run_ending [OF assms(1,2) Max_in [OF assms(1,3)]]
    by metis
  have "Min S \<le> fst r" "snd r \<le> Max S" if "r \<in> runs S a b" for r
    using that D(5,6) [of "fst r" "snd r"] assms(1) by simp_all
  then have bounds: "\<And>z. z \<in> fst ` runs S a b \<Longrightarrow> Min S \<le> z" "\<And>z. z \<in> snd ` runs S a b \<Longrightarrow> z \<le> Max S"
    by blast+
  have "Min S \<in> fst ` runs S a b" "Max S \<in> snd ` runs S a b"
    using rev_image_eqI [OF ends(1), of "Min S" fst] rev_image_eqI [OF ends(2), of "Max S" snd] by simp_all
  with fin bounds show "Min (fst ` runs S a b) = Min S" "Max (snd ` runs S a b) = Max S"
    by (simp_all add: Min_eqI Max_eqI)
qed

lemma consecutive_gap:
  assumes "finite S" "S \<subseteq> {a..b}" "consecutive (runs S a b) p c" "snd p < s" "s < fst c"
  shows "s \<notin> S"
proof
  assume "s \<in> S"
  then obtain u v where uv: "(u, v) \<in> runs S a b" "u \<le> s" "s \<le> v" by (rule run_of [OF assms(1,2)])
  have p: "(fst p, snd p) \<in> runs S a b" using assms(3) by (simp add: consecutive_def)
  have "u < fst c" using uv(2) assms(5) by simp
  with assms(3) uv(1) have "u \<le> fst p" by (force simp: consecutive_def)
  then have "snd p + 1 \<in> {u..v}" using assms(4) uv(3) runD(2) [OF assms(2) p] by auto
  with runD(1) [OF assms(2) uv(1)] runD(4) [OF assms(2) p] show False by blast
qed

lemma gap_consecutive:
  assumes "S \<subseteq> {a..b}" "(u, x - 1) \<in> runs S a b" "(y + 1, v) \<in> runs S a b" "x \<le> y"
    and "\<And>s. x \<le> s \<Longrightarrow> s \<le> y \<Longrightarrow> s \<notin> S"
  shows "consecutive (runs S a b) (u, x - 1) (y + 1, v)"
proof -
  have "\<not> (u < fst q \<and> fst q < y + 1)" if "q \<in> runs S a b" for q
  proof
    assume between: "u < fst q \<and> fst q < y + 1"
    have q: "fst q \<in> S" "fst q - 1 \<notin> S" using runD(3,5) [OF assms(1), of "fst q" "snd q"] that by auto
    then have "fst q \<le> x - 1" using assms(5) [of "fst q"] between by force
    then have "fst q - 1 \<in> {u..x - 1}" using between by auto
    with runD(1) [OF assms(1,2)] q(2) show False by blast
  qed
  with assms(2,3,4) runD(2) [OF assms(1,2)] show ?thesis by (auto simp: consecutive_def)
qed

lemma missing_run_is_gap:
  assumes "finite S" "S \<subseteq> {a..b}" "maximal_run (\<lambda>s. s \<notin> S) a b x y"
  shows "is_gap (runs S a b) a b x y"
proof (cases "S = {}")
  case True
  with assms(3) runs_empty [OF assms(1,2)] show ?thesis by (auto simp: is_gap_def maximal_run_def)
next
  case False
  then have R: "runs S a b \<noteq> {}" using runs_empty [OF assms(1,2)] by simp
  note ends = outer_ends [OF assms(1,2) False]
  have xy: "a \<le> x" "x \<le> y" "y \<le> b" "\<And>s. x \<le> s \<Longrightarrow> s \<le> y \<Longrightarrow> s \<notin> S"
    "x = a \<or> x - 1 \<in> S" "y = b \<or> y + 1 \<in> S" using assms(3) by (auto simp: maximal_run_def)
  have below: "s \<in> S \<Longrightarrow> s < x \<or> y < s" for s using xy(4) [of s] by force
  consider (none) "x = a" "y = b" | (first) "x = a" "y + 1 \<in> S" | (final) "x - 1 \<in> S" "y = b"
    | (inner) "x - 1 \<in> S" "y + 1 \<in> S" using xy(5,6) by blast
  then show ?thesis
  proof cases
    case none
    with below assms(2) False show ?thesis by fastforce
  next
    case first
    then have "Min S = y + 1" using below assms(1,2) by (intro Min_eqI) (fastforce simp: subset_iff)+
    with first R ends xy(2) show ?thesis by (simp add: is_gap_def)
  next
    case final
    then have "Max S = x - 1" using below assms(1,2) by (intro Max_eqI) (fastforce simp: subset_iff)+
    with final R ends xy(2) show ?thesis by (simp add: is_gap_def)
  next
    case inner
    obtain u where u: "(u, x - 1) \<in> runs S a b"
      by (rule run_ending [OF assms(1,2) inner(1)]) (use xy in simp)
    obtain v where v: "(y + 1, v) \<in> runs S a b"
      by (rule run_starting [OF assms(1,2) inner(2)]) (use xy in simp)
    have "consecutive (runs S a b) (u, x - 1) (y + 1, v)"
      by (rule gap_consecutive [OF assms(2) u v xy(2,4)])
    then have "\<exists>p c. consecutive (runs S a b) p c \<and> x = snd p + 1 \<and> y = fst c - 1 \<and> x \<le> y"
      using xy(2) by (intro exI [of _ "(u, x - 1)"] exI [of _ "(y + 1, v)"]) simp
    then show ?thesis unfolding is_gap_def by blast
  qed
qed

lemma gap_is_missing_run:
  assumes "finite S" "S \<subseteq> {a..b}" "a \<le> b" "is_gap (runs S a b) a b x y"
  shows "maximal_run (\<lambda>s. s \<notin> S) a b x y"
proof (cases "S = {}")
  case True
  with assms(3,4) runs_empty [OF assms(1,2)] show ?thesis
    by (auto simp: is_gap_def maximal_run_def consecutive_def)
next
  case False
  note D = runD [OF assms(2)]
  note ends = outer_ends [OF assms(1,2) False]
  have S: "Min S \<in> S" "Max S \<in> S" "\<And>s. s \<in> S \<Longrightarrow> Min S \<le> s \<and> s \<le> Max S" using assms(1) False by simp_all
  have R: "runs S a b \<noteq> {}" using runs_empty [OF assms(1,2)] False by simp
  from assms(4) consider (first) "x = a" "a \<le> y" "y + 1 = Min S"
    | (inner) p c where "consecutive (runs S a b) p c" "x = snd p + 1" "y = fst c - 1" "x \<le> y"
    | (final) "y = b" "x \<le> b" "x = Max S + 1"
    using R unfolding is_gap_def ends by blast
  then show ?thesis
  proof cases
    case first
    moreover have "s \<notin> S" if "s \<le> y" for s using S(3) [of s] that first(3) by auto
    ultimately show ?thesis using S(1) assms(2) by (fastforce simp: maximal_run_def)
  next
    case final
    moreover have "s \<notin> S" if "x \<le> s" for s using S(3) [of s] that final(3) by auto
    moreover have "x - 1 \<in> S" using S(2) final(3) by simp
    ultimately show ?thesis using assms(2) by (fastforce simp: maximal_run_def)
  next
    case inner
    have pc: "(fst p, snd p) \<in> runs S a b" "(fst c, snd c) \<in> runs S a b"
      using inner(1) by (simp_all add: consecutive_def)
    have "s \<notin> S" if "x \<le> s" "s \<le> y" for s
      by (rule consecutive_gap [OF assms(1,2) inner(1)]) (use inner(2,3) that in auto)
    moreover have "x - 1 \<in> S" "y + 1 \<in> S" using D(6) [OF pc(1)] D(5) [OF pc(2)] inner(2,3) by simp_all
    ultimately show ?thesis using inner(4) assms(2) by (fastforce simp: maximal_run_def)
  qed
qed

section \<open>The answer is exact\<close>

definition indexed :: "(int \<times> string) list \<Rightarrow> string \<Rightarrow> int \<Rightarrow> bool" where
  "indexed table network s \<longleftrightarrow> (s, network) \<in> set table"

lemma coverage_count:
  "sum_list (map indexed_count (coverage ns)) = int (length ns)"
proof -
  let ?f = "\<lambda>i. int (length (filter (\<lambda>(_, j). j = i) ns))"
  have "length (filter (\<lambda>(_, j). j = i) ns) = count_list (map snd ns) i" for i
    by (induction ns) auto
  then have "sum_list (map ?f (remdups (map snd ns))) = (\<Sum>i \<in> set (map snd ns). int (count_list (map snd ns) i))"
    by (simp add: sum_list_distinct_conv_sum_set)
  also have "\<dots> = int (length ns)"
    using sum_count_set [of "map snd ns" "set (map snd ns)"] by (simp flip: of_nat_sum)
  finally show ?thesis by (simp add: coverage_def comp_def Let_def)
qed

lemma filter_ordered: "filter P (ordered_segments ss) = ordered_segments (filter P ss)"
  by (simp add: ordered_segments_def filter_sort)

lemma indexed_segments: "filter is_indexed (segments cs a b) = map indexed_segment cs"
proof -
  have "filter is_indexed (concat (map (\<lambda>(c, prev). case prev of
          Some e \<Rightarrow> if e + 1 < range_start c then [gap (e + 1) (range_start c - 1)] else [] | None \<Rightarrow> []) ps)) = []"
    for ps by (induction ps) (auto split: option.splits)
  then show ?thesis by (simp add: segments_def comp_def)
qed

lemma sum_insort: "sum_list (map f (insort_key k x xs)) = f x + (sum_list (map f xs) :: int)"
  by (induction xs) simp_all

lemma sum_sort: "sum_list (map f (sort_key k xs)) = (sum_list (map f xs) :: int)"
  by (induction xs) (simp_all add: sum_insort)

lemma sum_ordered: "sum_list (map f (ordered_segments ss)) = (sum_list (map f ss) :: int)"
  by (simp add: ordered_segments_def sum_sort)

lemma set_ordered: "set (ordered_segments ss) = set ss"
  by (simp add: ordered_segments_def)

lemma sorted_ordered: "sorted (map seg_start (ordered_segments ss))"
  by (simp add: ordered_segments_def)

lemma no_missing_run: "(\<forall>x y. \<not> maximal_run (\<lambda>s. \<not> P s) a b x y) \<longleftrightarrow> (\<forall>s \<in> {a..b}. P s)"
proof
  assume none: "\<forall>x y. \<not> maximal_run (\<lambda>s. \<not> P s) a b x y"
  let ?M = "{s \<in> {a..b}. \<not> P s}"
  show "\<forall>s \<in> {a..b}. P s"
  proof (rule ccontr)
    assume "\<not> (\<forall>s \<in> {a..b}. P s)"
    then obtain s where s: "s \<in> ?M" by auto
    have sub: "?M \<subseteq> {a..b}" by blast
    have "finite ?M" by (rule finite_subset [OF sub]) simp
    then obtain x y where "(x, y) \<in> runs ?M a b" by (rule run_of [OF _ sub s])
    then have "maximal_run (\<lambda>s. \<not> P s) a b x y" by (auto simp: runs_def maximal_run_def)
    with none show False by blast
  qed
next
  assume all: "\<forall>s \<in> {a..b}. P s"
  have "\<not> maximal_run (\<lambda>s. \<not> P s) a b x y" for x y
  proof
    assume "maximal_run (\<lambda>s. \<not> P s) a b x y"
    then have "\<not> P x" "x \<in> {a..b}" by (auto simp: maximal_run_def)
    with all show False by blast
  qed
  then show "\<forall>x y. \<not> maximal_run (\<lambda>s. \<not> P s) a b x y" by blast
qed

lemma numbered_length:
  assumes "distinct sequences" "S = {s \<in> set sequences. a \<le> s \<and> s \<le> b}"
  shows "length (numbered sequences a b) = card S"
proof -
  have "set (map fst (numbered sequences a b)) = S"
    by (force simp: set_numbered(1) [OF assms])
  with distinct_card [OF set_numbered(2) [OF assms]] show ?thesis by simp
qed



end
