(* ===== verification/Asset_Browser.thy ===== *)
theory Asset_Browser
  imports Server_Lists
begin

text \<open>
  \<open>graphql-server/src/assets.ts\<close>, browsing: the asset listing by holder count or recent volume with
  its textual cursor, and the lookup of one asset. Sorted by holders, the pages visit every asset once;
  sorted by volume they stop among the assets without trades, which come first.
\<close>

section \<open>Rows\<close>

record asset_entry =
  ae_network :: string
  ae_code :: string
  ae_issuer :: string
  ae_holder_count :: int
  ae_first_seen :: int
  ae_last_activity :: int
  ae_home_domain :: "string option"
  ae_metadata :: jsval
  ae_lookalike :: "bool option"

text \<open>A row of \<open>asset_volume_buckets\<close>; the volume is the column's value, see \<open>of_column\<close>.\<close>

record volume_bucket =
  vb_network :: string
  vb_code :: string
  vb_issuer :: string
  vb_time :: int
  vb_volume :: int

record asset_item =
  as_code :: string
  as_issuer :: string
  as_holderCount :: int
  as_firstSeenLedger :: int
  as_lastActivityLedger :: int
  as_recentVolume :: string
  as_issuerHomeDomain :: "string option"
  as_issuerMetadata :: "string option"
  as_isLookalike :: bool

text \<open>\<open>SUM(volume)\<close> over the last seven days, \<open>NULL\<close> without rows; times are microseconds.\<close>

definition recent_volume :: "volume_bucket list \<Rightarrow> int \<Rightarrow> asset_entry \<Rightarrow> int option" where
  "recent_volume buckets now a =
     (let vs = filter (\<lambda>b. vb_code b = ae_code a \<and> vb_issuer b = ae_issuer a \<and> vb_network b = ae_network a
          \<and> now - 7 * 86400000000 \<le> vb_time b) buckets
      in if vs = [] then None else Some (sum_list (map vb_volume vs)))"

definition volume_text :: "int option \<Rightarrow> string" where
  "volume_text v = (case v of None \<Rightarrow> ''0'' | Some u \<Rightarrow> numeric_text (of_column u))"

definition mapAsset :: "asset_entry \<Rightarrow> int option \<Rightarrow> asset_item" where
  "mapAsset a v =
     \<lparr>as_code = ae_code a, as_issuer = ae_issuer a, as_holderCount = ae_holder_count a,
      as_firstSeenLedger = ae_first_seen a, as_lastActivityLedger = ae_last_activity a,
      as_recentVolume = volume_text v, as_issuerHomeDomain = ae_home_domain a,
      as_issuerMetadata = (if js_truthy (ae_metadata a) then Some (json_text (ae_metadata a)) else None),
      as_isLookalike = (case ae_lookalike a of Some b \<Rightarrow> b | None \<Rightarrow> False)\<rparr>"

definition getAssetByKey ::
  "asset_entry list \<Rightarrow> volume_bucket list \<Rightarrow> int \<Rightarrow> string \<Rightarrow> string \<Rightarrow> string \<Rightarrow> asset_item option" where
  "getAssetByKey rows buckets now network code issuer =
     map_option (\<lambda>a. mapAsset a (recent_volume buckets now a))
       (find (\<lambda>a. ae_code a = code \<and> ae_issuer a = issuer \<and> ae_network a = network) rows)"

section \<open>The listing\<close>

datatype asset_order = HOLDERS | VOLUME

definition assetCursor :: "string \<Rightarrow> string \<Rightarrow> string \<Rightarrow> string" where
  "assetCursor value code issuer = value @ ''|'' @ code @ ''|'' @ issuer"

definition parseAssetCursor :: "string \<Rightarrow> string + string \<times> string \<times> string" where
  "parseAssetCursor cursor =
     (case split_on (CHR ''|'') cursor of
        [value, code, issuer] \<Rightarrow> Inr (value, code, issuer)
      | _ \<Rightarrow> Inl ''Invalid pagination cursor'')"

text \<open>\<open>$n::int\<close> of a text.\<close>

definition int4_of_text :: "string \<Rightarrow> string + int" where
  "int4_of_text s = int4_param (if is_int_text (trim s) then Some (int_of_text (trim s)) else None)"

text \<open>\<open>cursorClause\<close>: what it selects; a comparison with \<open>NULL\<close> selects nothing.\<close>

definition after_key :: "string \<Rightarrow> string \<Rightarrow> asset_entry \<Rightarrow> bool" where
  "after_key code issuer a = (code < ae_code a \<or> ae_code a = code \<and> issuer < ae_issuer a)"

definition cursorClause ::
  "asset_order \<Rightarrow> string \<times> string \<times> string \<Rightarrow> string + (asset_entry \<Rightarrow> int option \<Rightarrow> bool)" where
  "cursorClause sortBy c =
     (case c of (value, code, issuer) \<Rightarrow>
        (case sortBy of
           VOLUME \<Rightarrow>
             (case numeric_of_text value of
                None \<Rightarrow> Inl ''invalid input syntax for type numeric''
              | Some x \<Rightarrow> Inr (\<lambda>a v. case v of
                    None \<Rightarrow> False
                  | Some u \<Rightarrow> numeric_value (of_column u) < numeric_value x
                      \<or> numeric_value (of_column u) = numeric_value x \<and> after_key code issuer a))
         | HOLDERS \<Rightarrow>
             and_then (int4_of_text value) (\<lambda>n. Inr (\<lambda>a v. ae_holder_count a \<le> n
               \<and> (ae_holder_count a < n \<or> ae_holder_count a = n \<and> after_key code issuer a)))))"

text \<open>\<open>ORDER BY\<close>: descending puts \<open>NULL\<close> first.\<close>

definition order_key :: "asset_order \<Rightarrow> asset_entry \<Rightarrow> int option \<Rightarrow> int \<times> int \<times> string \<times> string" where
  "order_key sortBy a v =
     (case sortBy of
        HOLDERS \<Rightarrow> (0, - ae_holder_count a, ae_code a, ae_issuer a)
      | VOLUME \<Rightarrow>
          (case v of None \<Rightarrow> (0, 0, ae_code a, ae_issuer a) | Some u \<Rightarrow> (1, - u, ae_code a, ae_issuer a)))"

text \<open>\<open>a.asset_code ILIKE '%search%'\<close>; the text of the search is not escaped.\<close>

definition search_matches :: "string option \<Rightarrow> asset_entry \<Rightarrow> bool" where
  "search_matches search a =
     (case search of
        None \<Rightarrow> True
      | Some s \<Rightarrow> s = [] \<or> trim s = [] \<or> like (lower_case (''%'' @ trim s @ ''%'')) (lower_case (ae_code a)))"

definition cursor_value_text :: "asset_order \<Rightarrow> asset_entry \<Rightarrow> int option \<Rightarrow> string" where
  "cursor_value_text sortBy a v =
     (case sortBy of VOLUME \<Rightarrow> volume_text v | HOLDERS \<Rightarrow> int_to_string (ae_holder_count a))"

definition getAssets ::
  "asset_entry list \<Rightarrow> volume_bucket list \<Rightarrow> int \<Rightarrow> string \<Rightarrow> asset_order option \<Rightarrow> string option \<Rightarrow> int option
     \<Rightarrow> string option \<Rightarrow> string + asset_item list \<times> bool \<times> string option" where
  "getAssets rows buckets now network sort_arg search limit_arg cursor =
     (let limit = (case limit_arg of Some l \<Rightarrow> l | None \<Rightarrow> 20);
          sortBy = (case sort_arg of Some s \<Rightarrow> s | None \<Rightarrow> HOLDERS);
          volume_of = recent_volume buckets now
      in and_then
           (case cursor of
              None \<Rightarrow> Inr (\<lambda>_ _. True)
            | Some c \<Rightarrow> if c = [] then Inr (\<lambda>_ _. True) else and_then (parseAssetCursor c) (cursorClause sortBy))
           (\<lambda>clause.
         if limit + 1 < 0 then Inl ''LIMIT must not be negative''
         else
           (let selected = take (nat (limit + 1)) (sort_key (\<lambda>a. order_key sortBy a (volume_of a))
                  (filter (\<lambda>a. ae_network a = network \<and> search_matches search a \<and> clause a (volume_of a)) rows));
                hasNextPage = (limit < int (length selected));
                items = take (nat limit) selected;
                nextCursor = (if hasNextPage \<and> items \<noteq> []
                  then Some (assetCursor (cursor_value_text sortBy (last items) (volume_of (last items)))
                               (ae_code (last items)) (ae_issuer (last items)))
                  else None)
            in Inr (map (\<lambda>a. mapAsset a (volume_of a)) items, hasNextPage, nextCursor))))"

text \<open>A client that follows the cursors.\<close>

fun asset_walk ::
  "(string option \<Rightarrow> 'e + 'a list \<times> bool \<times> string option) \<Rightarrow> nat \<Rightarrow> string option \<Rightarrow> 'e + 'a list" where
  "asset_walk fetch 0 cursor = Inr []"
| "asset_walk fetch (Suc fuel) cursor =
     and_then (fetch cursor) (\<lambda>(items, hasNextPage, next).
       if hasNextPage then map_sum id (\<lambda>rest. items @ rest) (asset_walk fetch fuel next) else Inr items)"

section \<open>The pages\<close>

lemma trim_int_to_string [simp]: "trim (int_to_string i) = int_to_string i"
proof (cases "i < 0")
  case True
  define ds where "ds = nat_to_string (nat (- i))"
  have "list_all is_digit ds" "ds \<noteq> []" by (simp_all add: ds_def)
  then have "is_digit (last ds)" "ds \<noteq> []" by (auto simp: list_all_iff)
  then have "trim (CHR ''-'' # ds) = CHR ''-'' # ds"
    using digit_not_sep(1) [of "last ds"] by (intro trim_id) (auto simp: is_space_def char_code_def)
  moreover have "int_to_string i = CHR ''-'' # ds" using True by (simp add: int_to_string_def ds_def)
  ultimately show ?thesis by simp
next
  case False
  define ds where "ds = nat_to_string (nat i)"
  have ne: "list_all is_digit ds" "ds \<noteq> []" by (simp_all add: ds_def)
  then have "is_digit (hd ds)" "is_digit (last ds)" by (auto simp: list_all_iff)
  then have "trim ds = ds" using ne by (intro trim_id) (auto simp: digit_not_sep)
  then show ?thesis using False by (simp add: int_to_string_def ds_def)
qed

lemma numeral_no_bar:
  assumes "list_all is_digit s"
  shows "CHR ''|'' \<notin> set s"
  using assms by (auto simp: list_all_iff is_digit_def char_code_def)

lemma int_no_bar: "CHR ''|'' \<notin> set (int_to_string i)"
  using numeral_no_bar [of "nat_to_string (nat i)"] numeral_no_bar [of "nat_to_string (nat (- i))"]
  by (simp add: int_to_string_def)

lemma volume_no_bar: "CHR ''|'' \<notin> set (volume_text v)"
proof -
  have "CHR ''|'' \<notin> set (pad_start n (CHR ''0'') (nat_to_string k))" for n k
    using numeral_no_bar [of "nat_to_string k"] by (auto simp: pad_start_def)
  moreover have "CHR ''|'' \<notin> set (nat_to_string k)" for k
    using numeral_no_bar [of "nat_to_string k"] by simp
  ultimately show ?thesis by (auto simp: volume_text_def numeric_text_def Let_def split: option.splits)
qed

lemma parse_assetCursor:
  assumes "CHR ''|'' \<notin> set value" "CHR ''|'' \<notin> set code" "CHR ''|'' \<notin> set issuer"
  shows "parseAssetCursor (assetCursor value code issuer) = Inr (value, code, issuer)"
  using assms by (simp add: parseAssetCursor_def assetCursor_def split_on_app split_on_no_sep)

text \<open>An asset whose place in the ranking a cursor can express.\<close>

definition rankable :: "asset_order \<Rightarrow> asset_entry \<Rightarrow> int option \<Rightarrow> bool" where
  "rankable sortBy a v =
     (CHR ''|'' \<notin> set (ae_code a) \<and> CHR ''|'' \<notin> set (ae_issuer a)
      \<and> (case sortBy of HOLDERS \<Rightarrow> - (2 ^ 31) \<le> ae_holder_count a \<and> ae_holder_count a < 2 ^ 31
         | VOLUME \<Rightarrow> v \<noteq> None))"

lemma numeric_value_less: "numeric_value (of_column u) < numeric_value (of_column w) \<longleftrightarrow> u < w"
  and numeric_value_eq: "numeric_value (of_column u) = numeric_value (of_column w) \<longleftrightarrow> u = w"
  by (simp_all add: numeric_value_def of_column_def field_simps)

lemma cursor_clause_key:
  assumes "rankable sortBy r v"
  obtains C where "cursorClause sortBy (cursor_value_text sortBy r v, ae_code r, ae_issuer r) = Inr C"
    "\<And>a w. rankable sortBy a w \<Longrightarrow> C a w \<longleftrightarrow> order_key sortBy r v < order_key sortBy a w"
proof (cases sortBy)
  case HOLDERS
  then have "int4_of_text (int_to_string (ae_holder_count r)) = Inr (ae_holder_count r)"
    using assms by (simp add: int4_of_text_def int4_param_def rankable_def)
  then have "cursorClause sortBy (cursor_value_text sortBy r v, ae_code r, ae_issuer r) =
      Inr (\<lambda>a w. ae_holder_count a \<le> ae_holder_count r
        \<and> (ae_holder_count a < ae_holder_count r
          \<or> ae_holder_count a = ae_holder_count r \<and> after_key (ae_code r) (ae_issuer r) a))"
    using HOLDERS by (simp add: cursorClause_def cursor_value_text_def)
  then show ?thesis
    by (rule that) (auto simp: HOLDERS order_key_def after_key_def)
next
  case VOLUME
  then obtain u where "v = Some u" using assms by (auto simp: rankable_def)
  then have "cursorClause sortBy (cursor_value_text sortBy r v, ae_code r, ae_issuer r) =
      Inr (\<lambda>a w. case w of None \<Rightarrow> False | Some k \<Rightarrow> k < u \<or> k = u \<and> after_key (ae_code r) (ae_issuer r) a)"
    using VOLUME
    by (simp add: cursorClause_def cursor_value_text_def volume_text_def numeric_value_less numeric_value_eq
        cong: option.case_cong)
  then show ?thesis
    by (rule that) (auto simp: VOLUME \<open>v = Some u\<close> order_key_def after_key_def rankable_def)
qed

lemma sort_after:
  assumes "distinct (map key rows)" "sort_key key rows = xs @ r # ys"
  shows "sort_key key (filter (\<lambda>a. key r < key a) rows) = ys"
proof -
  have "sorted_wrt (\<lambda>a b. key a < key b) (xs @ r # ys)"
  proof -
    have "distinct (map key (sort_key key rows))" using assms(1) by (simp add: distinct_map)
    then have "sorted_wrt (<) (map key (sort_key key rows))"
      using sorted_sort_key [of key rows] unfolding strict_sorted_iff by blast
    then have "sorted_wrt (\<lambda>a b. key a < key b) (sort_key key rows)"
      unfolding sorted_wrt_map .
    then show ?thesis by (simp only: assms(2))
  qed
  then have "filter (\<lambda>a. key r < key a) (xs @ r # ys) = ys"
    by (auto simp: sorted_wrt_append filter_empty_conv filter_id_conv dest: less_not_sym)
  then show ?thesis using assms(2) by (simp flip: filter_sort)
qed

lemma sort_key_Nil_iff: "sort_key f xs = [] \<longleftrightarrow> xs = []"
  by (metis length_0_conv length_sort)

text \<open>The rows of a listing, its order and the page that starts with its rest.\<close>

definition browsed :: "asset_entry list \<Rightarrow> string \<Rightarrow> string option \<Rightarrow> asset_entry list" where
  "browsed rows network search = filter (\<lambda>a. ae_network a = network \<and> search_matches search a) rows"

definition page_of ::
  "asset_order \<Rightarrow> (asset_entry \<Rightarrow> int option) \<Rightarrow> nat \<Rightarrow> asset_entry list \<Rightarrow> asset_item list \<times> bool \<times> string option" where
  "page_of sortBy vol limit ys =
     (map (\<lambda>a. mapAsset a (vol a)) (take limit ys), limit < length ys,
      if limit < length ys \<and> 0 < limit
      then let r = last (take limit ys)
           in Some (assetCursor (cursor_value_text sortBy r (vol r)) (ae_code r) (ae_issuer r))
      else None)"

lemma page_of_selected:
  "nat (int limit + 1) = Suc limit" "(int limit < int n) = (limit < n)"
  by simp_all

lemma getAssets_first:
  "getAssets rows buckets now network (Some sortBy) search (Some (int limit)) None =
     Inr (page_of sortBy (recent_volume buckets now) limit
       (sort_key (\<lambda>a. order_key sortBy a (recent_volume buckets now a)) (browsed rows network search)))"
  by (auto simp: getAssets_def Let_def browsed_def page_of_selected page_of_def min_def sort_key_Nil_iff)

lemma getAssets_after:
  fixes buckets now sortBy
  defines "vol \<equiv> recent_volume buckets now"
  defines "K \<equiv> \<lambda>a. order_key sortBy a (vol a)"
  assumes keys: "distinct (map (\<lambda>a. (ae_code a, ae_issuer a, ae_network a)) rows)"
    and rank: "list_all (\<lambda>a. rankable sortBy a (vol a)) (browsed rows network search)"
    and l: "sort_key K (browsed rows network search) = xs @ r # ys"
  shows "getAssets rows buckets now network (Some sortBy) search (Some (int limit))
      (Some (assetCursor (cursor_value_text sortBy r (vol r)) (ae_code r) (ae_issuer r))) = Inr (page_of sortBy vol limit ys)"
proof -
  have r: "r \<in> set (browsed rows network search)"
    using l by (metis in_set_conv_decomp set_sort)
  with rank have rr: "rankable sortBy r (vol r)" by (simp add: list_all_iff)
  have D: "distinct (map K (browsed rows network search))"
    unfolding browsed_def
    by (rule filter_keys_distinct [OF keys]) (auto simp: K_def order_key_def split: asset_order.splits option.splits)
  obtain C where C: "cursorClause sortBy (cursor_value_text sortBy r (vol r), ae_code r, ae_issuer r) = Inr C"
    "\<And>a w. rankable sortBy a w \<Longrightarrow> C a w \<longleftrightarrow> order_key sortBy r (vol r) < order_key sortBy a w"
    using cursor_clause_key [OF rr] by blast
  have "parseAssetCursor (assetCursor (cursor_value_text sortBy r (vol r)) (ae_code r) (ae_issuer r)) =
      Inr (cursor_value_text sortBy r (vol r), ae_code r, ae_issuer r)"
    using rr int_no_bar volume_no_bar
    by (intro parse_assetCursor) (auto simp: rankable_def cursor_value_text_def split: asset_order.splits)
  moreover have "filter (\<lambda>a. ae_network a = network \<and> search_matches search a \<and> C a (vol a)) rows =
      filter (\<lambda>a. K r < K a) (browsed rows network search)"
    unfolding browsed_def filter_filter
    by (rule filter_cong [OF refl]) (use rank C(2) in \<open>auto simp: list_all_iff browsed_def K_def\<close>)
  moreover have "assetCursor v c i \<noteq> []" for v c i by (simp add: assetCursor_def)
  ultimately show ?thesis
    by (auto simp: getAssets_def Let_def C(1) vol_def [symmetric] K_def [symmetric] sort_after [OF D l]
        page_of_selected page_of_def min_def)
qed

lemma asset_walk_from:
  assumes "\<And>xs r ys. whole = xs @ r # ys \<Longrightarrow> fetch (Some (cursor_of r)) = Inr (page_of sortBy vol limit ys)"
    and "\<And>r. cursor_of r = assetCursor (cursor_value_text sortBy r (vol r)) (ae_code r) (ae_issuer r)" "0 < limit"
  shows "fetch c = Inr (page_of sortBy vol limit ys) \<Longrightarrow> whole = xs @ ys \<Longrightarrow> length ys < fuel * limit \<Longrightarrow>
    asset_walk fetch fuel c = Inr (map (\<lambda>a. mapAsset a (vol a)) ys)"
proof (induction fuel arbitrary: c xs ys)
  case (Suc fuel)
  show ?case
  proof (cases "limit < length ys")
    case False
    with Suc.prems(1) show ?thesis by (simp add: page_of_def)
  next
    case True
    define r where "r = last (take limit ys)"
    have "take limit ys \<noteq> []" using True assms(3) by auto
    then have "ys = butlast (take limit ys) @ r # drop limit ys"
      by (metis append_butlast_last_id append_Cons append_assoc append_Nil append_take_drop_id r_def)
    then have w: "whole = (xs @ butlast (take limit ys)) @ r # drop limit ys" using Suc.prems(2) by simp
    have "asset_walk fetch fuel (Some (cursor_of r)) = Inr (map (\<lambda>a. mapAsset a (vol a)) (drop limit ys))"
    proof (rule Suc.IH [OF assms(1) [OF w]])
      show "whole = (xs @ take limit ys) @ drop limit ys" using Suc.prems(2) by simp
      show "length (drop limit ys) < fuel * limit" using Suc.prems(3) True by simp
    qed
    with Suc.prems(1) True assms(3) show ?thesis
      by (simp add: page_of_def Let_def r_def [symmetric] assms(2) flip: map_append)
  qed
qed simp

section \<open>Sorted by holders, and by volume where every asset traded\<close>

text \<open>
  When every selected asset has a place in the ranking that a cursor can express (a holder count that
  fits its column; for the volume, a trade in the last seven days), following the cursors from the
  first page returns every selected asset once, in order, for every page size, and ends.
\<close>

theorem asset_pages_visit_every_asset:
  assumes keys: "distinct (map (\<lambda>a. (ae_code a, ae_issuer a, ae_network a)) rows)"
    and rank: "list_all (\<lambda>a. rankable sortBy a (recent_volume buckets now a)) (browsed rows network search)"
    and fuel: "0 < limit" "length rows < fuel * limit"
  shows "asset_walk (getAssets rows buckets now network (Some sortBy) search (Some (int limit))) fuel None =
    Inr (map (\<lambda>a. mapAsset a (recent_volume buckets now a))
      (sort_key (\<lambda>a. order_key sortBy a (recent_volume buckets now a)) (browsed rows network search)))"
proof -
  have "length (browsed rows network search) \<le> length rows" by (simp add: browsed_def)
  with fuel(2) have "length (sort_key (\<lambda>a. order_key sortBy a (recent_volume buckets now a))
      (browsed rows network search)) < fuel * limit" by simp
  then show ?thesis
    using asset_walk_from [where xs = "[]", OF getAssets_after [OF keys rank] refl fuel(1) getAssets_first refl]
    by simp
qed

section \<open>Sorted by volume\<close>

lemma sort_key_cong_on:
  assumes "\<And>x y. x \<in> set xs \<Longrightarrow> y \<in> set xs \<Longrightarrow> f x \<le> f y \<longleftrightarrow> g x \<le> g y"
  shows "sort_key f xs = sort_key g xs"
  using assms
proof (induction xs)
  case (Cons x xs)
  have "insort_key f x ys = insort_key g x ys" if "set ys \<subseteq> set xs" for ys
    using that Cons.prems by (induction ys) auto
  with Cons show ?case by simp
qed simp

lemma sorted_split:
  assumes "sorted (map K S)" and "\<And>x y. P y \<Longrightarrow> K x \<le> K y \<Longrightarrow> P x"
  shows "S = filter P S @ filter (\<lambda>x. \<not> P x) S"
  using assms(1)
proof (induction S)
  case (Cons x S)
  show ?case
  proof (cases "P x")
    case False
    then have "\<forall>y \<in> set S. \<not> P y" using Cons.prems assms(2) by auto
    with False show ?thesis by (simp add: filter_empty_conv filter_id_conv)
  qed (use Cons in simp)
qed simp

text \<open>
  Sorted by volume, assets without a trade come first, and when they fill the first page (and there
  are more assets) the walk ends with that page: the cursor stands for a volume of zero, which no
  untraded asset equals and no traded one falls below, so the remaining untraded assets and every
  traded one are never returned.
\<close>

theorem volume_ranking_stops_among_untraded:
  assumes untraded: "0 < limit" "limit \<le> length (filter (\<lambda>a. recent_volume buckets now a = None) (browsed rows network search))"
    and more: "limit < length (browsed rows network search)" "2 \<le> fuel"
    and traded: "list_all (\<lambda>a. case recent_volume buckets now a of None \<Rightarrow> True | Some u \<Rightarrow> 0 < u) (browsed rows network search)"
    and codes: "list_all (\<lambda>a. CHR ''|'' \<notin> set (ae_code a) \<and> CHR ''|'' \<notin> set (ae_issuer a)) (browsed rows network search)"
  shows "asset_walk (getAssets rows buckets now network (Some VOLUME) search (Some (int limit))) fuel None =
    Inr (map (\<lambda>a. mapAsset a None) (take limit (sort_key (\<lambda>a. (ae_code a, ae_issuer a))
      (filter (\<lambda>a. recent_volume buckets now a = None) (browsed rows network search)))))"
proof -
  define vol where "vol = recent_volume buckets now"
  define K where "K = (\<lambda>a. order_key VOLUME a (vol a))"
  define L where "L = browsed rows network search"
  define quiet where "quiet = sort_key (\<lambda>a. (ae_code a, ae_issuer a)) (filter (\<lambda>a. vol a = None) L)"
  have K_quiet: "sort_key K (filter (\<lambda>a. vol a = None) L) = quiet"
    unfolding quiet_def by (rule sort_key_cong_on) (auto simp: K_def order_key_def)
  have S: "sort_key K L = filter (\<lambda>a. vol a = None) (sort_key K L) @ filter (\<lambda>a. vol a \<noteq> None) (sort_key K L)"
    by (rule sorted_split [where K = K]) (simp, auto simp: K_def order_key_def split: option.splits)
  then have S: "sort_key K L = quiet @ sort_key K (filter (\<lambda>a. vol a \<noteq> None) L)"
    by (simp only: filter_sort K_quiet)
  have len: "limit \<le> length quiet" using untraded(2) by (simp add: quiet_def L_def vol_def)
  then have page: "take limit (sort_key K L) = take limit quiet" by (subst S) simp
  define r where "r = last (take limit quiet)"
  have "take limit quiet \<noteq> []" using len untraded(1) by auto
  then have "r \<in> set (take limit quiet)" unfolding r_def by (rule last_in_set)
  then have r: "r \<in> set L" "vol r = None" by (auto dest: in_set_takeD simp: quiet_def)
  have first: "getAssets rows buckets now network (Some VOLUME) search (Some (int limit)) None =
      Inr (map (\<lambda>a. mapAsset a (vol a)) (take limit quiet), True, Some (assetCursor ''0'' (ae_code r) (ae_issuer r)))"
    using getAssets_first [of rows buckets now network VOLUME search limit] more(1) untraded(1) r
    by (simp add: page_of_def Let_def vol_def [symmetric] K_def [symmetric] L_def [symmetric] page r_def [symmetric]
        cursor_value_text_def volume_text_def)
  have "parseAssetCursor (assetCursor ''0'' (ae_code r) (ae_issuer r)) = Inr (''0'', ae_code r, ae_issuer r)"
    using codes r(1) by (intro parse_assetCursor) (auto simp: list_all_iff L_def)
  moreover define C where "C = (\<lambda>a (v :: int option). case v of None \<Rightarrow> False | Some u \<Rightarrow> u < 0 \<or> u = 0 \<and> after_key (ae_code r) (ae_issuer r) a)"
  have C: "cursorClause VOLUME (''0'', ae_code r, ae_issuer r) = Inr C"
  proof -
    have "numeric_of_text ''0'' = Some (0, 0)" by code_simp
    then show ?thesis
      by (simp add: C_def cursorClause_def numeric_value_def of_column_def field_simps cong: option.case_cong)
  qed
  have none: "\<not> C a (vol a)" if "a \<in> set L" for a
    using traded that by (force simp: C_def list_all_iff L_def vol_def split: option.splits)
  moreover have "filter (\<lambda>a. ae_network a = network \<and> search_matches search a \<and> C a (vol a)) rows = []"
    using none by (auto simp: filter_empty_conv L_def browsed_def)
  moreover have "assetCursor v c i \<noteq> []" for v c i by (simp add: assetCursor_def)
  ultimately have second: "getAssets rows buckets now network (Some VOLUME) search (Some (int limit))
      (Some (assetCursor ''0'' (ae_code r) (ae_issuer r))) = Inr ([], False, None)"
    by (simp add: getAssets_def Let_def vol_def [symmetric] C)
  obtain k where "fuel = Suc (Suc k)" using more(2) by (metis Suc_le_D numeral_2_eq_2 Suc_le_mono)
  then have "asset_walk (getAssets rows buckets now network (Some VOLUME) search (Some (int limit))) fuel None =
      Inr (map (\<lambda>a. mapAsset a (vol a)) (take limit quiet))"
    by (simp add: first second)
  moreover have "map (\<lambda>a. mapAsset a (vol a)) (take limit quiet) = map (\<lambda>a. mapAsset a None) (take limit quiet)"
    by (rule map_cong [OF refl]) (auto dest!: in_set_takeD simp: quiet_def)
  ultimately show ?thesis by (simp add: quiet_def L_def vol_def)
qed

definition sample_asset :: "string \<Rightarrow> int \<Rightarrow> asset_entry" where
  "sample_asset code h = \<lparr>ae_network = ''public'', ae_code = code, ae_issuer = ''G'', ae_holder_count = h, ae_first_seen = 1,
     ae_last_activity = 2, ae_home_domain = None, ae_metadata = JNull, ae_lookalike = None\<rparr>"

definition sample_bucket :: volume_bucket where
  "sample_bucket = \<lparr>vb_network = ''public'', vb_code = ''C'', vb_issuer = ''G'', vb_time = 5, vb_volume = 30000000\<rparr>"

theorem asset_pages_visit_every_asset_witness:
  defines "rows \<equiv> [sample_asset ''A'' 1, sample_asset ''B'' 3, sample_asset ''C'' 3]"
  shows "asset_walk (getAssets rows [sample_bucket] 0 ''public'' (Some HOLDERS) None (Some (int 2))) 2 None =
    Inr [mapAsset (sample_asset ''B'' 3) None, mapAsset (sample_asset ''C'' 3) (Some 30000000), mapAsset (sample_asset ''A'' 1) None]"
proof -
  have "distinct (map (\<lambda>a. (ae_code a, ae_issuer a, ae_network a)) rows)"
    "list_all (\<lambda>a. rankable HOLDERS a (recent_volume [sample_bucket] 0 a)) (browsed rows ''public'' None)"
    unfolding rows_def by code_simp+
  then have "asset_walk (getAssets rows [sample_bucket] 0 ''public'' (Some HOLDERS) None (Some (int 2))) 2 None =
    Inr (map (\<lambda>a. mapAsset a (recent_volume [sample_bucket] 0 a))
      (sort_key (\<lambda>a. order_key HOLDERS a (recent_volume [sample_bucket] 0 a)) (browsed rows ''public'' None)))"
    by (rule asset_pages_visit_every_asset) (simp_all add: rows_def)
  also have "sort_key (\<lambda>a. order_key HOLDERS a (recent_volume [sample_bucket] 0 a)) (browsed rows ''public'' None) =
      [sample_asset ''B'' 3, sample_asset ''C'' 3, sample_asset ''A'' 1]"
    unfolding rows_def by code_simp
  also have "map (\<lambda>a. mapAsset a (recent_volume [sample_bucket] 0 a)) [sample_asset ''B'' 3, sample_asset ''C'' 3, sample_asset ''A'' 1] =
      [mapAsset (sample_asset ''B'' 3) None, mapAsset (sample_asset ''C'' 3) (Some 30000000), mapAsset (sample_asset ''A'' 1) None]"
    by (simp add: recent_volume_def sample_asset_def sample_bucket_def)
  finally show ?thesis .
qed

theorem volume_ranking_stops_among_untraded_witness:
  defines "rows \<equiv> [sample_asset ''A'' 1, sample_asset ''B'' 3, sample_asset ''C'' 3]"
  shows "asset_walk (getAssets rows [sample_bucket] 0 ''public'' (Some VOLUME) None (Some (int 1))) 5 None =
    Inr [mapAsset (sample_asset ''A'' 1) None]"
proof -
  have "asset_walk (getAssets rows [sample_bucket] 0 ''public'' (Some VOLUME) None (Some (int 1))) 5 None =
    Inr (map (\<lambda>a. mapAsset a None) (take 1 (sort_key (\<lambda>a. (ae_code a, ae_issuer a))
      (filter (\<lambda>a. recent_volume [sample_bucket] 0 a = None) (browsed rows ''public'' None)))))"
  proof (rule volume_ranking_stops_among_untraded)
    show "1 \<le> length (filter (\<lambda>a. recent_volume [sample_bucket] 0 a = None) (browsed rows ''public'' None))"
      "1 < length (browsed rows ''public'' None)"
      "list_all (\<lambda>a. case recent_volume [sample_bucket] 0 a of None \<Rightarrow> True | Some u \<Rightarrow> 0 < u) (browsed rows ''public'' None)"
      "list_all (\<lambda>a. CHR ''|'' \<notin> set (ae_code a) \<and> CHR ''|'' \<notin> set (ae_issuer a)) (browsed rows ''public'' None)"
      unfolding rows_def by code_simp+
  qed simp_all
  also have "sort_key (\<lambda>a. (ae_code a, ae_issuer a))
      (filter (\<lambda>a. recent_volume [sample_bucket] 0 a = None) (browsed rows ''public'' None)) =
    [sample_asset ''A'' 1, sample_asset ''B'' 3]"
    unfolding rows_def by code_simp
  also have "map (\<lambda>a. mapAsset a None) (take 1 [sample_asset ''A'' 1, sample_asset ''B'' 3]) = [mapAsset (sample_asset ''A'' 1) None]"
    by simp
  finally show ?thesis .
qed

end
