(* ===== verification/Asset_Detail.thy ===== *)
theory Asset_Detail
  imports Server_Lists
begin

text \<open>
  \<open>graphql-server/src/assets.ts\<close>, one asset: the range and bucket size of a request, supply and
  holders from the account snapshots, and the volume series. Each operation in the range is counted in
  exactly one bucket, so the series adds up to the operations the listing would return.
\<close>

section \<open>The requested range\<close>

definition DEFAULT_BUCKET_SECONDS :: int where "DEFAULT_BUCKET_SECONDS = 86400"

definition DEFAULT_RANGE_DAYS :: int where "DEFAULT_RANGE_DAYS = 30"

definition MIN_BUCKET_SECONDS :: int where "MIN_BUCKET_SECONDS = 60"

definition MAX_BUCKETS :: int where "MAX_BUCKETS = 1000"

text \<open>Times in milliseconds; the bucket size in seconds.\<close>

record resolved_range =
  rr_start :: int
  rr_end :: int
  rr_bucketSeconds :: int

text \<open>\<open>date_parse\<close> is the parser behind \<open>new Date(text)\<close>.\<close>

definition parseTime :: "(string \<Rightarrow> int option) \<Rightarrow> string \<Rightarrow> string + int" where
  "parseTime date_parse value = (case date_parse value of Some t \<Rightarrow> Inr t | None \<Rightarrow> Inl ''Invalid timestamp'')"

definition ceil_div :: "int \<Rightarrow> int \<Rightarrow> int" where
  "ceil_div a b = - ((- a) div b)"

definition given :: "string option \<Rightarrow> string option" where
  "given s = (case s of Some [] \<Rightarrow> None | _ \<Rightarrow> s)"

definition resolveRange ::
  "(string \<Rightarrow> int option) \<Rightarrow> int \<Rightarrow> string option \<Rightarrow> string option \<Rightarrow> js_number option \<Rightarrow> string + resolved_range" where
  "resolveRange date_parse now from to bucket_arg =
     (case (case bucket_arg of Some n \<Rightarrow> n | None \<Rightarrow> Whole DEFAULT_BUCKET_SECONDS) of
        Fraction \<Rightarrow> Inl ''Bucket size must be an integer''
      | Whole bucketSeconds \<Rightarrow>
          if bucketSeconds < MIN_BUCKET_SECONDS then Inl ''Bucket size must be an integer''
          else
            and_then (case given to of Some t \<Rightarrow> parseTime date_parse t | None \<Rightarrow> Inr now) (\<lambda>end_ms.
            and_then (case given from of Some t \<Rightarrow> parseTime date_parse t
                      | None \<Rightarrow> Inr (end_ms - DEFAULT_RANGE_DAYS * 86400 * 1000)) (\<lambda>start_ms.
              if \<not> start_ms < end_ms then Inl ''Range start must be before range end''
              else if MAX_BUCKETS < ceil_div (end_ms - start_ms) (bucketSeconds * 1000)
              then Inl ''Range spans too many buckets''
              else Inr \<lparr>rr_start = start_ms, rr_end = end_ms, rr_bucketSeconds = bucketSeconds\<rparr>)))"

section \<open>Supply and holders\<close>

text \<open>\<open>b->>name\<close> for an element of the balances array.\<close>

definition entry_text :: "jsval \<Rightarrow> string \<Rightarrow> string option" where
  "entry_text b name =
     (case b of
        JObj ps \<Rightarrow>
          (case map_of ps name of
             None \<Rightarrow> None
           | Some v \<Rightarrow> (case v of JNull \<Rightarrow> None | JStr s \<Rightarrow> Some s | _ \<Rightarrow> Some (json_text v)))
      | _ \<Rightarrow> None)"

text \<open>\<open>balanceConditions\<close>: the asset, then a positive balance; \<open>NULL\<close> is not selected.\<close>

definition entry_matches :: "parsed_asset \<Rightarrow> jsval \<Rightarrow> bool" where
  "entry_matches asset b =
     (if pa_native asset then entry_text b ''asset_type'' = Some ''native''
      else pa_code asset \<noteq> None \<and> entry_text b ''asset_code'' = pa_code asset
        \<and> pa_issuer asset \<noteq> None \<and> entry_text b ''asset_issuer'' = pa_issuer asset)"

definition entry_balance :: "parsed_asset \<Rightarrow> jsval \<Rightarrow> string + numeric list" where
  "entry_balance asset b =
     (if \<not> entry_matches asset b then Inr []
      else (case entry_text b ''balance'' of
              None \<Rightarrow> Inr []
            | Some t \<Rightarrow>
                (case numeric_of_text t of
                   None \<Rightarrow> Inl ''invalid input syntax for type numeric''
                 | Some x \<Rightarrow> Inr (if 0 < fst x then [x] else []))))"

definition array_elements :: "jsval \<Rightarrow> string + jsval list" where
  "array_elements v = (case v of JArr xs \<Rightarrow> Inr xs | _ \<Rightarrow> Inl ''cannot extract elements'')"

text \<open>\<open>SUM\<close> of numerics with \<open>COALESCE(.., 0)\<close>: its scale is the largest of its inputs.\<close>

definition numeric_sum :: "numeric list \<Rightarrow> numeric" where
  "numeric_sum xs = fold numeric_add xs (0, 0)"

definition getAssetSupply :: "(string \<times> jsval) list \<Rightarrow> string \<Rightarrow> parsed_asset \<Rightarrow> string + string \<times> int" where
  "getAssetSupply snapshots network asset =
     and_then (traverse (\<lambda>(_, balances). and_then (array_elements balances) (\<lambda>es. map_sum id concat (traverse (entry_balance asset) es)))
                 (filter (\<lambda>(n, _). n = network) snapshots))
       (\<lambda>held. Inr (numeric_text (numeric_sum (concat held)), int (length (concat held))))"

section \<open>The volume series\<close>

text \<open>An operation with its time, in microseconds.\<close>

record asset_operation = op_item +
  ao_created :: int

text \<open>\<open>~ '^[0-9]+(\.[0-9]+)?$'\<close>.\<close>

definition is_amount :: "string \<Rightarrow> bool" where
  "is_amount s =
     (case split_on (CHR ''.'') s of
        [w] \<Rightarrow> w \<noteq> [] \<and> list_all is_digit w
      | [w, f] \<Rightarrow> w \<noteq> [] \<and> list_all is_digit w \<and> f \<noteq> [] \<and> list_all is_digit f
      | _ \<Rightarrow> False)"

definition filtered_amount :: "'z op_item_scheme \<Rightarrow> numeric list" where
  "filtered_amount r =
     (case detail_text r ''amount'' of
        Some t \<Rightarrow> if is_amount t then [the (numeric_of_text t)] else []
      | None \<Rightarrow> [])"

record volume_point =
  vp_start :: int
  vp_end :: int
  vp_volume :: string
  vp_operationCount :: int

definition bucket_step :: "resolved_range \<Rightarrow> int" where
  "bucket_step window = rr_bucketSeconds window * 1000000"

text \<open>\<open>generate_series(start, end, step)\<close>, in microseconds.\<close>

definition bucket_starts :: "resolved_range \<Rightarrow> int list" where
  "bucket_starts window =
     map (\<lambda>i. rr_start window * 1000 + int i * bucket_step window)
       [0..<nat ((rr_end window - rr_start window) * 1000 div bucket_step window) + 1]"

definition series_operations ::
  "asset_operation list \<Rightarrow> string \<Rightarrow> parsed_asset \<Rightarrow> resolved_range \<Rightarrow> asset_operation list" where
  "series_operations ops network asset window =
     filter (\<lambda>r. rr_start window * 1000 \<le> ao_created r \<and> ao_created r \<le> rr_end window * 1000
       \<and> opr_network r = network \<and> assetConditions asset r) ops"

definition bucket_row :: "asset_operation list \<Rightarrow> resolved_range \<Rightarrow> int \<Rightarrow> volume_point" where
  "bucket_row ops window start =
     (let joined = filter (\<lambda>r. start \<le> ao_created r \<and> ao_created r < start + bucket_step window) ops
      in \<lparr>vp_start = start, vp_end = start + bucket_step window,
          vp_volume = numeric_text (numeric_sum (concat (map filtered_amount joined))),
          vp_operationCount = int (length joined)\<rparr>)"

definition getAssetVolumeSeries ::
  "asset_operation list \<Rightarrow> string \<Rightarrow> parsed_asset \<Rightarrow> resolved_range \<Rightarrow> volume_point list" where
  "getAssetVolumeSeries ops network asset window =
     map (bucket_row (series_operations ops network asset window) window) (bucket_starts window)"

section \<open>The detail page\<close>

record asset_detail =
  ad_asset :: string
  ad_code :: "string option"
  ad_issuer :: "string option"
  ad_native :: bool
  ad_supply :: string
  ad_holders :: int
  ad_series :: "volume_point list"

definition getAssetDetail ::
  "(string \<Rightarrow> int option) \<Rightarrow> int \<Rightarrow> (string \<times> jsval) list \<Rightarrow> asset_operation list \<Rightarrow> string \<Rightarrow> string \<Rightarrow> string option
     \<Rightarrow> string option \<Rightarrow> js_number option \<Rightarrow> string + asset_detail" where
  "getAssetDetail date_parse now snapshots ops network asset from to bucketSeconds =
     and_then (map_sum (\<lambda>_. ''Invalid asset filter'') id (parseAsset_search asset)) (\<lambda>parsed.
     and_then (resolveRange date_parse now from to bucketSeconds) (\<lambda>window.
     and_then (getAssetSupply snapshots network parsed) (\<lambda>(supply, holders).
       Inr \<lparr>ad_asset = (if pa_native parsed then ''XLM'' else the (pa_code parsed) @ '':'' @ the (pa_issuer parsed)),
            ad_code = pa_code parsed, ad_issuer = pa_issuer parsed, ad_native = pa_native parsed,
            ad_supply = supply, ad_holders = holders,
            ad_series = getAssetVolumeSeries ops network parsed window\<rparr>)))"

section \<open>Amounts and sums\<close>

lemma split_amount:
  "split_on c t = [w] \<Longrightarrow> t = w"
  "split_on c t = [w, f] \<Longrightarrow> t = w @ c # f"
  by (induction t arbitrary: w f) (auto split: if_splits list.splits)

lemma is_amount_numeric: "is_amount t \<Longrightarrow> \<exists>x. numeric_of_text t = Some x"
proof -
  assume t: "is_amount t"
  have u: "numeric_of_text u = numeric_unsigned u" if "u \<noteq> []" "is_digit (hd u)" "is_digit (last u)" for u
    using numeric_of_unsigned [OF that] by simp
  obtain w ps where s: "split_on (CHR ''.'') t = w # ps" by (cases "split_on (CHR ''.'') t") simp_all
  consider (int) "ps = []" | (dec) f where "ps = [f]"
    using t unfolding is_amount_def s by (cases ps rule: remdups_adj.cases) auto
  then show ?thesis
  proof cases
    case int
    then have "t = w" "w \<noteq> []" "list_all is_digit w" using t split_amount(1) [of "CHR ''.''" t w] by (simp_all add: is_amount_def s)
    then show ?thesis using u [of w] numeric_unsigned_body [of w "[]"] by (simp add: list_all_iff)
  next
    case dec
    then have "t = w @ CHR ''.'' # f" "w \<noteq> []" "list_all is_digit w" "f \<noteq> []" "list_all is_digit f"
      using t split_amount(2) [of "CHR ''.''" t w f] by (simp_all add: is_amount_def s)
    then show ?thesis using u [of t] numeric_unsigned_body [of w f] by (simp add: list_all_iff hd_append)
  qed
qed

lemma numeric_value_add: "numeric_value (numeric_add x y) = numeric_value x + numeric_value y"
proof -
  define m where "m = max (snd x) (snd y)"
  have e: "a * 10 ^ (m - p) / 10 ^ m = a / (10 :: rat) ^ p" if "p \<le> m" for a p
  proof -
    have "(10 :: rat) ^ m = 10 ^ (m - p) * 10 ^ p" using that by (simp flip: power_add)
    then show ?thesis by simp
  qed
  have "numeric_value (numeric_add x y) = of_int (fst x) * 10 ^ (m - snd x) / 10 ^ m + of_int (fst y) * 10 ^ (m - snd y) / 10 ^ m"
    by (simp add: numeric_value_def numeric_add_def Let_def m_def add_divide_distrib)
  also have "\<dots> = numeric_value x + numeric_value y"
    unfolding numeric_value_def using e [of "snd x"] e [of "snd y"] by (simp only: m_def max.cobounded1 max.cobounded2 simp_thms)
  finally show ?thesis .
qed

lemma sum_concat: "sum_list (concat xss) = (sum_list (map sum_list xss) :: rat)"
  by (induction xss) simp_all

lemma numeric_value_sum: "numeric_value (numeric_sum xs) = sum_list (map numeric_value xs)"
proof -
  have "numeric_value (fold numeric_add xs a) = numeric_value a + sum_list (map numeric_value xs)" for a
    by (induction xs arbitrary: a) (simp_all add: numeric_value_add)
  then show ?thesis by (simp add: numeric_sum_def numeric_value_def)
qed

section \<open>Buckets\<close>

text \<open>Summing within classes and then over the classes is summing.\<close>

lemma sum_by_class:
  fixes g :: "'a \<Rightarrow> 'b::comm_monoid_add"
  assumes "\<forall>x \<in> set xs. class x < n"
  shows "sum_list (map (\<lambda>i. sum_list (map g (filter (\<lambda>x. class x = i) xs))) [0..<n]) = sum_list (map g xs)"
  using assms
proof (induction xs)
  case (Cons x xs)
  have "sum_list (map (\<lambda>i. sum_list (map g (filter (\<lambda>y. class y = i) (x # xs)))) [0..<n]) =
      sum_list (map (\<lambda>i. (if class x = i then g x else 0) + sum_list (map g (filter (\<lambda>y. class y = i) xs))) [0..<n])"
    by (rule arg_cong [where f = sum_list], rule map_cong) simp_all
  also have "\<dots> = sum_list (map (\<lambda>i. if class x = i then g x else 0) [0..<n])
      + sum_list (map (\<lambda>i. sum_list (map g (filter (\<lambda>y. class y = i) xs))) [0..<n])"
    by (rule sum_list_addf)
  also have "sum_list (map (\<lambda>i. if class x = i then g x else 0) [0..<n]) = g x"
    using Cons.prems by (simp add: interv_sum_list_conv_sum_set_nat)
  finally show ?case using Cons by simp
qed simp

lemma resolved_range_ok:
  assumes "resolveRange date_parse now from to b = Inr window"
  shows "rr_start window < rr_end window" "MIN_BUCKET_SECONDS \<le> rr_bucketSeconds window"
    "ceil_div (rr_end window - rr_start window) (rr_bucketSeconds window * 1000) \<le> MAX_BUCKETS"
  using assms
  by (auto simp: resolveRange_def and_then_def split: js_number.splits option.splits if_splits sum.splits)

definition bucket_index :: "resolved_range \<Rightarrow> asset_operation \<Rightarrow> nat" where
  "bucket_index window r = nat ((ao_created r - rr_start window * 1000) div bucket_step window)"

lemma in_bucket:
  assumes "0 < bucket_step window" "rr_start window * 1000 \<le> ao_created r"
  shows "(rr_start window * 1000 + int i * bucket_step window \<le> ao_created r
      \<and> ao_created r < rr_start window * 1000 + int i * bucket_step window + bucket_step window) = (bucket_index window r = i)"
proof -
  define d s where "d = ao_created r - rr_start window * 1000" and "s = bucket_step window"
  have d: "0 \<le> d" "0 < s" using assms by (simp_all add: d_def s_def)
  have "(int i * s \<le> d \<and> d < int i * s + s) = (d div s = int i)"
  proof
    assume "int i * s \<le> d \<and> d < int i * s + s"
    then show "d div s = int i" using d by (intro int_div_pos_eq [of _ _ _ "d - int i * s"]) auto
  next
    assume "d div s = int i"
    then show "int i * s \<le> d \<and> d < int i * s + s"
      using div_mult_mod_eq [of d s] pos_mod_bound [OF d(2), of d] pos_mod_sign [OF d(2), of d] by (metis add.commute add_le_cancel_right add_less_cancel_left le_add_same_cancel2)
  qed
  moreover have "(d div s = int i) = (nat (d div s) = i)" using d by (simp add: pos_imp_zdiv_nonneg_iff nat_eq_iff)
  ultimately show ?thesis by (auto simp: bucket_index_def d_def s_def)
qed

lemma series_rows:
  fixes ops network asset
  assumes "0 < bucket_step window"
  defines "ops' \<equiv> series_operations ops network asset window"
  shows "map (bucket_row ops' window) (bucket_starts window) =
    map (\<lambda>i. let joined = filter (\<lambda>r. bucket_index window r = i) ops'; start = rr_start window * 1000 + int i * bucket_step window
        in \<lparr>vp_start = start, vp_end = start + bucket_step window,
          vp_volume = numeric_text (numeric_sum (concat (map filtered_amount joined))), vp_operationCount = int (length joined)\<rparr>)
      [0..<nat ((rr_end window - rr_start window) * 1000 div bucket_step window) + 1]"
proof -
  have "filter (\<lambda>r. rr_start window * 1000 + int i * bucket_step window \<le> ao_created r
      \<and> ao_created r < rr_start window * 1000 + int i * bucket_step window + bucket_step window) ops' =
      filter (\<lambda>r. bucket_index window r = i) ops'" for i
    by (rule filter_cong [OF refl], rule in_bucket [OF assms(1)]) (simp add: ops'_def series_operations_def)
  then show ?thesis
    unfolding bucket_starts_def map_map by (simp only: bucket_row_def Let_def comp_def)
qed

lemma index_bound:
  assumes "0 < bucket_step window" "r \<in> set (series_operations ops network asset window)"
  shows "bucket_index window r < nat ((rr_end window - rr_start window) * 1000 div bucket_step window) + 1"
proof -
  have "(ao_created r - rr_start window * 1000) div bucket_step window \<le> (rr_end window - rr_start window) * 1000 div bucket_step window"
    using assms by (intro zdiv_mono1) (auto simp: series_operations_def)
  then show ?thesis by (simp add: bucket_index_def nat_mono)
qed

text \<open>
  C18: for an accepted range the series has at most \<open>MAX_BUCKETS + 1\<close> buckets, adjacent and ascending from
  the start of the range; the operation counts add up to the number of matching operations in the
  range, ends included, and the volumes, read back from their texts, to the sum of their amounts.
\<close>

theorem volume_series_adds_up:
  fixes ops network asset window
  defines "series \<equiv> getAssetVolumeSeries ops network asset window"
    and "ops' \<equiv> series_operations ops network asset window"
  assumes window: "resolveRange date_parse now from to bucketSeconds = Inr window"
  shows "int (length series) \<le> MAX_BUCKETS + 1
    \<and> map vp_start series = map (\<lambda>i. rr_start window * 1000 + int i * bucket_step window) [0..<length series]
    \<and> map vp_end series = map (\<lambda>i. rr_start window * 1000 + int (Suc i) * bucket_step window) [0..<length series]
    \<and> sum_list (map vp_operationCount series) = int (length ops')
    \<and> sum_list (map (\<lambda>p. numeric_value (the (numeric_of_text (vp_volume p)))) series)
        = sum_list (map (\<lambda>r. sum_list (map numeric_value (filtered_amount r))) ops')"
proof -
  define n where "n = nat ((rr_end window - rr_start window) * 1000 div bucket_step window) + 1"
  note ok = resolved_range_ok [OF window]
  have step: "0 < bucket_step window" using ok(2) by (simp add: bucket_step_def MIN_BUCKET_SECONDS_def)
  have rows: "series = map (\<lambda>i. let joined = filter (\<lambda>r. bucket_index window r = i) ops'; start = rr_start window * 1000 + int i * bucket_step window
        in \<lparr>vp_start = start, vp_end = start + bucket_step window,
          vp_volume = numeric_text (numeric_sum (concat (map filtered_amount joined))), vp_operationCount = int (length joined)\<rparr>) [0..<n]"
    unfolding series_def ops'_def getAssetVolumeSeries_def n_def by (rule series_rows [OF step])
  then have len: "length series = n" by simp
  have bound: "\<forall>r \<in> set ops'. bucket_index window r < n"
    using index_bound [OF step] by (auto simp: n_def ops'_def)
  have "int n \<le> MAX_BUCKETS + 1"
  proof -
    define d s where "d = rr_end window - rr_start window" and "s = rr_bucketSeconds window * 1000"
    have d: "0 < d" "0 < s" "ceil_div d s \<le> MAX_BUCKETS" using ok by (simp_all add: d_def s_def MIN_BUCKET_SECONDS_def)
    have "bucket_step window = s * 1000" by (simp add: s_def bucket_step_def)
    then have "d * 1000 div bucket_step window = d div s" by simp
    moreover have "d div s \<le> ceil_div d s"
      using d(2) div_mult_mod_eq [of d s] div_mult_mod_eq [of "- d" s] pos_mod_sign [of s d] pos_mod_sign [of s "- d"]
      unfolding ceil_div_def by (smt (verit) mult_less_cancel_right_pos minus_mult_left)
    moreover have "0 \<le> d div s" using d by (simp add: pos_imp_zdiv_nonneg_iff)
    ultimately show ?thesis using d(3) by (simp add: n_def flip: d_def)
  qed
  moreover have "sum_list (map vp_operationCount series) = int (length ops')"
  proof -
    have "sum_list (map vp_operationCount series) =
        sum_list (map (\<lambda>i. sum_list (map (\<lambda>_. 1) (filter (\<lambda>r. bucket_index window r = i) ops'))) [0..<n])"
      by (simp add: rows comp_def Let_def sum_list_triv)
    also have "\<dots> = sum_list (map (\<lambda>_. 1) ops')" by (rule sum_by_class [OF bound])
    finally show ?thesis by (simp add: sum_list_triv)
  qed
  moreover have "sum_list (map (\<lambda>p. numeric_value (the (numeric_of_text (vp_volume p)))) series)
        = sum_list (map (\<lambda>r. sum_list (map numeric_value (filtered_amount r))) ops')"
  proof -
    have "sum_list (map (\<lambda>p. numeric_value (the (numeric_of_text (vp_volume p)))) series) =
        sum_list (map (\<lambda>i. sum_list (map (\<lambda>r. sum_list (map numeric_value (filtered_amount r))) (filter (\<lambda>r. bucket_index window r = i) ops'))) [0..<n])"
      by (simp add: rows comp_def Let_def numeric_value_sum map_concat sum_concat comp_def)
    also have "\<dots> = sum_list (map (\<lambda>r. sum_list (map numeric_value (filtered_amount r))) ops')" by (rule sum_by_class [OF bound])
    finally show ?thesis .
  qed
  ultimately show ?thesis
    by (simp add: len, simp add: rows comp_def Let_def algebra_simps)
qed

definition sample_operation :: "int \<Rightarrow> string \<Rightarrow> asset_operation" where
  "sample_operation created amount = \<lparr>opr_network = ''public'', opr_ledger = 4, opr_id = ''a'', opr_type = ''payment'',
     opr_source_account = ''GF'', oi_details = [(''asset_type'', JStr ''native''), (''amount'', JStr amount)], ao_created = created\<rparr>"

theorem volume_series_adds_up_witness:
  fixes ops xlm window
  defines "ops \<equiv> [sample_operation 0 ''1.5'', sample_operation 60000000 ''2'', sample_operation 120000000 ''n/a'']"
    and "xlm \<equiv> \<lparr>pa_code = None, pa_issuer = None, pa_native = True\<rparr>"
    and "window \<equiv> \<lparr>rr_start = 0, rr_end = 120000, rr_bucketSeconds = 60\<rparr>"
  shows "resolveRange (\<lambda>_. Some 0) 120000 (Some ''1970'') None (Some (Whole 60)) = Inr window
    \<and> sum_list (map vp_operationCount (getAssetVolumeSeries ops ''public'' xlm window)) = 3"
proof -
  have window: "resolveRange (\<lambda>_. Some 0) 120000 (Some ''1970'') None (Some (Whole 60)) = Inr window"
    unfolding window_def by code_simp
  have "length (series_operations ops ''public'' xlm window) = 3"
    by (simp add: ops_def xlm_def window_def series_operations_def sample_operation_def assetConditions_def
        asset_roles_def detail_is_def detail_text_def)
  then show ?thesis using window volume_series_adds_up [OF window, of ops "''public''" xlm] by simp
qed

end
