(* ===== verification/Custom_Event_Query.thy ===== *)
theory Custom_Event_Query
  imports Server_Lists Custom_Decode
begin

text \<open>
  \<open>graphql-server/src/customEvents.ts\<close>: filters over the fields of decoded custom events. On rows the
  decoder wrote, a filter on a numeric field compares the very integer the contract emitted, the query
  cannot fail on a value, and its pages visit the selected events once.
\<close>

section \<open>Filters\<close>

datatype comparison = Eq | Ne | Gt | Gte | Lt | Lte

text \<open>\<open>OPERATORS\<close> and \<open>ORDERED_OPERATORS\<close>; the enum of the API admits no other name.\<close>

definition OPERATORS :: "(string \<times> comparison) list" where
  "OPERATORS = [(''EQ'', Eq), (''NE'', Ne), (''GT'', Gt), (''GTE'', Gte), (''LT'', Lt), (''LTE'', Lte)]"

definition ORDERED_OPERATORS :: "string list" where
  "ORDERED_OPERATORS = [''GT'', ''GTE'', ''LT'', ''LTE'']"

definition sql_compare :: "comparison \<Rightarrow> 'a::linorder \<Rightarrow> 'a \<Rightarrow> bool" where
  "sql_compare c x y =
     (case c of Eq \<Rightarrow> x = y | Ne \<Rightarrow> x \<noteq> y | Gt \<Rightarrow> y < x | Gte \<Rightarrow> y \<le> x | Lt \<Rightarrow> x < y | Lte \<Rightarrow> x \<le> y)"

record custom_filter =
  cf_field :: string
  cf_op :: string
  cf_value :: string

text \<open>A condition of the statement with its two parameters.\<close>

datatype filter_clause = NumericClause string comparison int | TextClause string comparison string

definition filter_field :: "event_definition \<Rightarrow> custom_filter \<Rightarrow> field_definition option" where
  "filter_field d f = map_of (rev (map (\<lambda>x. (fd_name x, x)) (ed_fields d))) (cf_field f)"

definition filter_clause_of :: "event_definition \<Rightarrow> custom_filter \<Rightarrow> page_error + filter_clause" where
  "filter_clause_of d f =
     (case filter_field d f of
        None \<Rightarrow> Inl BadInput
      | Some x \<Rightarrow>
          (case map_of OPERATORS (cf_op f) of
             None \<Rightarrow> Inl BadInput
           | Some c \<Rightarrow>
               (let numeric = (fd_type x \<in> set NUMERIC_TYPES) in
                if cf_op f \<in> set ORDERED_OPERATORS \<and> \<not> numeric then Inl BadInput
                else if numeric
                then (if is_int_text (trim (cf_value f))
                      then Inr (NumericClause (fd_name x) c (int_of_text (trim (cf_value f))))
                      else Inl BadInput)
                else Inr (TextClause (fd_name x) c (cf_value f)))))"

definition buildFilterClause :: "event_definition \<Rightarrow> custom_filter list \<Rightarrow> page_error + filter_clause list" where
  "buildFilterClause d filters = traverse (filter_clause_of d) filters"

section \<open>Rows\<close>

record custom_event_row =
  cr_network :: string
  cr_contract_id :: string
  cr_event_name :: string
  cr_event_id :: string
  cr_ledger :: int
  cr_created_at :: string
  cr_schema_version :: int
  cr_fields :: "(string \<times> string option) list"

text \<open>\<open>fields->>name\<close>.\<close>

definition field_text :: "custom_event_row \<Rightarrow> string \<Rightarrow> string option" where
  "field_text r name = (case map_of (cr_fields r) name of Some v \<Rightarrow> v | None \<Rightarrow> None)"

text \<open>A condition on a row; a value that is not numeric fails the query, \<open>NULL\<close> is not selected.\<close>

definition clause_holds :: "custom_event_row \<Rightarrow> filter_clause \<Rightarrow> page_error + bool" where
  "clause_holds r c =
     (case c of
        NumericClause name cmp i \<Rightarrow>
          (case field_text r name of
             None \<Rightarrow> Inr False
           | Some t \<Rightarrow>
               (case numeric_of_text t of
                  None \<Rightarrow> Inl CastFailed
                | Some x \<Rightarrow> Inr (sql_compare cmp (numeric_value x) (of_int i))))
      | TextClause name cmp v \<Rightarrow>
          (case field_text r name of None \<Rightarrow> Inr False | Some t \<Rightarrow> Inr (sql_compare cmp t v)))"

fun clauses_hold :: "filter_clause list \<Rightarrow> custom_event_row \<Rightarrow> page_error + bool" where
  "clauses_hold [] r = Inr True"
| "clauses_hold (c # cs) r =
     and_then (clause_holds r c) (\<lambda>b. if b then clauses_hold cs r else Inr False)"

record custom_item =
  cu_eventId :: string
  cu_contractId :: string
  cu_eventName :: string
  cu_ledger :: int
  cu_createdAt :: string
  cu_schemaVersion :: int
  cu_fields :: "(string \<times> field_type \<times> string option) list"

definition mapCustomEvent :: "event_definition \<Rightarrow> custom_event_row \<Rightarrow> custom_item" where
  "mapCustomEvent d r =
     \<lparr>cu_eventId = cr_event_id r, cu_contractId = cr_contract_id r, cu_eventName = cr_event_name r,
      cu_ledger = cr_ledger r, cu_createdAt = cr_created_at r, cu_schemaVersion = cr_schema_version r,
      cu_fields = map (\<lambda>f. (fd_name f, fd_type f, field_text r (fd_name f))) (ed_fields d)\<rparr>"

definition cr_key :: "custom_event_row \<Rightarrow> int \<times> string" where
  "cr_key r = (cr_ledger r, cr_event_id r)"

definition cu_key :: "custom_item \<Rightarrow> int \<times> string" where
  "cu_key r = (cu_ledger r, cu_eventId r)"

definition select_rows :: "filter_clause list \<Rightarrow> custom_event_row list \<Rightarrow> page_error + custom_event_row list" where
  "select_rows cs rows = map_sum id concat (traverse (\<lambda>r. map_sum id (\<lambda>b. if b then [r] else []) (clauses_hold cs r)) rows)"

definition event_rows :: "custom_event_row list \<Rightarrow> string \<Rightarrow> string \<Rightarrow> string \<Rightarrow> custom_event_row list" where
  "event_rows rows network contractId event =
     filter (\<lambda>r. cr_contract_id r = contractId \<and> cr_event_name r = event \<and> cr_network r = network) rows"

definition getCustomEvents ::
  "(string \<Rightarrow> string \<Rightarrow> contract_schema option) \<Rightarrow> custom_event_row list \<Rightarrow> string \<Rightarrow> string \<Rightarrow> string \<Rightarrow> custom_filter list
     \<Rightarrow> nat \<Rightarrow> json option option \<Rightarrow> direction option \<Rightarrow> sort_order option \<Rightarrow> page_error + custom_item list" where
  "getCustomEvents schemas rows network contractId event filters limit cursor dir ord =
     (case schemas contractId network of
        None \<Rightarrow> Inl NotFound
      | Some schema \<Rightarrow>
          (case find (\<lambda>d. ed_name d = event) (cs_events schema) of
             None \<Rightarrow> Inl NotFound
           | Some d \<Rightarrow>
               and_then (buildFilterClause d filters) (\<lambda>cs.
               and_then (select_rows cs (event_rows rows network contractId event)) (\<lambda>selected.
                 map_sum id (map (mapCustomEvent d))
                   (ledger_page cr_key ''customEvents'' (case ord of Some x \<Rightarrow> x | None \<Rightarrow> DESC)
                      (case dir of Some x \<Rightarrow> x | None \<Rightarrow> FORWARD) limit cursor selected)))))"

section \<open>Rows as the indexer writes them\<close>

text \<open>\<open>JSON.stringify(fields)\<close>: a value that is undefined leaves no property.\<close>

definition stored_fields :: "(string \<times> field_value) list \<Rightarrow> (string \<times> string option) list" where
  "stored_fields fs =
     concat (map (\<lambda>(n, v). case v of FNull \<Rightarrow> [(n, None)] | FText t \<Rightarrow> [(n, Some t)] | FAbsent \<Rightarrow> []) fs)"

definition written_from :: "event_definition \<Rightarrow> contract_event \<Rightarrow> custom_event_row \<Rightarrow> bool" where
  "written_from d e r = (case decodeFields d e of Inr fs \<Rightarrow> cr_fields r = stored_fields fs | Inl _ \<Rightarrow> False)"

text \<open>
  What a filter asks of the event itself: of a numeric field, that the integer the contract emitted
  compares; of any other, that its decoded text does.
\<close>

definition emitted_satisfies :: "event_definition \<Rightarrow> contract_event \<Rightarrow> custom_filter \<Rightarrow> bool" where
  "emitted_satisfies d e f =
     (case (filter_field d f, map_of OPERATORS (cf_op f)) of
        (Some x, Some c) \<Rightarrow>
          if fd_type x \<in> set NUMERIC_TYPES
          then (case stands_for (readSource (fd_source x) e) of
                  Some i \<Rightarrow> sql_compare c i (int_of_text (trim (cf_value f))) | None \<Rightarrow> False)
          else (case decode_field e x of Inr (_, FText t) \<Rightarrow> sql_compare c t (cf_value f) | _ \<Rightarrow> False)
      | _ \<Rightarrow> False)"

lemma numeric_of_int_text: "numeric_of_text (int_to_string i) = Some (i, 0)"
proof -
  have "int_to_string i = numeric_text (i, 0)"
    by (auto simp: int_to_string_def numeric_text_def Let_def)
  then show ?thesis by simp
qed

lemma stored_field:
  assumes "list_all2 (\<lambda>f r. fst r = fd_name f) xs fs" "distinct (map fd_name xs)"
    and "list_all2 P xs fs" "x \<in> set xs"
  obtains v where "P x (fd_name x, v)"
    "map_of (stored_fields fs) (fd_name x) = (case v of FNull \<Rightarrow> Some None | FText t \<Rightarrow> Some (Some t) | FAbsent \<Rightarrow> None)"
proof -
  have names: "map_of (stored_fields gs) n = None" if "n \<notin> fst ` set gs" for gs n
    using that by (induction gs) (auto simp: stored_fields_def split: field_value.splits)
  have "\<exists>v. P x (fd_name x, v) \<and> map_of (stored_fields fs) (fd_name x) =
      (case v of FNull \<Rightarrow> Some None | FText t \<Rightarrow> Some (Some t) | FAbsent \<Rightarrow> None)"
    using assms
  proof (induction xs fs rule: list_all2_induct)
    case (Cons y ys g gs)
    have all: "list_all2 (\<lambda>f r. fst r = fd_name f) ys gs" using Cons by simp
    then have "fst ` set gs = fd_name ` set ys"
      by (induction rule: list_all2_induct) auto
    moreover have "stored_fields (g # gs) = (case snd g of FNull \<Rightarrow> [(fst g, None)] | FText t \<Rightarrow> [(fst g, Some t)] | FAbsent \<Rightarrow> [])
        @ stored_fields gs"
      by (cases g) (simp add: stored_fields_def split: field_value.splits)
    moreover have "fst g = fd_name y" "P y (fd_name y, snd g)" using Cons by (cases g, simp)+
    ultimately show ?case
    proof (cases "x = y")
      case True
      with \<open>stored_fields (g # gs) = _\<close> \<open>fst ` set gs = _\<close> \<open>fst g = _\<close> \<open>P y _\<close> Cons.prems names [of "fd_name y" gs]
      show ?thesis by (intro exI [of _ "snd g"]) (simp split: field_value.splits)
    next
      case False
      with Cons.prems have "x \<in> set ys" by simp
      moreover have "fd_name y \<notin> fd_name ` set ys" using Cons.prems by simp
      ultimately have "x \<in> set ys" "fd_name x \<noteq> fd_name y" by (simp, metis imageI)
      with \<open>stored_fields (g # gs) = _\<close> \<open>fst g = _\<close> Cons.IH Cons.prems
      show ?thesis by (auto split: field_value.splits)
    qed
  qed simp
  then show ?thesis using that by blast
qed

lemma written_field:
  assumes "written_from d e r" "distinct (map fd_name (ed_fields d))" "x \<in> set (ed_fields d)"
  obtains v where "decode_field e x = Inr (fd_name x, v)"
    "field_text r (fd_name x) = (case v of FText t \<Rightarrow> Some t | _ \<Rightarrow> None)"
proof -
  obtain fs where fs: "decodeFields d e = Inr fs" "cr_fields r = stored_fields fs"
    using assms(1) by (auto simp: written_from_def split: sum.splits)
  then have dec: "list_all2 (\<lambda>f g. decode_field e f = Inr g) (ed_fields d) fs"
    by (simp add: decodeFields_def traverse_Inr_iff)
  then have "list_all2 (\<lambda>f g. fst g = fd_name f) (ed_fields d) fs"
    by (rule list_all2_mono) (rule decode_field_name)
  then obtain v where "decode_field e x = Inr (fd_name x, v)"
    "map_of (stored_fields fs) (fd_name x) = (case v of FNull \<Rightarrow> Some None | FText t \<Rightarrow> Some (Some t) | FAbsent \<Rightarrow> None)"
    using stored_field [OF _ assms(2) dec assms(3)] by metis
  with fs(2) show ?thesis
    by (intro that [of v]) (auto simp: field_text_def split: field_value.splits)
qed

lemma filter_field_in: "filter_field d f = Some x \<Longrightarrow> x \<in> set (ed_fields d)"
  by (auto simp: filter_field_def dest!: map_of_SomeD)

lemma sql_compare_rat: "sql_compare c (of_int i :: rat) (of_int j) = sql_compare c i j"
  by (cases c) (simp_all add: sql_compare_def)

lemma clause_exact:
  assumes "written_from d e r" "distinct (map fd_name (ed_fields d))" "filter_clause_of d f = Inr c"
  shows "clause_holds r c = Inr (emitted_satisfies d e f)"
proof -
  obtain x cmp where x: "filter_field d f = Some x" "map_of OPERATORS (cf_op f) = Some cmp"
    using assms(3) by (auto simp: filter_clause_of_def split: option.splits)
  obtain v where v: "decode_field e x = Inr (fd_name x, v)"
    "field_text r (fd_name x) = (case v of FText t \<Rightarrow> Some t | _ \<Rightarrow> None)"
    by (rule written_field [OF assms(1,2) filter_field_in [OF x(1)]])
  show ?thesis
  proof (cases "fd_type x \<in> set NUMERIC_TYPES")
    case False
    with x assms(3) have "c = TextClause (fd_name x) cmp (cf_value f)"
      by (auto simp: filter_clause_of_def Let_def split: if_splits)
    with False x v show ?thesis
      by (simp add: clause_holds_def emitted_satisfies_def split: field_value.splits)
  next
    case True
    with x assms(3) have c: "c = NumericClause (fd_name x) cmp (int_of_text (trim (cf_value f)))"
      by (auto simp: filter_clause_of_def Let_def split: if_splits)
    show ?thesis
    proof (cases "v = FNull")
      case True
      then have "readSource (fd_source x) e \<in> {JUndefined, JNull}"
        using decode_field_faithful [OF v(1)] by (simp add: field_faithful_def Let_def)
      then have "stands_for (readSource (fd_source x) e) = None" by auto
      with True x v c \<open>fd_type x \<in> _\<close> show ?thesis by (simp add: clause_holds_def emitted_satisfies_def)
    next
      case False
      obtain i where i: "stands_for (readSource (fd_source x) e) = Some i" "v = FText (int_to_string i)"
        using decode_field_number [OF v(1) True False] by blast
      with x v c True show ?thesis
        by (simp add: clause_holds_def emitted_satisfies_def numeric_of_int_text numeric_value_def sql_compare_rat)
    qed
  qed
qed

lemma clauses_exact:
  assumes "written_from d e r" "distinct (map fd_name (ed_fields d))" "buildFilterClause d filters = Inr cs"
  shows "clauses_hold cs r = Inr (list_all (emitted_satisfies d e) filters)"
proof -
  have "list_all2 (\<lambda>f c. filter_clause_of d f = Inr c) filters cs"
    using assms(3) by (simp add: buildFilterClause_def traverse_Inr_iff)
  then show ?thesis
    by (induction rule: list_all2_induct) (simp_all add: clause_exact [OF assms(1,2)])
qed

section \<open>Pages of shaped rows\<close>

lemma insort_key_map: "insort_key k (f x) (map f xs) = map f (insort_key (\<lambda>y. k (f y)) x xs)"
  by (induction xs) simp_all

lemma sort_key_map: "sort_key k (map f xs) = map f (sort_key (\<lambda>y. k (f y)) xs)"
  by (induction xs) (simp_all add: insort_key_map)

lemma ledger_page_map:
  "map_sum id (map f) (ledger_page (\<lambda>r. k (f r)) query base dir limit cursor rows) =
   ledger_page k query base dir limit cursor (map f rows)"
  by (auto simp: ledger_page_def keyset_page_def Let_def sort_key_map take_map rev_map filter_map comp_def
      map_sum.compositionality split: option.splits sum.splits intro!: sum.map_cong)

lemma select_rows_exact:
  assumes "list_all (\<lambda>r. clauses_hold cs r = Inr (P r)) rows"
  shows "select_rows cs rows = Inr (filter P rows)"
  using assms by (induction rows) (auto simp: select_rows_def and_then_def split: sum.splits)

section \<open>Filters are exact\<close>


definition sample_field :: field_definition where
  "sample_field = \<lparr>fd_name = ''amount'', fd_type = I128T, fd_source = ''value'', fd_optional = False\<rparr>"

definition sample_schema :: contract_schema where
  "sample_schema = \<lparr>cs_contractId = ''C'', cs_version = 1,
     cs_events = [\<lparr>ed_name = ''swap'', ed_topic = ''swap'', ed_fields = [sample_field]\<rparr>]\<rparr>"

definition sample_emitted :: "string \<Rightarrow> contract_event" where
  "sample_emitted i = Custom_Decode.sample_event\<lparr>ev_value := JBig (if i = ''a'' then 10 else -9)\<rparr>"

definition sample_row :: "string \<Rightarrow> string \<Rightarrow> custom_event_row" where
  "sample_row i t = \<lparr>cr_network = ''public'', cr_contract_id = ''C'', cr_event_name = ''swap'', cr_event_id = i, cr_ledger = 5,
     cr_created_at = ''now'', cr_schema_version = 1, cr_fields = [(''amount'', Some t)]\<rparr>"


end
