(* ===== verification/Resolvers.thy ===== *)
theory Resolvers
  imports Network_Registry Ledger_Coverage Custom_Event_Query
begin

text \<open>
  \<open>graphql-server/src/resolvers.ts\<close>: the connection resolvers over the listings of \<open>Pagination\<close>,
  \<open>Server_Lists\<close> and \<open>Custom_Event_Query\<close>, with the checks on their arguments, the total counts
  (\<open>db.ts\<close>) and the resolvers that take bounds. Pages are bounded and confined to one configured
  network; the direction argument reaches only the page information.
\<close>

section \<open>Arguments\<close>

definition networkArgument :: "network_registry \<Rightarrow> string option \<Rightarrow> page_error + string" where
  "networkArgument reg requested = map_sum (\<lambda>_. BadInput) nc_name (resolveNetworkArgument requested reg)"

text \<open>A row's network that is no longer configured keeps its name on the primary's endpoints.\<close>

definition networkForParent :: "network_registry \<Rightarrow> string option \<Rightarrow> network_config" where
  "networkForParent reg name =
     (case name of
        None \<Rightarrow> primary reg
      | Some n \<Rightarrow>
          (case find (\<lambda>c. nc_name c = n) (networks reg) of
             Some c \<Rightarrow> c | None \<Rightarrow> (primary reg)\<lparr>nc_name := n\<rparr>))"

lemma networkForParent_name: "nc_name (networkForParent reg (Some n)) = n"
  by (auto simp: networkForParent_def find_Some_iff split: option.splits)

definition page_arguments ::
  "network_registry \<Rightarrow> string option \<Rightarrow> js_number option \<Rightarrow> page_error + nat \<times> string" where
  "page_arguments reg network limit =
     and_then (getPageSize limit) (\<lambda>l. and_then (networkArgument reg network) (\<lambda>n. Inr (nat l, n)))"

section \<open>Total counts\<close>

record total_count =
  tc_value :: int
  tc_isEstimate :: bool

text \<open>
  \<open>getTableCountEstimateOrExact\<close>: \<open>stats\<close> is \<open>reltuples\<close> of a table (0 when it has no entry), \<open>exact\<close> the
  number of its rows of a network, \<open>selected\<close> the number a clause of the caller selects.
\<close>

definition getTableCountEstimateOrExact ::
  "(string \<Rightarrow> int) \<Rightarrow> (string \<Rightarrow> string \<Rightarrow> int) \<Rightarrow> string \<Rightarrow> string \<Rightarrow> (string \<times> int) option \<Rightarrow> int option \<Rightarrow> total_count" where
  "getTableCountEstimateOrExact stats exact tableName network whereClause threshold_arg =
     (let affordableThreshold = (case threshold_arg of Some t \<Rightarrow> t | None \<Rightarrow> 5000) in
      case (case whereClause of Some (c, k) \<Rightarrow> if c \<noteq> [] \<and> c \<noteq> ''network = $1'' then Some k else None | None \<Rightarrow> None) of
        Some k \<Rightarrow> \<lparr>tc_value = k, tc_isEstimate = False\<rparr>
      | None \<Rightarrow>
          if tableName = ''ledgers'' then \<lparr>tc_value = exact tableName network, tc_isEstimate = False\<rparr>
          else (let estimate = stats tableName in
                if 0 \<le> estimate \<and> estimate < affordableThreshold
                then \<lparr>tc_value = exact tableName network, tc_isEstimate = False\<rparr>
                else \<lparr>tc_value = max 0 estimate, tc_isEstimate = True\<rparr>))"

section \<open>Connections\<close>

record 'a connection =
  cn_items :: "'a list"
  cn_info :: page_info
  cn_total :: "total_count option"

definition connection ::
  "keyset option \<Rightarrow> 'a list \<Rightarrow> nat \<Rightarrow> ('a \<Rightarrow> cursor_value list) \<Rightarrow> direction \<Rightarrow> bool \<Rightarrow> total_count option
     \<Rightarrow> page_error + 'a connection" where
  "connection keyset items limit keyOf direction hasPrior tally =
     (case keyset of
        None \<Rightarrow> Inl Internal
      | Some ks \<Rightarrow>
          map_sum id (\<lambda>i. \<lparr>cn_items = items, cn_info = i, cn_total = tally\<rparr>)
            (pageInfo ks items limit keyOf direction hasPrior (map_option tc_value tally)))"

definition counted ::
  "bool \<Rightarrow> (string \<Rightarrow> int) \<Rightarrow> (string \<Rightarrow> string \<Rightarrow> int) \<Rightarrow> string \<Rightarrow> string \<Rightarrow> total_count option" where
  "counted includeTotalCount stats exact tableName network =
     (if includeTotalCount then Some (getTableCountEstimateOrExact stats exact tableName network None None) else None)"

definition forward_by_default :: "direction option \<Rightarrow> direction" where
  "forward_by_default d = (case d of Some x \<Rightarrow> x | None \<Rightarrow> FORWARD)"

definition desc_by_default :: "sort_order option \<Rightarrow> sort_order" where
  "desc_by_default x = (case x of Some y \<Rightarrow> y | None \<Rightarrow> DESC)"

text \<open>The counts of the database, as \<open>counted\<close> takes them.\<close>

type_synonym table_counts = "(string \<Rightarrow> int) \<times> (string \<Rightarrow> string \<Rightarrow> int)"

definition transactions_resolver ::
  "network_registry \<Rightarrow> tx_row list \<Rightarrow> table_counts \<Rightarrow> string option \<Rightarrow> js_number option \<Rightarrow> json option option \<Rightarrow> direction option
     \<Rightarrow> sort_order option \<Rightarrow> bool option \<Rightarrow> int option \<Rightarrow> int option \<Rightarrow> string option \<Rightarrow> bool \<Rightarrow> page_error + tx_row connection" where
  "transactions_resolver reg rows counts network limit_arg cursor direction order successful from to sourceAccount withTotal =
     and_then (page_arguments reg network limit_arg) (\<lambda>(limit, n).
     and_then (getTransactions rows n limit cursor
         \<lparr>opt_order = Some (desc_by_default order), opt_direction = None, opt_successful = successful, opt_from = from,
          opt_to = to, opt_sourceAccount = sourceAccount\<rparr>) (\<lambda>items.
       connection (declared_keyset ''transactions'') items limit (key_values tx_key) (forward_by_default direction)
         (cursor \<noteq> None) (counted withTotal (fst counts) (snd counts) ''transactions'' n)))"

definition operations_resolver ::
  "network_registry \<Rightarrow> op_item list \<Rightarrow> table_counts \<Rightarrow> string option \<Rightarrow> string option \<Rightarrow> string option \<Rightarrow> string option
     \<Rightarrow> js_number option \<Rightarrow> json option option \<Rightarrow> direction option \<Rightarrow> sort_order option \<Rightarrow> bool \<Rightarrow> page_error + op_item connection" where
  "operations_resolver reg rows counts network account type asset limit_arg cursor direction order withTotal =
     (let asset_filter = (case asset of Some [] \<Rightarrow> None | _ \<Rightarrow> asset) in
      and_then (page_arguments reg network limit_arg) (\<lambda>(limit, n).
      and_then (case asset_filter of
                  Some a \<Rightarrow> getOperationsByAsset rows n a account type limit cursor None (Some (desc_by_default order))
                | None \<Rightarrow> getOperations rows n account type limit cursor None (Some (desc_by_default order))) (\<lambda>items.
        connection (declared_keyset (if asset_filter = None then ''operations'' else ''assetOperations'')) items limit
          (key_values op_key) (forward_by_default direction) (cursor \<noteq> None)
          (counted withTotal (fst counts) (snd counts) ''operations'' n))))"

definition events_resolver ::
  "network_registry \<Rightarrow> event_item list \<Rightarrow> string option \<Rightarrow> string \<Rightarrow> string option \<Rightarrow> js_number option \<Rightarrow> json option option
     \<Rightarrow> direction option \<Rightarrow> sort_order option \<Rightarrow> page_error + event_item connection" where
  "events_resolver reg rows network contractId topic limit_arg cursor direction order =
     and_then (page_arguments reg network limit_arg) (\<lambda>(limit, n).
     and_then (getEventsByContract rows n contractId topic limit cursor None (Some (desc_by_default order))) (\<lambda>items.
       connection (declared_keyset ''events'') items limit (key_values ev_key) (forward_by_default direction)
         (cursor \<noteq> None) None))"

definition customEvents_resolver ::
  "network_registry \<Rightarrow> (string \<Rightarrow> string \<Rightarrow> contract_schema option) \<Rightarrow> custom_event_row list \<Rightarrow> string option \<Rightarrow> string \<Rightarrow> string
     \<Rightarrow> custom_filter list option \<Rightarrow> js_number option \<Rightarrow> json option option \<Rightarrow> direction option \<Rightarrow> sort_order option
     \<Rightarrow> page_error + custom_item connection" where
  "customEvents_resolver reg schemas rows network contractId event filters limit_arg cursor direction order =
     and_then (page_arguments reg network limit_arg) (\<lambda>(limit, n).
     and_then (getCustomEvents schemas rows n contractId event (case filters of Some fs \<Rightarrow> fs | None \<Rightarrow> []) limit cursor None
         (Some (desc_by_default order))) (\<lambda>items.
       connection (declared_keyset ''customEvents'') items limit (key_values cu_key) (forward_by_default direction)
         (cursor \<noteq> None) None))"

definition effects_resolver ::
  "network_registry \<Rightarrow> effect_item list \<Rightarrow> string option \<Rightarrow> string \<Rightarrow> string option \<Rightarrow> js_number option \<Rightarrow> json option option
     \<Rightarrow> page_error + effect_item connection" where
  "effects_resolver reg rows network account type limit_arg cursor =
     and_then (page_arguments reg network limit_arg) (\<lambda>(limit, n).
     and_then (getEffects rows n account (case type of Some t \<Rightarrow> if t = [] then None else Some (lower_case t) | None \<Rightarrow> None)
         limit cursor) (\<lambda>items.
       connection (declared_keyset ''effects'') items limit (key_values ef_key) FORWARD (cursor \<noteq> None) None))"

definition accountLifecycle_resolver ::
  "network_registry \<Rightarrow> op_item list \<Rightarrow> string option \<Rightarrow> string \<Rightarrow> js_number option \<Rightarrow> json option option
     \<Rightarrow> page_error + op_item connection" where
  "accountLifecycle_resolver reg rows network address limit_arg cursor =
     and_then (page_arguments reg network limit_arg) (\<lambda>(limit, n).
     and_then (getAccountLifecycle rows n address limit cursor) (\<lambda>items.
       connection (declared_keyset ''accountLifecycle'') items limit (key_values op_key) FORWARD (cursor \<noteq> None) None))"

text \<open>Storage entries carry their key as the cursor, and the page information is built in place.\<close>

definition contractStorageEntries_resolver ::
  "network_registry \<Rightarrow> storage_item list \<Rightarrow> string option \<Rightarrow> string \<Rightarrow> string option \<Rightarrow> string option \<Rightarrow> js_number option
     \<Rightarrow> string option \<Rightarrow> page_error + storage_item list \<times> bool \<times> bool \<times> string option" where
  "contractStorageEntries_resolver reg rows network contractId durability keyPrefix limit_arg cursor =
     and_then (page_arguments reg network limit_arg) (\<lambda>(limit, n).
       let items = getContractStorageEntries_page rows n contractId durability keyPrefix limit cursor FORWARD
       in Inr (items, length items = limit, cursor \<noteq> None \<and> cursor \<noteq> Some [],
               if items = [] then None else Some (si_key (last items))))"

section \<open>Coverage and aggregates\<close>

text \<open>\<open>ledgerCoverage\<close>: GraphQL integers, which are safe integers.\<close>

definition ledgerCoverage_resolver ::
  "network_registry \<Rightarrow> (int \<times> string) list \<Rightarrow> string option \<Rightarrow> js_number \<Rightarrow> js_number \<Rightarrow> page_error + ledger_coverage" where
  "ledgerCoverage_resolver reg table network startLedger endLedger =
     (case (startLedger, endLedger) of
        (Whole a, Whole b) \<Rightarrow>
          if \<not> Pagination.is_safe_integer (Whole a) \<or> \<not> Pagination.is_safe_integer (Whole b) \<or> a < 1 \<or> b < a then Inl BadInput
          else and_then (networkArgument reg network) (\<lambda>n. Inr (getLedgerCoverage table n a b))
      | _ \<Rightarrow> Inl BadInput)"

record rollup_row =
  ru_network :: string
  ru_granularity :: string
  ru_start :: int
  ru_transaction_count :: int
  ru_operation_count :: int
  ru_active_accounts :: int
  ru_total_volume :: string

text \<open>\<open>networkStats\<close> and \<open>activityRollups\<close>, which select the same rows; times in milliseconds.\<close>

definition rollups_resolver ::
  "network_registry \<Rightarrow> rollup_row list \<Rightarrow> string option \<Rightarrow> int \<Rightarrow> int \<Rightarrow> string option \<Rightarrow> js_number option
     \<Rightarrow> page_error + rollup_row list" where
  "rollups_resolver reg rows network startTime endTime granularity_arg limit_arg =
     and_then (networkArgument reg network) (\<lambda>n.
       let g = (if granularity_arg = Some ''day'' then Day else Hour);
           gname = (if granularity_arg = Some ''day'' then ''day'' else ''hour'')
       in and_then (getAggregateLimit limit_arg MAX_AGGREGATE_ROWS) (\<lambda>limit.
          and_then (assertRangeWithinLimit (Some startTime) (Some endTime) g limit) (\<lambda>_.
            Inr (take (nat limit) (sort_key ru_start
              (filter (\<lambda>r. ru_network r = n \<and> ru_granularity r = gname \<and> startTime \<le> ru_start r \<and> ru_start r < endTime) rows))))))"

section \<open>Contracts\<close>

record deployment =
  dp_network :: string
  dp_contract_id :: string
  dp_deployer :: string
  dp_wasm_hash :: string
  dp_ledger :: int
  dp_deployed_at :: string

text \<open>
  \<open>getContracts\<close>: the cursor is a ledger, read as a number by the comparison. The order of contracts of
  one ledger is up to the database; here it is the reverse of the table's.
\<close>

definition getContracts :: "deployment list \<Rightarrow> string \<Rightarrow> nat \<Rightarrow> int option \<Rightarrow> deployment list" where
  "getContracts rows network limit cursor =
     take limit (rev (sort_key dp_ledger (filter (\<lambda>r. dp_network r = network
       \<and> (case cursor of None \<Rightarrow> True | Some c \<Rightarrow> dp_ledger r < c)) rows)))"

definition contracts_resolver ::
  "network_registry \<Rightarrow> deployment list \<Rightarrow> string option \<Rightarrow> js_number option \<Rightarrow> int option \<Rightarrow> page_error + deployment list" where
  "contracts_resolver reg rows network limit_arg cursor =
     and_then (networkArgument reg network) (\<lambda>n.
     and_then (getPageSize limit_arg) (\<lambda>limit. Inr (getContracts rows n (nat limit) cursor)))"

definition getSharedWasmContracts :: "deployment list \<Rightarrow> string \<Rightarrow> string \<Rightarrow> string \<Rightarrow> nat \<Rightarrow> deployment list" where
  "getSharedWasmContracts rows network wasmHash excludeContractId limit =
     take limit (rev (sort_key dp_ledger (filter (\<lambda>r. dp_network r = network \<and> dp_wasm_hash r = wasmHash
       \<and> dp_contract_id r \<noteq> excludeContractId) rows)))"

definition getContractDeployment :: "deployment list \<Rightarrow> string \<Rightarrow> string \<Rightarrow> deployment option" where
  "getContractDeployment rows network contractId =
     find (\<lambda>r. dp_network r = network \<and> dp_contract_id r = contractId) rows"

text \<open>
  The only cursor a client has is the ledger of the last contract it read, and it skips the other
  contracts of that ledger.
\<close>

lemma contracts_of_a_ledger_are_skipped:
  assumes "list_all (\<lambda>r. dp_ledger r = l) rows"
  shows "getContracts rows network limit (Some l) = []"
  using assms by (auto simp: getContracts_def list_all_iff filter_empty_conv)

section \<open>Pages are bounded and of one network\<close>

text \<open>A page of at most \<open>bound\<close> rows, all of one configured network, the one that was asked for.\<close>

definition served :: "network_registry \<Rightarrow> string option \<Rightarrow> int \<Rightarrow> ('a \<Rightarrow> string) \<Rightarrow> 'a list \<Rightarrow> bool" where
  "served reg network bound net items =
     (int (length items) \<le> bound
      \<and> list_ex (\<lambda>n. (case network of Some r \<Rightarrow> n = lower_case r | None \<Rightarrow> n = nc_name (primary reg))
            \<and> list_all (\<lambda>i. net i = n) items) (map nc_name (networks reg)))"

definition page_served :: "network_registry \<Rightarrow> string option \<Rightarrow> ('a \<Rightarrow> string) \<Rightarrow> page_error + 'a connection \<Rightarrow> bool" where
  "page_served reg network net result =
     (case result of Inr c \<Rightarrow> served reg network MAX_PAGE_SIZE net (cn_items c) | Inl _ \<Rightarrow> True)"

lemma keyset_page_within:
  "length (keyset_page key base dir limit c rows) \<le> limit" "set (keyset_page key base dir limit c rows) \<subseteq> set rows"
proof -
  show "length (keyset_page key base dir limit c rows) \<le> limit"
    by (simp add: keyset_page_def Let_def)
  show "set (keyset_page key base dir limit c rows) \<subseteq> set rows"
    by (auto simp: keyset_page_def Let_def split: if_splits option.splits dest!: in_set_takeD)
qed

lemma ledger_page_within:
  "ledger_page key query base dir limit c rows = Inr items \<Longrightarrow> length items \<le> limit \<and> set items \<subseteq> set rows"
  using keyset_page_within by (fastforce simp: ledger_page_def map_sum_def split: sum.splits)

lemma networkArgument_configured:
  assumes "registry_ok reg" "networkArgument reg network = Inr n"
  shows "n \<in> set (map nc_name (networks reg))"
    "case network of Some r \<Rightarrow> n = lower_case r | None \<Rightarrow> n = nc_name (primary reg)"
proof -
  have "n \<in> set (map nc_name (networks reg)) \<and>
      (case network of Some r \<Rightarrow> n = lower_case r | None \<Rightarrow> n = nc_name (primary reg))"
    using assms
    by (auto simp: networkArgument_def resolveNetworkArgument_def registry_ok_def map_sum_def find_Some_iff
        split: option.splits sum.splits)
  then show "n \<in> set (map nc_name (networks reg))"
    "case network of Some r \<Rightarrow> n = lower_case r | None \<Rightarrow> n = nc_name (primary reg)" by simp_all
qed

lemma page_arguments_within:
  assumes "page_arguments reg network limit = Inr (l, n)"
  shows "int l \<le> MAX_PAGE_SIZE" "0 < l" "networkArgument reg network = Inr n"
  using assms
  by (auto simp: page_arguments_def and_then_Inr getPageSize_def bounded_limit_def Let_def
      split: option.splits js_number.splits if_splits)

text \<open>The shape all connection resolvers share.\<close>

lemma page_servedI:
  assumes "registry_ok reg"
    and "\<And>l n items. page_arguments reg network limit = Inr (l, n) \<Longrightarrow> fetch l n = Inr items \<Longrightarrow>
        length items \<le> l \<and> (\<forall>i \<in> set items. net i = n)"
  shows "page_served reg network net (and_then (page_arguments reg network limit) (\<lambda>(l, n).
      and_then (fetch l n) (\<lambda>items. connection (ks l n) items l key dir prior (count n))))"
proof (cases "page_arguments reg network limit")
  case (Inr a)
  obtain l n where a: "a = (l, n)" by (cases a)
  show ?thesis
  proof (cases "fetch l n")
    case (Inr items)
    have "length items \<le> l" "\<forall>i \<in> set items. net i = n"
      using assms(2) [OF _ Inr] \<open>page_arguments _ _ _ = _\<close> a by simp_all
    moreover note page_arguments_within [OF \<open>page_arguments _ _ _ = _\<close> [unfolded a]]
    ultimately have "served reg network MAX_PAGE_SIZE net items"
      using networkArgument_configured [OF assms(1)] by (force simp: served_def list_ex_iff list_all_iff)
    with Inr \<open>page_arguments _ _ _ = _\<close> a show ?thesis
      by (auto simp: page_served_def connection_def map_sum_def split: option.splits sum.splits)
  qed (use Inr a in \<open>simp add: page_served_def\<close>)
qed (simp add: page_served_def)

lemma rollup_rows:
  assumes "rollups_resolver reg rollups network startTime endTime g limit = Inr rs"
  obtains n l where "networkArgument reg network = Inr n" "getAggregateLimit limit MAX_AGGREGATE_ROWS = Inr l"
    "length rs \<le> nat l" "\<forall>r \<in> set rs. ru_network r = n"
proof -
  obtain n l where "networkArgument reg network = Inr n" "getAggregateLimit limit MAX_AGGREGATE_ROWS = Inr l"
    "rs = take (nat l) (sort_key ru_start (filter (\<lambda>r. ru_network r = n
      \<and> ru_granularity r = (if g = Some ''day'' then ''day'' else ''hour'') \<and> startTime \<le> ru_start r \<and> ru_start r < endTime) rollups))"
    using assms unfolding rollups_resolver_def Let_def and_then_Inr by auto
  then show ?thesis by (intro that) (auto dest: in_set_takeD)
qed


section \<open>Direction and totals\<close>

lemma map_and_then: "map_sum id f (and_then x g) = and_then x (\<lambda>a. map_sum id f (g a))"
  by (cases x) (simp_all add: and_then_def)

lemma connection_items:
  "map_sum id cn_items (connection ks items l key d prior t) =
    (case ks of
       None \<Rightarrow> Inl Internal
     | Some k \<Rightarrow> if items \<noteq> [] \<and> (length (key (hd items)) \<noteq> length (ks_columns k) \<or> length (key (last items)) \<noteq> length (ks_columns k))
         then Inl KeysetMismatch else Inr items)"
  by (auto simp: connection_def pageInfo_def Let_def split: option.splits)

definition items_of :: "page_error + 'a connection \<Rightarrow> page_error + 'a list" where
  "items_of result = map_sum id cn_items result"

text \<open>
  The direction of a page of transactions, operations, events or custom events decides nothing about
  its rows: a backward page from any cursor holds the rows of the forward one.
\<close>

theorem backward_pages_are_forward_pages:
  "items_of (transactions_resolver reg txs counts network limit cursor (Some BACKWARD) ord successful from until sourceAccount t)
     = items_of (transactions_resolver reg txs counts network limit cursor (Some FORWARD) ord successful from until sourceAccount t)
   \<and> items_of (operations_resolver reg ops counts network account type asset limit cursor (Some BACKWARD) ord t)
     = items_of (operations_resolver reg ops counts network account type asset limit cursor (Some FORWARD) ord t)
   \<and> items_of (events_resolver reg evs network contractId topic limit cursor (Some BACKWARD) ord)
     = items_of (events_resolver reg evs network contractId topic limit cursor (Some FORWARD) ord)
   \<and> items_of (customEvents_resolver reg schemas crs network contractId event filters limit cursor (Some BACKWARD) ord)
     = items_of (customEvents_resolver reg schemas crs network contractId event filters limit cursor (Some FORWARD) ord)"
  by (simp add: items_of_def transactions_resolver_def operations_resolver_def events_resolver_def customEvents_resolver_def
      Let_def map_and_then split_def connection_items)

text \<open>The total of a page of operations is that of the table, whatever the filters select.\<close>

lemma totals_ignore_filters:
  assumes "operations_resolver reg ops counts network account type asset limit cursor dir ord True = Inr c"
    and "networkArgument reg network = Inr n"
  shows "cn_total c = Some (getTableCountEstimateOrExact (fst counts) (snd counts) ''operations'' n None None)"
proof -
  have "connection ks items l key d p t = Inr c \<Longrightarrow> cn_total c = t" for ks items l key d p t
    by (auto simp: connection_def map_sum_def split: option.splits sum.splits)
  then show ?thesis
    using assms by (auto simp: operations_resolver_def Let_def and_then_Inr page_arguments_def counted_def)
qed


end
