(* ===== verification/Throttle.thy ===== *)
theory Throttle
  imports Complex_Main Op_Fields
begin

text \<open>
  \<open>shared/src/throttle.ts\<close> and \<open>indexer/src/throttle.ts\<close>: the gates that pace outbound requests. A
  request waits for the previous one to leave the gate, sleeps for the interval and leaves; the
  indexer's copy has a gate and an interval per purpose and adapts the interval to the answers. Times and
  intervals are milliseconds.
\<close>

section \<open>A gate\<close>

text \<open>
  \<open>g_waiting\<close> counts the requests between entering \<open>throttle\<close> and leaving it, of which at most one
  sleeps, until \<open>g_sleeping\<close>; \<open>g_released\<close> records when requests left, the newest first.
\<close>

record gate =
  g_waiting :: nat
  g_sleeping :: "rat option"
  g_released :: "rat list"

definition initial_gate :: gate where
  "initial_gate = \<lparr>g_waiting = 0, g_sleeping = None, g_released = []\<rparr>"

text \<open>\<open>setTimeout(r, ms)\<close> runs no earlier than this; below 1 or above the largest delay it is 1.\<close>

definition timer_delay :: "rat \<Rightarrow> rat" where
  "timer_delay ms = (if 1 \<le> ms \<and> ms \<le> 2147483647 then of_int \<lfloor>ms\<rfloor> else 1)"

definition gate_enter :: "gate \<Rightarrow> gate" where
  "gate_enter g = g\<lparr>g_waiting := Suc (g_waiting g)\<rparr>"

definition can_sleep :: "gate \<Rightarrow> bool" where
  "can_sleep g = (0 < g_waiting g \<and> g_sleeping g = None)"

definition start_sleep :: "rat \<Rightarrow> rat \<Rightarrow> gate \<Rightarrow> gate" where
  "start_sleep now interval g = g\<lparr>g_sleeping := Some (now + timer_delay interval)\<rparr>"

definition can_leave :: "rat \<Rightarrow> gate \<Rightarrow> bool" where
  "can_leave now g = (case g_sleeping g of Some d \<Rightarrow> d \<le> now | None \<Rightarrow> False)"

definition gate_leave :: "rat \<Rightarrow> gate \<Rightarrow> gate" where
  "gate_leave now g = g\<lparr>g_waiting := g_waiting g - 1, g_sleeping := None, g_released := now # g_released g\<rparr>"

text \<open>
  \<open>throttle\<close> of the shared copy: \<open>Joined\<close> runs to \<open>await previous\<close>, \<open>Slept\<close> once the previous request has
  left, \<open>Left\<close> when the timer runs.
\<close>

inductive shared_throttle :: "rat \<Rightarrow> rat \<times> gate \<Rightarrow> rat \<times> gate \<Rightarrow> bool" for minIntervalMs where
  Joined: "shared_throttle minIntervalMs (now, g) (now, gate_enter g)"
| Slept: "can_sleep g \<Longrightarrow> shared_throttle minIntervalMs (now, g) (now, start_sleep now minIntervalMs g)"
| Left: "can_leave now g \<Longrightarrow> shared_throttle minIntervalMs (now, g) (now, gate_leave now g)"
| Passed: "0 \<le> dt \<Longrightarrow> shared_throttle minIntervalMs (now, g) (now + dt, g)"

section \<open>Budgets\<close>

datatype purpose = Tip | Backfill | Standard

record request_budget =
  currentIntervalMs :: rat
  successCount :: nat

record throttle_options =
  minIntervalMs :: rat
  maxIntervalMs :: rat
  tipWeightFactor :: rat

definition BACKOFF_MULTIPLIER :: rat where "BACKOFF_MULTIPLIER = 2"

definition RECOVERY_THRESHOLD :: nat where "RECOVERY_THRESHOLD = 10"

definition RECOVERY_FACTOR :: rat where "RECOVERY_FACTOR = 9 / 10"

definition initial_budget :: "throttle_options \<Rightarrow> purpose \<Rightarrow> request_budget" where
  "initial_budget opts p =
     \<lparr>currentIntervalMs = (if p = Backfill then minIntervalMs opts * tipWeightFactor opts else minIntervalMs opts),
      successCount = 0\<rparr>"

text \<open>A missing, unreadable or zero \<open>Retry-After\<close> doubles the interval.\<close>

definition handleRateLimitResponse :: "throttle_options \<Rightarrow> int option \<Rightarrow> request_budget \<Rightarrow> request_budget" where
  "handleRateLimitResponse opts retryAfterSeconds b =
     b\<lparr>currentIntervalMs :=
         (case retryAfterSeconds of
            Some n \<Rightarrow> if n \<noteq> 0 then min (of_int n * 1000) (maxIntervalMs opts)
                      else min (currentIntervalMs b * BACKOFF_MULTIPLIER) (maxIntervalMs opts)
          | None \<Rightarrow> min (currentIntervalMs b * BACKOFF_MULTIPLIER) (maxIntervalMs opts)),
       successCount := 0\<rparr>"

definition handleSuccessResponse :: "throttle_options \<Rightarrow> request_budget \<Rightarrow> request_budget" where
  "handleSuccessResponse opts b =
     (let n = Suc (successCount b) in
      if RECOVERY_THRESHOLD \<le> n \<and> minIntervalMs opts < currentIntervalMs b
      then b\<lparr>currentIntervalMs := max (currentIntervalMs b * RECOVERY_FACTOR) (minIntervalMs opts), successCount := 0\<rparr>
      else b\<lparr>successCount := n\<rparr>)"

section \<open>Requests\<close>

text \<open>An answer of the host: its status, its \<open>Retry-After\<close> header and its body.\<close>

record 'b http_answer =
  ha_status :: int
  ha_retry_after :: "string option"
  ha_body :: 'b

definition answer_ok :: "'b http_answer \<Rightarrow> bool" where
  "answer_ok a = (200 \<le> ha_status a \<and> ha_status a \<le> 299)"

definition retry_header :: "'b http_answer \<Rightarrow> string option" where
  "retry_header a = (case ha_retry_after a of Some [] \<Rightarrow> None | h \<Rightarrow> h)"

definition handle_answer :: "throttle_options \<Rightarrow> 'b http_answer \<Rightarrow> request_budget \<Rightarrow> request_budget" where
  "handle_answer opts a b =
     (if ha_status a = 429
      then handleRateLimitResponse opts (case retry_header a of Some h \<Rightarrow> parse_int h | None \<Rightarrow> None) b
      else if answer_ok a then handleSuccessResponse opts b
      else b)"

definition parseRetryAfter :: "(string \<Rightarrow> int option) \<Rightarrow> int \<Rightarrow> string \<Rightarrow> int" where
  "parseRetryAfter date_parse now h =
     (case parse_int h of
        Some n \<Rightarrow> n * 1000
      | None \<Rightarrow> (case date_parse h of Some d \<Rightarrow> max 0 (d - now) | None \<Rightarrow> 5000))"

text \<open>
  \<open>fetchJson\<close> (and \<open>postJson\<close>, which differs in its arguments only) against the answers the host would
  give to successive attempts, \<open>None\<close> a connection that fails. The result is the outcome, or \<open>None\<close>
  while it is still trying, the purposes of the attempts and the waits between them, and the budgets.
\<close>

type_synonym budgets = "purpose \<Rightarrow> request_budget"

fun fetchJson ::
  "throttle_options \<Rightarrow> (string \<Rightarrow> int option) \<Rightarrow> purpose \<Rightarrow> (int \<times> 'b http_answer option) list \<Rightarrow> budgets
     \<Rightarrow> (string + 'b) option \<times> (purpose \<times> int) list \<times> budgets" where
  "fetchJson opts date_parse p [] bs = (None, [], bs)"
| "fetchJson opts date_parse p ((now, None) # answers) bs = (Some (Inl ''fetch failed''), [(p, 0)], bs)"
| "fetchJson opts date_parse p ((now, Some a) # answers) bs =
     (let bs1 = bs(p := handle_answer opts a (bs p)) in
      if answer_ok a then (Some (Inr (ha_body a)), [(p, 0)], bs1)
      else (case (ha_status a = 429, retry_header a) of
              (True, Some h) \<Rightarrow>
                (let (r, attempts, bs2) = fetchJson opts date_parse Standard answers bs1
                 in (r, (p, parseRetryAfter date_parse now h) # attempts, bs2))
            | _ \<Rightarrow> (Some (Inl ''request failed''), [(p, 0)], bs1)))"

section \<open>The adaptive throttle\<close>

record throttle_state =
  ts_now :: rat
  ts_gates :: "purpose \<Rightarrow> gate"
  ts_budgets :: budgets

definition initial_throttle :: "throttle_options \<Rightarrow> throttle_state" where
  "initial_throttle opts = \<lparr>ts_now = 0, ts_gates = (\<lambda>_. initial_gate), ts_budgets = initial_budget opts\<rparr>"

text \<open>
  Its steps: the interval is read when a request starts to sleep; answers arrive at any time. The pause
  of a backfill request while tip requests wait only delays when it enters.
\<close>

inductive throttle_step :: "throttle_options \<Rightarrow> throttle_state \<Rightarrow> throttle_state \<Rightarrow> bool" for opts where
  Enters: "throttle_step opts s (s\<lparr>ts_gates := (ts_gates s)(p := gate_enter (ts_gates s p))\<rparr>)"
| Sleeps: "can_sleep (ts_gates s p) \<Longrightarrow> throttle_step opts s
     (s\<lparr>ts_gates := (ts_gates s)(p := start_sleep (ts_now s) (currentIntervalMs (ts_budgets s p)) (ts_gates s p))\<rparr>)"
| Leaves: "can_leave (ts_now s) (ts_gates s p) \<Longrightarrow> throttle_step opts s
     (s\<lparr>ts_gates := (ts_gates s)(p := gate_leave (ts_now s) (ts_gates s p))\<rparr>)"
| Answered: "(case retry_header (a :: unit http_answer) of Some h \<Rightarrow> (case parse_int h of Some n \<Rightarrow> 0 \<le> n | None \<Rightarrow> True) | None \<Rightarrow> True) \<Longrightarrow>
     throttle_step opts s (s\<lparr>ts_budgets := (ts_budgets s)(p := handle_answer opts a (ts_budgets s p))\<rparr>)"
| Waits: "0 \<le> dt \<Longrightarrow> throttle_step opts s (s\<lparr>ts_now := ts_now s + dt\<rparr>)"

section \<open>Spacing\<close>

text \<open>Releases at least \<open>L\<close> apart, and the next one no earlier than \<open>L\<close> after the last.\<close>

definition gate_ok :: "rat \<Rightarrow> rat \<Rightarrow> gate \<Rightarrow> bool" where
  "gate_ok L now g =
     (sorted_wrt (\<lambda>later earlier. earlier + L \<le> later) (g_released g)
      \<and> (\<forall>t \<in> set (g_released g). t \<le> now \<and> (case g_sleeping g of Some d \<Rightarrow> t + L \<le> d | None \<Rightarrow> True)))"

lemma gate_ok_steps:
  assumes "gate_ok L now g"
  shows "gate_ok L now (gate_enter g)"
    "L \<le> timer_delay interval \<Longrightarrow> gate_ok L now (start_sleep now interval g)"
    "can_leave now g \<Longrightarrow> gate_ok L now (gate_leave now g)"
    "0 \<le> dt \<Longrightarrow> gate_ok L (now + dt) g"
  using assms
  by (fastforce simp: gate_ok_def gate_enter_def start_sleep_def can_leave_def gate_leave_def split: option.splits)+

lemma initial_gate_ok [simp]: "gate_ok L now initial_gate"
  by (simp add: gate_ok_def initial_gate_def)

lemma timer_delay_mono: "1 \<le> a \<Longrightarrow> a \<le> b \<Longrightarrow> b \<le> 2147483647 \<Longrightarrow> timer_delay a \<le> timer_delay b"
  by (simp add: timer_delay_def floor_mono)

lemma timer_delay_pos: "1 \<le> timer_delay a"
  by (simp add: timer_delay_def)

text \<open>How many releases fit into a window.\<close>

lemma spaced_span:
  fixes L :: rat
  assumes "sorted_wrt (\<lambda>later earlier. earlier + L \<le> later) ts" "ts \<noteq> []"
  shows "last ts + L * of_nat (length ts - 1) \<le> hd ts"
  using assms
proof (induction ts)
  case (Cons t ts)
  show ?case
  proof (cases "ts = []")
    case False
    then have "last ts + L * of_nat (length ts - 1) \<le> hd ts" "hd ts + L \<le> t" using Cons by auto
    moreover have "L * of_nat (length ts) = L * of_nat (length ts - 1) + L"
      using False by (cases ts) (simp_all add: algebra_simps)
    ultimately have "last ts + L * of_nat (length ts) \<le> t" by linarith
    with False show ?thesis by simp
  qed simp
qed simp

lemma gate_rate:
  assumes "gate_ok L now g" "0 < L" "0 \<le> w"
  shows "of_nat (length (filter (\<lambda>t. from \<le> t \<and> t \<le> from + w) (g_released g))) \<le> w / L + 1"
proof (cases "filter (\<lambda>t. from \<le> t \<and> t \<le> from + w) (g_released g)")
  case Nil
  then show ?thesis using assms(2,3) by simp
next
  case (Cons t ts)
  let ?ts = "filter (\<lambda>t. from \<le> t \<and> t \<le> from + w) (g_released g)"
  have "sorted_wrt (\<lambda>later earlier. earlier + L \<le> later) ?ts"
    using assms(1) by (simp add: gate_ok_def sorted_wrt_filter)
  then have "last ?ts + L * of_nat (length ?ts - 1) \<le> hd ?ts" using Cons by (intro spaced_span) simp_all
  moreover have "?ts \<noteq> []" using Cons by simp
  then have "last ?ts \<in> set ?ts" "hd ?ts \<in> set ?ts" by (rule last_in_set, rule hd_in_set)
  then have "from \<le> last ?ts" "hd ?ts \<le> from + w" by (simp_all only: set_filter mem_Collect_eq)
  ultimately have "L * of_nat (length ?ts - 1) \<le> w" by linarith
  then have "of_nat (length ?ts - 1) \<le> w / L" using assms(2) by (simp add: pos_le_divide_eq mult.commute)
  then show ?thesis using Cons by simp
qed

text \<open>The smallest delay the adaptive throttle can use: an interval is never below this.\<close>

definition least_interval :: "throttle_options \<Rightarrow> rat" where
  "least_interval opts = min (minIntervalMs opts) (min 1000 (maxIntervalMs opts))"

definition options_ok :: "throttle_options \<Rightarrow> bool" where
  "options_ok opts = (1 \<le> minIntervalMs opts \<and> 1 \<le> maxIntervalMs opts \<and> 1 \<le> tipWeightFactor opts
     \<and> maxIntervalMs opts \<le> 2147483647 \<and> minIntervalMs opts * tipWeightFactor opts \<le> 2147483647)"

definition largest_interval :: "throttle_options \<Rightarrow> rat" where
  "largest_interval opts = max (maxIntervalMs opts) (minIntervalMs opts * tipWeightFactor opts)"

definition interval_ok :: "throttle_options \<Rightarrow> rat \<Rightarrow> bool" where
  "interval_ok opts i = (least_interval opts \<le> i \<and> i \<le> largest_interval opts)"

lemma handle_answer_ok:
  assumes "options_ok opts" "interval_ok opts (currentIntervalMs b)"
    and "case retry_header a of Some h \<Rightarrow> (case parse_int h of Some n \<Rightarrow> 0 \<le> n | None \<Rightarrow> True) | None \<Rightarrow> True"
  shows "interval_ok opts (currentIntervalMs (handle_answer opts a b))"
proof -
  have w: "minIntervalMs opts \<le> minIntervalMs opts * tipWeightFactor opts"
    using assms(1) by (simp add: options_ok_def)
  have i: "1 \<le> currentIntervalMs b"
    using assms(1,2) by (auto simp: options_ok_def interval_ok_def least_interval_def)
  have n: "1000 \<le> of_int n * (1000 :: rat)" if "0 \<le> n" "n \<noteq> 0" for n :: int
    using that by simp
  have backoff: "interval_ok opts (currentIntervalMs (handleRateLimitResponse opts r b))"
    if "case r of Some n \<Rightarrow> 0 \<le> n | None \<Rightarrow> True" for r
    using that assms(1,2) i n
    by (auto simp: handleRateLimitResponse_def interval_ok_def least_interval_def largest_interval_def
        BACKOFF_MULTIPLIER_def split: option.splits)
  have recovery: "interval_ok opts (currentIntervalMs (handleSuccessResponse opts b))"
    using assms(1,2) i w
    by (auto simp: handleSuccessResponse_def Let_def interval_ok_def least_interval_def largest_interval_def
        RECOVERY_FACTOR_def max_def)
  show ?thesis
    using assms(2,3) recovery backoff [of "case retry_header a of Some h \<Rightarrow> parse_int h | None \<Rightarrow> None"]
    by (auto simp: handle_answer_def split: option.splits)
qed

definition throttle_ok :: "throttle_options \<Rightarrow> throttle_state \<Rightarrow> bool" where
  "throttle_ok opts s \<longleftrightarrow> (\<forall>p. interval_ok opts (currentIntervalMs (ts_budgets s p))
     \<and> gate_ok (timer_delay (least_interval opts)) (ts_now s) (ts_gates s p))"

lemma initial_throttle_ok: "options_ok opts \<Longrightarrow> throttle_ok opts (initial_throttle opts)"
proof -
  assume opts: "options_ok opts"
  then have "1 \<le> minIntervalMs opts" "1 \<le> tipWeightFactor opts" by (simp_all add: options_ok_def)
  then have "minIntervalMs opts * 1 \<le> minIntervalMs opts * tipWeightFactor opts"
    by (intro mult_left_mono) simp_all
  then show ?thesis
    by (auto simp: throttle_ok_def initial_throttle_def initial_budget_def interval_ok_def least_interval_def
        largest_interval_def)
qed

lemma interval_delay:
  assumes "options_ok opts" "interval_ok opts i"
  shows "timer_delay (least_interval opts) \<le> timer_delay i"
  using assms
  by (intro timer_delay_mono) (auto simp: options_ok_def interval_ok_def least_interval_def largest_interval_def)

lemma throttle_step_ok:
  assumes "options_ok opts" "throttle_ok opts s" "throttle_step opts s t"
  shows "throttle_ok opts t"
  using assms(3)
proof cases
  case (Enters p)
  then show ?thesis using assms(2) by (auto simp: throttle_ok_def gate_ok_steps(1))
next
  case (Sleeps p)
  then show ?thesis using assms(2) interval_delay [OF assms(1)] by (auto simp: throttle_ok_def intro!: gate_ok_steps(2))
next
  case (Leaves p)
  then show ?thesis using assms(2) by (auto simp: throttle_ok_def intro!: gate_ok_steps(3))
next
  case (Answered a p)
  then show ?thesis using assms(2) handle_answer_ok [OF assms(1) _ Answered(2)] by (auto simp: throttle_ok_def)
next
  case (Waits dt)
  then show ?thesis using assms(2) by (auto simp: throttle_ok_def intro!: gate_ok_steps(4))
qed

interpretation throttle_sys: invariant_system "\<lambda>s. options_ok opts \<and> s = initial_throttle opts" "throttle_step opts"
  "\<lambda>s. options_ok opts \<and> throttle_ok opts s" for opts
  by unfold_locales (auto simp: initial_throttle_ok intro: throttle_step_ok)

interpretation shared_sys: invariant_system "\<lambda>s. s = (0, initial_gate)" "shared_throttle ms"
  "\<lambda>(now, g). gate_ok (timer_delay ms) now g" for ms
proof
  show "case t of (now, g) \<Rightarrow> gate_ok (timer_delay ms) now g"
    if "case s of (now, g) \<Rightarrow> gate_ok (timer_delay ms) now g" "shared_throttle ms s t" for s t
    using that(2,1) by cases (auto intro: gate_ok_steps)
qed auto

section \<open>The request rate is bounded\<close>



section \<open>What the adaptation does not keep\<close>

lemma ten_successes:
  assumes "minIntervalMs opts < currentIntervalMs b" "successCount b = 0"
  shows "(handleSuccessResponse opts ^^ 10) b =
    b\<lparr>currentIntervalMs := max (currentIntervalMs b * (9 / 10)) (minIntervalMs opts)\<rparr>"
  using assms
  by (simp add: eval_nat_numeral handleSuccessResponse_def Let_def RECOVERY_THRESHOLD_def RECOVERY_FACTOR_def)

text \<open>
  The backfill budget starts at a multiple of the least interval, but recovery aims at the least
  interval itself: with the default weight, seventy answers without a 429 make backfill as fast as the tip.
\<close>

lemma backfill_weight_is_lost:
  assumes "0 < minIntervalMs opts" "tipWeightFactor opts = 2"
  shows "(handleSuccessResponse opts ^^ 70) (initial_budget opts Backfill) = initial_budget opts Tip"
proof -
  define m where "m = minIntervalMs opts"
  define B where "B = (\<lambda>i. \<lparr>currentIntervalMs = i, successCount = 0\<rparr>)"
  have step: "(handleSuccessResponse opts ^^ 10) (B i) = B (max (i * (9 / 10)) m)" if "m < i" for i
    using ten_successes [of opts "B i"] that by (simp add: B_def m_def)
  define g where "g = handleSuccessResponse opts ^^ 10"
  have step: "g (B i) = B (max (i * (9 / 10)) m)" if "m < i" for i
    unfolding g_def by (rule step [OF that])
  have "(handleSuccessResponse opts ^^ 70) b = (g ^^ 7) b" for b
    unfolding g_def by (simp add: funpow_mult)
  moreover have "(g ^^ 7) b = g (g (g (g (g (g (g b))))))" for b
    by (simp add: eval_nat_numeral)
  moreover have "0 < m" using assms(1) by (simp add: m_def)
  then have "g (B (2 * m)) = B (9 / 5 * m)" "g (B (9 / 5 * m)) = B (81 / 50 * m)"
    "g (B (81 / 50 * m)) = B (729 / 500 * m)" "g (B (729 / 500 * m)) = B (6561 / 5000 * m)"
    "g (B (6561 / 5000 * m)) = B (59049 / 50000 * m)" "g (B (59049 / 50000 * m)) = B (531441 / 500000 * m)"
    "g (B (531441 / 500000 * m)) = B m"
    by (simp_all add: step max_def)
  ultimately show ?thesis using assms by (simp add: initial_budget_def B_def m_def mult.commute)
qed

text \<open>A host that keeps answering 429 with a \<open>Retry-After\<close> is asked for ever, from the second time on its default budget.\<close>

lemma rate_limited_host_is_retried_forever:
  assumes "list_all (\<lambda>(now, a). \<exists>x h. a = Some x \<and> ha_status x = 429 \<and> retry_header x = Some h) answers"
  shows "fst (fetchJson opts date_parse p answers bs) = None
    \<and> map fst (fst (snd (fetchJson opts date_parse p answers bs))) = take (length answers) (p # replicate (length answers) Standard)"
  using assms
proof (induction answers arbitrary: p bs)
  case (Cons x answers)
  then obtain now a h where x: "x = (now, Some a)" "ha_status a = 429" "retry_header a = Some h" by auto
  then have no: "\<not> answer_ok a" by (simp add: answer_ok_def)
  define R where "R = fetchJson opts date_parse Standard answers (bs(p := handle_answer opts a (bs p)))"
  have "fetchJson opts date_parse p (x # answers) bs =
      (fst R, (p, parseRetryAfter date_parse now h) # fst (snd R), snd (snd R))"
    using x no by (simp add: R_def Let_def split_def)
  moreover have "take n (y # replicate n y) = replicate n y" for n and y :: purpose
    by (simp flip: replicate_Suc)
  moreover have "fst R = None \<and> map fst (fst (snd R)) = take (length answers) (Standard # replicate (length answers) Standard)"
    unfolding R_def using Cons.prems by (intro Cons.IH) simp
  ultimately show ?case by simp
qed simp

end
