(* ===== verification/Request_Memo.thy ===== *)
theory Request_Memo
  imports Js_Value "HOL-Library.List_Lexorder" "HOL-Library.Char_ord" "HOL-Library.Product_Lexorder"
begin

text \<open>
  \<open>graphql-server/src/requestMemo.ts\<close>: one execution per distinct query of a request. The key is the
  query's name with the canonical text of its arguments; the text determines the arguments up to the
  order of object keys, so two queries share a result exactly when they ask the same.
\<close>

section \<open>Arguments\<close>

text \<open>
  What a GraphQL argument can be. A number is given by its JSON text; an object lists its own
  properties, whose names are distinct.
\<close>

datatype arg_value =
    ANull
  | ABool bool
  | ANumber string
  | AString string
  | AList "arg_value list"
  | AObject "(string \<times> arg_value) list"

definition number_char :: "char \<Rightarrow> bool" where
  "number_char c = (is_digit c \<or> c \<in> {CHR ''-'', CHR ''+'', CHR ''.'', CHR ''e''})"

fun arg_ok :: "arg_value \<Rightarrow> bool" where
  "arg_ok (ANumber t) = (t \<noteq> [] \<and> list_all number_char t \<and> hd t \<noteq> CHR ''e'')"
| "arg_ok (AList xs) = list_all arg_ok xs"
| "arg_ok (AObject ps) = (distinct (map fst ps) \<and> list_all (\<lambda>(k, v). arg_ok v) ps)"
| "arg_ok v = True"

fun canonicalSerialize :: "arg_value \<Rightarrow> string" where
  "canonicalSerialize ANull = ''null''"
| "canonicalSerialize (ABool b) = bool_text b"
| "canonicalSerialize (ANumber t) = t"
| "canonicalSerialize (AString s) = quote s"
| "canonicalSerialize (AList xs) = ''['' @ join_with '','' (map canonicalSerialize xs) @ '']''"
| "canonicalSerialize (AObject ps) =
     ''{'' @ join_with '','' (map (\<lambda>(k, s). quote k @ '':'' @ s)
        (sort_key fst (map (\<lambda>(k, v). (k, canonicalSerialize v)) ps))) @ ''}''"

section \<open>Memoisation\<close>

type_synonym 'r memo = "string \<Rightarrow> 'r option"

definition memo_key :: "string \<Rightarrow> arg_value \<Rightarrow> string" where
  "memo_key queryName args = queryName @ '':'' @ canonicalSerialize args"

text \<open>
  \<open>execute\<close> is the promise a call of the thunk would return; without a memo it is called every time.
\<close>

definition memoizeRequestQuery :: "'r memo option \<Rightarrow> string \<Rightarrow> arg_value \<Rightarrow> 'r \<Rightarrow> 'r \<times> 'r memo option" where
  "memoizeRequestQuery queryMemo queryName args execute =
     (case queryMemo of
        None \<Rightarrow> (execute, None)
      | Some memo \<Rightarrow>
          (case memo (memo_key queryName args) of
             Some existing \<Rightarrow> (existing, queryMemo)
           | None \<Rightarrow> (execute, Some (memo(memo_key queryName args \<mapsto> execute)))))"

text \<open>The queries of a document in the order their resolvers run; \<open>execs\<close> is what each would start.\<close>

fun run_queries :: "(nat \<Rightarrow> 'r) \<Rightarrow> nat \<Rightarrow> (string \<times> arg_value) list \<Rightarrow> 'r memo option \<Rightarrow> 'r list" where
  "run_queries execs i [] memo = []"
| "run_queries execs i ((name, args) # calls) memo =
     (let (r, memo1) = memoizeRequestQuery memo name args (execs i)
      in r # run_queries execs (Suc i) calls memo1)"

section \<open>Quoted strings decode\<close>

definition hex_val :: "char \<Rightarrow> nat" where
  "hex_val c = (if is_digit c then digit_val c else char_code c - 87)"

fun unescape :: "string \<Rightarrow> (char \<times> string) option" where
  "unescape [] = None"
| "unescape (c # s) =
     (if c \<noteq> CHR 0x5C then Some (c, s)
      else (case s of
              [] \<Rightarrow> None
            | d # r \<Rightarrow>
                if d = CHR ''u''
                then (case r of _ # _ # h # l # r' \<Rightarrow> Some (char_of (16 * hex_val h + hex_val l), r') | _ \<Rightarrow> None)
                else Some (if d = CHR ''b'' then char_of (8 :: nat) else if d = CHR ''t'' then char_of (9 :: nat)
                           else if d = CHR ''n'' then char_of (10 :: nat) else if d = CHR ''f'' then char_of (12 :: nat)
                           else if d = CHR ''r'' then char_of (13 :: nat) else d, r)))"

lemma hex_digit:
  assumes "m < 16"
  shows "hex_val (if m < 10 then digit_char m else char_of (87 + m)) = m"
proof (cases "m < 10")
  case False
  with assms have "char_code (char_of (87 + m)) = 87 + m" by (simp add: char_code_def)
  with False show ?thesis by (simp add: hex_val_def is_digit_def)
qed (simp add: hex_val_def)

lemma unescape_escape: "unescape (escape_char c @ x) = Some (c, x)"
proof (cases "char_code c < 32")
  case False
  then show ?thesis by (auto simp: escape_char_def Let_def)
next
  case True
  define n where "n = char_code c"
  have c: "c = char_of n" by (simp add: n_def char_code_def)
  consider "n = 8" | "n = 9" | "n = 10" | "n = 12" | "n = 13" | "n \<notin> {8, 9, 10, 12, 13}" by blast
  then show ?thesis
  proof cases
    case 6
    have "c \<noteq> CHR 0x22" "c \<noteq> CHR 0x5C" using True by (auto simp: char_code_def)
    then have e: "escape_char c = CHR 0x5C # ''u00'' @ [if n < 16 then CHR ''0'' else CHR ''1'',
         if n mod 16 < 10 then digit_char (n mod 16) else char_of (87 + n mod 16)]"
      using 6 True by (simp add: escape_char_def Let_def n_def)
    have "hex_val (if n < 16 then CHR ''0'' else CHR ''1'') = n div 16"
      using True by (auto simp: hex_val_def is_digit_def digit_val_def char_code_def n_def)
    then have "16 * hex_val (if n < 16 then CHR ''0'' else CHR ''1'')
        + hex_val (if n mod 16 < 10 then digit_char (n mod 16) else char_of (87 + n mod 16)) = n"
      using hex_digit [of "n mod 16"] by simp
    moreover have "unescape (CHR 0x5C # CHR ''u'' # CHR ''0'' # CHR ''0'' # h # l # x) = Some (char_of (16 * hex_val h + hex_val l), x)" for h l
      by simp
    ultimately show ?thesis unfolding e by (simp only: append.simps c)
  qed (simp_all add: escape_char_def Let_def c char_code_def)
qed

lemma escape_start: "escape_char c @ x \<noteq> CHR 0x22 # y" "CHR 0x22 # y \<noteq> escape_char c @ x"
  by (auto simp: escape_char_def Let_def)

lemma escaped_inj:
  "concat (map escape_char a) @ CHR 0x22 # s = concat (map escape_char b) @ CHR 0x22 # t \<Longrightarrow> a = b \<and> s = t"
proof (induction a arbitrary: b)
  case Nil
  then show ?case by (cases b) (simp_all add: escape_start)
next
  case (Cons c a)
  show ?case
  proof (cases b)
    case Nil
    with Cons.prems show ?thesis by (simp add: escape_start)
  next
    case (Cons d b')
    with Cons.prems have e: "escape_char c @ (concat (map escape_char a) @ CHR 0x22 # s) =
        escape_char d @ (concat (map escape_char b') @ CHR 0x22 # t)" by simp
    from arg_cong [OF e, of unescape] have "c = d" "concat (map escape_char a) @ CHR 0x22 # s = concat (map escape_char b') @ CHR 0x22 # t"
      by (simp_all only: unescape_escape option.inject prod.inject)
    with Cons.IH [of b'] Cons show ?thesis by simp
  qed
qed

lemma quote_inj: "quote a @ s = quote b @ t \<Longrightarrow> a = b \<and> s = t"
  using escaped_inj [of a s b t] by (simp add: quote_def)

section \<open>The text determines the arguments\<close>

text \<open>The arguments with the keys of every object sorted.\<close>

fun canonical :: "arg_value \<Rightarrow> arg_value" where
  "canonical (AList xs) = AList (map canonical xs)"
| "canonical (AObject ps) = AObject (sort_key fst (map (\<lambda>(k, v). (k, canonical v)) ps))"
| "canonical v = v"

text \<open>Printing without sorting.\<close>

fun arg_text :: "arg_value \<Rightarrow> string" where
  "arg_text ANull = ''null''"
| "arg_text (ABool b) = bool_text b"
| "arg_text (ANumber t) = t"
| "arg_text (AString s) = quote s"
| "arg_text (AList xs) = ''['' @ join_with '','' (map arg_text xs) @ '']''"
| "arg_text (AObject ps) = ''{'' @ join_with '','' (map (\<lambda>(k, v). quote k @ '':'' @ arg_text v) ps) @ ''}''"

lemma insort_key_snd: "insort_key fst (fst x, f (snd x)) (map (\<lambda>(k, v). (k, f v)) ps) = map (\<lambda>(k, v). (k, f v)) (insort_key fst x ps)"
  by (induction ps) (auto simp: split_def)

lemma sort_key_snd: "sort_key fst (map (\<lambda>(k, v). (k, f v)) ps) = map (\<lambda>(k, v). (k, f v)) (sort_key fst ps)"
proof (induction ps)
  case (Cons p ps)
  then show ?case using insort_key_snd [of p f] by (cases p) simp
qed simp

lemma canonicalSerialize_text: "canonicalSerialize v = arg_text (canonical v)"
proof (induction v)
  case (AList xs)
  then show ?case by (simp add: comp_def cong: map_cong)
next
  case (AObject ps)
  have "map (\<lambda>(k, v). (k, canonicalSerialize v)) ps = map (\<lambda>(k, v). (k, arg_text v)) (map (\<lambda>(k, v). (k, canonical v)) ps)"
    using AObject by (auto simp: comp_def split_def)
  then show ?case by (simp only: canonicalSerialize.simps canonical.simps arg_text.simps sort_key_snd)
      (simp add: comp_def split_def)
qed simp_all

text \<open>Where a value's text ends: before a delimiter, or at the end.\<close>

definition delimited :: "string \<Rightarrow> bool" where
  "delimited s = (s = [] \<or> hd s \<in> {CHR '','', CHR '']'', CHR ''}''})"

definition value_start :: "string \<Rightarrow> bool" where
  "value_start s = (s \<noteq> [] \<and> \<not> delimited s)"

lemma join_inj:
  assumes inj: "\<And>x y s t. x \<in> set xs \<Longrightarrow> ok y \<Longrightarrow> delimited s \<Longrightarrow> delimited t \<Longrightarrow> f x @ s = f y @ t \<Longrightarrow> x = y \<and> s = t"
    and start: "\<And>x. ok x \<Longrightarrow> value_start (f x)"
    and close: "c \<in> {CHR '']'', CHR ''}''}"
  shows "list_all ok xs \<Longrightarrow> list_all ok ys \<Longrightarrow>
    join_with '','' (map f xs) @ c # s = join_with '','' (map f ys) @ c # t \<Longrightarrow> xs = ys \<and> s = t"
  using inj
proof (induction xs arbitrary: ys)
  case Nil
  then show ?case using start close
    by (cases ys rule: remdups_adj.cases) (fastforce simp: value_start_def delimited_def neq_Nil_conv)+
next
  case (Cons x xs)
  have tail: "join_with '','' (map f (z # zs)) @ c # u = f z @ (if zs = [] then c # u else '','' @ join_with '','' (map f zs) @ c # u)" for z zs u
    by (cases zs) simp_all
  have d: "delimited (if zs = [] then c # u else '','' @ join_with '','' (map f zs) @ c # u)" for zs :: "'a list" and u
    using close by (auto simp: delimited_def)
  show ?case
  proof (cases ys)
    case Nil
    then show ?thesis using Cons.prems(1,3) start [of x] close tail [of x xs s]
      by (auto simp: value_start_def delimited_def neq_Nil_conv)
  next
    case (Cons y ys')
    have e: "f x @ (if xs = [] then c # s else '','' @ join_with '','' (map f xs) @ c # s)
        = f y @ (if ys' = [] then c # t else '','' @ join_with '','' (map f ys') @ c # t)"
      using Cons.prems(3) unfolding Cons tail .
    have "x = y \<and> (if xs = [] then c # s else '','' @ join_with '','' (map f xs) @ c # s)
        = (if ys' = [] then c # t else '','' @ join_with '','' (map f ys') @ c # t)"
      using Cons.prems(4) [OF _ _ d d e] Cons.prems(2) Cons by simp
    then have "x = y" and r: "join_with '','' (map f xs) @ c # s = join_with '','' (map f ys') @ c # t"
      using close by (auto split: if_splits)
    moreover have "xs = ys' \<and> s = t"
      by (rule Cons.IH [OF _ _ r]) (use Cons.prems Cons in auto)
    ultimately show ?thesis using Cons by simp
  qed
qed

lemma number_first:
  assumes "arg_ok (ANumber t)"
  obtains c cs where "t = c # cs" "number_char c" "c \<noteq> CHR ''e''"
  using assms by (cases t) auto

lemma not_number_char:
  "\<not> number_char (CHR '','')" "\<not> number_char (CHR '']'')" "\<not> number_char (CHR ''}'')" "\<not> number_char (CHR ''n'')"
  "\<not> number_char (CHR ''t'')" "\<not> number_char (CHR ''f'')" "\<not> number_char (CHR 0x22)" "\<not> number_char (CHR ''['')"
  "\<not> number_char (CHR ''{'')"
  by (auto simp: number_char_def is_digit_def char_code_def)

lemma arg_text_start: "arg_ok v \<Longrightarrow> value_start (arg_text v)"
proof (cases v)
  case (ANumber t)
  assume "arg_ok v"
  with ANumber obtain c cs where "t = c # cs" "number_char c" by (metis number_first)
  with ANumber show ?thesis
    using not_number_char by (auto simp: value_start_def delimited_def)
qed (auto simp: value_start_def delimited_def bool_text_def quote_def)

lemma number_text_inj:
  assumes "list_all number_char a" "list_all number_char b" "delimited s" "delimited t" "a @ s = b @ t"
  shows "a = b \<and> s = t"
proof -
  have "takeWhile number_char (x @ u) = x" if "list_all number_char x" "delimited u" for x u
  proof -
    have "takeWhile number_char u = []"
      using that(2) not_number_char by (cases u) (auto simp: delimited_def)
    then show ?thesis using that(1) by (simp add: list_all_iff takeWhile_append)
  qed
  with assms have "a = b" by metis
  with assms show ?thesis by simp
qed

text \<open>The first character tells the constructors apart.\<close>

fun arg_kind :: "arg_value \<Rightarrow> nat" where
  "arg_kind ANull = 0"
| "arg_kind (ABool b) = (if b then 1 else 2)"
| "arg_kind (ANumber t) = 3"
| "arg_kind (AString s) = 4"
| "arg_kind (AList xs) = 5"
| "arg_kind (AObject ps) = 6"

definition kind_of_char :: "char \<Rightarrow> nat" where
  "kind_of_char c = (if number_char c then 3 else if c = CHR ''n'' then 0 else if c = CHR ''t'' then 1
     else if c = CHR ''f'' then 2 else if c = CHR 0x22 then 4 else if c = CHR ''['' then 5 else 6)"

lemma kind_of_text: "arg_ok v \<Longrightarrow> kind_of_char (hd (arg_text v @ s)) = arg_kind v"
proof (cases v)
  case (ANumber t)
  assume "arg_ok v"
  with ANumber obtain c cs where "t = c # cs" "number_char c" by (metis number_first)
  with ANumber show ?thesis by (simp add: kind_of_char_def)
qed (auto simp: kind_of_char_def bool_text_def quote_def not_number_char)

lemma arg_text_inj:
  "arg_ok v \<Longrightarrow> arg_ok w \<Longrightarrow> delimited s \<Longrightarrow> delimited t \<Longrightarrow> arg_text v @ s = arg_text w @ t \<Longrightarrow> v = w \<and> s = t"
proof (induction v arbitrary: w s t)
  case (ANumber a)
  then have "arg_kind w = 3" using kind_of_text [of "ANumber a" s] kind_of_text [of w t] by simp
  then obtain b where "w = ANumber b" by (cases w) (auto split: if_splits)
  with ANumber number_text_inj [of a b s t] show ?case by simp
next
  case (AString a)
  then have "arg_kind w = 4" using kind_of_text [of "AString a" s] kind_of_text [of w t] by simp
  then obtain b where "w = AString b" by (cases w) (auto split: if_splits)
  with AString quote_inj [of a s b t] show ?case by simp
next
  case (AList xs)
  then have "arg_kind w = 5" using kind_of_text [of "AList xs" s] kind_of_text [of w t] by simp
  then obtain ys where w: "w = AList ys" by (cases w) (auto split: if_splits)
  have "xs = ys \<and> s = t"
  proof (rule join_inj [where ok = arg_ok and f = arg_text and c = "CHR '']''"])
    show "join_with '','' (map arg_text xs) @ CHR '']'' # s = join_with '','' (map arg_text ys) @ CHR '']'' # t"
      using AList.prems(5) w by simp
  qed (use AList w in \<open>auto simp: arg_text_start list_all_iff\<close>)
  with w show ?case by simp
next
  case (AObject ps)
  then have "arg_kind w = 6" using kind_of_text [of "AObject ps" s] kind_of_text [of w t] by simp
  then obtain qs where w: "w = AObject qs" by (cases w) (auto split: if_splits)
  define f where "f = (\<lambda>(k, v). quote k @ '':'' @ arg_text v)"
  have "ps = qs \<and> s = t"
  proof (rule join_inj [where ok = "\<lambda>(k, v). arg_ok v" and f = f and c = "CHR ''}''"])
    show "join_with '','' (map f ps) @ CHR ''}'' # s = join_with '','' (map f qs) @ CHR ''}'' # t"
      using AObject.prems(5) w by (simp add: f_def)
    show "value_start (f x)" for x
      by (cases x) (simp add: f_def value_start_def delimited_def quote_def)
    show "x = y \<and> u = u'"
      if x: "x \<in> set ps" "case y of (k, v) \<Rightarrow> arg_ok v" "delimited u" "delimited u'" "f x @ u = f y @ u'" for x y u u'
    proof -
      obtain k v l z where xy: "x = (k, v)" "y = (l, z)" by (cases x; cases y)
      with x(5) have "quote k @ ('':'' @ arg_text v @ u) = quote l @ ('':'' @ arg_text z @ u')" by (simp add: f_def)
      then have kl: "k = l" "arg_text v @ u = arg_text z @ u'" by (auto dest: quote_inj)
      have "arg_ok v" using AObject.prems(1) x(1) xy by (auto simp: list_all_iff)
      then have "v = z \<and> u = u'"
        using AObject.IH [OF x(1), of v z u u'] xy x kl by simp
      with xy kl show ?thesis by simp
    qed
  qed (use AObject w in auto)
  with w show ?case by simp
next
  case ANull
  then have "arg_kind w = 0" using kind_of_text [of ANull s] kind_of_text [of w t] by simp
  with ANull show ?case by (cases w) (auto split: if_splits)
next
  case (ABool b)
  then have "arg_kind w = (if b then 1 else 2)" using kind_of_text [of "ABool b" s] kind_of_text [of w t] by simp
  then have "w = ABool b" by (cases w) (auto split: if_splits)
  with ABool show ?case by simp
qed

lemma canonical_ok: "arg_ok v \<Longrightarrow> arg_ok (canonical v)"
proof (induction v)
  case (AObject ps)
  have "map fst (map (\<lambda>(k, v). (k, canonical v)) ps) = map fst ps" by (simp add: comp_def split_def)
  with AObject show ?case
    by (auto simp: list_all_iff distinct_map inj_on_def split_def) 
qed (auto simp: list_all_iff)

lemma canonicalSerialize_inj:
  "arg_ok v \<Longrightarrow> arg_ok w \<Longrightarrow> canonicalSerialize v = canonicalSerialize w \<longleftrightarrow> canonical v = canonical w"
  using arg_text_inj [OF canonical_ok canonical_ok, of v w "[]" "[]"]
  by (auto simp: canonicalSerialize_text delimited_def)

section \<open>Memoisation is transparent\<close>

text \<open>Two calls ask the same: the same query with the same arguments, object keys in any order.\<close>

definition same_query :: "string \<times> arg_value \<Rightarrow> string \<times> arg_value \<Rightarrow> bool" where
  "same_query c d = (fst c = fst d \<and> canonical (snd c) = canonical (snd d))"

definition call_ok :: "string \<times> arg_value \<Rightarrow> bool" where
  "call_ok c = (CHR '':'' \<notin> set (fst c) \<and> arg_ok (snd c))"

lemma memo_key_inj:
  assumes "call_ok (n, a)" "call_ok (m, b)"
  shows "memo_key n a = memo_key m b \<longleftrightarrow> same_query (n, a) (m, b)"
proof -
  have until: "takeWhile (\<lambda>c. c \<noteq> CHR '':'') (x @ CHR '':'' # y) = x" if "CHR '':'' \<notin> set x" for x y
    using that by (induction x) auto
  have "n = m" if e: "memo_key n a = memo_key m b"
  proof -
    have "n @ CHR '':'' # canonicalSerialize a = m @ CHR '':'' # canonicalSerialize b" using e by (simp add: memo_key_def)
    then show ?thesis
      using until [of n "canonicalSerialize a"] until [of m "canonicalSerialize b"] assms by (simp add: call_ok_def)
  qed
  then show ?thesis
    using canonicalSerialize_inj [of a b] assms by (auto simp: memo_key_def same_query_def call_ok_def)
qed

text \<open>The first call that asks the same.\<close>

definition first_same :: "(string \<times> arg_value) list \<Rightarrow> nat \<Rightarrow> nat" where
  "first_same calls i = hd (filter (\<lambda>j. same_query (calls ! j) (calls ! i)) [0..<Suc i])"

definition memo_holds :: "(nat \<Rightarrow> 'r) \<Rightarrow> (string \<times> arg_value) list \<Rightarrow> 'r memo \<Rightarrow> bool" where
  "memo_holds execs past memo \<longleftrightarrow>
     (\<forall>c. call_ok c \<longrightarrow> memo (memo_key (fst c) (snd c)) =
        (case filter (\<lambda>j. same_query (past ! j) c) [0..<length past] of [] \<Rightarrow> None | j # _ \<Rightarrow> Some (execs j)))"

lemma filter_snoc_calls:
  "filter (\<lambda>j. same_query ((past @ [x]) ! j) c) [0..<length (past @ [x])] =
   filter (\<lambda>j. same_query (past ! j) c) [0..<length past] @ (if same_query x c then [length past] else [])"
proof -
  have "filter (\<lambda>j. same_query ((past @ [x]) ! j) c) [0..<length past] = filter (\<lambda>j. same_query (past ! j) c) [0..<length past]"
    by (rule filter_cong) (auto simp: nth_append)
  then show ?thesis by simp
qed

lemma same_query_sym: "same_query c d = same_query d c"
  by (auto simp: same_query_def)

lemma same_query_cong: "same_query c d \<Longrightarrow> same_query x c = same_query x d"
  by (auto simp: same_query_def)

lemma run_queries_results:
  assumes "list_all call_ok (past @ calls)" "memo_holds execs past memo"
  shows "run_queries execs (length past) calls (Some memo) =
    map (\<lambda>i. execs (first_same (past @ calls) i)) [length past..<length (past @ calls)]"
  using assms
proof (induction calls arbitrary: past memo)
  case (Cons x calls)
  obtain n a where x: "x = (n, a)" by (cases x)
  then have ok: "call_ok (n, a)" using Cons.prems(1) by simp
  define js where "js = filter (\<lambda>j. same_query (past ! j) (n, a)) [0..<length past]"
  have look: "memo (memo_key n a) = (case js of [] \<Rightarrow> None | j # _ \<Rightarrow> Some (execs j))"
    using Cons.prems(2) ok by (auto simp: memo_holds_def js_def)
  have first: "first_same (past @ x # calls) (length past) = hd (js @ [length past])"
  proof -
    have "filter (\<lambda>j. same_query ((past @ x # calls) ! j) ((past @ x # calls) ! length past)) [0..<Suc (length past)] = js @ [length past]"
      using filter_cong [OF refl, of "[0..<length past]" "\<lambda>j. same_query ((past @ x # calls) ! j) x" "\<lambda>j. same_query (past ! j) x"]
      by (simp add: js_def x nth_append same_query_def)
    then show ?thesis unfolding first_same_def by simp
  qed
  define r where "r = execs (hd (js @ [length past]))"
  define memo1 where "memo1 = (if js = [] then memo(memo_key n a \<mapsto> execs (length past)) else memo)"
  have step: "memoizeRequestQuery (Some memo) n a (execs (length past)) = (r, Some memo1)"
    by (simp add: memoizeRequestQuery_def look r_def memo1_def split: list.splits)
  have "memo_holds execs (past @ [x]) memo1"
    unfolding memo_holds_def
  proof (intro allI impI)
    fix c assume c: "call_ok c"
    have same: "same_query x c = (memo_key n a = memo_key (fst c) (snd c))"
      using memo_key_inj [OF ok, of "fst c" "snd c"] c x by simp
    have old: "memo (memo_key (fst c) (snd c)) = (case filter (\<lambda>j. same_query (past ! j) c) [0..<length past] of [] \<Rightarrow> None | j # _ \<Rightarrow> Some (execs j))"
      using Cons.prems(2) c by (simp add: memo_holds_def)
    have "filter (\<lambda>j. same_query (past ! j) c) [0..<length past] = js" if "same_query x c"
      unfolding js_def using same_query_cong [OF that] x by simp
    then show "memo1 (memo_key (fst c) (snd c)) = (case filter (\<lambda>j. same_query ((past @ [x]) ! j) c) [0..<length (past @ [x])] of
        [] \<Rightarrow> None | j # _ \<Rightarrow> Some (execs j))"
      using old same unfolding filter_snoc_calls memo1_def by (auto split: list.splits)
  qed
  then have "run_queries execs (length (past @ [x])) calls (Some memo1) =
      map (\<lambda>i. execs (first_same ((past @ [x]) @ calls) i)) [length (past @ [x])..<length ((past @ [x]) @ calls)]"
    by (intro Cons.IH) (use Cons.prems(1) in simp_all)
  then have rest: "run_queries execs (Suc (length past)) calls (Some memo1) =
      map (\<lambda>i. execs (first_same (past @ x # calls) i)) [Suc (length past)..<length (past @ x # calls)]"
    by (simp only: append_assoc append.simps length_append_singleton)
  have upt: "[length past..<length (past @ x # calls)] = length past # [Suc (length past)..<length (past @ x # calls)]"
    by (rule upt_conv_Cons) simp
  have "run_queries execs (length past) (x # calls) (Some memo) = r # run_queries execs (Suc (length past)) calls (Some memo1)"
    by (simp add: x step)
  then show ?case
    by (simp only: rest upt list.map first r_def)
qed simp

lemma first_same_in: "first_same calls k < Suc k \<and> same_query (calls ! first_same calls k) (calls ! k)"
proof -
  define f where "f = filter (\<lambda>j. same_query (calls ! j) (calls ! k)) [0..<Suc k]"
  have "k \<in> set f" by (simp add: f_def same_query_def)
  then have "hd f \<in> set f" by (intro hd_in_set) auto
  moreover have "set f = {j. j < Suc k \<and> same_query (calls ! j) (calls ! k)}"
    by (simp only: f_def set_filter set_upt) auto
  ultimately show ?thesis unfolding first_same_def f_def [symmetric] by simp
qed

lemma first_same_eq:
  assumes "same_query (calls ! i) (calls ! j)" "i \<le> j"
  shows "first_same calls i = first_same calls j"
proof -
  define P where "P = (\<lambda>l. same_query (calls ! l) (calls ! j))"
  have "P i" using assms(1) by (simp add: P_def)
  then have "filter P [0..<Suc i] \<noteq> []" by (auto simp: filter_empty_conv)
  moreover have "[0..<Suc j] = [0..<Suc i] @ [Suc i..<Suc j]"
    using upt_add_eq_append [of 0 "Suc i" "j - i"] assms(2) by simp
  ultimately have "hd (filter P [0..<Suc j]) = hd (filter P [0..<Suc i])" by (metis filter_append hd_append2)
  moreover have "(\<lambda>l. same_query (calls ! l) (calls ! i)) = P"
    using same_query_cong [OF assms(1)] by (simp add: P_def)
  ultimately show ?thesis by (simp only: first_same_def P_def)
qed

text \<open>
  C20: in a request with a memo, the answer to every query is the execution started by the first query of
  the request with the same name and the same arguments (object keys in any order), and never that of
  another; so each distinct query is executed once.
\<close>

theorem memo_never_mixes_queries:
  assumes "list_all call_ok calls"
  shows "run_queries execs 0 calls (Some (\<lambda>_. None)) = map (\<lambda>i. execs (first_same calls i)) [0..<length calls]
    \<and> list_all (\<lambda>i. first_same calls i \<le> i \<and> same_query (calls ! first_same calls i) (calls ! i)) [0..<length calls]
    \<and> (i < length calls \<and> j < length calls \<longrightarrow>
         (first_same calls i = first_same calls j) = same_query (calls ! i) (calls ! j))"
proof -
  have first: "first_same calls k \<le> k \<and> same_query (calls ! first_same calls k) (calls ! k)" for k
    using first_same_in [of calls k] by simp
  have "run_queries execs 0 calls (Some (\<lambda>_. None)) = map (\<lambda>i. execs (first_same calls i)) [0..<length calls]"
    using run_queries_results [of "[]" calls execs "\<lambda>_. None"] assms by (simp add: memo_holds_def)
  moreover have "(first_same calls i = first_same calls j) = same_query (calls ! i) (calls ! j)"
  proof
    assume "first_same calls i = first_same calls j"
    with first [of i] first [of j] show "same_query (calls ! i) (calls ! j)" by (simp add: same_query_def)
  next
    assume s: "same_query (calls ! i) (calls ! j)"
    show "first_same calls i = first_same calls j"
    proof (cases "i \<le> j")
      case False
      with s show ?thesis using first_same_eq [of calls j i] same_query_sym [of "calls ! i" "calls ! j"] by simp
    qed (rule first_same_eq [OF s])
  qed
  ultimately show ?thesis using first by (simp add: list_all_iff)
qed

theorem memo_never_mixes_queries_witness:
  defines "calls \<equiv> [(''ledger'', AObject [(''a'', ANumber ''1''), (''b'', ANull)]), (''ledger'', AObject []),
      (''ledger'', AObject [(''b'', ANull), (''a'', ANumber ''1'')])]"
  shows "run_queries (\<lambda>i. i) 0 calls (Some (\<lambda>_. None)) = [0, 1, 0]"
proof -
  have "list_all call_ok calls" unfolding calls_def by code_simp
  then have "run_queries (\<lambda>i. i) 0 calls (Some (\<lambda>_. None)) = map (first_same calls) [0..<length calls]"
    using memo_never_mixes_queries [of calls "\<lambda>i. i" 0 0] by simp
  also have "map (first_same calls) [0..<length calls] = [0, 1, 0]" unfolding calls_def by code_simp
  finally show ?thesis .
qed

end
