(* ===== verification/Effect_Details.thy ===== *)
theory Effect_Details
  imports Op_Fields
begin

text \<open>
  \<open>graphql-server/src/effects.ts\<close>: the typed details of an effect, from the fields Horizon gave it, which
  the indexer stores as JSON. The listing of effects is in \<open>Server_Lists\<close>.
\<close>

section \<open>Effect types\<close>

datatype effect_kind =
    AccountCreated
  | AccountBalance
  | ContractBalance
  | AccountThresholds
  | AccountHomeDomain
  | AccountFlags
  | Signer
  | Trustline
  | TrustlineAuthorization
  | Trade
  | Data
  | SequenceBumped
  | ClaimableBalance
  | Sponsorship
  | LiquidityPool

definition kind_name :: "effect_kind \<Rightarrow> string" where
  "kind_name k =
     (case k of
        AccountCreated \<Rightarrow> ''AccountCreatedEffectDetails''
      | AccountBalance \<Rightarrow> ''AccountBalanceEffectDetails''
      | ContractBalance \<Rightarrow> ''ContractBalanceEffectDetails''
      | AccountThresholds \<Rightarrow> ''AccountThresholdsEffectDetails''
      | AccountHomeDomain \<Rightarrow> ''AccountHomeDomainEffectDetails''
      | AccountFlags \<Rightarrow> ''AccountFlagsEffectDetails''
      | Signer \<Rightarrow> ''SignerEffectDetails''
      | Trustline \<Rightarrow> ''TrustlineEffectDetails''
      | TrustlineAuthorization \<Rightarrow> ''TrustlineAuthorizationEffectDetails''
      | Trade \<Rightarrow> ''TradeEffectDetails''
      | Data \<Rightarrow> ''DataEffectDetails''
      | SequenceBumped \<Rightarrow> ''SequenceBumpedEffectDetails''
      | ClaimableBalance \<Rightarrow> ''ClaimableBalanceEffectDetails''
      | Sponsorship \<Rightarrow> ''SponsorshipEffectDetails''
      | LiquidityPool \<Rightarrow> ''LiquidityPoolEffectDetails'')"

definition EFFECT_TYPES :: "(string \<times> effect_kind option) list" where
  "EFFECT_TYPES =
     [(''account_created'', Some AccountCreated), (''account_removed'', None),
      (''account_credited'', Some AccountBalance), (''account_debited'', Some AccountBalance),
      (''account_thresholds_updated'', Some AccountThresholds),
      (''account_home_domain_updated'', Some AccountHomeDomain),
      (''account_flags_updated'', Some AccountFlags), (''account_inflation_destination_updated'', None),
      (''signer_created'', Some Signer), (''signer_removed'', Some Signer), (''signer_updated'', Some Signer),
      (''trustline_created'', Some Trustline), (''trustline_removed'', Some Trustline),
      (''trustline_updated'', Some Trustline), (''trustline_authorized'', Some TrustlineAuthorization),
      (''trustline_deauthorized'', Some TrustlineAuthorization),
      (''trustline_authorized_to_maintain_liabilities'', Some TrustlineAuthorization),
      (''trustline_flags_updated'', Some TrustlineAuthorization), (''offer_created'', None),
      (''offer_removed'', None), (''offer_updated'', None), (''trade'', Some Trade),
      (''data_created'', Some Data), (''data_removed'', Some Data), (''data_updated'', Some Data),
      (''sequence_bumped'', Some SequenceBumped), (''claimable_balance_created'', Some ClaimableBalance),
      (''claimable_balance_claimant_created'', Some ClaimableBalance),
      (''claimable_balance_claimed'', Some ClaimableBalance),
      (''claimable_balance_clawed_back'', Some ClaimableBalance),
      (''account_sponsorship_created'', Some Sponsorship), (''account_sponsorship_updated'', Some Sponsorship),
      (''account_sponsorship_removed'', Some Sponsorship),
      (''trustline_sponsorship_created'', Some Sponsorship),
      (''trustline_sponsorship_updated'', Some Sponsorship),
      (''trustline_sponsorship_removed'', Some Sponsorship), (''data_sponsorship_created'', Some Sponsorship),
      (''data_sponsorship_updated'', Some Sponsorship), (''data_sponsorship_removed'', Some Sponsorship),
      (''claimable_balance_sponsorship_created'', Some Sponsorship),
      (''claimable_balance_sponsorship_updated'', Some Sponsorship),
      (''claimable_balance_sponsorship_removed'', Some Sponsorship),
      (''signer_sponsorship_created'', Some Sponsorship), (''signer_sponsorship_updated'', Some Sponsorship),
      (''signer_sponsorship_removed'', Some Sponsorship), (''liquidity_pool_deposited'', Some LiquidityPool),
      (''liquidity_pool_withdrew'', Some LiquidityPool), (''liquidity_pool_trade'', Some LiquidityPool),
      (''liquidity_pool_created'', Some LiquidityPool), (''liquidity_pool_removed'', Some LiquidityPool),
      (''liquidity_pool_revoked'', Some LiquidityPool), (''contract_credited'', Some ContractBalance),
      (''contract_debited'', Some ContractBalance)]"

section \<open>Reading fields\<close>

text \<open>Numbers print as \<open>String\<close> prints them; a numeral is read exactly, as \<open>Number\<close> reads it below \<open>2 ^ 53\<close>.\<close>

definition str_field :: "jsval \<Rightarrow> jsval" where
  "str_field v = (case v of JStr s \<Rightarrow> JStr s | JInt i \<Rightarrow> JStr (js_text v) | JNum t fin w \<Rightarrow> JStr (js_text v)
     | JBig i \<Rightarrow> JStr (js_text v) | _ \<Rightarrow> JNull)"

definition int_field :: "jsval \<Rightarrow> jsval" where
  "int_field v = (case v of JInt i \<Rightarrow> v
     | JNum t fin w \<Rightarrow> (if w = None then JNull else v)
     | JStr s \<Rightarrow> (let ds = (if take 1 s = ''-'' then drop 1 s else s)
                 in if ds \<noteq> [] \<and> list_all is_digit ds
                    then JInt (if take 1 s = ''-'' then - int (nat_of_digits ds) else int (nat_of_digits ds))
                    else JNull)
     | _ \<Rightarrow> JNull)"

definition bool_field :: "jsval \<Rightarrow> jsval" where
  "bool_field v = (case v of JBool b \<Rightarrow> v | _ \<Rightarrow> JNull)"

definition tripletAsset :: "jsval \<Rightarrow> string \<Rightarrow> string option \<Rightarrow> jsval" where
  "tripletAsset raw prefix issuerFallback =
     (let type = str_field (get_member raw (prefix @ ''asset_type''));
          code = str_field (get_member raw (prefix @ ''asset_code''));
          issuer = coalesce (str_field (get_member raw (prefix @ ''asset_issuer'')))
            (case issuerFallback of Some a \<Rightarrow> JStr a | None \<Rightarrow> JNull)
      in if \<not> js_truthy type then JNull
         else if type = JStr ''native'' then JStr ''XLM''
         else if js_truthy code \<and> js_truthy issuer then JStr (js_text code @ '':'' @ js_text issuer)
         else JNull)"

definition canonicalAsset :: "jsval \<Rightarrow> jsval" where
  "canonicalAsset v =
     (let asset = str_field v
      in if \<not> js_truthy asset then JNull else if asset = JStr ''native'' then JStr ''XLM'' else asset)"

definition is_object :: "jsval \<Rightarrow> bool" where
  "is_object v = (case v of JObj ps \<Rightarrow> True | JArr xs \<Rightarrow> True | JBytes bs \<Rightarrow> True | _ \<Rightarrow> False)"

definition assetAmount_of :: "jsval \<Rightarrow> jsval" where
  "assetAmount_of entry =
     JObj [(''asset'', canonicalAsset (get_member entry ''asset'')),
           (''amount'', str_field (get_member entry ''amount'')),
           (''claimableBalanceId'', str_field (get_member entry ''claimable_balance_id''))]"

definition assetAmounts :: "jsval \<Rightarrow> jsval" where
  "assetAmounts v =
     (case v of JArr xs \<Rightarrow> JArr (map assetAmount_of (filter is_object xs)) | _ \<Rightarrow> JNull)"

definition assetAmount :: "jsval \<Rightarrow> jsval" where
  "assetAmount v = (if is_object v then assetAmount_of v else JNull)"

section \<open>The details\<close>

definition implied_authorization :: "string \<rightharpoonup> bool" where
  "implied_authorization = [''trustline_authorized'' \<mapsto> True, ''trustline_deauthorized'' \<mapsto> False]"

text \<open>The fields of each kind, from the details \<open>d\<close> of an effect of the account.\<close>

definition detail_fields :: "effect_kind \<Rightarrow> string \<Rightarrow> jsval \<Rightarrow> string \<Rightarrow> (string \<times> jsval) list" where
  "detail_fields kind type d account =
     (let s = (\<lambda>name. str_field (get_member d name));
          i = (\<lambda>name. int_field (get_member d name));
          b = (\<lambda>name. bool_field (get_member d name))
      in case kind of
        AccountCreated \<Rightarrow> [(''startingBalance'', s ''starting_balance'')]
      | AccountBalance \<Rightarrow> [(''amount'', s ''amount''), (''asset'', tripletAsset d [] None)]
      | ContractBalance \<Rightarrow>
          [(''contract'', s ''contract''), (''amount'', s ''amount''), (''asset'', tripletAsset d [] None)]
      | AccountThresholds \<Rightarrow>
          [(''lowThreshold'', i ''low_threshold''), (''medThreshold'', i ''med_threshold''),
           (''highThreshold'', i ''high_threshold'')]
      | AccountHomeDomain \<Rightarrow> [(''homeDomain'', s ''home_domain'')]
      | AccountFlags \<Rightarrow>
          [(''authRequired'', b ''auth_required_flag''),
           (''authRevocable'',
              bool_field (coalesce (get_member d ''auth_revokable_flag'') (get_member d ''auth_revocable_flag''))),
           (''authImmutable'', b ''auth_immutable_flag''), (''authClawbackEnabled'', b ''auth_clawback_enabled_flag'')]
      | Signer \<Rightarrow> [(''publicKey'', s ''public_key''), (''key'', s ''key''), (''weight'', i ''weight'')]
      | Trustline \<Rightarrow>
          [(''asset'', tripletAsset d [] None), (''limit'', s ''limit''), (''liquidityPoolId'', s ''liquidity_pool_id'')]
      | TrustlineAuthorization \<Rightarrow>
          [(''trustor'', s ''trustor''), (''asset'', tripletAsset d [] (Some account)),
           (''authorized'',
              (case implied_authorization type of Some a \<Rightarrow> JBool a | None \<Rightarrow> b ''authorized_flag'')),
           (''authorizedToMaintainLiabilities'',
              (if type = ''trustline_authorized_to_maintain_liabilities'' then JBool True
               else bool_field (coalesce (get_member d ''authorized_to_maintain_liabilites_flag'')
                      (get_member d ''authorized_to_maintain_liabilities_flag'')))),
           (''clawbackEnabled'', b ''clawback_enabled_flag'')]
      | Trade \<Rightarrow>
          [(''seller'', s ''seller''), (''offerId'', s ''offer_id''), (''soldAmount'', s ''sold_amount''),
           (''soldAsset'', tripletAsset d ''sold_'' None), (''boughtAmount'', s ''bought_amount''),
           (''boughtAsset'', tripletAsset d ''bought_'' None)]
      | Data \<Rightarrow> [(''name'', s ''name''), (''value'', s ''value'')]
      | SequenceBumped \<Rightarrow> [(''newSequence'', s ''new_seq'')]
      | ClaimableBalance \<Rightarrow>
          [(''balanceId'', s ''balance_id''), (''asset'', canonicalAsset (get_member d ''asset'')),
           (''amount'', s ''amount''),
           (''predicate'', if get_member d ''predicate'' = JUndefined then JNull
              else JStr (json_text (get_member d ''predicate'')))]
      | Sponsorship \<Rightarrow>
          [(''sponsor'', s ''sponsor''), (''formerSponsor'', s ''former_sponsor''), (''newSponsor'', s ''new_sponsor''),
           (''signer'', s ''signer''), (''dataName'', s ''data_name''), (''asset'', canonicalAsset (get_member d ''asset'')),
           (''liquidityPoolId'', s ''liquidity_pool_id''), (''balanceId'', s ''balance_id'')]
      | LiquidityPool \<Rightarrow>
          (let p = get_member d ''liquidity_pool''; pool = (if is_object p then p else JNull)
           in [(''liquidityPoolId'', coalesce (str_field (get_member pool ''id'')) (s ''liquidity_pool_id'')),
               (''feeBp'', int_field (get_member pool ''fee_bp'')),
               (''totalShares'', str_field (get_member pool ''total_shares'')),
               (''totalTrustlines'', str_field (get_member pool ''total_trustlines'')),
               (''reserves'', assetAmounts (get_member pool ''reserves'')),
               (''reservesDeposited'', assetAmounts (get_member d ''reserves_deposited'')),
               (''reservesReceived'', assetAmounts (get_member d ''reserves_received'')),
               (''reservesRevoked'', assetAmounts (get_member d ''reserves_revoked'')),
               (''sharesReceived'', s ''shares_received''), (''sharesRedeemed'', s ''shares_redeemed''),
               (''sharesRevoked'', s ''shares_revoked''), (''sold'', assetAmount (get_member d ''sold'')),
               (''bought'', assetAmount (get_member d ''bought''))]))"

text \<open>
  \<open>type in EFFECT_TYPES\<close> holds of the members every object inherits, too: for those no case of the switch
  applies and the function returns \<open>undefined\<close>.
\<close>

definition mapEffectDetails :: "string \<Rightarrow> jsval \<Rightarrow> string \<Rightarrow> jsval" where
  "mapEffectDetails type details account =
     (let d = coalesce details (JObj [])
      in case map_of EFFECT_TYPES type of
           Some (Some kind) \<Rightarrow> JObj ((''__typename'', JStr (kind_name kind)) # detail_fields kind type d account)
         | Some None \<Rightarrow> JNull
         | None \<Rightarrow>
             (if type \<in> set object_members \<or> type = ''__proto__'' then JUndefined
              else JObj [(''__typename'', JStr ''UnrecognizedEffectDetails''), (''raw'', JStr (json_text d))]))"

section \<open>The schema\<close>

text \<open>The types of the fields in \<open>schema.graphql\<close>, all of them nullable; \<open>[EffectAssetAmount!]\<close> is a list.\<close>

datatype gql_type = GString | GInt | GBool | GAmount | GAmounts

fun schema_fields :: "effect_kind \<Rightarrow> (string \<times> gql_type) list" where
  "schema_fields AccountCreated =
     [(''startingBalance'', GString)]"
| "schema_fields AccountBalance =
     [(''amount'', GString), (''asset'', GString)]"
| "schema_fields ContractBalance =
     [(''contract'', GString), (''amount'', GString), (''asset'', GString)]"
| "schema_fields AccountThresholds =
     [(''lowThreshold'', GInt), (''medThreshold'', GInt), (''highThreshold'', GInt)]"
| "schema_fields AccountHomeDomain =
     [(''homeDomain'', GString)]"
| "schema_fields AccountFlags =
     [(''authRequired'', GBool), (''authRevocable'', GBool), (''authImmutable'', GBool),
      (''authClawbackEnabled'', GBool)]"
| "schema_fields Signer =
     [(''publicKey'', GString), (''key'', GString), (''weight'', GInt)]"
| "schema_fields Trustline =
     [(''asset'', GString), (''limit'', GString), (''liquidityPoolId'', GString)]"
| "schema_fields TrustlineAuthorization =
     [(''trustor'', GString), (''asset'', GString), (''authorized'', GBool),
      (''authorizedToMaintainLiabilities'', GBool), (''clawbackEnabled'', GBool)]"
| "schema_fields Trade =
     [(''seller'', GString), (''offerId'', GString), (''soldAmount'', GString), (''soldAsset'', GString),
      (''boughtAmount'', GString), (''boughtAsset'', GString)]"
| "schema_fields Data =
     [(''name'', GString), (''value'', GString)]"
| "schema_fields SequenceBumped =
     [(''newSequence'', GString)]"
| "schema_fields ClaimableBalance =
     [(''balanceId'', GString), (''asset'', GString), (''amount'', GString), (''predicate'', GString)]"
| "schema_fields Sponsorship =
     [(''sponsor'', GString), (''formerSponsor'', GString), (''newSponsor'', GString), (''signer'', GString),
      (''dataName'', GString), (''asset'', GString), (''liquidityPoolId'', GString), (''balanceId'', GString)]"
| "schema_fields LiquidityPool =
     [(''liquidityPoolId'', GString), (''feeBp'', GInt), (''totalShares'', GString),
      (''totalTrustlines'', GString), (''reserves'', GAmounts), (''reservesDeposited'', GAmounts),
      (''reservesReceived'', GAmounts), (''reservesRevoked'', GAmounts), (''sharesReceived'', GString),
      (''sharesRedeemed'', GString), (''sharesRevoked'', GString), (''sold'', GAmount), (''bought'', GAmount)]"

definition amount_object :: "jsval \<Rightarrow> bool" where
  "amount_object v =
     (\<exists>a b c. v = JObj [(''asset'', a), (''amount'', b), (''claimableBalanceId'', c)] \<and>
        (\<forall>x \<in> {a, b, c}. x = JNull \<or> (\<exists>s. x = JStr s)))"

fun of_gql_type :: "gql_type \<Rightarrow> jsval \<Rightarrow> bool" where
  "of_gql_type GString v = (v = JNull \<or> (\<exists>s. v = JStr s))"
| "of_gql_type GInt v = (v = JNull \<or> (\<exists>i. v = JInt i) \<or> (\<exists>t fin i. v = JNum t fin (Some i)))"
| "of_gql_type GBool v = (v = JNull \<or> (\<exists>b. v = JBool b))"
| "of_gql_type GAmount v = (v = JNull \<or> amount_object v)"
| "of_gql_type GAmounts v = (v = JNull \<or> (\<exists>xs. v = JArr xs \<and> list_all amount_object xs))"

named_theorems field_types \<open>the readers return values of the schema's types\<close>

lemma str_field_type [field_types]: "str_field v = JNull \<or> (\<exists>s. str_field v = JStr s)"
  by (cases v) (auto simp: str_field_def)

lemma int_field_type [field_types]:
  "int_field v = JNull \<or> (\<exists>i. int_field v = JInt i) \<or> (\<exists>t fin i. int_field v = JNum t fin (Some i))"
  by (cases v) (auto simp: int_field_def Let_def)

lemma bool_field_type [field_types]: "bool_field v = JNull \<or> (\<exists>b. bool_field v = JBool b)"
  by (cases v) (auto simp: bool_field_def)

lemma tripletAsset_type [field_types]: "tripletAsset d p a = JNull \<or> (\<exists>s. tripletAsset d p a = JStr s)"
  by (auto simp: tripletAsset_def Let_def)

lemma canonicalAsset_type [field_types]: "canonicalAsset v = JNull \<or> (\<exists>s. canonicalAsset v = JStr s)"
  using str_field_type [of v] by (auto simp: canonicalAsset_def Let_def)

lemma coalesce_type [field_types]:
  "coalesce (str_field v) (str_field w) = JNull \<or> (\<exists>s. coalesce (str_field v) (str_field w) = JStr s)"
  using str_field_type [of v] str_field_type [of w] by (auto simp: coalesce_def is_nullish_def)

lemma amount_object_of [simp]: "amount_object (assetAmount_of v)"
  by (simp add: amount_object_def assetAmount_of_def str_field_type canonicalAsset_type)

lemma assetAmounts_type [field_types]:
  "assetAmounts v = JNull \<or> (\<exists>xs. assetAmounts v = JArr xs \<and> list_all amount_object xs)"
  by (cases v) (auto simp: assetAmounts_def list_all_iff)

lemma assetAmount_type [field_types]: "assetAmount v = JNull \<or> amount_object (assetAmount v)"
  by (simp add: assetAmount_def)

lemma some_bool: "\<exists>b. b"
  by (rule exI [of _ True]) simp

lemma detail_fields_type:
  "list_all2 (\<lambda>(n, v) (n', t). n = n' \<and> of_gql_type t v) (detail_fields kind type d account) (schema_fields kind)"
  by (cases kind) (simp_all add: detail_fields_def Let_def field_types some_bool split: option.splits)


lemma kind_name_inj: "kind_name k = kind_name k' \<Longrightarrow> k = k'"
  by (cases k; cases k'; simp add: kind_name_def)

lemma legacy_authorization_names_the_issuer:
  "mapEffectDetails ''trustline_deauthorized''
     (JObj [(''trustor'', JStr ''GB''), (''asset_type'', JStr ''credit_alphanum4''), (''asset_code'', JStr ''USD'')]) ''GA'' =
   JObj [(''__typename'', JStr ''TrustlineAuthorizationEffectDetails''), (''trustor'', JStr ''GB''),
     (''asset'', JStr ''USD:GA''), (''authorized'', JBool False), (''authorizedToMaintainLiabilities'', JNull),
     (''clawbackEnabled'', JNull)]"
  by code_simp

lemma an_inherited_name_is_swallowed: "mapEffectDetails ''constructor'' (JObj [(''amount'', JStr ''1'')]) ''GA'' = JUndefined"
  by code_simp

end
