(* ===== verification/Error_Masking.thy ===== *)
theory Error_Masking
  imports Query_Limits "HOL-Library.Sublist"
begin

text \<open>
  \<open>graphql-server/src/errorCodes.ts\<close>, \<open>errorMasking.ts\<close> and \<open>formatTimeoutError\<close> of \<open>security.ts\<close>: which
  code an error reaches the client with, and which errors are replaced by a generic one. Apollo's
  \<open>unwrapResolverError\<close> is a parameter, with its documented behaviour as a hypothesis.
\<close>

section \<open>Errors\<close>

definition INTERNAL_SERVER_ERROR :: string where
  "INTERNAL_SERVER_ERROR = ''INTERNAL_SERVER_ERROR''"

definition QUERY_TIMEOUT :: string where
  "QUERY_TIMEOUT = ''QUERY_TIMEOUT''"

definition ERROR_CODES :: "string list" where
  "ERROR_CODES = [''BAD_USER_INPUT'', ''INVALID_CURSOR'', ''QUERY_TOO_DEEP'', ''QUERY_TOO_COMPLEX'', ''NOT_FOUND'',
     ''RATE_LIMITED'', ''UNAUTHENTICATED'', QUERY_TIMEOUT, ''REQUEST_TIMEOUT'', INTERNAL_SERVER_ERROR]"

datatype error_category = InvalidInput | NotFound | RateLimited | Authentication | Internal

definition ERROR_CODE_TAXONOMY :: "string \<rightharpoonup> error_category" where
  "ERROR_CODE_TAXONOMY =
     [''BAD_USER_INPUT'' \<mapsto> InvalidInput, ''INVALID_CURSOR'' \<mapsto> InvalidInput, ''QUERY_TOO_DEEP'' \<mapsto> InvalidInput,
      ''QUERY_TOO_COMPLEX'' \<mapsto> InvalidInput, ''NOT_FOUND'' \<mapsto> NotFound, ''RATE_LIMITED'' \<mapsto> RateLimited,
      ''UNAUTHENTICATED'' \<mapsto> Authentication, QUERY_TIMEOUT \<mapsto> Internal, ''REQUEST_TIMEOUT'' \<mapsto> Internal,
      INTERNAL_SERVER_ERROR \<mapsto> Internal]"

text \<open>The property \<open>extensions.code\<close>: a string or something else.\<close>

datatype code_value = Code string | OtherCode

text \<open>
  What a resolver can throw: a \<open>LuminaError\<close> with its code, a \<open>GraphQLError\<close> with the code of its
  extensions and its \<open>originalError\<close>, another error with the \<open>code\<close> that Postgres sets, or a value that is
  no object, by its text.
\<close>

datatype thrown =
    LuminaErr string string
  | GraphQLErr string "code_value option" "thrown option"
  | PlainErr string "string option"
  | NotAnError string

text \<open>\<open>f_more\<close> stands for the other extensions, \<open>f_where\<close> for locations and path.\<close>

record 'w formatted =
  f_message :: string
  f_code :: "code_value option"
  f_correlationId :: "string option"
  f_more :: "(string \<times> string) list"
  f_where :: 'w

definition InvalidInputError :: "string \<Rightarrow> thrown" where
  "InvalidInputError message = LuminaErr message ''BAD_USER_INPUT''"

definition RateLimitedError :: "string \<Rightarrow> thrown" where
  "RateLimitedError message = LuminaErr message ''RATE_LIMITED''"

section \<open>Codes\<close>

text \<open>The loop over \<open>originalError\<close>.\<close>

fun unwrapResolverError :: "thrown \<Rightarrow> thrown" where
  "unwrapResolverError (GraphQLErr m c (Some e)) = unwrapResolverError e"
| "unwrapResolverError e = e"

definition errorCodeFor :: "thrown \<Rightarrow> string option" where
  "errorCodeFor e =
     (case unwrapResolverError e of
        LuminaErr m c \<Rightarrow> Some c
      | GraphQLErr m (Some (Code c)) x \<Rightarrow> Some c
      | _ \<Rightarrow> None)"

definition specific :: "code_value option \<Rightarrow> bool" where
  "specific c = (case c of Some (Code s) \<Rightarrow> s \<noteq> INTERNAL_SERVER_ERROR | _ \<Rightarrow> False)"

definition withStableErrorCode :: "'w formatted \<Rightarrow> thrown \<Rightarrow> 'w formatted" where
  "withStableErrorCode f e =
     (if specific (f_code f) then f
      else (case errorCodeFor e of
              None \<Rightarrow> f
            | Some c \<Rightarrow> if c = [] then f else f\<lparr>f_code := Some (Code c)\<rparr>))"

text \<open>Subscriptions: the error that graphql-ws sends, again a \<open>GraphQLError\<close>.\<close>

definition errorWithStableCode :: "thrown \<Rightarrow> thrown" where
  "errorWithStableCode e =
     (case e of
        GraphQLErr m c x \<Rightarrow>
          (if specific c then e
           else (let code = (case errorCodeFor e of Some s \<Rightarrow> s | None \<Rightarrow> INTERNAL_SERVER_ERROR)
                 in if c = Some (Code code) then e else GraphQLErr m (Some (Code code)) x))
      | _ \<Rightarrow> e)"

section \<open>Timeouts\<close>

definition contains_text :: "string \<Rightarrow> string \<Rightarrow> bool" where
  "contains_text part s = sublist (lower_case part) (lower_case s)"

definition timeout_message :: "string \<Rightarrow> bool" where
  "timeout_message m = (contains_text ''statement timeout'' m \<or> contains_text ''Query read timeout'' m)"

fun isDatabaseTimeout :: "thrown \<Rightarrow> bool" where
  "isDatabaseTimeout (LuminaErr m c) = (c = ''57014'' \<or> timeout_message m)"
| "isDatabaseTimeout (GraphQLErr m c x) = timeout_message m"
| "isDatabaseTimeout (PlainErr m c) = (c = Some ''57014'' \<or> timeout_message m)"
| "isDatabaseTimeout (NotAnError s) = False"

definition timeout_text :: string where
  "timeout_text = ''The query took too long and was cancelled. Narrow the request (smaller limit, fewer nested fields) and retry.''"

definition formatTimeoutError :: "(thrown \<Rightarrow> thrown) \<Rightarrow> 'w formatted \<Rightarrow> thrown \<Rightarrow> 'w formatted" where
  "formatTimeoutError unwrap f e =
     (if isDatabaseTimeout (unwrap e) then f\<lparr>f_message := timeout_text, f_code := Some (Code QUERY_TIMEOUT)\<rparr> else f)"

section \<open>Masking\<close>

definition MASKED_ERROR_MESSAGE :: string where
  "MASKED_ERROR_MESSAGE = ''Internal server error''"

definition shouldMaskErrors :: "(string \<Rightarrow> string option) \<Rightarrow> bool" where
  "shouldMaskErrors env =
     (case parseBool (env ''MASK_INTERNAL_ERRORS'') of
        Some b \<Rightarrow> b
      | None \<Rightarrow> env ''NODE_ENV'' = Some ''production'')"

fun thrown_text :: "thrown \<Rightarrow> string" where
  "thrown_text (LuminaErr m c) = m"
| "thrown_text (GraphQLErr m c x) = m"
| "thrown_text (PlainErr m c) = m"
| "thrown_text (NotAnError s) = s"

definition is_lumina :: "thrown \<Rightarrow> bool" where
  "is_lumina e = (case e of LuminaErr m c \<Rightarrow> True | _ \<Rightarrow> False)"

definition generic_error :: "string \<Rightarrow> 'w \<Rightarrow> 'w formatted" where
  "generic_error i w = \<lparr>f_message = MASKED_ERROR_MESSAGE, f_code = Some (Code INTERNAL_SERVER_ERROR),
     f_correlationId = Some i, f_more = [], f_where = w\<rparr>"

text \<open>The response and, when it is masked, the log entry: the correlation id and the text of the error.\<close>

definition maskError :: "(thrown \<Rightarrow> thrown) \<Rightarrow> bool \<Rightarrow> string \<Rightarrow> 'w formatted \<Rightarrow> thrown \<Rightarrow>
    'w formatted \<times> (string \<times> string) option" where
  "maskError unwrap enabled newId f e =
     (if \<not> enabled then (f, None)
      else if f_code f \<noteq> Some (Code INTERNAL_SERVER_ERROR) then (f, None)
      else (let original = unwrap e
            in if is_lumina original then (f, None)
               else (generic_error newId (f_where f), Some (newId, thrown_text original))))"

text \<open>\<open>formatError\<close> of the Apollo server in \<open>index.ts\<close>.\<close>

definition formatError :: "(thrown \<Rightarrow> thrown) \<Rightarrow> bool \<Rightarrow> string \<Rightarrow> 'w formatted \<Rightarrow> thrown \<Rightarrow>
    'w formatted \<times> (string \<times> string) option" where
  "formatError unwrap enabled newId f e =
     maskError unwrap enabled newId (withStableErrorCode (formatTimeoutError unwrap f e) e) e"

section \<open>What a client sees\<close>

text \<open>Apollo's function takes at most one layer off: a \<open>GraphQLError\<close> with an original error.\<close>

definition apollo_unwraps :: "(thrown \<Rightarrow> thrown) \<Rightarrow> bool" where
  "apollo_unwraps unwrap =
     (\<forall>e. unwrap e = e \<or> (\<exists>m c x. e = GraphQLErr m c (Some x) \<and> unwrap e = x))"

lemma unwrap_lumina:
  assumes "apollo_unwraps unwrap" "unwrap e = LuminaErr m c"
  shows "unwrapResolverError e = LuminaErr m c"
proof -
  from assms(1) have "unwrap e = e \<or> (\<exists>m c x. e = GraphQLErr m c (Some x) \<and> unwrap e = x)"
    unfolding apollo_unwraps_def by blast
  then show ?thesis using assms(2) by auto
qed

lemma every_code_is_documented: "dom ERROR_CODE_TAXONOMY = set ERROR_CODES"
  by (auto simp: ERROR_CODE_TAXONOMY_def ERROR_CODES_def)

lemma taxonomy_is_internal_for_timeouts: "ERROR_CODE_TAXONOMY QUERY_TIMEOUT = Some Internal"
  by (simp add: ERROR_CODE_TAXONOMY_def QUERY_TIMEOUT_def INTERNAL_SERVER_ERROR_def)

text \<open>An error without meaning for a client: no code but the generic one, and no cancelled query.\<close>

definition unexpected :: "(thrown \<Rightarrow> thrown) \<Rightarrow> thrown \<Rightarrow> bool" where
  "unexpected unwrap e = (errorCodeFor e = None \<and> \<not> isDatabaseTimeout (unwrap e))"

text \<open>
  C14: With masking on, an unexpected error that Apollo stamped as internal becomes the generic response
  with a correlation id, which depends on nothing of the error, and the log entry carries the id and the
  error; a deliberate error keeps its message and reaches the client with its own code; a cancelled query
  becomes \<open>QUERY_TIMEOUT\<close> with a fixed text.
\<close>

theorem unexpected_errors_are_masked:
  assumes "apollo_unwraps unwrap" "f_code f = Some (Code INTERNAL_SERVER_ERROR)"
  shows "(unexpected unwrap e \<longrightarrow>
      formatError unwrap True i f e =
        (\<lparr>f_message = ''Internal server error'', f_code = Some (Code ''INTERNAL_SERVER_ERROR''),
         f_correlationId = Some i, f_more = [], f_where = f_where f\<rparr>, Some (i, thrown_text (unwrap e)))) \<and>
    (\<forall>c. \<not> isDatabaseTimeout (unwrap e) \<and> errorCodeFor e = Some c \<and> c \<noteq> [] \<and> c \<noteq> INTERNAL_SERVER_ERROR \<longrightarrow>
      formatError unwrap True i f e = (f\<lparr>f_code := Some (Code c)\<rparr>, None)) \<and>
    (isDatabaseTimeout (unwrap e) \<longrightarrow> formatError unwrap True i f e = (f\<lparr>f_message := timeout_text, f_code := Some (Code QUERY_TIMEOUT)\<rparr>, None))"
proof (intro conjI allI impI)
  assume u: "unexpected unwrap e"
  have "\<not> is_lumina (unwrap e)"
    using u unwrap_lumina [OF assms(1), of e]
    by (auto simp: is_lumina_def unexpected_def errorCodeFor_def split: thrown.splits)
  with u assms(2) show "formatError unwrap True i f e =
      (\<lparr>f_message = ''Internal server error'', f_code = Some (Code ''INTERNAL_SERVER_ERROR''),
         f_correlationId = Some i, f_more = [], f_where = f_where f\<rparr>, Some (i, thrown_text (unwrap e)))"
    by (simp add: formatError_def maskError_def withStableErrorCode_def formatTimeoutError_def unexpected_def
      specific_def Let_def generic_error_def MASKED_ERROR_MESSAGE_def INTERNAL_SERVER_ERROR_def)
next
  fix c
  assume "\<not> isDatabaseTimeout (unwrap e) \<and> errorCodeFor e = Some c \<and> c \<noteq> [] \<and> c \<noteq> INTERNAL_SERVER_ERROR"
  with assms(2) show "formatError unwrap True i f e = (f\<lparr>f_code := Some (Code c)\<rparr>, None)"
    by (simp add: formatError_def maskError_def withStableErrorCode_def formatTimeoutError_def specific_def)
next
  assume "isDatabaseTimeout (unwrap e)"
  then show "formatError unwrap True i f e = (f\<lparr>f_message := timeout_text, f_code := Some (Code QUERY_TIMEOUT)\<rparr>, None)"
    by (simp add: formatError_def maskError_def withStableErrorCode_def formatTimeoutError_def
      specific_def QUERY_TIMEOUT_def INTERNAL_SERVER_ERROR_def)
qed

lemma unexpected_errors_are_masked_witness:
  "formatError id True ''id-1''
      \<lparr>f_message = ''relation x does not exist'', f_code = Some (Code INTERNAL_SERVER_ERROR), f_correlationId = None,
        f_more = [(''stacktrace'', ''at query'')], f_where = ()\<rparr> (PlainErr ''relation x does not exist'' (Some ''42P01'')) =
    (generic_error ''id-1'' (), Some (''id-1'', ''relation x does not exist''))"
proof -
  have "apollo_unwraps id" by (simp add: apollo_unwraps_def)
  moreover have "unexpected id (PlainErr ''relation x does not exist'' (Some ''42P01''))"
    by code_simp
  ultimately show ?thesis
    using unexpected_errors_are_masked [of id
        "\<lparr>f_message = ''relation x does not exist'', f_code = Some (Code INTERNAL_SERVER_ERROR), f_correlationId = None,
          f_more = [(''stacktrace'', ''at query'')], f_where = ()\<rparr>"]
    by (simp add: generic_error_def MASKED_ERROR_MESSAGE_def INTERNAL_SERVER_ERROR_def)
qed

text \<open>An error without any code is not stamped and not masked: Apollo's stamp is what the mask relies on.\<close>

lemma unstamped_errors_pass:
  "f_code f = None \<Longrightarrow> unexpected unwrap e \<Longrightarrow> formatError unwrap True i f e = (f, None)"
  by (simp add: formatError_def maskError_def withStableErrorCode_def formatTimeoutError_def unexpected_def specific_def)

text \<open>
  Operations over the web socket do not pass \<open>formatError\<close>: every error keeps its message, masking on or
  off; what is added is the code.
\<close>

lemma subscription_errors_keep_their_message:
  "thrown_text (errorWithStableCode e) = thrown_text e"
  by (auto simp: errorWithStableCode_def Let_def split: thrown.splits option.splits)

lemma subscription_errors_are_coded:
  "e = GraphQLErr m c x \<Longrightarrow> \<exists>s. errorWithStableCode e = GraphQLErr m (Some (Code s)) x"
  by (auto simp: errorWithStableCode_def Let_def specific_def split: option.splits code_value.splits)

lemma stable_code_of_deliberate_errors:
  "errorCodeFor (InvalidInputError m) = Some ''BAD_USER_INPUT''" "errorCodeFor (RateLimitedError m) = Some ''RATE_LIMITED''"
  "errorCodeFor (GraphQLErr m c (Some e)) = errorCodeFor e"
  by (simp_all add: errorCodeFor_def InvalidInputError_def RateLimitedError_def)

lemma masking_off_shows_the_message:
  "formatError unwrap False i f e = (withStableErrorCode (formatTimeoutError unwrap f e) e, None)"
  by (simp add: formatError_def maskError_def)

end
