(* ===== verification/Migrations.thy ===== *)
theory Migrations
  imports Js_Text "HOL-Library.List_Lexorder" "HOL-Library.Char_ord" "HOL-Library.Product_Lexorder"
begin

text \<open>
  \<open>graphql-server/src/migrations.ts\<close>: the files of \<open>db/migrations\<close>, their order, the status of a
  database against them, the runner that brings a database up to date and the rollback of one migration.
  What an SQL script does to the database is a parameter.
\<close>

section \<open>Loading the files\<close>

record migration =
  mig_version :: string
  mig_sql :: string

definition file_char :: "char \<Rightarrow> bool" where
  "file_char c = (is_alpha c \<or> is_digit c \<or> c = CHR ''_'' \<or> c = CHR ''-'')"

text \<open>\<open>/^\d+_[a-z0-9_-]+<suffix>$/i\<close>; the suffix starts with a dot, which no character before it can be.\<close>

definition migration_name :: "string \<Rightarrow> string \<Rightarrow> bool" where
  "migration_name suffix name =
     (takeWhile is_digit name \<noteq> [] \<and>
      (case dropWhile is_digit name of
         [] \<Rightarrow> False
       | c # stem \<Rightarrow> c = CHR ''_'' \<and> takeWhile file_char stem \<noteq> [] \<and>
           lower_case (dropWhile file_char stem) = suffix))"

text \<open>\<open>name.replace(/<suffix>$/, '')\<close>, which does regard case.\<close>

definition strip_suffix :: "string \<Rightarrow> string \<Rightarrow> string" where
  "strip_suffix suffix name =
     (if suffix = drop (length name - length suffix) name then take (length name - length suffix) name else name)"

text \<open>
  \<open>s.replace(pattern, replacement)\<close> for a pattern that is a string: the first occurrence is replaced, and
  in the replacement a dollar sign before a dollar sign, an ampersand, a back quote or a quote stands for a
  dollar sign, the match, what precedes it or what follows it.
\<close>

fun expand_dollars :: "string \<Rightarrow> string \<Rightarrow> string \<Rightarrow> string \<Rightarrow> string" where
  "expand_dollars m before after (c # d # rest) =
     (if c \<noteq> CHR ''$'' then c # expand_dollars m before after (d # rest)
      else if d = CHR ''$'' then CHR ''$'' # expand_dollars m before after rest
      else if d = CHR ''&'' then m @ expand_dollars m before after rest
      else if d = CHR 0x60 then before @ expand_dollars m before after rest
      else if d = CHR 0x27 then after @ expand_dollars m before after rest
      else c # expand_dollars m before after (d # rest))"
| "expand_dollars m before after s = s"

fun replace_from :: "string \<Rightarrow> string \<Rightarrow> string \<Rightarrow> string \<Rightarrow> string" where
  "replace_from pattern replacement before [] =
     (if pattern = [] then before @ expand_dollars pattern before [] replacement else before)"
| "replace_from pattern replacement before (c # s) =
     (if take (length pattern) (c # s) = pattern
      then before @ expand_dollars pattern before (drop (length pattern) (c # s)) replacement @
           drop (length pattern) (c # s)
      else replace_from pattern replacement (before @ [c]) s)"

definition replace_first :: "string \<Rightarrow> string \<Rightarrow> string \<Rightarrow> string" where
  "replace_first pattern replacement s = replace_from pattern replacement [] s"

text \<open>\<open>sql.replace(/^\\echo.*$/gm, '')\<close>; the flag says whether the text starts at the start of a line.\<close>

definition line_end :: "char \<Rightarrow> bool" where
  "line_end c = (char_code c = 10 \<or> char_code c = 13)"

definition to_line_end :: "string \<Rightarrow> string" where
  "to_line_end s = dropWhile (\<lambda>c. \<not> line_end c) s"

lemma length_to_line_end [simp]: "length (to_line_end s) \<le> length s"
  by (simp add: to_line_end_def length_dropWhile_le)

definition echo_word :: string where
  "echo_word = CHR 0x5C # ''echo''"

function strip_echo :: "bool \<Rightarrow> string \<Rightarrow> string" where
  "strip_echo at_start [] = []"
| "strip_echo at_start (c # s) =
     (if at_start \<and> take (length echo_word) (c # s) = echo_word then strip_echo False (to_line_end s)
      else c # strip_echo (line_end c) s)"
  by pat_completeness auto
termination
  by (relation "measure (\<lambda>(b, s). length s)") (auto simp: le_imp_less_Suc)

definition include_line :: string where
  "include_line = CHR 0x5C # ''ir ../schema.sql''"

text \<open>\<open>files\<close> is the directory: the name and content of each file, in the order of \<open>readdirSync\<close>.\<close>

definition load_one :: "string \<Rightarrow> string \<times> string \<Rightarrow> migration" where
  "load_one schema = (\<lambda>(name, content).
     (let sql = (if name = ''001_init.sql'' then replace_first include_line schema content else content)
      in \<lparr>mig_version = strip_suffix ''.sql'' name, mig_sql = strip_echo True sql\<rparr>))"

definition loadMigrations :: "string \<Rightarrow> (string \<times> string) list \<Rightarrow> migration list" where
  "loadMigrations schema files =
     map (load_one schema) (sort_key fst (filter (\<lambda>(name, content). migration_name ''.sql'' name) files))"

definition loadDownMigrations :: "(string \<times> string) list \<Rightarrow> (string \<rightharpoonup> string)" where
  "loadDownMigrations files =
     map_of (rev (map (\<lambda>(name, content). (strip_suffix ''.down.sql'' name, strip_echo True content))
       (filter (\<lambda>(name, content). migration_name ''.down.sql'' name) files)))"

section \<open>Statements of a script\<close>

text \<open>\<open>sql.replace(/^\s*--.*$/gm, '')\<close>.\<close>

function strip_comments :: "bool \<Rightarrow> string \<Rightarrow> string" where
  "strip_comments at_start [] = []"
| "strip_comments at_start (c # s) =
     (if at_start \<and> take 2 (dropWhile is_space (c # s)) = ''--''
      then strip_comments False (to_line_end (drop 2 (dropWhile is_space (c # s))))
      else c # strip_comments (line_end c) s)"
  by pat_completeness auto
termination
proof (relation "measure (\<lambda>(b, s). length s)", goal_cases)
  case (2 at_start c s)
  have "length (to_line_end (drop 2 (dropWhile is_space (c # s)))) \<le> length (dropWhile is_space (c # s)) - 2"
    using length_to_line_end [of "drop 2 (dropWhile is_space (c # s))"] by simp
  also have "\<dots> < length (c # s)"
    using length_dropWhile_le [of is_space "c # s"] by (simp del: dropWhile.simps)
  finally show ?case by (simp del: dropWhile.simps)
qed auto

text \<open>
  What is left behind a semicolon that ends a line, \<open>/;\s*$/m\<close>: the white space is taken up to the end of
  the text or to the last end of a line in it.
\<close>

definition statement_break :: "string \<Rightarrow> string option" where
  "statement_break s =
     (let ws = takeWhile is_space s
      in if length ws = length s then Some []
         else if list_ex line_end ws
           then Some (drop (length ws - Suc (length (takeWhile (\<lambda>c. \<not> line_end c) (rev ws)))) s)
         else None)"

lemma statement_break_length: "statement_break s = Some r \<Longrightarrow> length r \<le> length s"
  by (auto simp: statement_break_def Let_def split: if_splits)

function split_sql :: "string \<Rightarrow> string list" where
  "split_sql [] = [[]]"
| "split_sql (c # s) =
     (case (if c = CHR '';'' then statement_break s else None) of
        Some r \<Rightarrow> [] # split_sql r
      | None \<Rightarrow> (case split_sql s of [] \<Rightarrow> [[c]] | p # ps \<Rightarrow> (c # p) # ps))"
  by pat_completeness auto
termination
  by (relation "measure length") (auto split: if_splits dest: statement_break_length)

definition splitStatements :: "string \<Rightarrow> string list" where
  "splitStatements sql = filter (\<lambda>s. s \<noteq> []) (map trim (split_sql (strip_comments True sql)))"

section \<open>The database\<close>

text \<open>
  \<open>mig_rows\<close> lists \<open>schema_migrations\<close> by version, each with its \<open>applied_at\<close>; a missing table reads as
  an empty one. \<open>mig_schema\<close> is the rest of the database.
\<close>

record 's mig_db =
  mig_rows :: "(string \<times> int) list"
  mig_schema :: 's

definition versions_of :: "'s mig_db \<Rightarrow> string list" where
  "versions_of db = map fst (mig_rows db)"

text \<open>
  What one query string does: \<open>None\<close> when Postgres rejects it, which then leaves the database as it was
  (a query string of several statements is one implicit transaction).
\<close>

type_synonym 's script_exec = "string \<Rightarrow> 's mig_db \<Rightarrow> 's mig_db option"

datatype mig_error =
    Unknown_migrations "string list"
  | Out_of_order string "string list"
  | Script_failed string
  | Irreversible string
  | No_down_migration string
  | Not_applied string

section \<open>Status\<close>

record mig_status =
  ms_applied :: "string list"
  ms_pending :: "string list"

definition migrationStatus :: "migration list \<Rightarrow> string list \<Rightarrow> mig_error + mig_status" where
  "migrationStatus ms rows =
     (let known = map mig_version ms;
          unknown = filter (\<lambda>v. v \<notin> set known) rows;
          is_applied = (\<lambda>m. mig_version m \<in> set rows);
          st = \<lparr>ms_applied = map mig_version (filter is_applied ms),
                ms_pending = map mig_version (filter (\<lambda>m. \<not> is_applied m) ms)\<rparr>
      in if unknown \<noteq> [] then Inl (Unknown_migrations unknown)
         else (case dropWhile is_applied ms of
                 [] \<Rightarrow> Inr st
               | f # later \<Rightarrow>
                   (let late = filter is_applied later
                    in if late \<noteq> [] then Inl (Out_of_order (mig_version f) (map mig_version late)) else Inr st)))"

section \<open>Running the migrations\<close>

definition CONCURRENT_MIGRATIONS :: "string list" where
  "CONCURRENT_MIGRATIONS =
     [''004_search_indexes'', ''008_accounts_listing_index'', ''010_transaction_filters'',
      ''015_transactions_listing_covering_index'', ''016_assets_index_review'', ''019_operations_index_review'',
      ''020_claimable_balances_listing'', ''021_ledger_audit_window_index'']"

fun exec_statements :: "'s script_exec \<Rightarrow> string list \<Rightarrow> 's mig_db \<Rightarrow> 's mig_db \<times> bool" where
  "exec_statements exec [] db = (db, True)"
| "exec_statements exec (s # ss) db =
     (case exec s db of None \<Rightarrow> (db, False) | Some db' \<Rightarrow> exec_statements exec ss db')"

text \<open>The flag says whether the migration went through; a failed transaction is rolled back.\<close>

definition applyMigration :: "'s script_exec \<Rightarrow> 's mig_db \<Rightarrow> migration \<Rightarrow> 's mig_db \<times> bool" where
  "applyMigration exec db m =
     (if mig_version m \<in> set CONCURRENT_MIGRATIONS
      then exec_statements exec (splitStatements (mig_sql m)) db
      else (case exec (mig_sql m) db of Some db' \<Rightarrow> (db', True) | None \<Rightarrow> (db, False)))"

text \<open>The loop over the pending versions, up to the first that fails.\<close>

fun apply_pending :: "'s script_exec \<Rightarrow> migration list \<Rightarrow> string list \<Rightarrow> 's mig_db \<Rightarrow> 's mig_db \<times> string option" where
  "apply_pending exec ms [] db = (db, None)"
| "apply_pending exec ms (v # vs) db =
     (case find (\<lambda>m. mig_version m = v) ms of
        None \<Rightarrow> (db, Some v)
      | Some m \<Rightarrow> (let (db', ok) = applyMigration exec db m
                   in if ok then apply_pending exec ms vs db' else (db', Some v)))"

text \<open>The advisory lock is held from before the first status to the return or the error.\<close>

definition runMigrations :: "'s script_exec \<Rightarrow> migration list \<Rightarrow> bool \<Rightarrow> 's mig_db \<Rightarrow>
    's mig_db \<times> (mig_error + mig_status)" where
  "runMigrations exec ms do_apply db =
     (case migrationStatus ms (versions_of db) of
        Inl e \<Rightarrow> (db, Inl e)
      | Inr st \<Rightarrow>
          (if \<not> do_apply then (db, Inr st)
           else (case apply_pending exec ms (ms_pending st) db of
                   (db', None) \<Rightarrow> (db', migrationStatus ms (versions_of db'))
                 | (db', Some v) \<Rightarrow> (db', Inl (Script_failed v)))))"

section \<open>Rolling back\<close>

definition IRREVERSIBLE_MIGRATIONS :: "string list" where
  "IRREVERSIBLE_MIGRATIONS = [''001_init'', ''006_partition_operations'', ''007_networks'']"

definition isMigrationIrreversible :: "string \<Rightarrow> bool" where
  "isMigrationIrreversible v = (v \<in> set IRREVERSIBLE_MIGRATIONS)"

definition rollbackMigration :: "'s script_exec \<Rightarrow> (string \<rightharpoonup> string) \<Rightarrow> string \<Rightarrow> 's mig_db \<Rightarrow>
    's mig_db \<times> (mig_error + unit)" where
  "rollbackMigration exec downs v db =
     (if isMigrationIrreversible v then (db, Inl (Irreversible v))
      else (case downs v of
              None \<Rightarrow> (db, Inl (No_down_migration v))
            | Some sql \<Rightarrow>
                (if v \<notin> set (versions_of db) then (db, Inl (Not_applied v))
                 else (case exec sql db of
                         None \<Rightarrow> (db, Inl (Script_failed v))
                       | Some db' \<Rightarrow> (db'\<lparr>mig_rows := filter (\<lambda>r. fst r \<noteq> v) (mig_rows db')\<rparr>, Inr ())))))"

definition last_applied :: "'s mig_db \<Rightarrow> string option" where
  "last_applied db =
     (case rev (sort_key (\<lambda>(v, t). (t, v)) (mig_rows db)) of [] \<Rightarrow> None | (v, t) # _ \<Rightarrow> Some v)"

text \<open>
  The lock is given back between reading the last version and rolling it back; \<open>between\<close> is what other
  sessions do to the database in the meantime.
\<close>

definition rollbackLastMigration :: "'s script_exec \<Rightarrow> (string \<rightharpoonup> string) \<Rightarrow> ('s mig_db \<Rightarrow> 's mig_db) \<Rightarrow>
    's mig_db \<Rightarrow> 's mig_db \<times> (mig_error + string option)" where
  "rollbackLastMigration exec downs between db =
     (case last_applied db of
        None \<Rightarrow> (between db, Inr None)
      | Some v \<Rightarrow> (case rollbackMigration exec downs v (between db) of
                    (db', Inl e) \<Rightarrow> (db', Inl e)
                  | (db', Inr _) \<Rightarrow> (db', Inr (Some v))))"

section \<open>The history is a prefix of the files\<close>

lemma filter_prefix:
  assumes "dropWhile P xs = [] \<or> filter P (tl (dropWhile P xs)) = []"
  shows "filter P xs = takeWhile P xs" "filter (\<lambda>x. \<not> P x) xs = dropWhile P xs"
proof -
  have none: "filter P (dropWhile P xs) = []"
  proof (cases "dropWhile P xs")
    case (Cons y ys)
    then have "\<not> P y" by (metis dropWhile_eq_Cons_conv)
    with Cons assms show ?thesis by simp
  qed (simp only: filter.simps)
  have t: "filter P (takeWhile P xs) = takeWhile P xs" "filter (\<lambda>x. \<not> P x) (takeWhile P xs) = []"
    by (induction xs) auto
  have d: "filter (\<lambda>x. \<not> P x) (dropWhile P xs) = dropWhile P xs"
    using none by (metis (mono_tags, lifting) filter_True filter_empty_conv)
  have "filter Q xs = filter Q (takeWhile P xs) @ filter Q (dropWhile P xs)" for Q
    by (metis filter_append takeWhile_dropWhile_id)
  then show "filter P xs = takeWhile P xs" "filter (\<lambda>x. \<not> P x) xs = dropWhile P xs"
    by (metis none t(1) append_Nil2, metis d t(2) append_Nil)
qed

text \<open>A status without an error: what is applied comes first, and what is pending is the rest.\<close>

lemma migrationStatus_prefix:
  assumes "migrationStatus ms rows = Inr st"
  shows "ms_applied st @ ms_pending st = map mig_version ms" "set (ms_applied st) = set rows"
    "set (ms_pending st) \<inter> set rows = {}"
proof -
  let ?P = "\<lambda>m. mig_version m \<in> set rows"
  have st: "ms_applied st = map mig_version (filter ?P ms)" "ms_pending st = map mig_version (filter (\<lambda>m. \<not> ?P m) ms)"
    and known: "set rows \<subseteq> mig_version ` set ms"
    and tail: "dropWhile ?P ms = [] \<or> filter ?P (tl (dropWhile ?P ms)) = []"
    using assms by (auto simp: migrationStatus_def Let_def filter_empty_conv split: if_splits list.splits)
  show "ms_applied st @ ms_pending st = map mig_version ms"
    using filter_prefix [OF tail] unfolding st
    by (simp flip: map_append)
  show "set (ms_applied st) = set rows" using known unfolding st by auto
  show "set (ms_pending st) \<inter> set rows = {}" unfolding st by auto
qed

lemma migrationStatus_all_applied:
  assumes "set rows = mig_version ` set ms"
  shows "migrationStatus ms rows = Inr \<lparr>ms_applied = map mig_version ms, ms_pending = []\<rparr>"
proof -
  let ?P = "\<lambda>m. mig_version m \<in> set rows"
  have all: "\<forall>m \<in> set ms. ?P m" using assms by auto
  then have "filter ?P ms = ms" "dropWhile ?P ms = []" "filter (\<lambda>m. \<not> ?P m) ms = []"
    by (auto simp: filter_id_conv filter_empty_conv dropWhile_eq_Nil_conv)
  moreover have "filter (\<lambda>v. v \<notin> set (map mig_version ms)) rows = []"
    using assms by (auto simp: filter_empty_conv)
  ultimately show ?thesis
    unfolding migrationStatus_def Let_def by (simp only: list.case list.map if_False HOL.simp_thms)
qed

text \<open>A version that is missing before one that is recorded.\<close>

lemma migrationStatus_gap:
  assumes "set rows \<subseteq> mig_version ` set ms" "ms = xs @ m # ys" "mig_version m \<notin> set rows"
    and "r \<in> set ys" "mig_version r \<in> set rows"
  shows "\<exists>v late. migrationStatus ms rows = Inl (Out_of_order v late)"
proof -
  let ?P = "\<lambda>m. mig_version m \<in> set rows"
  have "dropWhile ?P ms = dropWhile ?P (xs @ [m]) @ ys"
    using assms(2,3) by (auto simp: dropWhile_append)
  moreover have "dropWhile ?P (xs @ [m]) \<noteq> []"
    using assms(3) by (auto simp: dropWhile_eq_Nil_conv)
  ultimately obtain f later where d: "dropWhile ?P ms = f # later" "set ys \<subseteq> set later"
    by (cases "dropWhile ?P (xs @ [m])") auto
  have "filter ?P later \<noteq> []" using d(2) assms(4,5) by (auto simp: filter_empty_conv)
  moreover have "filter (\<lambda>v. v \<notin> set (map mig_version ms)) rows = []"
    using assms(1) by (auto simp: filter_empty_conv)
  ultimately show ?thesis using d(1) by (simp add: migrationStatus_def Let_def)
qed

section \<open>Bringing a database up to date\<close>

text \<open>
  The scripts of the migrations go through, keep the history, and add to it at most their own version:
  exactly those whose version is in \<open>R\<close> record it.
\<close>

definition scripts_record :: "'s script_exec \<Rightarrow> string set \<Rightarrow> migration list \<Rightarrow> bool" where
  "scripts_record exec R ms =
     (\<forall>m \<in> set ms. \<forall>db. \<exists>db'. applyMigration exec db m = (db', True) \<and>
        set (versions_of db') = set (versions_of db) \<union> ({mig_version m} \<inter> R))"

lemma find_version:
  assumes "v \<in> mig_version ` set ms"
  obtains m where "find (\<lambda>m. mig_version m = v) ms = Some m" "m \<in> set ms" "mig_version m = v"
proof -
  have "find (\<lambda>m. mig_version m = v) ms \<noteq> None"
    using assms by (auto simp: find_None_iff)
  then obtain m where m: "find (\<lambda>m. mig_version m = v) ms = Some m" by auto
  then have "m \<in> set ms" "mig_version m = v" by (auto simp: find_Some_iff)
  with m show ?thesis by (rule that)
qed

lemma apply_pending_records:
  assumes "scripts_record exec R ms" "set vs \<subseteq> mig_version ` set ms"
  shows "\<exists>db'. apply_pending exec ms vs db = (db', None) \<and>
    set (versions_of db') = set (versions_of db) \<union> (set vs \<inter> R)"
  using assms(2)
proof (induction vs arbitrary: db)
  case (Cons v vs)
  then have "v \<in> mig_version ` set ms" by simp
  then obtain m where m: "find (\<lambda>m. mig_version m = v) ms = Some m" "m \<in> set ms" "mig_version m = v"
    by (rule find_version)
  with assms(1) obtain db1 where 1: "applyMigration exec db m = (db1, True)"
    "set (versions_of db1) = set (versions_of db) \<union> ({v} \<inter> R)"
    unfolding scripts_record_def by metis
  from Cons obtain db2 where "apply_pending exec ms vs db1 = (db2, None)"
    "set (versions_of db2) = set (versions_of db1) \<union> (set vs \<inter> R)"
    by fastforce
  with m(1) 1 show ?case by auto
qed simp

lemma runMigrations_records:
  assumes "scripts_record exec R ms" "migrationStatus ms (versions_of db) = Inr st"
  obtains db' where "runMigrations exec ms True db = (db', migrationStatus ms (versions_of db'))"
    "set (versions_of db') = set (versions_of db) \<union> (mig_version ` set ms \<inter> R)"
    "set (versions_of db) \<subseteq> mig_version ` set ms"
proof -
  note p = migrationStatus_prefix [OF assms(2)]
  have all: "set (ms_applied st) \<union> set (ms_pending st) = mig_version ` set ms"
    by (metis p(1) set_append set_map)
  then have "set (ms_pending st) \<subseteq> mig_version ` set ms" by blast
  from apply_pending_records [OF assms(1) this, of db] obtain db'
    where 1: "apply_pending exec ms (ms_pending st) db = (db', None)"
      "set (versions_of db') = set (versions_of db) \<union> (set (ms_pending st) \<inter> R)" by auto
  have "set (versions_of db') = set (versions_of db) \<union> (mig_version ` set ms \<inter> R)"
    unfolding 1(2) all [symmetric] p(2) by blast
  moreover have "runMigrations exec ms True db = (db', migrationStatus ms (versions_of db'))"
    using 1(1) assms(2) by (simp add: runMigrations_def)
  moreover have "set (versions_of db) \<subseteq> mig_version ` set ms" using all p(2) by blast
  ultimately show ?thesis by (intro that)
qed


text \<open>
  A script interpreter for the witnesses: a script is the version it records, an empty one records none.
\<close>

definition recording_exec :: "unit script_exec" where
  "recording_exec sql db =
     Some (if sql = [] \<or> sql \<in> set (versions_of db) then db else db\<lparr>mig_rows := mig_rows db @ [(sql, 0)]\<rparr>)"

lemma recording_exec_records:
  assumes "\<forall>m \<in> set ms. mig_version m \<notin> set CONCURRENT_MIGRATIONS"
    and "\<forall>m \<in> set ms. mig_sql m = (if mig_version m \<in> R then mig_version m else [])"
    and "\<forall>m \<in> set ms. mig_version m \<noteq> []"
  shows "scripts_record recording_exec R ms"
  using assms
  by (fastforce simp: scripts_record_def applyMigration_def recording_exec_def versions_of_def)


section \<open>A migration that does not record itself\<close>

text \<open>
  C12: A migration whose script does not record its version, before one whose script does, ends every run
  in an error: the run that applies them fails with an out-of-order history after applying everything, and
  so does each later run on the database it leaves, with or without applying, without changing it.
\<close>

theorem unrecorded_migration_blocks:
  assumes "scripts_record exec R ms" "migrationStatus ms (versions_of db) = Inr st"
    and "ms = xs @ m # ys" "mig_version m \<notin> R" "mig_version m \<notin> set (versions_of db)"
    and "r \<in> set ys" "mig_version r \<in> R"
  shows "\<exists>db' v late. runMigrations exec ms True db = (db', Inl (Out_of_order v late)) \<and>
    set (versions_of db') = set (versions_of db) \<union> (mig_version ` set ms \<inter> R) \<and>
    (\<forall>do_apply. runMigrations exec ms do_apply db' = (db', Inl (Out_of_order v late)))"
proof -
  obtain db' where run: "runMigrations exec ms True db = (db', migrationStatus ms (versions_of db'))"
    and set': "set (versions_of db') = set (versions_of db) \<union> (mig_version ` set ms \<inter> R)"
    and known: "set (versions_of db) \<subseteq> mig_version ` set ms"
    using runMigrations_records [OF assms(1,2)] by metis
  have "\<exists>v late. migrationStatus ms (versions_of db') = Inl (Out_of_order v late)"
    using set' known assms(3-7) by (intro migrationStatus_gap [where m = m and r = r]) auto
  then obtain v late where st: "migrationStatus ms (versions_of db') = Inl (Out_of_order v late)" by blast
  then have "runMigrations exec ms do_apply db' = (db', Inl (Out_of_order v late))" for do_apply
    by (simp add: runMigrations_def)
  with run st set' show ?thesis by metis
qed

lemma unrecorded_migration_blocks_witness:
  "\<exists>db' v late. runMigrations recording_exec
      [\<lparr>mig_version = ''008_retry_queue'', mig_sql = []\<rparr>,
       \<lparr>mig_version = ''009_contract_storage_entries'', mig_sql = ''009_contract_storage_entries''\<rparr>]
      True \<lparr>mig_rows = [], mig_schema = ()\<rparr> = (db', Inl (Out_of_order v late))"
proof -
  let ?a = "\<lparr>mig_version = ''008_retry_queue'', mig_sql = []\<rparr>"
  let ?b = "\<lparr>mig_version = ''009_contract_storage_entries'', mig_sql = ''009_contract_storage_entries''\<rparr>"
  let ?db = "\<lparr>mig_rows = [], mig_schema = ()\<rparr>"
  have "scripts_record recording_exec {''009_contract_storage_entries''} [?a, ?b]"
    by (rule recording_exec_records) (simp_all add: CONCURRENT_MIGRATIONS_def)
  moreover have "migrationStatus [?a, ?b] (versions_of ?db) =
      Inr \<lparr>ms_applied = [], ms_pending = [''008_retry_queue'', ''009_contract_storage_entries'']\<rparr>"
    by (simp add: migrationStatus_def versions_of_def)
  moreover have "[?a, ?b] = [] @ ?a # [?b]" by (simp only: append_Nil)
  moreover have "mig_version ?a \<notin> {''009_contract_storage_entries''}" by simp
  moreover have "mig_version ?a \<notin> set (versions_of ?db)" by (simp add: versions_of_def)
  moreover have "?b \<in> set [?b]" by (simp only: list.set insert_iff simp_thms)
  moreover have "mig_version ?b \<in> {''009_contract_storage_entries''}" by simp
  ultimately show ?thesis by (rule exE [OF unrecorded_migration_blocks]) (elim exE conjE, intro exI)
qed

section \<open>Rollbacks\<close>

text \<open>Rolling back a version that is not the last one applied blocks the runner in the same way.\<close>

lemma rollback_before_the_last_blocks:
  assumes "migrationStatus ms (versions_of db) = Inr st" "ms = xs @ m # ys"
    and "r \<in> set ys" "mig_version r \<in> set (versions_of db)" "mig_version r \<noteq> mig_version m"
    and "rollbackMigration exec downs (mig_version m) db = (db', Inr ())"
    and "\<And>sql d d'. exec sql d = Some d' \<Longrightarrow>
      set (versions_of d) - {mig_version m} \<subseteq> set (versions_of d') \<and> set (versions_of d') \<subseteq> set (versions_of d)"
  shows "\<exists>v late. \<forall>do_apply. runMigrations exec ms do_apply db' = (db', Inl (Out_of_order v late))"
proof -
  from assms(6) obtain sql d where d: "exec sql db = Some d"
    "db' = d\<lparr>mig_rows := filter (\<lambda>r. fst r \<noteq> mig_version m) (mig_rows d)\<rparr>"
    by (auto simp: rollbackMigration_def split: if_splits option.splits)
  have s: "set (versions_of db') = set (versions_of d) - {mig_version m}"
    unfolding d(2) by (auto simp: versions_of_def image_iff)
  have "set (versions_of db) \<subseteq> mig_version ` set ms"
    using migrationStatus_prefix(1,2) [OF assms(1)] by (metis Un_upper1 set_append set_map)
  then have "\<exists>v late. migrationStatus ms (versions_of db') = Inl (Out_of_order v late)"
    using assms(2-5) s assms(7) [OF d(1)] by (intro migrationStatus_gap [where m = m and r = r]) auto
  then show ?thesis by (auto simp: runMigrations_def)
qed

text \<open>
  The last version goes back to pending, and the next run applies it again: when its scripts record and
  unrecord it, rolling it back and running returns to the head.
\<close>

lemma rollback_of_the_last_returns:
  assumes "scripts_record exec UNIV ms" "distinct (map mig_version ms)" "ms = xs @ [m]"
    and "set (versions_of db) = mig_version ` set ms"
    and "rollbackMigration exec downs (mig_version m) db = (db', Inr ())"
    and "\<And>sql d d'. exec sql d = Some d' \<Longrightarrow>
      set (versions_of d) - {mig_version m} \<subseteq> set (versions_of d') \<and> set (versions_of d') \<subseteq> set (versions_of d)"
  shows "migrationStatus ms (versions_of db') =
      Inr \<lparr>ms_applied = map mig_version xs, ms_pending = [mig_version m]\<rparr>"
    and "\<exists>d. runMigrations exec ms True db' = (d, Inr \<lparr>ms_applied = map mig_version ms, ms_pending = []\<rparr>)"
proof -
  from assms(5) obtain sql d where d: "exec sql db = Some d"
    "db' = d\<lparr>mig_rows := filter (\<lambda>r. fst r \<noteq> mig_version m) (mig_rows d)\<rparr>"
    by (auto simp: rollbackMigration_def split: if_splits option.splits)
  have "set (versions_of db') = set (versions_of d) - {mig_version m}"
    unfolding d(2) by (auto simp: versions_of_def image_iff)
  moreover have "mig_version m \<notin> mig_version ` set xs" using assms(2,3) by simp
  moreover have "set (versions_of db) = insert (mig_version m) (mig_version ` set xs)"
    using assms(3,4) by simp
  moreover have "set (versions_of d) - {mig_version m} = set (versions_of db) - {mig_version m}"
    using assms(6) [OF d(1)] by (intro equalityI subsetI) (drule conjunct1 conjunct2, fast)+
  ultimately have s: "set (versions_of db') = mig_version ` set xs" by simp
  let ?P = "\<lambda>m. mig_version m \<in> set (versions_of db')"
  have m: "\<not> ?P m" using s assms(2,3) by auto
  have xs: "\<forall>x \<in> set xs. ?P x" using s by auto
  then have "dropWhile ?P ms = [m]" "filter ?P ms = xs" "filter (\<lambda>m. \<not> ?P m) ms = [m]"
    unfolding assms(3) using m by (simp_all add: filter_id_conv dropWhile_append2)
  moreover have "filter (\<lambda>v. v \<notin> set (map mig_version ms)) (versions_of db') = []"
    using s assms(3) by (auto simp: filter_empty_conv)
  ultimately show st: "migrationStatus ms (versions_of db') =
      Inr \<lparr>ms_applied = map mig_version xs, ms_pending = [mig_version m]\<rparr>"
    unfolding migrationStatus_def Let_def by (simp only: list.case list.map if_False HOL.simp_thms filter.simps)
  obtain d' where "runMigrations exec ms True db' = (d', migrationStatus ms (versions_of d'))"
    "set (versions_of d') = mig_version ` set ms"
    using runMigrations_records [OF assms(1) st] s assms(3) by (metis inf_top.right_neutral sup.absorb2)
  then show "\<exists>d. runMigrations exec ms True db' = (d, Inr \<lparr>ms_applied = map mig_version ms, ms_pending = []\<rparr>)"
    by (auto simp: migrationStatus_all_applied)
qed

section \<open>Errors leave the database as it was\<close>

lemma failed_rollback_changes_nothing:
  "rollbackMigration exec downs v db = (db', Inl e) \<Longrightarrow> db' = db"
  by (auto simp: rollbackMigration_def split: if_splits option.splits)

lemma irreversible_is_never_rolled_back:
  "isMigrationIrreversible v \<Longrightarrow> rollbackMigration exec downs v db = (db, Inl (Irreversible v))"
  by (simp add: rollbackMigration_def)

lemma failed_transaction_changes_nothing:
  "mig_version m \<notin> set CONCURRENT_MIGRATIONS \<Longrightarrow> applyMigration exec db m = (db', False) \<Longrightarrow> db' = db"
  by (auto simp: applyMigration_def split: option.splits)

text \<open>Between the two holds of the lock another runner can apply a later migration.\<close>

lemma rollback_last_races:
  assumes "rollbackLastMigration exec downs between db = (db', Inr (Some v))"
  shows "last_applied db = Some v" "rollbackMigration exec downs v (between db) = (db', Inr ())"
  using assms by (auto simp: rollbackLastMigration_def split: option.splits prod.splits sum.splits)

section \<open>The texts of the scripts\<close>

text \<open>
  The schema is included as the replacement string of \<open>replace\<close>: each pair of dollar signs in it, the
  quotes of a function body in SQL, becomes a single one.
\<close>

lemma expand_dollars_plain:
  "CHR ''$'' \<notin> set a \<Longrightarrow> expand_dollars m before after (a @ CHR ''$'' # CHR ''$'' # b) =
    a @ CHR ''$'' # expand_dollars m before after b"
proof (induction a)
  case (Cons c a)
  then show ?case by (cases "a @ CHR ''$'' # CHR ''$'' # b") auto
qed simp

lemma expand_dollars_id: "CHR ''$'' \<notin> set a \<Longrightarrow> expand_dollars m before after a = a"
  by (induction m before after a rule: expand_dollars.induct) auto

lemma schema_include_halves_dollars:
  assumes "CHR ''$'' \<notin> set a" "CHR ''$'' \<notin> set body" "CHR ''$'' \<notin> set z"
  shows "replace_first include_line (a @ ''$$'' @ body @ ''$$'' @ z) (include_line @ rest) =
    a @ ''$'' @ body @ ''$'' @ z @ rest"
proof -
  have "replace_first include_line r (include_line @ rest) = expand_dollars include_line [] rest r @ rest" for r
    by (simp add: replace_first_def include_line_def)
  then show ?thesis using assms by (simp add: expand_dollars_plain expand_dollars_id)
qed

lemma split_sql_not_Nil [simp]: "split_sql s \<noteq> []"
  by (induction s rule: split_sql.induct) (auto split: option.splits list.splits)

lemma splitStatements_nonempty: "s \<in> set (splitStatements sql) \<Longrightarrow> s \<noteq> [] \<and> (\<exists>t. s = trim t)"
  by (auto simp: splitStatements_def)

text \<open>A comment behind a statement hides the end of it, and a statement at the very end needs no line.\<close>

lemma splitStatements_examples:
  "splitStatements (''-- a'' @ [CHR 10] @ ''x y;'' @ [CHR 10, CHR 10] @ ''z;'') = [''x y'', ''z'']"
  "splitStatements (''x; -- a'' @ [CHR 10] @ ''z;'') = [''x; -- a'' @ [CHR 10] @ ''z'']"
  by code_simp+

lemma migration_name_examples:
  "migration_name ''.sql'' ''008_retry_queue.sql''" "\<not> migration_name ''.sql'' ''008_retry_queue.down.sql''"
  "migration_name ''.down.sql'' ''008_retry_queue.down.sql''"
  by code_simp+

end
