(* ===== verification/Webhooks.thy ===== *)
theory Webhooks
  imports Js_Text
begin

text \<open>
  \<open>graphql-server/src/webhooks.ts\<close>: registered callbacks, their filters, the attempts of a delivery and
  what its outcome does to the registration; and \<open>graphql-server/src/freshness.ts\<close>: how far the indexed
  data is behind the chain.
\<close>

section \<open>Registrations\<close>

record webhook_filter =
  wf_eventTypes :: "string list option"
  wf_accounts :: "string list option"
  wf_assets :: "string list option"

text \<open>Dates are epoch milliseconds.\<close>

record webhook =
  wh_id :: string
  wh_url :: string
  wh_secret :: string
  wh_filter :: webhook_filter
  wh_active :: bool
  wh_createdAt :: int
  wh_lastDelivery :: "int option"
  wh_failureCount :: nat

definition MAX_RETRIES :: nat where
  "MAX_RETRIES = 5"

definition RETRY_BASE_MS :: nat where
  "RETRY_BASE_MS = 1000"

text \<open>The map of registrations in the order of insertion; \<open>newId\<close> is the fresh identifier.\<close>

definition registerWebhook :: "string \<Rightarrow> int \<Rightarrow> string \<Rightarrow> string \<Rightarrow> webhook_filter \<Rightarrow> webhook list \<Rightarrow>
    webhook \<times> webhook list" where
  "registerWebhook newId now url secret f regs =
     (let r = \<lparr>wh_id = newId, wh_url = url, wh_secret = secret, wh_filter = f, wh_active = True,
        wh_createdAt = now, wh_lastDelivery = None, wh_failureCount = 0\<rparr>
      in (r, regs @ [r]))"

definition unregisterWebhook :: "string \<Rightarrow> webhook list \<Rightarrow> bool \<times> webhook list" where
  "unregisterWebhook i regs =
     (list_ex (\<lambda>r. wh_id r = i) regs, filter (\<lambda>r. wh_id r \<noteq> i) regs)"

definition matchesFilter :: "webhook_filter \<Rightarrow> string \<Rightarrow> bool" where
  "matchesFilter f event_type =
     (case wf_eventTypes f of
        Some types \<Rightarrow> types = [] \<or> event_type \<in> set types
      | None \<Rightarrow> True)"

section \<open>A delivery\<close>

text \<open>
  \<open>answers\<close> are the outcomes of the requests in order, one for each attempt; the result is whether one was
  \<open>ok\<close>, how many were made and the pauses between them.
\<close>

fun attempts :: "nat \<Rightarrow> (nat \<Rightarrow> bool) \<Rightarrow> nat \<Rightarrow> bool \<times> nat \<times> nat list" where
  "attempts 0 answers attempt = (False, attempt, [])"
| "attempts (Suc left) answers attempt =
     (if answers attempt then (True, Suc attempt, [])
      else (let (ok, made, pauses) = attempts left answers (Suc attempt)
            in (ok, made, if attempt < MAX_RETRIES then RETRY_BASE_MS * 2 ^ attempt # pauses else pauses)))"

definition delivery_done :: "bool \<Rightarrow> int \<Rightarrow> webhook \<Rightarrow> webhook" where
  "delivery_done ok now r =
     (if ok then r\<lparr>wh_lastDelivery := Some now, wh_failureCount := 0\<rparr>
      else (let n = Suc (wh_failureCount r)
            in r\<lparr>wh_failureCount := n, wh_active := (if 3 \<le> n then False else wh_active r)\<rparr>))"

definition deliverToWebhook :: "(nat \<Rightarrow> bool) \<Rightarrow> int \<Rightarrow> webhook \<Rightarrow> webhook" where
  "deliverToWebhook answers now r = delivery_done (fst (attempts (Suc MAX_RETRIES) answers 0)) now r"

text \<open>
  The registrations an event goes to; the deliveries run at the same time and end in any order, each of
  them with one atomic \<open>delivery_done\<close> on the registration it was started for.
\<close>

definition webhook_targets :: "string \<Rightarrow> webhook list \<Rightarrow> webhook list" where
  "webhook_targets event_type regs = filter (\<lambda>r. wh_active r \<and> matchesFilter (wh_filter r) event_type) regs"

definition dispatchWebhookEvent :: "string \<Rightarrow> (string \<Rightarrow> nat \<Rightarrow> bool) \<Rightarrow> (string \<Rightarrow> int) \<Rightarrow> webhook list \<Rightarrow> webhook list" where
  "dispatchWebhookEvent event_type answers now regs =
     map (\<lambda>r. if r \<in> set (webhook_targets event_type regs) then deliverToWebhook (answers (wh_id r)) (now (wh_id r)) r
              else r) regs"

lemma attempts_spec:
  "attempts left answers a = (ok, made, pauses) \<Longrightarrow>
     (ok \<longleftrightarrow> (\<exists>k. a \<le> k \<and> k < a + left \<and> answers k)) \<and> made \<le> a + left \<and> length pauses \<le> left"
proof (induction left arbitrary: a ok made pauses)
  case (Suc left)
  show ?case
  proof (cases "answers a")
    case True
    with Suc.prems show ?thesis by auto
  next
    case False
    obtain ok' made' pauses' where r: "attempts left answers (Suc a) = (ok', made', pauses')"
      by (cases "attempts left answers (Suc a)")
    have "(\<exists>k\<ge>a. k < a + Suc left \<and> answers k) \<longleftrightarrow> (\<exists>k\<ge>Suc a. k < Suc a + left \<and> answers k)"
      using False by (metis Suc_leD add_Suc_right add_Suc le_antisym not_less_eq_eq)
    with Suc.IH [OF r] Suc.prems False r show ?thesis by (auto split: if_splits)
  qed
qed auto

text \<open>A delivery succeeds exactly when one of its six requests does; it pauses 31 seconds at most.\<close>

lemma delivery_makes_six_attempts:
  "fst (attempts (Suc MAX_RETRIES) answers 0) \<longleftrightarrow> (\<exists>k\<le>MAX_RETRIES. answers k)"
  using attempts_spec [of "Suc MAX_RETRIES" answers 0]
  by (cases "attempts (Suc MAX_RETRIES) answers 0") (auto simp: less_Suc_eq_le)

lemma attempts_pauses:
  "attempts left answers a = (ok, made, pauses) \<Longrightarrow> a + left = 6 \<Longrightarrow> sum_list pauses \<le> 1000 * (32 - 2 ^ a)"
proof (induction left arbitrary: a ok made pauses)
  case (Suc left)
  obtain ok' made' pauses' where r: "attempts left answers (Suc a) = (ok', made', pauses')"
    by (cases "attempts left answers (Suc a)")
  have rest: "sum_list pauses' \<le> 1000 * (32 - 2 ^ Suc a)" using Suc.IH [OF r] Suc.prems(2) by simp
  show ?case
  proof (cases "a < 5")
    case True
    then have "(2::nat) ^ Suc a \<le> 2 ^ 5" by (intro power_increasing) auto
    with Suc.prems(1) r rest True show ?thesis
      by (auto simp: MAX_RETRIES_def RETRY_BASE_MS_def split: if_splits)
  next
    case False
    with Suc.prems(2) have "a = 5" by simp
    with Suc.prems(1) r rest show ?thesis by (auto simp: MAX_RETRIES_def split: if_splits)
  qed
qed simp

lemma delivery_pauses: "sum_list (snd (snd (attempts (Suc MAX_RETRIES) answers 0))) \<le> 31000"
proof -
  obtain ok made pauses where r: "attempts (Suc MAX_RETRIES) answers 0 = (ok, made, pauses)"
    by (cases "attempts (Suc MAX_RETRIES) answers 0")
  have "sum_list pauses \<le> 1000 * (32 - 2 ^ 0)"
    by (rule attempts_pauses [OF r]) (simp add: MAX_RETRIES_def)
  with r show ?thesis by simp
qed

text \<open>A disabled webhook stays disabled: a later success of a delivery in flight resets only its count.\<close>

lemma disabled_stays_disabled: "\<not> wh_active r \<Longrightarrow> \<not> wh_active (delivery_done ok now r)"
  by (simp add: delivery_done_def Let_def)

lemma disabled_gets_nothing: "r \<in> set (webhook_targets t regs) \<Longrightarrow> wh_active r"
  by (simp add: webhook_targets_def)

lemma three_failures_disable:
  "\<not> wh_active (fold (\<lambda>now. delivery_done False now) [a, b, c] r)"
  by (simp add: delivery_done_def Let_def)

lemma active_needs_few_failures:
  assumes "wh_active r \<longrightarrow> wh_failureCount r < 3"
  shows "wh_active (delivery_done ok now r) \<longrightarrow> wh_failureCount (delivery_done ok now r) < 3"
  using assms by (simp add: delivery_done_def Let_def)

lemma filters_on_accounts_and_assets_are_ignored:
  "matchesFilter (f\<lparr>wf_accounts := a, wf_assets := b\<rparr>) t = matchesFilter f t"
  by (simp add: matchesFilter_def)

lemma registered_then_unregistered:
  "\<forall>r \<in> set regs. wh_id r \<noteq> i \<Longrightarrow> unregisterWebhook i (snd (registerWebhook i now url s f regs)) = (True, regs)"
  by (auto simp: unregisterWebhook_def registerWebhook_def Let_def filter_id_conv)

section \<open>Freshness\<close>

definition STALE_AFTER_LEDGERS :: int where
  "STALE_AFTER_LEDGERS = 20"

record indexer_status =
  is_latestIndexedLedger :: "int option"
  is_latestIndexedAt :: "string option"
  is_horizonLedger :: "int option"
  is_lagLedgers :: "int option"
  is_stale :: bool

text \<open>
  The ledgers of one network as pairs of a sequence and its \<open>indexed_at\<close>; \<open>None\<close> is a query that fails.
\<close>

definition getIndexedTip :: "(int \<times> string option) list \<Rightarrow> int option \<times> string option" where
  "getIndexedTip rows =
     (case rev (sort_key fst rows) of
        [] \<Rightarrow> (None, None)
      | (s, i) # _ \<Rightarrow> (Some s, i))"

definition readIndexedTip :: "(int \<times> string option) list option \<Rightarrow> int option \<times> string option" where
  "readIndexedTip rows = (case rows of Some rs \<Rightarrow> getIndexedTip rs | None \<Rightarrow> (None, None))"

text \<open>\<open>horizon\<close> is \<open>Inl\<close> an error or Horizon's latest ledger, when it has one.\<close>

definition getIndexerStatus :: "(int \<times> string option) list option \<Rightarrow> string + int option \<Rightarrow> int option \<Rightarrow> indexer_status" where
  "getIndexerStatus rows horizon staleAfterLedgers =
     (let staleAfter = (case staleAfterLedgers of Some n \<Rightarrow> n | None \<Rightarrow> STALE_AFTER_LEDGERS);
          (tip, indexedAt) = readIndexedTip rows;
          horizonLedger = (case horizon of Inr s \<Rightarrow> s | Inl _ \<Rightarrow> None);
          lag = (case (horizonLedger, tip) of (Some h, Some t) \<Rightarrow> Some (h - t) | _ \<Rightarrow> None)
      in \<lparr>is_latestIndexedLedger = tip, is_latestIndexedAt = indexedAt, is_horizonLedger = horizonLedger,
          is_lagLedgers = lag, is_stale = (lag = None \<or> tip = None \<or> staleAfter < the lag)\<rparr>)"

lemma getIndexedTip_max:
  "fst (getIndexedTip rows) = (if rows = [] then None else Some (Max (fst ` set rows)))"
proof (cases "rev (sort_key fst rows)")
  case Nil
  then have "sort_key fst rows = []" by simp
  then have "rows = []" by (metis length_0_conv length_sort)
  then show ?thesis by (simp add: getIndexedTip_def)
next
  case (Cons r rs)
  then have l: "sort_key fst rows = rev rs @ [r]" by (simp add: rev_eq_append_conv rev_swap)
  have "sorted (map fst (rev rs @ [r]))" by (metis l sorted_sort_key)
  then have "\<forall>x \<in> set rs. fst x \<le> fst r" by (auto simp: sorted_append)
  moreover have s: "set rows = insert r (set rs)" by (metis l Un_insert_right list.simps(15) set_append set_rev set_sort sup_bot.right_neutral list.set(1))
  ultimately have "Max (fst ` set rows) = fst r" by (intro Max_eqI) auto
  moreover have "rows \<noteq> []" using s by auto
  ultimately show ?thesis using Cons by (simp add: getIndexedTip_def split: prod.splits)
qed

text \<open>Data is called current only when both ends are known and no more than the threshold apart.\<close>

lemma current_means_close:
  "\<not> is_stale (getIndexerStatus (Some rows) horizon after) \<longleftrightarrow>
     rows \<noteq> [] \<and> (\<exists>h. horizon = Inr (Some h) \<and>
       h - Max (fst ` set rows) \<le> (case after of Some n \<Rightarrow> n | None \<Rightarrow> STALE_AFTER_LEDGERS))"
  using getIndexedTip_max [of rows]
  by (cases "getIndexedTip rows"; cases horizon)
    (auto simp: getIndexerStatus_def readIndexedTip_def Let_def split: option.splits if_splits)

lemma unknown_is_stale:
  "is_stale (getIndexerStatus None horizon after)" "is_stale (getIndexerStatus rows (Inl e) after)"
  by (auto simp: getIndexerStatus_def readIndexedTip_def Let_def split: option.splits prod.splits sum.splits)

end
